(* ===== verification/DS_Prelude.thy ===== *)
theory DS_Prelude
  imports Main "HOL-Library.Word" "HOL-Library.Char_ord" "HOL-Library.List_Lexorder"
    "HOL-Library.Product_Lexorder"
begin

text \<open>
  Shared vocabulary of the development: the Rust integer types and the
  arithmetic of the standard library the server uses on them, the string
  operations of \<open>str\<close>, \<open>slice::partition_point\<close>, and the generic list and
  word lemmas that the component theories rely on.

  Conventions. \<open>u64\<close> and \<open>u32\<close> are machine words, so \<open>+\<close> wraps as it does in a
  release build of the crate (no profile enables overflow checks). \<open>usize\<close>
  lengths are \<open>nat\<close>. A Rust \<open>&str\<close>, \<open>String\<close> and \<open>Bytes\<close> is a list of bytes,
  and an Isabelle \<open>char\<close> is such a byte. Operations on text (\<open>trim\<close>,
  \<open>to_lowercase\<close>) are those on ASCII text, which is all that
  \<open>HeaderValue::to_str\<close> lets through. Fallible code returns a sum whose \<open>Inl\<close>
  is the error, so that \<open>?\<close> is a \<open>case\<close> that propagates \<open>Inl\<close>.
\<close>

unbundle bit_operations_syntax

type_synonym u64 = "64 word"
type_synonym u32 = "32 word"
type_synonym bytes = "char list"

named_theorems word_facts \<open>unat of the word operations of the model\<close>
named_theorems access_simps \<open>record projections of the updated state\<close>

section \<open>Machine integers\<close>

text \<open>\<open>u64::checked_add\<close>, \<open>u64::saturating_sub\<close> and \<open>u64::try_from(usize).unwrap_or(u64::MAX)\<close>.\<close>

definition checked_add :: "u64 \<Rightarrow> u64 \<Rightarrow> u64 option" where
  "checked_add a b = (if unat a + unat b < 2 ^ 64 then Some (a + b) else None)"

definition saturating_sub :: "'w::len word \<Rightarrow> 'w word \<Rightarrow> 'w word" where
  "saturating_sub a b = (if a < b then 0 else a - b)"

definition u64_of_usize :: "nat \<Rightarrow> u64" where
  "u64_of_usize n = (if n < 2 ^ 64 then of_nat n else - 1)"

text \<open>\<open>i64::try_from(u64)\<close>, as the integer it denotes.\<close>

definition i64_try_from :: "u64 \<Rightarrow> int option" where
  "i64_try_from n = (if unat n < 2 ^ 63 then Some (int (unat n)) else None)"

lemma unat_add_le: "unat a + unat b < 2 ^ LENGTH('w) \<Longrightarrow> unat (a + b) = unat a + unat (b :: 'w::len word)"
  by (simp add: unat_word_ariths)

lemma checked_add_Some [word_facts]:
  "checked_add a b = Some c \<Longrightarrow> unat c = unat a + unat b"
  by (auto simp: checked_add_def unat_word_ariths split: if_splits)

lemma unat_saturating_sub [word_facts]: "unat (saturating_sub a b) = unat a - unat b"
  by (auto simp: saturating_sub_def word_less_nat_alt unat_sub_if')

lemma unat_u64_of_usize [word_facts]: "n < 2 ^ 64 \<Longrightarrow> unat (u64_of_usize n) = n"
  by (simp add: u64_of_usize_def unat_of_nat)

lemma unat_less_u64 [simp]: "unat (x :: u64) < 2 ^ 64"
  using unsigned_less [of x] by simp

lemma unat_less_u64_numeral [simp]: "unat (x :: u64) < 18446744073709551616"
  using unsigned_less [of x] by simp

text \<open>Code equations without unary numbers of the size of a machine word.\<close>

lemma checked_add_code [code]: "checked_add a b = (if a + b < a then None else Some (a + b))"
proof (cases "unat a + unat b < 2 ^ 64")
  case True
  then show ?thesis by (simp add: checked_add_def word_less_nat_alt unat_word_ariths)
next
  case False
  have "unat a + unat b - 2 ^ 64 < 2 ^ 64" using unat_less_u64 [of a] unat_less_u64 [of b] by linarith
  then have "(unat a + unat b) mod 2 ^ 64 = unat a + unat b - 2 ^ 64"
    using False by (metis le_mod_geq mod_less not_le)
  then have "unat (a + b) = unat a + unat b - 2 ^ 64" by (simp add: unat_word_ariths)
  then have "unat (a + b) < unat a" using unat_less_u64 [of b] False by linarith
  with False show ?thesis by (simp add: checked_add_def word_less_nat_alt)
qed

lemma u64_of_usize_code [code]:
  "u64_of_usize n = (if int n < 18446744073709551616 then word_of_int (int n) else - 1)"
  by (auto simp: u64_of_usize_def)

lemma i64_try_from_code [code]:
  "i64_try_from n = (if uint n < 9223372036854775808 then Some (uint n) else None)"
proof -
  have "unat n < 2 ^ 63 \<longleftrightarrow> int (unat n) < 9223372036854775808" by (simp only: of_nat_less_numeral_iff) simp
  then show ?thesis by (simp add: i64_try_from_def)
qed

lemma unat_Suc64: "unat (x :: u64) + n < 2 ^ 64 \<Longrightarrow> 0 < n \<Longrightarrow> unat (x + 1) = Suc (unat x)"
  by (simp add: unat_word_ariths)

text \<open>The wrapping sum of the lengths is the real sum when that fits in 64 bits.\<close>

lemma unat_sum_list_u64:
  "sum_list (map unat xs) < 2 ^ 64 \<Longrightarrow> unat (sum_list (xs :: u64 list)) = sum_list (map unat xs)"
  by (induction xs) (auto simp: unat_word_ariths)

section \<open>Slices\<close>

text \<open>
  \<open>slice::partition_point\<close>: the index of the first element that fails the
  predicate. Every call of the source is on a slice ordered by offset, where
  the binary search and this linear search agree.
\<close>

definition partition_point :: "('a \<Rightarrow> bool) \<Rightarrow> 'a list \<Rightarrow> nat" where
  "partition_point P xs = length (takeWhile P xs)"

lemma partition_point_le [simp]: "partition_point P xs \<le> length xs"
  by (simp add: partition_point_def length_takeWhile_le)

text \<open>On a slice that the predicate partitions, the two halves are the two filters.\<close>

lemma partitioned_filter:
  assumes "sorted_wrt (\<lambda>a b. P b \<longrightarrow> P a) xs"
  shows "take (partition_point P xs) xs = filter P xs"
    and "drop (partition_point P xs) xs = filter (\<lambda>x. \<not> P x) xs"
proof -
  have "takeWhile P xs = filter P xs \<and> dropWhile P xs = filter (\<lambda>x. \<not> P x) xs"
    using assms by (induction xs) (auto simp: filter_empty_conv filter_id_conv)
  then show "take (partition_point P xs) xs = filter P xs"
    and "drop (partition_point P xs) xs = filter (\<lambda>x. \<not> P x) xs"
    by (metis partition_point_def takeWhile_eq_take, metis partition_point_def dropWhile_eq_drop)
qed

text \<open>\<open>slice[a..b]\<close>.\<close>

definition slice :: "nat \<Rightarrow> nat \<Rightarrow> 'a list \<Rightarrow> 'a list" where
  "slice a b xs = drop a (take b xs)"

lemma slice_filter:
  assumes P: "sorted_wrt (\<lambda>a b. P b \<longrightarrow> P a) xs" and Q: "sorted_wrt (\<lambda>a b. Q b \<longrightarrow> Q a) xs"
  shows "slice (partition_point P xs) (max (partition_point Q xs) (partition_point P xs)) xs
    = filter (\<lambda>x. \<not> P x \<and> Q x) xs"
proof -
  let ?a = "partition_point P xs" and ?b = "partition_point Q xs"
  have "slice ?a (max ?b ?a) xs = drop ?a (take ?b xs)"
    by (simp add: slice_def max_def)
  also have "\<dots> = drop ?a (filter Q xs)"
    using partitioned_filter(1) [OF Q] by simp
  also have "\<dots> = filter (\<lambda>x. \<not> P x \<and> Q x) xs"
    using P Q
  proof (induction xs)
    case (Cons x xs)
    show ?case
    proof (cases "P x")
      case True
      with Cons show ?thesis by (auto simp: partition_point_def)
    next
      case False
      with Cons.prems have "\<forall>y\<in>set xs. \<not> P y" by auto
      with False show ?thesis
        by (auto simp: partition_point_def intro!: filter_cong)
    qed
  qed (simp add: partition_point_def)
  finally show ?thesis .
qed

section \<open>Strings\<close>

definition is_ascii_digit :: "char \<Rightarrow> bool" where
  "is_ascii_digit c \<longleftrightarrow> of_char c \<in> {48..57 :: nat}"

definition is_ascii_uppercase :: "char \<Rightarrow> bool" where
  "is_ascii_uppercase c \<longleftrightarrow> of_char c \<in> {65..90 :: nat}"

definition to_ascii_lower :: "char \<Rightarrow> char" where
  "to_ascii_lower c = (if is_ascii_uppercase c then char_of (of_char c + 32 :: nat) else c)"

text \<open>\<open>str::to_lowercase\<close> on ASCII, \<open>str::eq_ignore_ascii_case\<close>, \<open>str::trim\<close>.\<close>

definition to_lowercase :: "string \<Rightarrow> string" where
  "to_lowercase s = map to_ascii_lower s"

definition eq_ignore_ascii_case :: "string \<Rightarrow> string \<Rightarrow> bool" where
  "eq_ignore_ascii_case a b \<longleftrightarrow> map to_ascii_lower a = map to_ascii_lower b"

definition is_whitespace :: "char \<Rightarrow> bool" where
  "is_whitespace c \<longleftrightarrow> of_char c \<in> {9..13 :: nat} \<or> c = CHR '' ''"

definition trim :: "string \<Rightarrow> string" where
  "trim s = rev (dropWhile is_whitespace (rev (dropWhile is_whitespace s)))"

text \<open>\<open>str::split(c)\<close>: always at least one piece.\<close>

fun split_on :: "char \<Rightarrow> string \<Rightarrow> string list" where
  "split_on c [] = [[]]"
| "split_on c (x # xs) =
     (if x = c then [] # split_on c xs
      else (case split_on c xs of [] \<Rightarrow> [[x]] | p # ps \<Rightarrow> (x # p) # ps))"

text \<open>\<open>str::strip_prefix\<close>.\<close>

fun strip_prefix :: "string \<Rightarrow> string \<Rightarrow> string option" where
  "strip_prefix [] s = Some s"
| "strip_prefix (p # ps) [] = None"
| "strip_prefix (p # ps) (x # xs) = (if p = x then strip_prefix ps xs else None)"

text \<open>\<open>str::parse::<u64>\<close>: an optional \<open>+\<close>, then at least one digit, within range.\<close>

datatype parse_int_error = Empty | InvalidDigit | PosOverflow

fun parse_int_error_display :: "parse_int_error \<Rightarrow> string" where
  "parse_int_error_display Empty = ''cannot parse integer from empty string''"
| "parse_int_error_display InvalidDigit = ''invalid digit found in string''"
| "parse_int_error_display PosOverflow = ''number too large to fit in target type''"

fun parse_digits :: "nat \<Rightarrow> string \<Rightarrow> parse_int_error + nat" where
  "parse_digits acc [] = Inr acc"
| "parse_digits acc (c # cs) =
     (if \<not> is_ascii_digit c then Inl InvalidDigit
      else let n = 10 * acc + (of_char c - 48) in
        if n < 2 ^ 64 then parse_digits n cs else Inl PosOverflow)"

lemma parse_digits_code [code]:
  "parse_digits acc [] = Inr acc"
  "parse_digits acc (c # cs) =
     (if \<not> is_ascii_digit c then Inl InvalidDigit
      else let n = 10 * acc + (of_char c - 48) in
        if int n < 18446744073709551616 then parse_digits n cs else Inl PosOverflow)"
  by (simp_all add: Let_def)

definition parse_u64 :: "string \<Rightarrow> parse_int_error + u64" where
  "parse_u64 s =
     (if s = [] then Inl Empty
      else let ds = (if hd s = CHR ''+'' then tl s else s) in
        if ds = [] then Inl InvalidDigit
        else map_sum id of_nat (parse_digits 0 ds))"

text \<open>\<open>u64::to_string\<close>: decimal digits, most significant first.\<close>

fun nat_to_string :: "nat \<Rightarrow> string" where
  "nat_to_string n =
     (if n < 10 then [char_of (48 + n)] else nat_to_string (n div 10) @ [char_of (48 + n mod 10)])"

declare nat_to_string.simps [simp del]

definition u64_to_string :: "u64 \<Rightarrow> string" where
  "u64_to_string n = nat_to_string (unat n)"

lemma split_on_nonempty [simp]: "split_on c s \<noteq> []"
  by (induction s) (auto split: list.splits)

lemma split_on_not_in: "p \<in> set (split_on c s) \<Longrightarrow> c \<notin> set p"
  by (induction s arbitrary: p) (auto split: if_splits list.splits)

lemma split_on_trailing: "s \<noteq> [] \<Longrightarrow> last s = c \<Longrightarrow> last (split_on c s) = [] \<and> 2 \<le> length (split_on c s)"
proof (induction s)
  case (Cons x xs)
  then show ?case by (cases "xs = []") (auto split: list.splits)
qed simp

lemma to_ascii_lower_idem [simp]: "to_ascii_lower (to_ascii_lower c) = to_ascii_lower c"
  by (auto simp: to_ascii_lower_def is_ascii_uppercase_def of_char_of)

lemma strip_prefix_Some: "strip_prefix p s = Some r \<longleftrightarrow> s = p @ r"
  by (induction p s rule: strip_prefix.induct) auto

lemma parse_digits_append:
  "parse_digits acc (xs @ ys) =
     (case parse_digits acc xs of Inl e \<Rightarrow> Inl e | Inr n \<Rightarrow> parse_digits n ys)"
  by (induction acc xs rule: parse_digits.induct) (auto simp: Let_def)

lemma digit_char: "d < 10 \<Longrightarrow> is_ascii_digit (char_of (48 + d :: nat)) \<and> of_char (char_of (48 + d :: nat)) = 48 + d"
  by (simp add: is_ascii_digit_def of_char_of)

lemma parse_digits_nat_to_string:
  "n < 2 ^ 64 \<Longrightarrow> parse_digits 0 (nat_to_string n) = Inr n"
proof (induction n rule: nat_to_string.induct)
  case (1 n)
  show ?case
  proof (cases "n < 10")
    case True
    then show ?thesis using digit_char [of n] by (simp add: nat_to_string.simps)
  next
    case False
    with "1" have IH: "parse_digits 0 (nat_to_string (n div 10)) = Inr (n div 10)" by simp
    have eq: "10 * (n div 10) + n mod 10 = n" by simp
    from False have "nat_to_string n = nat_to_string (n div 10) @ [char_of (48 + n mod 10)]"
      by (simp add: nat_to_string.simps [of n])
    with IH "1.prems" show ?thesis
      using digit_char [of "n mod 10"] by (simp add: parse_digits_append eq Let_def)
  qed
qed

lemma nat_to_string_digits: "c \<in> set (nat_to_string n) \<Longrightarrow> is_ascii_digit c"
proof (induction n rule: nat_to_string.induct)
  case (1 n)
  then show ?case
    using digit_char [of n] digit_char [of "n mod 10"]
    by (cases "n < 10") (auto simp: nat_to_string.simps [of n])
qed

lemma nat_to_string_nonempty [simp]: "nat_to_string n \<noteq> []"
  by (simp add: nat_to_string.simps [of n])

lemma parse_u64_to_string [simp]: "parse_u64 (u64_to_string n) = Inr n"
proof -
  let ?s = "nat_to_string (unat n)"
  have "is_ascii_digit (hd ?s)" by (rule nat_to_string_digits [OF hd_in_set]) simp
  then have "hd ?s \<noteq> CHR ''+''" by (auto simp: is_ascii_digit_def)
  then show ?thesis
    by (simp add: parse_u64_def u64_to_string_def parse_digits_nat_to_string)
qed

section \<open>Textual encodings\<close>

text \<open>
  What the protocol relies on in every textual form it prints and parses back:
  a printed value is read as itself; in a canonical encoding, moreover, the
  parser accepts nothing but printed values.
\<close>

locale text_codec =
  fixes valid :: "'a \<Rightarrow> bool"
    and print :: "'a \<Rightarrow> string"
    and parse :: "string \<Rightarrow> 'e + 'a"
  assumes parse_print: "valid x \<Longrightarrow> parse (print x) = Inr x"
begin

lemma print_inject: "valid x \<Longrightarrow> valid y \<Longrightarrow> print x = print y \<longleftrightarrow> x = y"
  by (metis parse_print sum.inject(2))

end

locale canonical_codec = text_codec +
  assumes parse_sound: "parse s = Inr x \<Longrightarrow> valid x \<and> print x = s"
begin

lemma parse_iff: "parse s = Inr x \<longleftrightarrow> valid x \<and> s = print x"
  using parse_print parse_sound by blast

lemma parse_unique: "parse s = Inr x \<Longrightarrow> parse t = Inr x \<Longrightarrow> s = t"
  by (simp add: parse_iff)

end

interpretation u64_codec: text_codec "\<lambda>_. True" u64_to_string parse_u64
  by unfold_locales simp

text \<open>Canonical decimal numerals: no sign and no leading zero.\<close>

lemma nat_to_string_snoc:
  "acc > 0 \<Longrightarrow> d < 10 \<Longrightarrow> nat_to_string (10 * acc + d) = nat_to_string acc @ [char_of (48 + d)]"
  by (simp add: nat_to_string.simps [of "10 * acc + d"])

lemma digit_char_inverse: "is_ascii_digit c \<Longrightarrow> of_char c - 48 < (10 :: nat) \<and> char_of (48 + (of_char c - 48 :: nat)) = c"
  by (auto simp: is_ascii_digit_def)

lemma parse_digits_canonical:
  "parse_digits acc cs = Inr n \<Longrightarrow> acc > 0 \<Longrightarrow> nat_to_string n = nat_to_string acc @ cs \<and> (acc < 2 ^ 64 \<longrightarrow> n < 2 ^ 64)"
proof (induction acc cs arbitrary: n rule: parse_digits.induct)
  case (2 acc c cs)
  let ?d = "of_char c - 48 :: nat" and ?n = "10 * acc + (of_char c - 48) :: nat"
  have c: "is_ascii_digit c" "?n < 2 ^ 64" "parse_digits ?n cs = Inr n"
    using "2.prems"(1) by (auto simp: Let_def split: if_splits)
  note dc = digit_char_inverse [OF c(1)]
  have "nat_to_string n = nat_to_string ?n @ cs \<and> (?n < 2 ^ 64 \<longrightarrow> n < 2 ^ 64)"
    using "2.IH" c "2.prems"(2) by simp
  moreover have "nat_to_string ?n = nat_to_string acc @ [c]"
    using nat_to_string_snoc [OF "2.prems"(2), of ?d] dc by simp
  ultimately show ?case using c(2) by simp
qed simp

lemma parse_u64_canonical:
  assumes "parse_u64 s = Inr n" "s \<noteq> []" "hd s \<noteq> CHR ''+''" "length s = 1 \<or> hd s \<noteq> CHR ''0''"
  shows "s = u64_to_string n"
proof -
  obtain k where k: "parse_digits 0 s = Inr k" "n = of_nat k"
    using assms(1-3) by (cases "parse_digits 0 s") (auto simp: parse_u64_def Let_def)
  obtain c cs where s: "s = c # cs" using assms(2) by (cases s) auto
  let ?d = "of_char c - 48 :: nat"
  have c: "is_ascii_digit c" "parse_digits ?d cs = Inr k" using k(1) s by (auto split: if_splits simp: Let_def)
  note dc = digit_char_inverse [OF c(1)]
  have ns: "nat_to_string ?d = [c]" using dc by (simp add: nat_to_string.simps [of ?d])
  have "s = nat_to_string k \<and> k < 2 ^ 64"
  proof (cases "?d = 0")
    case True
    then have "c = char_of (48 :: nat)" using dc by simp
    then have "c = CHR ''0''" by (simp add: char_of_def bit_0)
    with assms(4) s have "cs = []" by simp
    with True c(2) s ns show ?thesis by simp
  next
    case False
    then have "nat_to_string k = [c] @ cs \<and> (?d < 2 ^ 64 \<longrightarrow> k < 2 ^ 64)"
      using parse_digits_canonical [OF c(2)] ns by simp
    moreover have "?d < 2 ^ 64" using dc by simp
    ultimately show ?thesis using s by simp
  qed
  then show ?thesis using k(2) by (simp add: u64_to_string_def unat_of_nat)
qed

end
