(* ===== verification/DS_Error.thy ===== *)
theory DS_Error
  imports DS_Prelude
begin

text \<open>
  The domain errors of \<open>protocol/error.rs\<close> and their exhaustive mapping to the
  HTTP problem response (status, type, title, code, public detail).
\<close>

section \<open>Errors\<close>

datatype storage_failure_class = ClassUnavailable | ClassInsufficientStorage

record storage_failure =
  sf_class :: storage_failure_class
  sf_backend :: string
  sf_operation :: string
  sf_detail :: string
  sf_retry_after_secs :: "nat option"

datatype error =
    NotFound string
  | ConfigMismatch
  | InvalidOffset string
  | ReplacementHasForks
  | ContentTypeMismatch (expected: string) (actual: string)
  | StreamClosed
  | SequenceGap (gap_expected: u64) (gap_actual: u64)
  | EpochFenced (current: u64) (received: u64)
  | InvalidProducerState string
  | MemoryLimitExceeded
  | StreamSizeLimitExceeded
  | InvalidTtl string
  | ConflictingExpiration
  | StreamExpired
  | InvalidJson string
  | EmptyBody
  | EmptyArray
  | InvalidHeader (header: string) (reason: string)
  | InvalidStreamName string
  | SeqOrderingViolation (seq_last: string) (seq_received: string)
  | Unavailable storage_failure
  | InsufficientStorage storage_failure
  | StreamGone string
  | StreamPathBlocked string
  | ForkOffsetBeyondTail
  | ForkFromTombstone string
  | Storage string

type_synonym 'a res = "error + 'a"

text \<open>\<open>impl Display for StorageFailure\<close> and the \<open>#[error(..)]\<close> texts of \<open>thiserror\<close>.\<close>

definition storage_failure_display :: "storage_failure \<Rightarrow> string" where
  "storage_failure_display f = sf_backend f @ '' '' @ sf_operation f @ '': '' @ sf_detail f"

fun error_display :: "error \<Rightarrow> string" where
  "error_display (NotFound n) = ''Stream not found: '' @ n"
| "error_display ConfigMismatch = ''Stream already exists with different configuration''"
| "error_display (InvalidOffset s) = ''Invalid offset format: '' @ s"
| "error_display ReplacementHasForks = ''cannot replace a fork or a stream retained by forks''"
| "error_display (ContentTypeMismatch e a) =
     ''Content type mismatch: expected '' @ e @ '', got '' @ a"
| "error_display StreamClosed = ''Stream is closed''"
| "error_display (SequenceGap e a) =
     ''Producer sequence gap: expected '' @ u64_to_string e @ '', got '' @ u64_to_string a"
| "error_display (EpochFenced c r) =
     ''Producer epoch fenced: current '' @ u64_to_string c @ '', received '' @ u64_to_string r"
| "error_display (InvalidProducerState s) = ''Invalid producer state: '' @ s"
| "error_display MemoryLimitExceeded = ''Memory limit exceeded''"
| "error_display StreamSizeLimitExceeded = ''Stream size limit exceeded''"
| "error_display (InvalidTtl s) = ''Invalid TTL format: '' @ s"
| "error_display ConflictingExpiration = ''Cannot specify both TTL and Expires-At''"
| "error_display StreamExpired = ''Stream has expired''"
| "error_display (InvalidJson s) = ''Invalid JSON: '' @ s"
| "error_display EmptyBody = ''Empty request body requires Stream-Closed: true''"
| "error_display EmptyArray = ''Empty JSON arrays are not permitted for append''"
| "error_display (InvalidHeader h r) = ''Invalid header value for '' @ h @ '': '' @ r"
| "error_display (InvalidStreamName s) = ''Invalid stream name: '' @ s"
| "error_display (SeqOrderingViolation l r) =
     ''Stream-Seq ordering violation: last='' @ l @ '', received='' @ r"
| "error_display (Unavailable f) = ''Storage temporarily unavailable: '' @ storage_failure_display f"
| "error_display (InsufficientStorage f) = ''Storage capacity exhausted: '' @ storage_failure_display f"
| "error_display (StreamGone n) = ''Stream is gone: '' @ n"
| "error_display (StreamPathBlocked n) = ''Stream path is reserved by a soft-deleted lineage: '' @ n"
| "error_display ForkOffsetBeyondTail = ''Fork offset is beyond the source stream'' @ [CHR 0x27] @ ''s tail''"
| "error_display (ForkFromTombstone n) = ''Cannot fork from deleted stream: '' @ n"
| "error_display (Storage s) = ''Storage error: '' @ s"

section \<open>Problem responses\<close>

record problem_definition =
  pd_status :: nat
  pd_type_uri :: string
  pd_title :: string
  pd_code :: string
  pd_detail :: "string option"

definition problem_definition_new ::
  "nat \<Rightarrow> string \<Rightarrow> string \<Rightarrow> string \<Rightarrow> problem_definition" where
  "problem_definition_new status uri title code =
     \<lparr>pd_status = status, pd_type_uri = uri, pd_title = title, pd_code = code, pd_detail = None\<rparr>"

definition with_detail :: "string \<Rightarrow> problem_definition \<Rightarrow> problem_definition" where
  "with_detail d p = p\<lparr>pd_detail := Some d\<rparr>"

fun error_problem :: "error \<Rightarrow> problem_definition" where
  "error_problem (NotFound _) =
     problem_definition_new 404 ''/errors/not-found'' ''Stream Not Found'' ''NOT_FOUND''"
| "error_problem StreamExpired =
     problem_definition_new 404 ''/errors/not-found'' ''Stream Not Found'' ''NOT_FOUND''"
| "error_problem ConfigMismatch =
     problem_definition_new 409 ''/errors/already-exists'' ''Stream Already Exists'' ''ALREADY_EXISTS''"
| "error_problem ReplacementHasForks =
     problem_definition_new 409 ''/errors/replacement-has-forks'' ''Replacement Has Forks''
       ''REPLACEMENT_HAS_FORKS''"
| "error_problem (ContentTypeMismatch _ _) =
     problem_definition_new 409 ''/errors/content-type-mismatch'' ''Content Type Mismatch''
       ''CONTENT_TYPE_MISMATCH''"
| "error_problem StreamClosed =
     problem_definition_new 409 ''/errors/stream-closed'' ''Stream Closed'' ''STREAM_CLOSED''"
| "error_problem (SequenceGap _ _) =
     problem_definition_new 409 ''/errors/sequence-conflict'' ''Sequence Conflict'' ''SEQUENCE_CONFLICT''"
| "error_problem (SeqOrderingViolation _ _) =
     problem_definition_new 409 ''/errors/sequence-conflict'' ''Sequence Conflict'' ''SEQUENCE_CONFLICT''"
| "error_problem (ForkFromTombstone _) =
     problem_definition_new 409 ''/errors/fork-from-tombstone'' ''Fork From Deleted Stream''
       ''FORK_FROM_TOMBSTONE''"
| "error_problem (StreamPathBlocked _) =
     problem_definition_new 409 ''/errors/path-blocked'' ''Stream Path Blocked'' ''PATH_BLOCKED''"
| "error_problem (InvalidOffset _) =
     problem_definition_new 400 ''/errors/invalid-offset'' ''Invalid Offset'' ''INVALID_OFFSET''"
| "error_problem (InvalidStreamName _) =
     problem_definition_new 400 ''/errors/invalid-stream-name'' ''Invalid Stream Name''
       ''INVALID_STREAM_NAME''"
| "error_problem (InvalidJson _) =
     problem_definition_new 400 ''/errors/invalid-json'' ''Invalid JSON'' ''INVALID_JSON''"
| "error_problem EmptyBody =
     problem_definition_new 400 ''/errors/empty-body'' ''Empty Body'' ''EMPTY_BODY''"
| "error_problem EmptyArray =
     problem_definition_new 400 ''/errors/empty-array'' ''Empty Array'' ''EMPTY_ARRAY''"
| "error_problem (EpochFenced _ _) =
     problem_definition_new 403 ''/errors/producer-epoch-fenced'' ''Producer Epoch Fenced''
       ''PRODUCER_EPOCH_FENCED''"
| "error_problem ForkOffsetBeyondTail =
     problem_definition_new 400 ''/errors/bad-request'' ''Bad Request'' ''BAD_REQUEST''"
| "error_problem (InvalidProducerState _) =
     problem_definition_new 400 ''/errors/bad-request'' ''Bad Request'' ''BAD_REQUEST''"
| "error_problem (InvalidTtl _) =
     problem_definition_new 400 ''/errors/bad-request'' ''Bad Request'' ''BAD_REQUEST''"
| "error_problem ConflictingExpiration =
     problem_definition_new 400 ''/errors/bad-request'' ''Bad Request'' ''BAD_REQUEST''"
| "error_problem (InvalidHeader _ _) =
     problem_definition_new 400 ''/errors/bad-request'' ''Bad Request'' ''BAD_REQUEST''"
| "error_problem MemoryLimitExceeded =
     problem_definition_new 413 ''/errors/payload-too-large'' ''Payload Too Large'' ''PAYLOAD_TOO_LARGE''"
| "error_problem StreamSizeLimitExceeded =
     problem_definition_new 413 ''/errors/payload-too-large'' ''Payload Too Large'' ''PAYLOAD_TOO_LARGE''"
| "error_problem (Unavailable _) =
     with_detail ''The server is temporarily unable to complete the request.''
       (problem_definition_new 503 ''/errors/unavailable'' ''Service Unavailable'' ''UNAVAILABLE'')"
| "error_problem (InsufficientStorage _) =
     with_detail ''The server does not have enough storage capacity to complete the request.''
       (problem_definition_new 507 ''/errors/insufficient-storage'' ''Insufficient Storage''
          ''INSUFFICIENT_STORAGE'')"
| "error_problem (Storage _) =
     with_detail ''The server encountered an internal error.''
       (problem_definition_new 500 ''/errors/internal'' ''Internal Server Error'' ''INTERNAL_ERROR'')"
| "error_problem (StreamGone _) =
     problem_definition_new 410 ''/errors/gone'' ''Stream Gone'' ''GONE''"

definition status_code :: "error \<Rightarrow> nat" where
  "status_code e = pd_status (error_problem e)"

text \<open>\<open>problem_details\<close>: the public detail is the static text if there is one, else the error's own text.\<close>

definition problem_detail_text :: "error \<Rightarrow> string" where
  "problem_detail_text e =
     (case pd_detail (error_problem e) of None \<Rightarrow> error_display e | Some d \<Rightarrow> d)"

text \<open>\<open>storage_unavailable\<close>, \<open>storage_insufficient\<close>, \<open>classify_io_failure\<close>.\<close>

definition storage_unavailable :: "string \<Rightarrow> string \<Rightarrow> string \<Rightarrow> error" where
  "storage_unavailable backend operation detail =
     Unavailable \<lparr>sf_class = ClassUnavailable, sf_backend = backend, sf_operation = operation,
       sf_detail = detail, sf_retry_after_secs = Some 1\<rparr>"

definition storage_insufficient :: "string \<Rightarrow> string \<Rightarrow> string \<Rightarrow> error" where
  "storage_insufficient backend operation detail =
     InsufficientStorage \<lparr>sf_class = ClassInsufficientStorage, sf_backend = backend,
       sf_operation = operation, sf_detail = detail, sf_retry_after_secs = None\<rparr>"

datatype io_error_kind =
    Interrupted | WouldBlock | TimedOut | StorageFull | QuotaExceeded | FileTooLarge | OtherIo

fun classify_io_failure :: "string \<Rightarrow> string \<Rightarrow> string \<Rightarrow> io_error_kind \<Rightarrow> error" where
  "classify_io_failure b oper d k =
     (if k \<in> {Interrupted, WouldBlock, TimedOut} then storage_unavailable b oper d
      else if k \<in> {StorageFull, QuotaExceeded, FileTooLarge} then storage_insufficient b oper d
      else Storage d)"

text \<open>\<open>Retry-After\<close> of \<open>From<Error> for ProblemResponse\<close>.\<close>

fun retry_after :: "error \<Rightarrow> nat option" where
  "retry_after (Unavailable f) = sf_retry_after_secs f"
| "retry_after _ = None"

lemmas problem_defs = problem_definition_new_def with_detail_def status_code_def

end
