(* ===== verification/DS_Offset.thy ===== *)
theory DS_Offset
  imports DS_Error
begin

text \<open>
  Stream offsets, \<open>protocol/offset.rs\<close>: the two sentinels, concrete positions
  with their cached textual form, the 33-byte encoding and its parser, and
  the equality and ordering the server uses.
\<close>

section \<open>Representation\<close>

datatype offset = Start | Now | Concrete (read_seq: u64) (byte_offset: u64) (raw: bytes)

definition HEX :: bytes where
  "HEX = ''0123456789abcdef''"

text \<open>One half of \<open>encode_offset\<close>: the 16 hex digits of a \<open>u64\<close>, most significant first.\<close>

definition hex_digit_at :: "u64 \<Rightarrow> nat \<Rightarrow> char" where
  "hex_digit_at x i = HEX ! unat (drop_bit ((15 - i) * 4) x AND 15)"

definition encode_hex_16 :: "u64 \<Rightarrow> bytes" where
  "encode_hex_16 x = map (hex_digit_at x) [0..<16]"

definition encode_offset :: "u64 \<Rightarrow> u64 \<Rightarrow> bytes" where
  "encode_offset rs bo = encode_hex_16 rs @ [CHR ''_''] @ encode_hex_16 bo"

definition hex_digit :: "char \<Rightarrow> u64 option" where
  "hex_digit b =
     (if of_char b \<in> {48..57 :: nat} then Some (of_nat (of_char b - 48))
      else if of_char b \<in> {97..102 :: nat} then Some (of_nat (of_char b - 97 + 10))
      else None)"

text \<open>The loop of \<open>decode_hex_16\<close> and the function with its length guard.\<close>

fun decode_hex_loop :: "u64 \<Rightarrow> bytes \<Rightarrow> u64 option" where
  "decode_hex_loop v [] = Some v"
| "decode_hex_loop v (b # bs) =
     (case hex_digit b of None \<Rightarrow> None | Some d \<Rightarrow> decode_hex_loop (push_bit 4 v OR d) bs)"

definition decode_hex_16 :: "bytes \<Rightarrow> u64 option" where
  "decode_hex_16 bs = (if length bs \<noteq> 16 then None else decode_hex_loop 0 bs)"

definition offset_new :: "u64 \<Rightarrow> u64 \<Rightarrow> offset" where
  "offset_new rs bo = Concrete rs bo (encode_offset rs bo)"

definition offset_is_start :: "offset \<Rightarrow> bool" where
  "offset_is_start off \<longleftrightarrow> off = Start"

definition offset_is_now :: "offset \<Rightarrow> bool" where
  "offset_is_now off \<longleftrightarrow> off = Now"

definition offset_is_sentinel :: "offset \<Rightarrow> bool" where
  "offset_is_sentinel off \<longleftrightarrow> off = Start \<or> off = Now"

fun as_str :: "offset \<Rightarrow> string" where
  "as_str Start = ''-1''"
| "as_str Now = ''now''"
| "as_str (Concrete _ _ r) = r"

fun parse_components :: "offset \<Rightarrow> (u64 \<times> u64) option" where
  "parse_components (Concrete rs bo _) = Some (rs, bo)"
| "parse_components _ = None"

text \<open>The per-byte check of \<open>from_str\<close>: the first offending byte decides the message.\<close>

fun check_offset_bytes :: "string \<Rightarrow> nat \<Rightarrow> bytes \<Rightarrow> unit res" where
  "check_offset_bytes s idx [] = Inr ()"
| "check_offset_bytes s idx (b # bs) =
     (if idx = 16 then check_offset_bytes s (idx + 1) bs
      else if is_ascii_uppercase b then
        Inl (InvalidOffset (''Offset must use lowercase hex digits: '' @ [CHR 0x27] @ s @ [CHR 0x27]))
      else if \<not> is_ascii_digit b \<and> \<not> of_char b \<in> {97..102 :: nat} then
        Inl (InvalidOffset (''Invalid hex character in part '' @ (if idx < 16 then ''1'' else ''2'')
          @ '' of '' @ [CHR 0x27] @ s @ [CHR 0x27]))
      else check_offset_bytes s (idx + 1) bs)"

definition offset_from_str :: "string \<Rightarrow> offset res" where
  "offset_from_str s =
     (if s = ''-1'' then Inr Start
      else if s = ''now'' then Inr Now
      else if length s \<noteq> 33 \<or> s ! 16 \<noteq> CHR ''_'' then
        Inl (InvalidOffset (''Expected format '' @ [CHR 0x27] @ ''read_seq_byte_offset'' @ [CHR 0x27]
          @ '', got '' @ [CHR 0x27] @ s @ [CHR 0x27]))
      else case check_offset_bytes s 0 s of
        Inl e \<Rightarrow> Inl e
      | Inr _ \<Rightarrow>
          let failed = InvalidOffset (''Failed to parse hex values in '' @ [CHR 0x27] @ s @ [CHR 0x27]) in
          case decode_hex_16 (take 16 s) of
            None \<Rightarrow> Inl failed
          | Some rs \<Rightarrow>
            (case decode_hex_16 (drop 17 s) of
               None \<Rightarrow> Inl failed
             | Some bo \<Rightarrow> Inr (Concrete rs bo (encode_offset rs bo))))"

text \<open>\<open>PartialEq\<close> and \<open>Ord\<close>: components when both are concrete, else the texts.\<close>

definition offset_eq :: "offset \<Rightarrow> offset \<Rightarrow> bool" where
  "offset_eq a b = (case (parse_components a, parse_components b) of
     (Some x, Some y) \<Rightarrow> x = y | _ \<Rightarrow> as_str a = as_str b)"

datatype ordering = Less | Equal | Greater

definition compare_of :: "'a::linorder \<Rightarrow> 'a \<Rightarrow> ordering" where
  "compare_of a b = (if a < b then Less else if a = b then Equal else Greater)"

definition offset_cmp :: "offset \<Rightarrow> offset \<Rightarrow> ordering" where
  "offset_cmp a b = (case (parse_components a, parse_components b) of
     (Some x, Some y) \<Rightarrow> compare_of x y | _ \<Rightarrow> compare_of (as_str a) (as_str b))"

definition offset_lt :: "offset \<Rightarrow> offset \<Rightarrow> bool" where
  "offset_lt a b \<longleftrightarrow> offset_cmp a b = Less"

definition offset_gt :: "offset \<Rightarrow> offset \<Rightarrow> bool" where
  "offset_gt a b \<longleftrightarrow> offset_cmp a b = Greater"

text \<open>\<open>Ord::min\<close>: the first argument on a tie.\<close>

definition offset_min :: "offset \<Rightarrow> offset \<Rightarrow> offset" where
  "offset_min a b = (if offset_cmp b a = Less then b else a)"

text \<open>
  Offsets built by \<open>Offset::new\<close> or by parsing carry the encoding of their
  components; a hand-written \<open>Concrete\<close> value need not.
\<close>

definition wf_offset :: "offset \<Rightarrow> bool" where
  "wf_offset off = (case off of Concrete rs bo r \<Rightarrow> r = encode_offset rs bo | _ \<Rightarrow> True)"

section \<open>The hex codec\<close>

lemma HEX_nth: "n < 16 \<Longrightarrow> HEX ! n = char_of (if n < 10 then 48 + n else 87 + n)"
proof -
  assume "n < 16"
  then have "n \<in> set [0..<16]" by simp
  then show ?thesis by (auto simp: HEX_def char_of_def upt_rec bit_0)
qed

lemma HEX_nth_of_char: "n < 16 \<Longrightarrow> of_char (HEX ! n) = (if n < 10 then 48 + n else 87 + n :: nat)"
  by (simp add: HEX_nth of_char_of)

lemma HEX_less: "m < 16 \<Longrightarrow> n < 16 \<Longrightarrow> HEX ! m < HEX ! n \<longleftrightarrow> m < n"
  by (auto simp: less_char_def HEX_nth_of_char)

lemma HEX_eq: "m < 16 \<Longrightarrow> n < 16 \<Longrightarrow> HEX ! m = HEX ! n \<longleftrightarrow> m = n"
  using HEX_less by (metis linorder_neq_iff)

lemma hex_digit_HEX: "n < 16 \<Longrightarrow> hex_digit (HEX ! n) = Some (of_nat n)"
  by (auto simp: HEX_nth_of_char hex_digit_def)

definition lower_hex :: "char \<Rightarrow> bool" where
  "lower_hex b \<longleftrightarrow> is_ascii_digit b \<or> of_char b \<in> {97..102 :: nat}"

lemma hex_digit_valid: "lower_hex b \<Longrightarrow> \<exists>n<16. b = HEX ! n"
proof -
  let ?n = "of_char b :: nat"
  have b: "b = char_of ?n" by simp
  assume "lower_hex b"
  then consider "?n \<in> {48..57}" | "?n \<in> {97..102}" by (auto simp: lower_hex_def is_ascii_digit_def)
  then show ?thesis
  proof cases
    case 1
    then show ?thesis using b by (intro exI [of _ "?n - 48"]) (auto simp: HEX_nth)
  next
    case 2
    then show ?thesis using b by (intro exI [of _ "?n - 87"]) (auto simp: HEX_nth)
  qed
qed

lemma unat_hex_nibble: "unat (drop_bit k x AND 15 :: u64) = unat x div 2 ^ k mod 16"
proof -
  have "drop_bit k x AND 15 = take_bit 4 (drop_bit k x)"
    by (simp add: take_bit_eq_mask mask_eq_exp_minus_1)
  then have "unat (drop_bit k x AND 15) = take_bit 4 (drop_bit k (unat x))"
    by (simp only: unsigned_take_bit_eq unsigned_drop_bit_eq) (simp add: take_bit_nat_eq_self)
  then show ?thesis by (simp add: take_bit_eq_mod drop_bit_eq_div)
qed

text \<open>The digits of a number, and Horner's rule that reads them back.\<close>

fun hexdigits :: "nat \<Rightarrow> nat \<Rightarrow> nat list" where
  "hexdigits 0 n = []"
| "hexdigits (Suc k) n = hexdigits k (n div 16) @ [n mod 16]"

fun horner16 :: "nat \<Rightarrow> nat list \<Rightarrow> nat" where
  "horner16 v [] = v"
| "horner16 v (d # ds) = horner16 (16 * v + d) ds"

lemma length_hexdigits [simp]: "length (hexdigits k n) = k"
  by (induction k arbitrary: n) auto

lemma hexdigits_less: "d \<in> set (hexdigits k n) \<Longrightarrow> d < 16"
  by (induction k arbitrary: n) auto

lemma nth_hexdigits: "i < k \<Longrightarrow> hexdigits k n ! i = n div 16 ^ (k - 1 - i) mod 16"
proof (induction k arbitrary: n)
  case (Suc k)
  show ?case
  proof (cases "i < k")
    case True
    then have "Suc (k - 1 - i) = k - i" by simp
    then have "n div 16 div 16 ^ (k - 1 - i) = n div 16 ^ (k - i)"
      by (metis div_mult2_eq power_Suc)
    with Suc True show ?thesis by (simp add: nth_append)
  qed (use Suc.prems in \<open>auto simp: nth_append not_less less_Suc_eq\<close>)
qed simp

lemma horner16_append [simp]: "horner16 v (xs @ ys) = horner16 (horner16 v xs) ys"
  by (induction v xs rule: horner16.induct) auto

lemma horner16_hexdigits: "horner16 0 (hexdigits k n) = n mod 16 ^ k"
  by (induction k arbitrary: n) (auto simp: mod_mult2_eq)

lemma hexdigits_horner16:
  "\<forall>d\<in>set ds. d < 16 \<Longrightarrow> hexdigits (length ds) (horner16 0 ds) = ds"
  by (induction ds rule: rev_induct) auto

lemma horner16_bound: "\<forall>d\<in>set ds. d < 16 \<Longrightarrow> horner16 v ds < (v + 1) * 16 ^ length ds"
proof (induction v ds rule: horner16.induct)
  case (2 v d ds)
  then have "horner16 (16 * v + d) ds < (16 * v + d + 1) * 16 ^ length ds" by simp
  also have "\<dots> \<le> (16 * v + 16) * 16 ^ length ds"
    using "2.prems" by (intro mult_le_mono1) auto
  finally show ?case by (simp add: algebra_simps)
qed simp

text \<open>Horner's rule is monotone for the lexicographic order on digit strings.\<close>

lemma horner16_mono_start:
  "length xs = length ys \<Longrightarrow> \<forall>d\<in>set xs. d < 16 \<Longrightarrow> v < w \<Longrightarrow> horner16 v xs < horner16 w ys"
  by (induction xs ys arbitrary: v w rule: list_induct2) auto

lemma horner16_less:
  assumes "length xs = length ys" "\<forall>d\<in>set xs. d < 16" "\<forall>d\<in>set ys. d < 16"
  shows "horner16 v xs < horner16 v ys \<longleftrightarrow> map ((!) HEX) xs < map ((!) HEX) ys"
  using assms
proof (induction xs ys arbitrary: v rule: list_induct2)
  case (Cons x xs y ys)
  then have xy: "x < 16" "y < 16" by auto
  consider "x < y" | "x = y" | "y < x" by linarith
  then show ?case
  proof cases
    case 1
    with Cons.prems Cons.hyps have "horner16 (16 * v + x) xs < horner16 (16 * v + y) ys"
      by (intro horner16_mono_start) auto
    with 1 xy show ?thesis by (simp add: HEX_less)
  next
    case 2
    with Cons xy show ?thesis by simp
  next
    case 3
    with Cons.prems Cons.hyps have "horner16 (16 * v + y) ys < horner16 (16 * v + x) xs"
      by (intro horner16_mono_start) auto
    with 3 xy HEX_less [of x y] HEX_eq [of x y] show ?thesis by simp
  qed
qed simp

lemma encode_hex_16_digits: "encode_hex_16 x = map ((!) HEX) (hexdigits 16 (unat x))"
proof (rule nth_equalityI)
  fix i assume "i < length (encode_hex_16 x)"
  then have i: "i < 16" by (simp add: encode_hex_16_def)
  have "(2::nat) ^ ((15 - i) * 4) = 16 ^ (15 - i)"
    by (simp add: power_mult mult.commute)
  with i show "encode_hex_16 x ! i = map ((!) HEX) (hexdigits 16 (unat x)) ! i"
    by (simp add: encode_hex_16_def hex_digit_at_def unat_hex_nibble nth_hexdigits)
qed (simp add: encode_hex_16_def)

lemma push_or_nibble:
  assumes "d < 16" "unat v < 2 ^ 60"
  shows "unat (push_bit 4 v OR of_nat d :: u64) = 16 * unat v + d"
proof -
  have v: "unat (push_bit 4 v) = push_bit 4 (unat v)"
    using assms by (simp only: unsigned_push_bit_eq) (simp add: take_bit_eq_mod push_bit_eq_mult)
  have d: "unat (of_nat d :: u64) = d" using assms by (simp add: unat_of_nat)
  have td: "d = take_bit 4 d" using assms by (simp add: take_bit_eq_mod)
  have "unat (push_bit 4 v OR of_nat d) = push_bit 4 (unat v) OR d"
    by (simp only: unsigned_or_eq v d)
  also have "\<dots> = push_bit 4 (unat v) OR take_bit 4 d" using td by simp
  also have "\<dots> = push_bit 4 (unat v) + take_bit 4 d"
    by (rule disjunctive_add [symmetric]) (auto simp: bit_simps)
  finally show ?thesis using td by (simp add: push_bit_eq_mult)
qed

lemma decode_hex_loop_horner:
  assumes "\<forall>d\<in>set ds. d < 16" "(unat v + 1) * 16 ^ length ds \<le> 2 ^ 64"
  shows "\<exists>w. decode_hex_loop v (map ((!) HEX) ds) = Some w \<and> unat w = horner16 (unat v) ds"
  using assms
proof (induction ds arbitrary: v)
  case (Cons d ds)
  let ?v = "push_bit 4 v OR of_nat d :: u64"
  have d: "d < 16" using Cons.prems by simp
  have "(unat v + 1) * 16 \<le> 2 ^ 64 div 16 ^ length ds"
    using Cons.prems(2) by (simp add: less_eq_div_iff_mult_less_eq algebra_simps)
  also have "\<dots> \<le> 2 ^ 64" by simp
  finally have v: "unat ?v = 16 * unat v + d" using d by (intro push_or_nibble) auto
  have "(unat ?v + 1) * 16 ^ length ds \<le> (unat v + 1) * 16 * 16 ^ length ds"
    unfolding v using d by (intro mult_le_mono1) auto
  also have "\<dots> = (unat v + 1) * 16 ^ length (d # ds)" by (simp add: algebra_simps)
  also note Cons.prems(2)
  finally have "(unat ?v + 1) * 16 ^ length ds \<le> 2 ^ 64" .
  with Cons obtain w where "decode_hex_loop ?v (map ((!) HEX) ds) = Some w" "unat w = horner16 (unat ?v) ds"
    by fastforce
  with v d show ?case by (simp add: hex_digit_HEX)
qed simp

lemma decode_encode_hex_16 [simp]: "decode_hex_16 (encode_hex_16 x) = Some x"
proof -
  obtain w where w: "decode_hex_loop 0 (encode_hex_16 x) = Some w"
    "unat w = horner16 0 (hexdigits 16 (unat x))"
    using decode_hex_loop_horner [of "hexdigits 16 (unat x)" 0]
    by (auto simp: encode_hex_16_digits hexdigits_less)
  have "unat x < 16 ^ 16" by simp
  then have "horner16 0 (hexdigits 16 (unat x)) = unat x"
    by (simp only: horner16_hexdigits) simp
  with w have "w = x" by (simp add: word_unat_eq_iff)
  with w show ?thesis by (simp add: decode_hex_16_def encode_hex_16_def)
qed

lemma encode_decode_hex_16:
  assumes "length bs = 16" "\<forall>b\<in>set bs. lower_hex b"
  shows "\<exists>x. decode_hex_16 bs = Some x \<and> encode_hex_16 x = bs"
proof -
  from assms(2) have "\<forall>b\<in>set bs. \<exists>n<16. b = HEX ! n" using hex_digit_valid by blast
  then have "\<exists>ds. bs = map ((!) HEX) ds \<and> (\<forall>d\<in>set ds. d < 16)"
  proof (induction bs)
    case (Cons b bs)
    then obtain n ds where "b = HEX ! n" "n < 16" "bs = map ((!) HEX) ds" "\<forall>d\<in>set ds. d < 16"
      by auto
    then show ?case by (intro exI [of _ "n # ds"]) auto
  qed simp
  then obtain ds where ds: "bs = map ((!) HEX) ds" "\<forall>d\<in>set ds. d < 16" by blast
  with assms(1) obtain w where w: "decode_hex_loop 0 bs = Some w" "unat w = horner16 0 ds"
    using decode_hex_loop_horner [of ds 0] by auto
  have "encode_hex_16 w = bs"
    using ds w(2) assms(1) hexdigits_horner16 [of ds] by (simp add: encode_hex_16_digits)
  with w assms(1) show ?thesis by (simp add: decode_hex_16_def)
qed

lemma length_encode_hex_16 [simp]: "length (encode_hex_16 x) = 16"
  by (simp add: encode_hex_16_def)

lemma encode_hex_16_less: "encode_hex_16 x < encode_hex_16 y \<longleftrightarrow> x < y"
proof -
  have "unat x mod 16 ^ 16 = unat x" "unat y mod 16 ^ 16 = unat y" by simp_all
  then show ?thesis
    using horner16_less [of "hexdigits 16 (unat x)" "hexdigits 16 (unat y)" 0]
    by (simp only: encode_hex_16_digits horner16_hexdigits word_less_nat_alt)
      (auto simp: hexdigits_less)
qed

lemma encode_hex_16_inject [simp]: "encode_hex_16 x = encode_hex_16 y \<longleftrightarrow> x = y"
  using encode_hex_16_less by (metis linorder_neq_iff)

section \<open>Parsing and printing\<close>

lemma encode_offset_nth_16 [simp]: "encode_offset rs bo ! 16 = CHR ''_''"
  by (simp add: encode_offset_def nth_append)

lemma length_encode_offset [simp]: "length (encode_offset rs bo) = 33"
  by (simp add: encode_offset_def)

lemma encode_offset_parts [simp]:
  "take 16 (encode_offset rs bo) = encode_hex_16 rs"
  "drop 17 (encode_offset rs bo) = encode_hex_16 bo"
  by (simp_all add: encode_offset_def)

lemma encode_offset_inject [simp]:
  "encode_offset a b = encode_offset c d \<longleftrightarrow> a = c \<and> b = d"
  by (simp add: encode_offset_def)

lemma encode_offset_neq [simp]: "encode_offset rs bo \<noteq> ''-1''" "encode_offset rs bo \<noteq> ''now''"
proof -
  have "length (encode_offset rs bo) \<noteq> length ''-1''" "length (encode_offset rs bo) \<noteq> length ''now''"
    by simp_all
  then show "encode_offset rs bo \<noteq> ''-1''" "encode_offset rs bo \<noteq> ''now''" by metis+
qed

lemma HEX_char_ok:
  "n < 16 \<Longrightarrow> \<not> is_ascii_uppercase (HEX ! n) \<and> lower_hex (HEX ! n)"
  by (auto simp: HEX_nth_of_char is_ascii_uppercase_def is_ascii_digit_def lower_hex_def)

lemma encode_hex_16_chars:
  "c \<in> set (encode_hex_16 x) \<Longrightarrow> \<not> is_ascii_uppercase c \<and> lower_hex c"
  using HEX_char_ok by (fastforce simp: encode_hex_16_digits dest: hexdigits_less)

text \<open>The byte check succeeds exactly when every byte but the one at index 16 is a lowercase hex digit.\<close>

lemma check_offset_bytes_Inr:
  "check_offset_bytes s i bs = Inr u \<longleftrightarrow>
    (\<forall>j<length bs. i + j \<noteq> 16 \<longrightarrow> \<not> is_ascii_uppercase (bs ! j) \<and> lower_hex (bs ! j))"
proof (induction s i bs rule: check_offset_bytes.induct)
  case (2 s idx b bs)
  have split: "(\<forall>j<length (b # bs). P j) \<longleftrightarrow> P 0 \<and> (\<forall>j<length bs. P (Suc j))" for P
    by (simp add: All_less_Suc2)
  show ?case unfolding split using 2 by (auto simp: lower_hex_def)
qed simp

lemma offset_from_str_encode: "offset_from_str (encode_offset rs bo) = Inr (offset_new rs bo)"
proof -
  let ?s = "encode_offset rs bo"
  have "check_offset_bytes ?s 0 ?s = Inr ()"
  proof -
    have "?s ! j \<in> set (encode_hex_16 rs) \<union> set (encode_hex_16 bo)" if "j < 33" "j \<noteq> 16" for j
      using that by (auto simp: encode_offset_def nth_append nth_Cons split: nat.splits)
    then show ?thesis
      by (auto simp: check_offset_bytes_Inr dest!: encode_hex_16_chars)
  qed
  then show ?thesis by (simp add: offset_from_str_def offset_new_def Let_def)
qed

lemma as_str_offset_new [simp]: "as_str (offset_new rs bo) = encode_offset rs bo"
  by (simp add: offset_new_def)

lemma wf_offset_cases [consumes 1]:
  assumes "wf_offset x"
  obtains "x = Start" | "x = Now" | rs bo where "x = offset_new rs bo"
  using assms by (cases x) (auto simp: wf_offset_def offset_new_def)

lemma wf_offset_new [simp]: "wf_offset (offset_new rs bo)" "wf_offset Start" "wf_offset Now"
  by (simp_all add: wf_offset_def offset_new_def)

lemma offset_from_str_as_str: "wf_offset x \<Longrightarrow> offset_from_str (as_str x) = Inr x"
  by (erule wf_offset_cases) (auto simp: offset_from_str_encode, auto simp: offset_from_str_def)

lemma offset_from_str_sound:
  assumes "offset_from_str s = Inr x"
  shows "wf_offset x \<and> as_str x = s"
proof (cases "s = ''-1'' \<or> s = ''now''")
  case True
  with assms show ?thesis by (auto simp: offset_from_str_def wf_offset_def)
next
  case False
  with assms have len: "length s = 33" and us: "s ! 16 = CHR ''_''"
    and chk: "check_offset_bytes s 0 s = Inr ()"
    by (auto simp: offset_from_str_def split: if_splits sum.splits)
  from chk len have ok: "lower_hex (s ! j)"
    if "j < 33" "j \<noteq> 16" for j
    using that by (simp add: check_offset_bytes_Inr)
  have "\<exists>r. decode_hex_16 (take 16 s) = Some r \<and> encode_hex_16 r = take 16 s"
    using len ok by (intro encode_decode_hex_16) (auto simp: in_set_conv_nth)
  moreover have "\<exists>b. decode_hex_16 (drop 17 s) = Some b \<and> encode_hex_16 b = drop 17 s"
    using len ok by (intro encode_decode_hex_16) (fastforce simp: in_set_conv_nth)+
  ultimately obtain r b where rb: "decode_hex_16 (take 16 s) = Some r" "encode_hex_16 r = take 16 s"
    "decode_hex_16 (drop 17 s) = Some b" "encode_hex_16 b = drop 17 s" by blast
  have "s = take 16 s @ s ! 16 # drop 17 s"
    using len id_take_nth_drop [of 16 s] by simp
  then have enc: "encode_offset r b = s" using rb(2,4) us by (metis append_Cons append_Nil encode_offset_def)
  have "x = Concrete r b (encode_offset r b)"
    using False len us chk rb(1,3) assms by (simp add: offset_from_str_def)
  then show ?thesis using enc by (simp add: wf_offset_def)
qed

section \<open>Order\<close>

text \<open>
  An order embedding into a linear order: the start sentinel below every
  concrete position, the tail sentinel above, positions lexicographically.
\<close>

fun offset_key :: "offset \<Rightarrow> nat \<times> u64 \<times> u64" where
  "offset_key Start = (0, 0, 0)"
| "offset_key (Concrete rs bo _) = (1, rs, bo)"
| "offset_key Now = (2, 0, 0)"

lemma list_less_append_same_length:
  "length xs = length ys \<Longrightarrow> xs @ us < ys @ vs \<longleftrightarrow> xs < ys \<or> xs = ys \<and> us < (vs :: 'a::linorder list)"
  by (induction xs ys rule: list_induct2) auto

lemma encode_offset_less:
  "encode_offset a b < encode_offset c d \<longleftrightarrow> (a, b) < (c, d)"
  by (auto simp: encode_offset_def list_less_append_same_length encode_hex_16_less less_prod_def')

lemma encode_offset_hd: "encode_offset rs bo = hd (encode_offset rs bo) # tl (encode_offset rs bo)"
  using length_encode_offset [of rs bo] by (cases "encode_offset rs bo") auto

lemma encode_offset_hd_HEX: "\<exists>n<16. hd (encode_offset rs bo) = HEX ! n"
proof -
  have "hd (encode_offset rs bo) = hd (encode_hex_16 rs)"
    using length_encode_hex_16 [of rs] by (cases "encode_hex_16 rs") (auto simp: encode_offset_def)
  also have "\<dots> \<in> set (encode_hex_16 rs)"
    using length_encode_hex_16 [of rs] by (intro hd_in_set) (metis list.size(3) zero_neq_numeral)
  finally show ?thesis by (auto simp: encode_hex_16_digits dest: hexdigits_less)
qed

lemma sentinel_less_encode:
  "''-1'' < encode_offset rs bo" "encode_offset rs bo < ''now''"
proof -
  obtain n where n: "n < 16" "hd (encode_offset rs bo) = HEX ! n"
    using encode_offset_hd_HEX by blast
  have "CHR ''-'' < HEX ! n" "HEX ! n < CHR ''n''"
    using n by (auto simp: less_char_def HEX_nth_of_char)
  with n show "''-1'' < encode_offset rs bo" "encode_offset rs bo < ''now''"
    by (subst encode_offset_hd, simp)+
qed

lemma compare_of_simps [simp]:
  "compare_of a b = Less \<longleftrightarrow> a < b" "compare_of a b = Greater \<longleftrightarrow> b < a" "compare_of a b = Equal \<longleftrightarrow> a = b"
  by (auto simp: compare_of_def)

lemma compare_of_cong:
  "(a < b \<longleftrightarrow> c < d) \<Longrightarrow> (a = b \<longleftrightarrow> c = d) \<Longrightarrow> compare_of a b = compare_of c d"
  by (simp add: compare_of_def)

text \<open>The server's comparison is the comparison of the wire strings.\<close>

lemma offset_cmp_as_str:
  assumes "wf_offset x" "wf_offset y"
  shows "offset_cmp x y = compare_of (as_str x) (as_str y)"
  using assms
  by (cases x; cases y)
    (auto simp: offset_cmp_def wf_offset_def encode_offset_less intro!: compare_of_cong)

lemma offset_cmp_key:
  assumes "wf_offset x" "wf_offset y"
  shows "offset_cmp x y = compare_of (offset_key x) (offset_key y)"
proof -
  note less = sentinel_less_encode sentinel_less_encode [THEN less_not_sym]
    sentinel_less_encode [THEN less_imp_neq] sentinel_less_encode [THEN less_imp_neq, symmetric]
  have sent: "''-1'' < ''now''" by (simp add: less_char_def)
  show ?thesis
    using assms
    by (cases x; cases y)
      (auto simp: offset_cmp_def wf_offset_def compare_of_def less sent less_not_sym [OF sent])
qed

lemma offset_lt_key: "wf_offset x \<Longrightarrow> wf_offset y \<Longrightarrow> offset_lt x y \<longleftrightarrow> offset_key x < offset_key y"
  by (simp add: offset_lt_def offset_cmp_key)

lemma offset_gt_key: "wf_offset x \<Longrightarrow> wf_offset y \<Longrightarrow> offset_gt x y \<longleftrightarrow> offset_key y < offset_key x"
  by (simp add: offset_gt_def offset_cmp_key)

lemma offset_key_inject: "wf_offset x \<Longrightarrow> wf_offset y \<Longrightarrow> offset_key x = offset_key y \<longleftrightarrow> x = y"
  by (cases x; cases y) (auto simp: wf_offset_def)

lemma offset_eq_iff: "wf_offset x \<Longrightarrow> wf_offset y \<Longrightarrow> offset_eq x y \<longleftrightarrow> x = y"
  by (cases x; cases y)
    (auto simp: offset_eq_def wf_offset_def encode_offset_neq [symmetric])

lemma offset_key_new [simp]: "offset_key (offset_new rs bo) = (1, rs, bo)"
  by (simp add: offset_new_def)

lemma offset_new_inject [simp]: "offset_new a b = offset_new c d \<longleftrightarrow> a = c \<and> b = d"
  by (auto simp: offset_new_def)

lemma offset_new_neq [simp]:
  "offset_new a b \<noteq> Start" "offset_new a b \<noteq> Now" "Start \<noteq> offset_new a b" "Now \<noteq> offset_new a b"
  by (simp_all add: offset_new_def)

lemma offset_lt_new [simp]:
  "offset_lt (offset_new a b) (offset_new c d) \<longleftrightarrow> a < c \<or> a = c \<and> b < d"
  by (auto simp: offset_lt_key less_prod_def')

lemma offset_lt_sentinels [simp]:
  "offset_lt Start (offset_new a b)" "\<not> offset_lt (offset_new a b) Start"
  "offset_lt (offset_new a b) Now" "\<not> offset_lt Now (offset_new a b)"
  "offset_lt Start Now" "\<not> offset_lt Start Start" "\<not> offset_lt Now Now" "\<not> offset_lt Now Start"
  by (simp_all add: offset_lt_key)

lemma offset_not_lt_Start [simp]: "wf_offset x \<Longrightarrow> \<not> offset_lt x Start"
  by (erule wf_offset_cases) auto

lemma offset_gt_lt: "wf_offset x \<Longrightarrow> wf_offset y \<Longrightarrow> offset_gt x y \<longleftrightarrow> offset_lt y x"
  by (simp add: offset_gt_key offset_lt_key)

lemma offset_ge_trans:
  "wf_offset x \<Longrightarrow> wf_offset y \<Longrightarrow> wf_offset z \<Longrightarrow>
    \<not> offset_lt y x \<Longrightarrow> \<not> offset_lt x z \<Longrightarrow> \<not> offset_lt y z"
  by (simp add: offset_lt_key)

lemma offset_lt_le_trans:
  "wf_offset x \<Longrightarrow> wf_offset y \<Longrightarrow> wf_offset z \<Longrightarrow> offset_lt x y \<Longrightarrow> \<not> offset_lt z y \<Longrightarrow> offset_lt x z"
  by (simp add: offset_lt_key)

lemma wf_offset_min [simp]: "wf_offset x \<Longrightarrow> wf_offset y \<Longrightarrow> wf_offset (offset_min x y)"
  by (simp add: offset_min_def)

lemma offset_lt_min:
  "wf_offset z \<Longrightarrow> wf_offset x \<Longrightarrow> wf_offset y \<Longrightarrow>
    offset_lt z (offset_min x y) \<longleftrightarrow> offset_lt z x \<and> offset_lt z y"
  by (auto simp: offset_min_def offset_lt_key offset_cmp_key)

lemma parse_components_new [simp]: "parse_components (offset_new a b) = Some (a, b)"
  by (simp add: offset_new_def)

lemma offset_is_new [simp]:
  "\<not> offset_is_start (offset_new a b)" "\<not> offset_is_now (offset_new a b)"
  "offset_is_start Start" "\<not> offset_is_now Start" "\<not> offset_is_start Now" "offset_is_now Now"
  by (simp_all add: offset_is_start_def offset_is_now_def)

interpretation offset_codec: canonical_codec wf_offset as_str offset_from_str
  by unfold_locales (simp_all add: offset_from_str_as_str offset_from_str_sound)

end
