(* ===== verification/DS_Protocol.thy ===== *)
theory DS_Protocol
  imports DS_Offset
begin

text \<open>
  The protocol helpers of \<open>protocol/\<close> that the handlers and the storage layer
  call: request header parsing (\<open>headers.rs\<close>), idempotent-producer headers
  (\<open>producer.rs\<close>), JSON mode (\<open>json_mode.rs\<close>, \<open>mod.rs\<close>), stream names
  (\<open>stream_name.rs\<close>) and the cursor generator (\<open>cursor.rs\<close>).

  Code outside the repository is a field of the record \<open>env\<close>, an argument of
  the definitions that use it: the clock and date arithmetic of \<open>chrono\<close>, the
  parser and printer of \<open>serde_json\<close>, and the header-value check of the
  \<open>http\<close> crate.
\<close>

section \<open>External code\<close>

type_synonym time = int

text \<open>\<open>serde_json::Value\<close>; numbers and object entries as their text and in their order.\<close>

datatype json = JNull | JBool bool | JNumber string | JString string
  | JArray "json list" | JObject "(string \<times> json) list"

text \<open>
  \<open>now_at e k\<close> is the \<open>k\<close>-th reading of \<open>Utc::now()\<close> during one operation (an
  operation reads the clock several times, and two readings may differ);
  \<open>plus_seconds\<close> is \<open>Duration::try_seconds\<close> followed by \<open>checked_add_signed\<close>,
  \<open>minus_seconds\<close> the subtraction of an in-range \<open>TimeDelta\<close>;
  \<open>parse_date_time\<close> is \<open>str::parse::<DateTime<Utc>>\<close> with the error's text;
  \<open>header_value_ok\<close> is \<open>HeaderValue::from_str(..).is_ok()\<close>;
  \<open>num_milliseconds\<close> and \<open>num_seconds\<close> are those of the difference of two times,
  \<open>to_rfc3339\<close> prints a time; \<open>base64_encode\<close> is the standard engine of \<open>base64\<close>.
\<close>

record env =
  now_at :: "nat \<Rightarrow> time"
  plus_seconds :: "time \<Rightarrow> int \<Rightarrow> time option"
  minus_seconds :: "time \<Rightarrow> int \<Rightarrow> time"
  parse_date_time :: "string \<Rightarrow> string + time"
  header_value_ok :: "string \<Rightarrow> bool"
  from_slice :: "bytes \<Rightarrow> string + json"
  to_vec :: "json \<Rightarrow> bytes"
  num_milliseconds :: "time \<Rightarrow> time \<Rightarrow> int"
  num_seconds :: "time \<Rightarrow> time \<Rightarrow> int"
  to_rfc3339 :: "time \<Rightarrow> string"
  base64_encode :: "bytes \<Rightarrow> string"

text \<open>
  A request's \<open>HeaderMap\<close>: the value of a present header is what \<open>to_str\<close>
  yields for it, \<open>None\<close> when the value is not visible ASCII.
\<close>

type_synonym header_map = "string \<rightharpoonup> string option"

definition header_str :: "header_map \<Rightarrow> string \<Rightarrow> string option" where
  "header_str hs n = (case hs n of Some (Some v) \<Rightarrow> Some v | _ \<Rightarrow> None)"

definition contains_key :: "header_map \<Rightarrow> string \<Rightarrow> bool" where
  "contains_key hs n \<longleftrightarrow> hs n \<noteq> None"

section \<open>Header values\<close>

definition quoted :: "string \<Rightarrow> string" where
  "quoted s = [CHR 0x27] @ s @ [CHR 0x27]"

definition parse_ttl :: "string \<Rightarrow> u64 res" where
  "parse_ttl value =
     (let trimmed = trim value in
      if trimmed = [] then Inl (InvalidTtl ''empty value'')
      else if hd trimmed = CHR ''+'' then
        Inl (InvalidTtl (''leading plus sign not allowed: '' @ quoted trimmed))
      else if length trimmed > 1 \<and> hd trimmed = CHR ''0'' then
        Inl (InvalidTtl (''leading zeros not allowed: '' @ quoted trimmed))
      else (case parse_u64 trimmed of
        Inl e \<Rightarrow> Inl (InvalidTtl (''invalid integer '' @ quoted trimmed @ '': '' @ parse_int_error_display e))
      | Inr n \<Rightarrow> Inr n))"

definition parse_expires_at :: "env \<Rightarrow> string \<Rightarrow> time res" where
  "parse_expires_at E value = (case parse_date_time E value of
     Inl e \<Rightarrow> Inl (InvalidHeader ''Stream-Expires-At'' (''invalid ISO 8601 timestamp: '' @ e))
   | Inr t \<Rightarrow> Inr t)"

definition parse_bool :: "string \<Rightarrow> bool" where
  "parse_bool value = eq_ignore_ascii_case (trim value) ''true''"

definition normalize_content_type :: "string \<Rightarrow> string" where
  "normalize_content_type ct = to_lowercase (trim (hd (split_on (CHR '';'') ct)))"

section \<open>Producer headers\<close>

record producer_headers =
  prod_id :: string
  prod_epoch :: u64
  prod_seq :: u64

definition MAX_SAFE_INTEGER :: u64 where
  "MAX_SAFE_INTEGER = 9007199254740991"

definition parse_non_negative_int :: "string \<Rightarrow> string \<Rightarrow> u64 res" where
  "parse_non_negative_int value header_name =
     (let bad = InvalidProducerState (header_name @ '' must be a non-negative integer, got: '' @ value) in
      if length value > 1 \<and> hd value = CHR ''0'' then Inl bad
      else (case parse_u64 value of
        Inl _ \<Rightarrow> Inl bad
      | Inr n \<Rightarrow>
          if n > MAX_SAFE_INTEGER then
            Inl (InvalidProducerState (header_name @ '' must not exceed 2^53-1, got: '' @ value))
          else Inr n))"

definition parse_producer_headers :: "header_map \<Rightarrow> producer_headers option res" where
  "parse_producer_headers hs =
     (case (header_str hs ''Producer-Id'', header_str hs ''Producer-Epoch'', header_str hs ''Producer-Seq'') of
        (None, None, None) \<Rightarrow> Inr None
      | (Some i, Some epoch_str, Some seq_str) \<Rightarrow>
          if i = [] then Inl (InvalidProducerState ''Producer-Id must not be empty'')
          else (case parse_non_negative_int epoch_str ''Producer-Epoch'' of
            Inl e \<Rightarrow> Inl e
          | Inr epoch \<Rightarrow>
            (case parse_non_negative_int seq_str ''Producer-Seq'' of
              Inl e \<Rightarrow> Inl e
            | Inr sq \<Rightarrow> Inr (Some \<lparr>prod_id = i, prod_epoch = epoch, prod_seq = sq\<rparr>)))
      | _ \<Rightarrow> Inl (InvalidProducerState
          ''Producer-Id, Producer-Epoch, and Producer-Seq must all be provided together''))"

section \<open>JSON mode\<close>

definition is_json_content_type :: "string \<Rightarrow> bool" where
  "is_json_content_type ct \<longleftrightarrow> ct = ''application/json''"

definition process_append :: "env \<Rightarrow> bytes \<Rightarrow> bytes list res" where
  "process_append E data = (case from_slice E data of
     Inl e \<Rightarrow> Inl (InvalidJson e)
   | Inr v \<Rightarrow> (case v of
       JArray arr \<Rightarrow> Inr (if arr = [] then [] else map (to_vec E) arr)
     | _ \<Rightarrow> Inr [to_vec E v]))"

text \<open>\<open>wrap_read_iter\<close>: the loop with its \<open>wrote_any\<close> flag.\<close>

fun wrap_loop :: "bool \<Rightarrow> bytes list \<Rightarrow> bytes" where
  "wrap_loop wrote_any [] = []"
| "wrap_loop wrote_any (m # ms) = (if wrote_any then '','' else []) @ m @ wrap_loop True ms"

definition wrap_read_iter :: "bytes list \<Rightarrow> bytes" where
  "wrap_read_iter ms = ''['' @ wrap_loop False ms @ '']''"

definition extract_messages :: "env \<Rightarrow> bytes \<Rightarrow> string \<Rightarrow> bytes list res" where
  "extract_messages E body ct =
     (if body = [] then Inr []
      else if is_json_content_type ct then process_append E body
      else Inr [body])"

section \<open>Stream names\<close>

record stream_name_limits =
  max_bytes :: nat
  max_segments :: nat

definition is_reserved :: "string \<Rightarrow> bool" where
  "is_reserved name \<longleftrightarrow> hd (split_on (CHR ''/'') name) = ''__ds''"

definition invalid_segment :: "string \<Rightarrow> string option" where
  "invalid_segment name =
     find (\<lambda>seg. seg = [] \<or> seg = ''.'' \<or> seg = ''..'') (split_on (CHR ''/'') name)"

definition validate_name :: "string \<Rightarrow> stream_name_limits \<Rightarrow> string + unit" where
  "validate_name name limits =
     (if is_reserved name then Inl ''__ds is reserved for control APIs''
      else if name = [] then Inl ''stream name cannot be empty''
      else if last name = CHR ''/'' then Inl (''stream name must not end with '' @ quoted ''/'')
      else case invalid_segment name of
        Some seg \<Rightarrow>
          if seg = [] then
            Inl (''stream name contains empty segments (consecutive '' @ quoted ''/'' @ '' characters)'')
          else Inl (''stream name contains invalid segment '' @ quoted seg)
      | None \<Rightarrow>
          if length name > max_bytes limits then
            Inl (''stream name is '' @ nat_to_string (length name)
              @ '' bytes, which exceeds the maximum of '' @ nat_to_string (max_bytes limits) @ '' bytes'')
          else if length (split_on (CHR ''/'') name) > max_segments limits then
            Inl (''stream name has '' @ nat_to_string (length (split_on (CHR ''/'') name))
              @ '' path segments, which exceeds the maximum of '' @ nat_to_string (max_segments limits))
          else Inr ())"

text \<open>The extractor: one leading slash is stripped before validation.\<close>

definition stream_name_extract :: "string \<Rightarrow> stream_name_limits \<Rightarrow> string res" where
  "stream_name_extract raw_name limits =
     (let name = (case strip_prefix ''/'' raw_name of Some n \<Rightarrow> n | None \<Rightarrow> raw_name) in
      case validate_name name limits of
        Inl r \<Rightarrow> Inl (InvalidStreamName r)
      | Inr _ \<Rightarrow> Inr name)"

section \<open>Cursors\<close>

definition BYTE_OFFSET_BITS :: nat where
  "BYTE_OFFSET_BITS = 27"

definition offset_value :: "u64 \<Rightarrow> u64 \<Rightarrow> u64" where
  "offset_value rs bo = push_bit BYTE_OFFSET_BITS rs OR bo"

text \<open>
  \<open>CursorGenerator::generate\<close>. The argument \<open>lst\<close> is the counter a successful
  compare-exchange replaces; a failed exchange changes nothing and retries,
  so a call acts at the exchange that succeeds. \<open>lst + 1\<close> wraps at 64 bits.
\<close>

definition cursor_generate :: "u64 \<Rightarrow> offset \<Rightarrow> u64 \<times> string" where
  "cursor_generate lst off = (case parse_components off of
     Some (rs, bo) \<Rightarrow>
       let nxt = max (offset_value rs bo) (lst + 1) in (nxt, u64_to_string nxt)
   | None \<Rightarrow> (lst, ''0''))"

text \<open>The counter over a sequence of calls, with the emitted cursors.\<close>

fun cursor_run :: "u64 \<Rightarrow> offset list \<Rightarrow> u64 \<times> string list" where
  "cursor_run lst [] = (lst, [])"
| "cursor_run lst (off # offs) =
     (let (n, c) = cursor_generate lst off; (m, cs) = cursor_run n offs in (m, c # cs))"

section \<open>Lemmas\<close>

lemma header_str_Some: "header_str hs n = Some v \<longleftrightarrow> hs n = Some (Some v)"
  by (auto simp: header_str_def split: option.splits)

lemma parse_non_negative_int_bound:
  "parse_non_negative_int v h = Inr n \<Longrightarrow> n \<le> MAX_SAFE_INTEGER"
  by (auto simp: parse_non_negative_int_def Let_def split: if_splits sum.splits)

lemma parse_producer_headers_Some:
  assumes "parse_producer_headers hs = Inr (Some p)"
  shows "header_str hs ''Producer-Id'' = Some (prod_id p)" "prod_id p \<noteq> []"
    "prod_epoch p \<le> MAX_SAFE_INTEGER" "prod_seq p \<le> MAX_SAFE_INTEGER"
  using assms
  by (auto simp: parse_producer_headers_def parse_non_negative_int_bound split: option.splits if_splits sum.splits)

lemma find_None_iff_all: "find P xs = None \<longleftrightarrow> (\<forall>x\<in>set xs. \<not> P x)"
  by (auto simp: find_None_iff)

lemma invalid_segment_None:
  "invalid_segment name = None \<longleftrightarrow>
    (\<forall>seg\<in>set (split_on (CHR ''/'') name). \<not> (seg = [] \<or> seg = ''.'' \<or> seg = ''..''))"
  unfolding invalid_segment_def by (rule find_None_iff_all)

lemma invalid_segment_trailing:
  assumes "invalid_segment name = None"
  shows "name \<noteq> []" "last name \<noteq> CHR ''/''"
proof -
  have no_empty: "[] \<notin> set (split_on (CHR ''/'') name)"
    using assms by (metis invalid_segment_None)
  then show "name \<noteq> []" by auto
  then show "last name \<noteq> CHR ''/''"
    using no_empty split_on_trailing [of name "CHR ''/''"] by (metis last_in_set split_on_nonempty)
qed

lemma validate_name_Inr:
  "validate_name name l = Inr u \<longleftrightarrow>
    invalid_segment name = None \<and> \<not> is_reserved name \<and> length name \<le> max_bytes l \<and>
    length (split_on (CHR ''/'') name) \<le> max_segments l"
proof (cases "invalid_segment name")
  case None
  with invalid_segment_trailing [OF None] show ?thesis by (simp add: validate_name_def not_less)
next
  case (Some seg)
  then show ?thesis by (simp add: validate_name_def)
qed

lemma cursor_generate_greater:
  "cursor_generate lst off = (n, c) \<Longrightarrow> parse_components off \<noteq> None \<Longrightarrow> lst \<noteq> - 1 \<Longrightarrow> lst < n"
proof -
  assume a: "cursor_generate lst off = (n, c)" "parse_components off \<noteq> None" "lst \<noteq> - 1"
  then have "lst + 1 \<le> n" by (auto simp: cursor_generate_def Let_def)
  moreover from a(3) have "1 + lst \<noteq> 0" by (simp add: eq_neg_iff_add_eq_0 add.commute)
  then have "lst < lst + 1" by (simp add: word_less_nat_alt unatSuc add.commute)
  ultimately show "lst < n" by simp
qed

end
