(* ===== verification/DS_Storage.thy ===== *)
theory DS_Storage
  imports DS_Protocol
begin

text \<open>
  The storage vocabulary of \<open>storage/mod.rs\<close> (configuration, options, fork
  lineage, messages, results) and the validation helpers of
  \<open>storage/shared.rs\<close> that all three backends call: access and content-type
  checks, the \<open>Stream-Seq\<close> and producer state machines, byte accounting.

  A function of the source that reads the clock takes the reading as an
  argument here; the operations of the backend supply the readings in the
  order the code makes them.
\<close>

section \<open>Data of \<open>storage/mod.rs\<close>\<close>

record stream_config =
  content_type :: string
  ttl_seconds :: "u64 option"
  expires_at :: "time option"
  created_closed :: bool

text \<open>\<open>impl PartialEq for StreamConfig\<close>: a TTL-derived deadline is not compared.\<close>

definition config_eq :: "stream_config \<Rightarrow> stream_config \<Rightarrow> bool" where
  "config_eq a b \<longleftrightarrow>
     content_type a = content_type b \<and> ttl_seconds a = ttl_seconds b \<and>
     created_closed a = created_closed b \<and>
     (if ttl_seconds a \<noteq> None then True else expires_at a = expires_at b)"

datatype expiry = Never | Sliding u64 | At time

record stream_options =
  opt_content_type :: string
  opt_expiry :: expiry
  opt_created_closed :: bool

definition stream_options_new :: "string \<Rightarrow> stream_options" where
  "stream_options_new ct =
     \<lparr>opt_content_type = ct, opt_expiry = Never, opt_created_closed = False\<rparr>"

definition with_expiry :: "expiry \<Rightarrow> stream_options \<Rightarrow> stream_options" where
  "with_expiry e opts = opts\<lparr>opt_expiry := e\<rparr>"

definition with_ttl :: "u64 \<Rightarrow> stream_options \<Rightarrow> stream_options" where
  "with_ttl s opts = with_expiry (Sliding s) opts"

definition with_expires_at :: "time \<Rightarrow> stream_options \<Rightarrow> stream_options" where
  "with_expires_at t opts = with_expiry (At t) opts"

definition with_closed :: "bool \<Rightarrow> stream_options \<Rightarrow> stream_options" where
  "with_closed c opts = opts\<lparr>opt_created_closed := c\<rparr>"

definition ttl_deadline :: "env \<Rightarrow> u64 \<Rightarrow> time \<Rightarrow> time res" where
  "ttl_deadline E seconds now =
     (case Option.bind (i64_try_from seconds) (plus_seconds E now) of
        Some t \<Rightarrow> Inr t
      | None \<Rightarrow> Inl (InvalidTtl ''TTL exceeds the supported timestamp range''))"

definition resolve :: "env \<Rightarrow> stream_options \<Rightarrow> time \<Rightarrow> stream_config res" where
  "resolve E opts now =
     (let ct = normalize_content_type (opt_content_type opts) in
      if ct = [] \<or> \<not> header_value_ok E ct then
        Inl (InvalidHeader ''Content-Type'' ''expected a non-empty HTTP header value'')
      else
        let expiration = (case opt_expiry opts of
            Never \<Rightarrow> Inr (None, None)
          | Sliding seconds \<Rightarrow> (case ttl_deadline E seconds now of
               Inl e \<Rightarrow> Inl e | Inr t \<Rightarrow> Inr (Some seconds, Some t))
          | At deadline \<Rightarrow> Inr (None, Some deadline)) in
        case expiration of
          Inl e \<Rightarrow> Inl e
        | Inr (ttl, ex) \<Rightarrow>
            Inr \<lparr>content_type = ct, ttl_seconds = ttl, expires_at = ex,
                 created_closed = opt_created_closed opts\<rparr>)"

definition creation_options :: "stream_config \<Rightarrow> stream_options" where
  "creation_options c =
     with_closed (created_closed c)
       (with_expiry (case ttl_seconds c of
            Some s \<Rightarrow> Sliding s
          | None \<Rightarrow> (case expires_at c of None \<Rightarrow> Never | Some t \<Rightarrow> At t))
         (stream_options_new (content_type c)))"

record fork_info =
  source_name :: string
  fork_offset :: offset
  sub_offset :: u64

text \<open>The derived \<open>PartialEq\<close> of \<open>ForkInfo\<close> compares offsets with theirs.\<close>

definition fork_info_eq :: "fork_info \<Rightarrow> fork_info \<Rightarrow> bool" where
  "fork_info_eq a b \<longleftrightarrow> source_name a = source_name b \<and>
     offset_eq (fork_offset a) (fork_offset b) \<and> sub_offset a = sub_offset b"

record fork_options =
  fo_sub_offset :: u64
  inherit_content_type :: bool
  initial_body :: bytes

datatype stream_state = Active | Tombstone

record message =
  msg_offset :: offset
  msg_data :: bytes
  msg_byte_len :: u64

definition message_new :: "offset \<Rightarrow> bytes \<Rightarrow> message" where
  "message_new off d = \<lparr>msg_offset = off, msg_data = d, msg_byte_len = u64_of_usize (length d)\<rparr>"

record read_result =
  rr_messages :: "bytes list"
  rr_next_offset :: offset
  rr_at_tail :: bool
  rr_closed :: bool

datatype create_stream_result = Created | AlreadyExists

record create_with_data_result =
  cw_status :: create_stream_result
  cw_next_offset :: offset
  cw_closed :: bool

record append_result =
  ar_start_offset :: offset
  ar_next_offset :: offset
  ar_closed :: bool

datatype producer_append_result =
    Accepted (pa_epoch: u64) (pa_seq: u64) (pa_next_offset: offset) (pa_closed: bool)
  | Duplicate (pa_epoch: u64) (pa_seq: u64) (pa_next_offset: offset) (pa_closed: bool)

record fork_create_spec =
  spec_sub_offset :: u64
  spec_source_name :: string
  spec_fork_offset :: offset
  spec_config :: stream_config

record stream_metadata =
  md_config :: stream_config
  md_next_offset :: offset
  md_closed :: bool
  md_total_bytes :: u64
  md_message_count :: u64
  md_created_at :: time
  md_updated_at :: "time option"

section \<open>Helpers of \<open>storage/shared.rs\<close>\<close>

definition PRODUCER_STATE_TTL_SECS :: int where
  "PRODUCER_STATE_TTL_SECS = 7 * 24 * 60 * 60"

record producer_state =
  ps_epoch :: u64
  ps_last_seq :: u64
  ps_updated_at :: time

type_synonym producers = "string \<rightharpoonup> producer_state"

datatype producer_check = CheckAccept | CheckDuplicate u64 u64

definition is_stream_expired :: "time \<Rightarrow> stream_config \<Rightarrow> bool" where
  "is_stream_expired now c = (case expires_at c of None \<Rightarrow> False | Some t \<Rightarrow> now \<ge> t)"

definition validate_content_type :: "string \<Rightarrow> string \<Rightarrow> unit res" where
  "validate_content_type stream_ct request_ct =
     (if \<not> eq_ignore_ascii_case request_ct stream_ct
      then Inl (ContentTypeMismatch stream_ct request_ct) else Inr ())"

definition validate_seq :: "string option \<Rightarrow> string option \<Rightarrow> string option res" where
  "validate_seq last_seq new_seq = (case new_seq of
     Some new \<Rightarrow> (case last_seq of
         Some l \<Rightarrow> if new \<le> l then Inl (SeqOrderingViolation l new) else Inr (Some new)
       | None \<Rightarrow> Inr (Some new))
   | None \<Rightarrow> Inr None)"

text \<open>\<open>HashMap::retain\<close> with the cutoff of seven days before the clock reading.\<close>

definition cleanup_stale_producers :: "env \<Rightarrow> time \<Rightarrow> producers \<Rightarrow> producers" where
  "cleanup_stale_producers E now ps =
     (let cutoff = minus_seconds E now PRODUCER_STATE_TTL_SECS in
      (\<lambda>k. case ps k of
            Some st \<Rightarrow> if ps_updated_at st > cutoff then Some st else None
          | None \<Rightarrow> None))"

definition is_stream_visible :: "time \<Rightarrow> stream_config \<Rightarrow> stream_state \<Rightarrow> bool" where
  "is_stream_visible now c st \<longleftrightarrow> \<not> is_stream_expired now c \<and> st = Active"

definition build_stream_metadata ::
  "stream_config \<Rightarrow> u64 \<Rightarrow> u64 \<Rightarrow> bool \<Rightarrow> u64 \<Rightarrow> u64 \<Rightarrow> time \<Rightarrow> time option \<Rightarrow> stream_metadata" where
  "build_stream_metadata c nrs nbo cl tb mc cr up =
     \<lparr>md_config = c, md_next_offset = offset_new nrs nbo, md_closed = cl, md_total_bytes = tb,
      md_message_count = mc, md_created_at = cr, md_updated_at = up\<rparr>"

text \<open>\<open>fork::check_stream_access\<close>, used by the prechecks: tombstone before expiry.\<close>

definition check_stream_access :: "time \<Rightarrow> stream_config \<Rightarrow> stream_state \<Rightarrow> string \<Rightarrow> unit res" where
  "check_stream_access now c st name =
     (if st = Tombstone then Inl (StreamGone name)
      else if is_stream_expired now c then Inl StreamExpired
      else Inr ())"

definition precheck_append ::
  "time \<Rightarrow> stream_config \<Rightarrow> stream_state \<Rightarrow> bool \<Rightarrow> string \<Rightarrow> string \<Rightarrow> unit res" where
  "precheck_append now c st closed name ct =
     (case check_stream_access now c st name of
        Inl e \<Rightarrow> Inl e
      | Inr _ \<Rightarrow> if closed then Inl StreamClosed else validate_content_type (content_type c) ct)"

definition precheck_batch_append ::
  "time \<Rightarrow> stream_config \<Rightarrow> stream_state \<Rightarrow> bool \<Rightarrow> string option \<Rightarrow> string \<Rightarrow>
   string option \<Rightarrow> string option \<Rightarrow> string option res" where
  "precheck_batch_append now c st closed last_seq name ct new_seq =
     (case (case ct of Some t \<Rightarrow> precheck_append now c st closed name t
                     | None \<Rightarrow> check_stream_access now c st name) of
        Inl e \<Rightarrow> Inl e
      | Inr _ \<Rightarrow> validate_seq last_seq new_seq)"

definition check_producer ::
  "producer_state option \<Rightarrow> producer_headers \<Rightarrow> bool \<Rightarrow> producer_check res" where
  "check_producer existing p stream_closed = (case existing of
     Some st \<Rightarrow>
       if prod_epoch p < ps_epoch st then Inl (EpochFenced (ps_epoch st) (prod_epoch p))
       else if prod_epoch p = ps_epoch st \<and> prod_seq p \<le> ps_last_seq st then
         Inr (CheckDuplicate (ps_epoch st) (ps_last_seq st))
       else if stream_closed then Inl StreamClosed
       else if prod_epoch p > ps_epoch st then
         (if prod_seq p \<noteq> 0 then Inl (InvalidProducerState ''new epoch must start at seq 0'')
          else Inr CheckAccept)
       else if prod_seq p > ps_last_seq st + 1 then Inl (SequenceGap (ps_last_seq st + 1) (prod_seq p))
       else Inr CheckAccept
   | None \<Rightarrow>
       if stream_closed then Inl StreamClosed
       else if prod_seq p \<noteq> 0 then Inl (SequenceGap 0 (prod_seq p))
       else Inr CheckAccept)"

datatype producer_append_precheck = PrecheckAccept "string option" | PrecheckDuplicate u64 u64

text \<open>
  The producer precheck also prunes stale producers in place; the pruned map
  is part of the result even when the check fails later.
\<close>

definition precheck_producer_append ::
  "env \<Rightarrow> time \<Rightarrow> time \<Rightarrow> stream_config \<Rightarrow> stream_state \<Rightarrow> bool \<Rightarrow> string option \<Rightarrow> producers \<Rightarrow> string \<Rightarrow>
   string \<Rightarrow> producer_headers \<Rightarrow> bytes list \<Rightarrow> string option \<Rightarrow> producers \<times> producer_append_precheck res" where
  "precheck_producer_append E now0 now1 c st closed last_seq ps name ct p msgs new_seq =
     (case check_stream_access now0 c st name of
        Inl e \<Rightarrow> (ps, Inl e)
      | Inr _ \<Rightarrow>
        let ps' = cleanup_stale_producers E now1 ps in
        (ps',
         case (if msgs \<noteq> [] then validate_content_type (content_type c) ct else Inr ()) of
           Inl e \<Rightarrow> Inl e
         | Inr _ \<Rightarrow>
           (case check_producer (ps' (prod_id p)) p closed of
              Inl e \<Rightarrow> Inl e
            | Inr (CheckDuplicate ep sq) \<Rightarrow> Inr (PrecheckDuplicate ep sq)
            | Inr CheckAccept \<Rightarrow>
              (case validate_seq last_seq new_seq of
                 Inl e \<Rightarrow> Inl e
               | Inr pending \<Rightarrow> Inr (PrecheckAccept pending)))))"

text \<open>\<open>fork::renew_ttl\<close>: the renewed configuration and whether it changed.\<close>

definition renew_ttl :: "env \<Rightarrow> time \<Rightarrow> stream_config \<Rightarrow> (stream_config \<times> bool) res" where
  "renew_ttl E now c = (case ttl_seconds c of
     Some ttl \<Rightarrow> (case ttl_deadline E ttl now of
         Inl e \<Rightarrow> Inl e
       | Inr t \<Rightarrow> Inr (c\<lparr>expires_at := Some t\<rparr>, True))
   | None \<Rightarrow> Inr (c, False))"

text \<open>
  \<open>apply_append_metadata\<close> on the copies the caller makes: the new
  configuration, \<open>Stream-Seq\<close> value and update time, or the TTL error.
\<close>

definition apply_append_metadata ::
  "env \<Rightarrow> time \<Rightarrow> time \<Rightarrow> stream_config \<Rightarrow> string option \<Rightarrow> string option \<Rightarrow>
   (stream_config \<times> string option \<times> time option \<times> bool) res" where
  "apply_append_metadata E now ttl_now c last_seq pending =
     (let seq' = (case pending of Some n \<Rightarrow> Some n | None \<Rightarrow> last_seq) in
      case renew_ttl E ttl_now c of
        Inl e \<Rightarrow> Inl e
      | Inr (c', changed) \<Rightarrow> Inr (c', seq', Some now, changed))"

datatype pending_read = Complete read_result | Fork fork_info read_result

text \<open>
  \<open>PendingRead::finish\<close>. The reader of the inherited prefix may fail to return
  (\<open>None\<close>), and so may the read then.
\<close>

definition pending_finish ::
  "pending_read \<Rightarrow> offset \<Rightarrow> (string \<Rightarrow> offset \<Rightarrow> offset \<Rightarrow> bytes list res option) \<Rightarrow>
   read_result res option" where
  "pending_finish pr from read_source = (case pr of
     Complete r \<Rightarrow> Some (Inr r)
   | Fork info local \<Rightarrow>
       if offset_is_start from \<or> offset_lt from (fork_offset info) then
         (case read_source (source_name info) from (fork_offset info) of
            None \<Rightarrow> None
          | Some (Inl e) \<Rightarrow> Some (Inl e)
          | Some (Inr msgs) \<Rightarrow> Some (Inr (local\<lparr>rr_messages := msgs @ rr_messages local\<rparr>)))
       else Some (Inr local))"

definition validate_batch_shape :: "bytes list \<Rightarrow> bool \<Rightarrow> unit res" where
  "validate_batch_shape msgs close =
     (if msgs = [] \<and> \<not> close then Inl (InvalidHeader ''Content-Length'' ''batch cannot be empty'')
      else Inr ())"

text \<open>The atomic counter updates: the new value of the counter, or the error.\<close>

definition reserve_bytes :: "u64 \<Rightarrow> u64 \<Rightarrow> u64 \<Rightarrow> u64 res" where
  "reserve_bytes tot limit n = (case checked_add tot n of
     Some nxt \<Rightarrow> if nxt \<le> limit then Inr nxt else Inl MemoryLimitExceeded
   | None \<Rightarrow> Inl MemoryLimitExceeded)"

definition release_bytes :: "u64 \<Rightarrow> u64 \<Rightarrow> u64" where
  "release_bytes tot n = saturating_sub tot n"

definition payload_bytes :: "bytes list \<Rightarrow> u64" where
  "payload_bytes msgs = sum_list (map (\<lambda>m. u64_of_usize (length m)) msgs)"

section \<open>Lemmas\<close>

text \<open>A batch whose payload is below \<open>2^64\<close> bytes (all that an address space can hold).\<close>

definition payload_fits :: "bytes list \<Rightarrow> bool" where
  "payload_fits msgs \<longleftrightarrow> sum_list (map length msgs) < 2 ^ 64"

lemma payload_fits_Cons:
  "payload_fits (m # ms) \<Longrightarrow> payload_fits ms \<and> length m < 2 ^ 64"
  by (auto simp: payload_fits_def)

lemma unat_payload_bytes [word_facts]:
  "payload_fits msgs \<Longrightarrow> unat (payload_bytes msgs) = sum_list (map length msgs)"
proof (induction msgs)
  case (Cons m ms)
  then have "payload_fits ms" and m: "length m < 2 ^ 64" by (auto dest: payload_fits_Cons)
  with Cons show ?case
    by (simp add: payload_bytes_def payload_fits_def unat_word_ariths unat_u64_of_usize)
qed (simp add: payload_bytes_def)

lemma payload_bytes_Nil [simp]: "payload_bytes [] = 0"
  by (simp add: payload_bytes_def)

lemma payload_bytes_Cons: "payload_bytes (m # ms) = u64_of_usize (length m) + payload_bytes ms"
  by (simp add: payload_bytes_def)

lemma reserve_bytes_Inr:
  "reserve_bytes tot limit n = Inr t \<longleftrightarrow>
     unat tot + unat n \<le> unat limit \<and> t = tot + n"
proof -
  have "unat tot + unat n \<le> unat limit \<Longrightarrow> unat tot + unat n < 2 ^ 64"
    using unat_less_u64 [of limit] by linarith
  then show ?thesis
    by (auto simp: reserve_bytes_def checked_add_def word_le_nat_alt unat_word_ariths
        split: if_splits)
qed

lemma unat_reserve_bytes [word_facts]:
  "reserve_bytes tot limit n = Inr t \<Longrightarrow> unat t = unat tot + unat n"
  by (auto simp: reserve_bytes_def dest: checked_add_Some split: option.splits if_splits)

lemma unat_release_bytes [word_facts]: "unat (release_bytes tot n) = unat tot - unat n"
  by (simp add: release_bytes_def unat_saturating_sub)

lemma release_reserve [simp]: "reserve_bytes tot limit n = Inr t \<Longrightarrow> release_bytes t n = tot"
  by (simp add: word_unat_eq_iff unat_release_bytes unat_reserve_bytes)

lemma check_stream_access_Inr [simp]:
  "check_stream_access now c st name = Inr u \<longleftrightarrow> st = Active \<and> \<not> is_stream_expired now c"
  by (cases st) (auto simp: check_stream_access_def)

lemma validate_content_type_refl [simp]: "validate_content_type ct ct = Inr ()"
  by (simp add: validate_content_type_def eq_ignore_ascii_case_def)

lemma config_eq_refl [simp]: "config_eq c c"
  by (simp add: config_eq_def)

lemma renew_ttl_None [simp]: "ttl_seconds c = None \<Longrightarrow> renew_ttl E now c = Inr (c, False)"
  by (simp add: renew_ttl_def)

lemma renew_ttl_keeps:
  "renew_ttl E now c = Inr (c', b) \<Longrightarrow>
    content_type c' = content_type c \<and> ttl_seconds c' = ttl_seconds c \<and> created_closed c' = created_closed c"
  by (auto simp: renew_ttl_def split: option.splits sum.splits)

lemma config_eq_sym: "config_eq a b \<Longrightarrow> config_eq b a"
  by (auto simp: config_eq_def split: if_splits)

lemma config_eq_trans: "config_eq a b \<Longrightarrow> config_eq b c \<Longrightarrow> config_eq a c"
  by (auto simp: config_eq_def split: if_splits)

lemma fork_info_eq_refl [simp]: "fork_info_eq f f"
  by (simp add: fork_info_eq_def offset_eq_def split: option.splits)

end
