(* ===== verification/DS_Fork.thy ===== *)
theory DS_Fork
  imports DS_Storage
begin

text \<open>
  The fork lifecycle policy of \<open>storage/fork.rs\<close>: source access, inheritance of
  TTL and content type, create-time idempotency, delete dispositions, the
  read plan over a lineage and the range of a local index, and the initial
  messages of a fork.
\<close>

section \<open>Access and inheritance\<close>

definition check_fork_source_access :: "time \<Rightarrow> stream_config \<Rightarrow> stream_state \<Rightarrow> string \<Rightarrow> unit res" where
  "check_fork_source_access now c st name =
     (if st = Tombstone then Inl (ForkFromTombstone name)
      else if is_stream_expired now c then Inl StreamExpired
      else Inr ())"

text \<open>
  At most one of the two deadlines of \<open>resolve_fork_ttl\<close> is computed, so one
  clock reading serves both.
\<close>

definition resolve_fork_ttl ::
  "env \<Rightarrow> time \<Rightarrow> stream_config \<Rightarrow> u64 option \<Rightarrow> time option \<Rightarrow> (u64 option \<times> time option) res" where
  "resolve_fork_ttl E now src fork_ttl fork_expires_at = (case fork_ttl of
     Some ttl \<Rightarrow> (case ttl_deadline E ttl now of Inl e \<Rightarrow> Inl e | Inr t \<Rightarrow> Inr (Some ttl, Some t))
   | None \<Rightarrow> (case fork_expires_at of
       Some deadline \<Rightarrow> Inr (None, Some deadline)
     | None \<Rightarrow> (case ttl_seconds src of
         Some ttl \<Rightarrow> (case ttl_deadline E ttl now of Inl e \<Rightarrow> Inl e | Inr t \<Rightarrow> Inr (Some ttl, Some t))
       | None \<Rightarrow> Inr (None, expires_at src))))"

definition build_fork_config :: "env \<Rightarrow> time \<Rightarrow> stream_config \<Rightarrow> stream_config \<Rightarrow> stream_config res" where
  "build_fork_config E now src req =
     (case resolve_fork_ttl E now src (ttl_seconds req) (expires_at req) of
        Inl e \<Rightarrow> Inl e
      | Inr (ttl, ex) \<Rightarrow>
          Inr \<lparr>content_type = content_type src, ttl_seconds = ttl, expires_at = ex,
               created_closed = created_closed req\<rparr>)"

definition build_fork_create_spec ::
  "env \<Rightarrow> time \<Rightarrow> string \<Rightarrow> stream_config \<Rightarrow> stream_config \<Rightarrow> offset \<Rightarrow> fork_create_spec res" where
  "build_fork_create_spec E now src_name src req off =
     (case build_fork_config E now src req of
        Inl e \<Rightarrow> Inl e
      | Inr c \<Rightarrow> Inr \<lparr>spec_sub_offset = 0, spec_source_name = src_name, spec_fork_offset = off, spec_config = c\<rparr>)"

definition resolve_fork_offset :: "offset option \<Rightarrow> offset \<Rightarrow> offset res" where
  "resolve_fork_offset requested source_next = (case requested of
     Some off \<Rightarrow> if offset_gt off source_next then Inl ForkOffsetBeyondTail else Inr off
   | None \<Rightarrow> Inr source_next)"

section \<open>Create and delete dispositions\<close>

datatype existing_create_disposition = RemoveExpired | DispAlreadyExists | Conflict error

definition existing_path_disposition ::
  "time \<Rightarrow> string \<Rightarrow> stream_config \<Rightarrow> stream_state \<Rightarrow> u32 \<Rightarrow> existing_create_disposition option" where
  "existing_path_disposition now name c st ref_count =
     (if is_stream_expired now c then
        (if ref_count > 0 then Some (Conflict (StreamPathBlocked name)) else Some RemoveExpired)
      else if st = Tombstone then Some (Conflict (StreamPathBlocked name))
      else None)"

definition evaluate_root_create ::
  "time \<Rightarrow> string \<Rightarrow> stream_config \<Rightarrow> stream_state \<Rightarrow> u32 \<Rightarrow> stream_config \<Rightarrow> existing_create_disposition" where
  "evaluate_root_create now name c st ref_count req =
     (case existing_path_disposition now name c st ref_count of
        Some d \<Rightarrow> d
      | None \<Rightarrow> if config_eq c req then DispAlreadyExists else Conflict ConfigMismatch)"

definition prepare_fork_spec ::
  "env \<Rightarrow> time \<Rightarrow> time \<Rightarrow> string \<Rightarrow> stream_config \<Rightarrow> stream_state \<Rightarrow> offset \<Rightarrow> offset option \<Rightarrow> stream_config \<Rightarrow>
   (fork_create_spec \<times> offset) res" where
  "prepare_fork_spec E now ttl_now src_name src src_state src_next requested req =
     (case check_fork_source_access now src src_state src_name of
        Inl e \<Rightarrow> Inl e
      | Inr _ \<Rightarrow>
     (case resolve_fork_offset requested src_next of
        Inl e \<Rightarrow> Inl e
      | Inr off \<Rightarrow>
     (case validate_content_type (content_type src) (content_type req) of
        Inl e \<Rightarrow> Inl e
      | Inr _ \<Rightarrow>
     (case build_fork_create_spec E ttl_now src_name src req off of
        Inl e \<Rightarrow> Inl e
      | Inr spec \<Rightarrow> Inr (spec, off)))))"

definition evaluate_fork_create ::
  "time \<Rightarrow> string \<Rightarrow> stream_config \<Rightarrow> fork_info option \<Rightarrow> stream_state \<Rightarrow> u32 \<Rightarrow> fork_create_spec \<Rightarrow>
   existing_create_disposition" where
  "evaluate_fork_create now name c fi st ref_count spec =
     (case existing_path_disposition now name c st ref_count of
        Some d \<Rightarrow> d
      | None \<Rightarrow>
        let expected = \<lparr>source_name = spec_source_name spec, fork_offset = spec_fork_offset spec,
                        sub_offset = spec_sub_offset spec\<rparr> in
        if config_eq c (spec_config spec) \<and> (case fi of Some f \<Rightarrow> fork_info_eq f expected | None \<Rightarrow> False)
        then DispAlreadyExists else Conflict ConfigMismatch)"

datatype delete_disposition = DispTombstone | HardDelete

definition evaluate_delete :: "string \<Rightarrow> stream_state \<Rightarrow> u32 \<Rightarrow> delete_disposition res" where
  "evaluate_delete name st ref_count =
     (if st = Tombstone then Inl (StreamGone name)
      else if ref_count > 0 then Inr DispTombstone else Inr HardDelete)"

definition evaluate_expired_cleanup :: "u32 \<Rightarrow> delete_disposition" where
  "evaluate_expired_cleanup ref_count = (if ref_count > 0 then DispTombstone else HardDelete)"

definition check_replace :: "u32 \<Rightarrow> fork_info option \<Rightarrow> unit res" where
  "check_replace ref_count fi =
     (if ref_count \<noteq> 0 \<or> fi \<noteq> None then Inl ReplacementHasForks else Inr ())"

section \<open>Read plans\<close>

record read_segment =
  seg_name :: string
  read_up_to :: "offset option"

text \<open>
  The lineage walk of \<open>build_read_plan\<close>. The loop ends when it reaches a
  stream without fork information; on a cyclic lineage it would run forever,
  which is the value \<open>None\<close>.
\<close>

partial_function (option) lineage_chain ::
  "(string \<Rightarrow> fork_info option res) \<Rightarrow> string \<Rightarrow> (string \<times> offset option) list \<Rightarrow>
   (string \<times> offset option) list res option" where
  "lineage_chain lookup cur chain =
     (case lookup cur of
        Inl e \<Rightarrow> Some (Inl e)
      | Inr fo \<Rightarrow>
        (case fo of
           Some fi \<Rightarrow> lineage_chain lookup (source_name fi) (chain @ [(cur, Some (fork_offset fi))])
         | None \<Rightarrow> Some (Inr (chain @ [(cur, None)]))))"

declare lineage_chain.simps [code]

text \<open>The segments, root first: each stops at the fork offset of the next.\<close>

fun plan_segments :: "(string \<times> offset option) list \<Rightarrow> read_segment list" where
  "plan_segments [] = []"
| "plan_segments [(n, _)] = [\<lparr>seg_name = n, read_up_to = None\<rparr>]"
| "plan_segments ((n, _) # (m, f) # rest) =
     \<lparr>seg_name = n, read_up_to = f\<rparr> # plan_segments ((m, f) # rest)"

text \<open>The tightening pass runs over the segments from the leaf to the root with a running minimum.\<close>

fun tighten :: "offset option \<Rightarrow> read_segment list \<Rightarrow> read_segment list" where
  "tighten bound [] = []"
| "tighten bound (seg # segs) =
     (let bound' = (case read_up_to seg of
          Some local \<Rightarrow> Some (case bound of None \<Rightarrow> local | Some b \<Rightarrow> offset_min b local)
        | None \<Rightarrow> bound)
      in seg\<lparr>read_up_to := bound'\<rparr> # tighten bound' segs)"

definition build_read_plan ::
  "string \<Rightarrow> (string \<Rightarrow> fork_info option res) \<Rightarrow> read_segment list res option" where
  "build_read_plan name lookup = (case lineage_chain lookup name [] of
     None \<Rightarrow> None
   | Some (Inl e) \<Rightarrow> Some (Inl e)
   | Some (Inr chain) \<Rightarrow> Some (Inr (rev (tighten None (rev (plan_segments (rev chain)))))))"

text \<open>\<open>message_range\<close>: inclusive start, exclusive end, never inverted.\<close>

definition message_range :: "('a \<Rightarrow> offset) \<Rightarrow> 'a list \<Rightarrow> offset \<Rightarrow> offset option \<Rightarrow> nat \<times> nat" where
  "message_range off msgs from up_to =
     (let st = (if offset_is_start from then 0 else partition_point (\<lambda>m. offset_lt (off m) from) msgs);
          en = (case up_to of None \<Rightarrow> length msgs
                | Some b \<Rightarrow> partition_point (\<lambda>m. offset_lt (off m) b) msgs)
      in (st, max en st))"

section \<open>Initial messages of a fork\<close>

definition usize_try_from :: "u64 \<Rightarrow> nat option" where
  "usize_try_from n = Some (unat n)"

definition initial_fork_messages ::
  "env \<Rightarrow> stream_config \<Rightarrow> fork_options \<Rightarrow> bytes list \<Rightarrow> bytes list res" where
  "initial_fork_messages E c opts source_messages =
     (let invalid = InvalidHeader ''Stream-Fork-Sub-Offset''
            ''sub-offset exceeds the available data after the anchor'' in
      case usize_try_from (fo_sub_offset opts) of
        None \<Rightarrow> Inl invalid
      | Some count \<Rightarrow>
        let inherited =
          (if count > 0 then
             (if is_json_content_type (content_type c) then
                (if count > length source_messages then Inl invalid
                 else Inr (take count source_messages))
              else (case source_messages of
                  [] \<Rightarrow> Inl invalid
                | first # _ \<Rightarrow> if count > length first then Inl invalid else Inr [take count first]))
           else Inr []) in
        case inherited of
          Inl e \<Rightarrow> Inl e
        | Inr msgs \<Rightarrow>
          (case extract_messages E (initial_body opts) (content_type c) of
             Inl e \<Rightarrow> Inl e
           | Inr body \<Rightarrow> Inr (msgs @ body)))"

section \<open>Lemmas\<close>

lemma build_fork_config_content_type:
  "build_fork_config E now src req = Inr c \<Longrightarrow>
    content_type c = content_type src \<and> created_closed c = created_closed req"
  by (auto simp: build_fork_config_def split: sum.splits)

lemma resolve_fork_offset_Inr:
  assumes "resolve_fork_offset requested nxt = Inr off" "wf_offset nxt"
    "\<And>r. requested = Some r \<Longrightarrow> wf_offset r"
  shows "wf_offset off \<and> \<not> offset_lt nxt off"
  using assms
  by (auto simp: resolve_fork_offset_def offset_gt_lt offset_lt_key split: option.splits if_splits)

lemma prepare_fork_spec_Inr:
  assumes "prepare_fork_spec E now ttl_now n src st nxt requested req = Inr (spec, off)"
  shows "st = Active" "\<not> is_stream_expired now src" "resolve_fork_offset requested nxt = Inr off"
    "spec_source_name spec = n" "spec_fork_offset spec = off"
    "content_type (spec_config spec) = content_type src"
    "created_closed (spec_config spec) = created_closed req"
  using assms
  by (cases st;
    auto simp: prepare_fork_spec_def check_fork_source_access_def build_fork_create_spec_def
      dest: build_fork_config_content_type split: sum.splits if_splits)+

text \<open>
  On an index ordered by offset, the range selects exactly the messages at or
  after the start and before the bound.
\<close>

lemma message_range_filter:
  assumes sorted: "sorted_wrt (\<lambda>a b. offset_lt (off a) (off b)) msgs"
    and wf: "\<forall>m\<in>set msgs. wf_offset (off m)" "wf_offset from" "\<And>b. up_to = Some b \<Longrightarrow> wf_offset b"
  shows "(case message_range off msgs from up_to of (a, b) \<Rightarrow> slice a b msgs)
    = filter (\<lambda>m. (offset_is_start from \<or> \<not> offset_lt (off m) from) \<and>
                  (case up_to of None \<Rightarrow> True | Some b \<Rightarrow> offset_lt (off m) b)) msgs"
proof -
  have part: "sorted_wrt (\<lambda>a b. offset_lt (off b) x \<longrightarrow> offset_lt (off a) x) msgs"
    if "wf_offset x" for x
    using sorted by (rule sorted_wrt_mono_rel [rotated])
      (use wf that in \<open>auto simp: offset_lt_key\<close>)
  have false: "sorted_wrt (\<lambda>a b. False \<longrightarrow> False) msgs" "partition_point (\<lambda>_. False) msgs = 0"
    "sorted_wrt (\<lambda>a b. True \<longrightarrow> True) msgs" "partition_point (\<lambda>_. True) msgs = length msgs"
    by (simp_all add: sorted_wrt_true partition_point_def takeWhile_eq_Nil_iff takeWhile_eq_all_conv [THEN iffD2])
  let ?P = "\<lambda>m. \<not> offset_is_start from \<and> offset_lt (off m) from"
  let ?Q = "\<lambda>m. case up_to of None \<Rightarrow> True | Some b \<Rightarrow> offset_lt (off m) b"
  have P: "sorted_wrt (\<lambda>a b. ?P b \<longrightarrow> ?P a) msgs"
    using part [OF wf(2)] by (cases "offset_is_start from") (auto simp: sorted_wrt_true)
  have Q: "sorted_wrt (\<lambda>a b. ?Q b \<longrightarrow> ?Q a) msgs"
    using part [OF wf(3)] by (cases up_to) (auto simp: sorted_wrt_true)
  have "message_range off msgs from up_to =
      (partition_point ?P msgs, max (partition_point ?Q msgs) (partition_point ?P msgs))"
    using false by (cases up_to) (auto simp: message_range_def Let_def)
  then show ?thesis using slice_filter [OF P Q] by simp
qed

lemma evaluate_delete_Inr:
  "evaluate_delete n st r = Inr d \<longleftrightarrow> st = Active \<and> d = (if r > 0 then DispTombstone else HardDelete)"
  by (cases st) (auto simp: evaluate_delete_def)

lemma evaluate_create_RemoveExpired:
  "evaluate_root_create now n c st r req = RemoveExpired \<longleftrightarrow> is_stream_expired now c \<and> r = 0"
  "evaluate_fork_create now n c fi st r spec = RemoveExpired \<longleftrightarrow> is_stream_expired now c \<and> r = 0"
  by (auto simp: evaluate_root_create_def evaluate_fork_create_def existing_path_disposition_def
      word_gt_0 Let_def split: if_splits option.splits)

end
