(* ===== verification/DS_Memory.thy ===== *)
theory DS_Memory
  imports DS_Fork "HOL-Library.Finite_Map"
begin

text \<open>
  The in-memory backend, \<open>storage/memory.rs\<close>: its state and every operation of
  the \<open>Storage\<close> trait, with the trait's default methods of \<open>storage/mod.rs\<close>.

  An operation maps the state to the new state and the result, also when the
  result is an error, because some failing operations have changed the state
  (a stale producer pruned, an expired stream removed). Each operation holds
  its locks for its whole duration except \<open>read\<close> on a fork, whose two halves
  (\<open>prepare_read\<close> and \<open>finish_read\<close>) are separate definitions. The tokio
  broadcast sender of a stream is the number of notifications sent on it.
\<close>

section \<open>State\<close>

record stream_entry =
  se_config :: stream_config
  se_messages :: "message list"
  se_closed :: bool
  se_next_read_seq :: u64
  se_next_byte_offset :: u64
  se_total_bytes :: u64
  se_created_at :: time
  se_updated_at :: "time option"
  se_producers :: producers
  se_notify :: nat
  se_last_seq :: "string option"
  se_fork_info :: "fork_info option"
  se_ref_count :: u32
  se_state :: stream_state

type_synonym stream_map = "(string, stream_entry) fmap"

record mem =
  mem_subscription_state :: "bytes option"
  mem_streams :: stream_map
  mem_total_bytes :: u64
  mem_max_total_bytes :: u64
  mem_max_stream_bytes :: u64

definition entry_next_offset :: "stream_entry \<Rightarrow> offset" where
  "entry_next_offset e = offset_new (se_next_read_seq e) (se_next_byte_offset e)"

definition entry_metadata :: "stream_entry \<Rightarrow> stream_metadata" where
  "entry_metadata e = build_stream_metadata (se_config e) (se_next_read_seq e) (se_next_byte_offset e)
     (se_closed e) (se_total_bytes e) (u64_of_usize (length (se_messages e))) (se_created_at e)
     (se_updated_at e)"

definition stream_entry_new :: "stream_config \<Rightarrow> time \<Rightarrow> stream_entry" where
  "stream_entry_new c now =
     \<lparr>se_config = c, se_messages = [], se_closed = False, se_next_read_seq = 0, se_next_byte_offset = 0,
      se_total_bytes = 0, se_created_at = now, se_updated_at = None, se_producers = Map.empty,
      se_notify = 0, se_last_seq = None, se_fork_info = None, se_ref_count = 0, se_state = Active\<rparr>"

definition mem_new :: "u64 \<Rightarrow> u64 \<Rightarrow> mem" where
  "mem_new max_total max_stream =
     \<lparr>mem_subscription_state = None, mem_streams = fmempty, mem_total_bytes = 0,
      mem_max_total_bytes = max_total, mem_max_stream_bytes = max_stream\<rparr>"

definition get_stream :: "mem \<Rightarrow> string \<Rightarrow> stream_entry option" where
  "get_stream s name = fmlookup (mem_streams s) name"

definition set_stream :: "string \<Rightarrow> stream_entry \<Rightarrow> mem \<Rightarrow> mem" where
  "set_stream name e s = s\<lparr>mem_streams := fmupd name e (mem_streams s)\<rparr>"

definition drop_stream :: "string \<Rightarrow> mem \<Rightarrow> mem" where
  "drop_stream name s = s\<lparr>mem_streams := fmdrop name (mem_streams s)\<rparr>"

section \<open>Removal and the delete cascade\<close>

definition hard_remove_stream :: "mem \<Rightarrow> string \<Rightarrow> mem \<times> fork_info option" where
  "hard_remove_stream s name = (case get_stream s name of
     None \<Rightarrow> (s, None)
   | Some e \<Rightarrow>
       ((drop_stream name s)\<lparr>mem_total_bytes := release_bytes (mem_total_bytes s) (se_total_bytes e)\<rparr>,
        se_fork_info e))"

text \<open>
  The loop of \<open>cascade_delete\<close>: decrement the parent; when it is a tombstone
  without references, remove it and continue with its own parent. Each round
  that continues removes a stream, so the loop ends.
\<close>

function cascade_delete :: "mem \<Rightarrow> string \<Rightarrow> mem" where
  "cascade_delete s cur = (case get_stream s cur of
     None \<Rightarrow> s
   | Some p \<Rightarrow>
       let p' = p\<lparr>se_ref_count := saturating_sub (se_ref_count p) 1\<rparr> in
       if se_state p' = Tombstone \<and> se_ref_count p' = 0 then
         (let s' = (drop_stream cur s)\<lparr>mem_total_bytes := release_bytes (mem_total_bytes s) (se_total_bytes p')\<rparr> in
          case se_fork_info p' of
            Some fi \<Rightarrow> cascade_delete s' (source_name fi)
          | None \<Rightarrow> s')
       else set_stream cur p' s)"
  by pat_completeness auto
termination
proof (relation "measure (\<lambda>(s, _). card (fmdom' (mem_streams s)))", simp, clarify)
  fix s :: mem and cur p fi
  assume "get_stream s cur = Some p"
  then have "cur \<in> fmdom' (mem_streams s)"
    by (simp add: get_stream_def fmdom'I)
  then have "card (fmdom' (mem_streams s) - {cur}) < card (fmdom' (mem_streams s))"
    by (intro psubset_card_mono) auto
  then show "((drop_stream cur s\<lparr>mem_total_bytes := release_bytes (mem_total_bytes s)
        (se_total_bytes (p\<lparr>se_ref_count := saturating_sub (se_ref_count p) 1\<rparr>))\<rparr>, source_name fi), s, cur)
      \<in> measure (\<lambda>(s, _). card (fmdom' (mem_streams s)))"
    by (simp add: drop_stream_def)
qed

declare cascade_delete.simps [simp del]

definition remove_for_recreate :: "mem \<Rightarrow> string \<Rightarrow> mem" where
  "remove_for_recreate s name = (case hard_remove_stream s name of
     (s', Some fi) \<Rightarrow> cascade_delete s' (source_name fi)
   | (s', None) \<Rightarrow> s')"

section \<open>Reading\<close>

definition read_local_messages :: "stream_entry \<Rightarrow> offset \<Rightarrow> offset \<Rightarrow> read_result" where
  "read_local_messages e from nxt =
     (case message_range msg_offset (se_messages e) from None of (a, b) \<Rightarrow>
        \<lparr>rr_messages = map msg_data (slice a b (se_messages e)), rr_next_offset = nxt,
         rr_at_tail = True, rr_closed = se_closed e\<rparr>)"

definition prepare_read :: "stream_entry \<Rightarrow> offset \<Rightarrow> pending_read" where
  "prepare_read e from =
     (let nxt = entry_next_offset e in
      if offset_is_now from then
        Complete \<lparr>rr_messages = [], rr_next_offset = nxt, rr_at_tail = True, rr_closed = se_closed e\<rparr>
      else case se_fork_info e of
        None \<Rightarrow> Complete (read_local_messages e from nxt)
      | Some info \<Rightarrow> Fork info (read_local_messages e from nxt))"

definition fork_lookup :: "mem \<Rightarrow> string \<Rightarrow> fork_info option res" where
  "fork_lookup s n = Inr (Option.bind (get_stream s n) se_fork_info)"

text \<open>The segment loop of \<open>read_source_chain\<close>; a segment whose stream is missing is skipped.\<close>

fun read_segments :: "mem \<Rightarrow> offset \<Rightarrow> offset \<Rightarrow> read_segment list \<Rightarrow> bytes list" where
  "read_segments s from up_to [] = []"
| "read_segments s from up_to (seg # segs) =
     (case get_stream s (seg_name seg) of
        None \<Rightarrow> []
      | Some e \<Rightarrow>
          let bound = (case read_up_to seg of None \<Rightarrow> up_to | Some b \<Rightarrow> offset_min b up_to) in
          (case message_range msg_offset (se_messages e) from (Some bound) of (a, b) \<Rightarrow>
             map msg_data (slice a b (se_messages e))))
     @ read_segments s from up_to segs"

definition read_source_chain :: "mem \<Rightarrow> string \<Rightarrow> offset \<Rightarrow> offset \<Rightarrow> bytes list res option" where
  "read_source_chain s source from up_to = (case build_read_plan source (fork_lookup s) of
     None \<Rightarrow> None
   | Some (Inl e) \<Rightarrow> Some (Inl e)
   | Some (Inr plan) \<Rightarrow> Some (Inr (read_segments s from up_to plan)))"

definition finish_read :: "mem \<Rightarrow> offset \<Rightarrow> pending_read \<Rightarrow> read_result res option" where
  "finish_read s from pending = pending_finish pending from (read_source_chain s)"

text \<open>\<open>Storage::read\<close>. \<open>None\<close>: the lineage walk does not return.\<close>

definition mem_read :: "env \<Rightarrow> mem \<Rightarrow> string \<Rightarrow> offset \<Rightarrow> (mem \<times> read_result res) option" where
  "mem_read E s name from = (case get_stream s name of
     None \<Rightarrow> Some (s, Inl (NotFound name))
   | Some e \<Rightarrow>
     (case check_stream_access (now_at E 0) (se_config e) (se_state e) name of
        Inl er \<Rightarrow> Some (s, Inl er)
      | Inr _ \<Rightarrow>
        if ttl_seconds (se_config e) = None then
          map_option (Pair s) (finish_read s from (prepare_read e from))
        else
     (case check_stream_access (now_at E 1) (se_config e) (se_state e) name of
        Inl er \<Rightarrow> Some (s, Inl er)
      | Inr _ \<Rightarrow>
     (case finish_read s from (prepare_read e from) of
        None \<Rightarrow> None
      | Some (Inl er) \<Rightarrow> Some (s, Inl er)
      | Some (Inr result) \<Rightarrow>
     (case renew_ttl E (now_at E 2) (se_config e) of
        Inl er \<Rightarrow> Some (s, Inl er)
      | Inr (c', _) \<Rightarrow> Some (set_stream name (e\<lparr>se_config := c'\<rparr>) s, Inr result))))))"

section \<open>Appending\<close>

text \<open>The loop of \<open>commit_messages\<close>.\<close>

fun push_messages :: "stream_entry \<Rightarrow> bytes list \<Rightarrow> stream_entry" where
  "push_messages e [] = e"
| "push_messages e (d # ds) =
     (let byte_len = u64_of_usize (length d);
          off = entry_next_offset e
      in push_messages
           (e\<lparr>se_next_read_seq := se_next_read_seq e + 1,
              se_next_byte_offset := se_next_byte_offset e + byte_len,
              se_total_bytes := se_total_bytes e + byte_len,
              se_messages := se_messages e @ [message_new off d]\<rparr>) ds)"

definition notify_send :: "stream_entry \<Rightarrow> stream_entry" where
  "notify_send e = e\<lparr>se_notify := Suc (se_notify e)\<rparr>"

text \<open>The entry is the caller's, under its write lock; the state carries the global counter.\<close>

definition commit_messages :: "mem \<Rightarrow> stream_entry \<Rightarrow> bytes list \<Rightarrow> mem \<times> stream_entry res" where
  "commit_messages s e msgs =
     (if msgs = [] then (s, Inr e)
      else let batch = payload_bytes msgs in
        case reserve_bytes (mem_total_bytes s) (mem_max_total_bytes s) batch of
          Inl er \<Rightarrow> (s, Inl er)
        | Inr t \<Rightarrow>
          let s' = s\<lparr>mem_total_bytes := t\<rparr> in
          if se_total_bytes e + batch > mem_max_stream_bytes s then
            (s'\<lparr>mem_total_bytes := release_bytes (mem_total_bytes s') batch\<rparr>, Inl StreamSizeLimitExceeded)
          else (s', Inr (notify_send (push_messages e msgs))))"

definition append_batch ::
  "env \<Rightarrow> mem \<Rightarrow> string \<Rightarrow> bytes list \<Rightarrow> string \<Rightarrow> string option \<Rightarrow> bool \<Rightarrow> mem \<times> append_result res" where
  "append_batch E s name msgs ct sq close =
     (case validate_batch_shape msgs close of
        Inl er \<Rightarrow> (s, Inl er)
      | Inr _ \<Rightarrow>
     (case get_stream s name of
        None \<Rightarrow> (s, Inl (NotFound name))
      | Some e \<Rightarrow>
     (case precheck_batch_append (now_at E 0) (se_config e) (se_state e) (se_closed e) (se_last_seq e)
             name (if msgs \<noteq> [] then Some ct else None) sq of
        Inl er \<Rightarrow> (s, Inl er)
      | Inr pending \<Rightarrow>
        let start = entry_next_offset e in
     (case apply_append_metadata E (now_at E 1) (now_at E 2) (se_config e) (se_last_seq e) pending of
        Inl er \<Rightarrow> (s, Inl er)
      | Inr (c', seq', upd', _) \<Rightarrow>
     (case commit_messages s e msgs of
        (s', Inl er) \<Rightarrow> (s', Inl er)
      | (s', Inr e') \<Rightarrow>
        let e'' = notify_send (e'\<lparr>se_config := c', se_last_seq := seq', se_updated_at := upd',
                                  se_closed := se_closed e' \<or> close\<rparr>) in
        (set_stream name e'' s',
         Inr \<lparr>ar_start_offset = start, ar_next_offset = entry_next_offset e'', ar_closed = se_closed e''\<rparr>))))))"

definition append_with_producer ::
  "env \<Rightarrow> mem \<Rightarrow> string \<Rightarrow> bytes list \<Rightarrow> string \<Rightarrow> producer_headers \<Rightarrow> bool \<Rightarrow> string option \<Rightarrow>
   mem \<times> producer_append_result res" where
  "append_with_producer E s name msgs ct p should_close sq =
     (case get_stream s name of
        None \<Rightarrow> (s, Inl (NotFound name))
      | Some e0 \<Rightarrow>
     (case precheck_producer_append E (now_at E 0) (now_at E 1) (se_config e0) (se_state e0) (se_closed e0)
             (se_last_seq e0) (se_producers e0) name ct p msgs sq of
        (ps, checked) \<Rightarrow>
        let e = e0\<lparr>se_producers := ps\<rparr>; s1 = set_stream name e s in
     (case checked of
        Inl er \<Rightarrow> (s1, Inl er)
      | Inr (PrecheckDuplicate ep sq') \<Rightarrow>
          (s1, Inr (Duplicate ep sq' (entry_next_offset e) (se_closed e)))
      | Inr (PrecheckAccept pending) \<Rightarrow>
        let now = now_at E 2 in
     (case apply_append_metadata E now (now_at E 3) (se_config e) (se_last_seq e) pending of
        Inl er \<Rightarrow> (s1, Inl er)
      | Inr (c', seq', upd', _) \<Rightarrow>
     (case commit_messages s1 e msgs of
        (s', Inl er) \<Rightarrow> (s', Inl er)
      | (s', Inr e') \<Rightarrow>
        let e'' = e'\<lparr>se_closed := (if should_close then True else se_closed e'),
                     se_config := c', se_last_seq := seq', se_updated_at := upd',
                     se_producers := (se_producers e')(prod_id p \<mapsto>
                       \<lparr>ps_epoch = prod_epoch p, ps_last_seq = prod_seq p, ps_updated_at = now\<rparr>)\<rparr> in
        (set_stream name e'' s',
         Inr (Accepted (prod_epoch p) (prod_seq p) (entry_next_offset e'') (se_closed e''))))))))"

section \<open>Creating, replacing and deleting\<close>

definition create_stream_with_data ::
  "env \<Rightarrow> mem \<Rightarrow> string \<Rightarrow> stream_options \<Rightarrow> bytes list \<Rightarrow> bool \<Rightarrow> mem \<times> create_with_data_result res" where
  "create_stream_with_data E s name opts msgs should_close0 =
     (case resolve E opts (now_at E 0) of
        Inl er \<Rightarrow> (s, Inl er)
      | Inr c \<Rightarrow>
        let should_close = should_close0 \<or> created_closed c;
            existing = (case get_stream s name of
                None \<Rightarrow> Inr s
              | Some e \<Rightarrow>
                (case evaluate_root_create (now_at E 1) name (se_config e) (se_state e) (se_ref_count e) c of
                   RemoveExpired \<Rightarrow> Inr (remove_for_recreate s name)
                 | DispAlreadyExists \<Rightarrow>
                     Inl (Inr \<lparr>cw_status = AlreadyExists, cw_next_offset = entry_next_offset e,
                               cw_closed = se_closed e\<rparr>)
                 | Conflict er \<Rightarrow> Inl (Inl er))) in
     (case existing of
        Inl result \<Rightarrow> (s, result)
      | Inr s1 \<Rightarrow>
        let entry = stream_entry_new c (now_at E 2) in
     (case (if msgs \<noteq> [] then commit_messages s1 entry msgs else (s1, Inr entry)) of
        (s2, Inl er) \<Rightarrow> (s2, Inl er)
      | (s2, Inr e1) \<Rightarrow>
        let e2 = (if should_close then e1\<lparr>se_closed := True\<rparr> else e1) in
        (set_stream name e2 s2,
         Inr \<lparr>cw_status = Created, cw_next_offset = entry_next_offset e2, cw_closed = se_closed e2\<rparr>))))"

definition replace_stream ::
  "env \<Rightarrow> mem \<Rightarrow> string \<Rightarrow> stream_options \<Rightarrow> bytes list \<Rightarrow> bool \<Rightarrow> mem \<times> append_result res" where
  "replace_stream E s name opts msgs closed0 =
     (case resolve E opts (now_at E 0) of
        Inl er \<Rightarrow> (s, Inl er)
      | Inr c \<Rightarrow>
        let closed = closed0 \<or> created_closed c in
     (case get_stream s name of
        None \<Rightarrow> (s, Inl (NotFound name))
      | Some cur \<Rightarrow>
     (case check_replace (se_ref_count cur) (se_fork_info cur) of
        Inl er \<Rightarrow> (s, Inl er)
      | Inr _ \<Rightarrow>
     (case commit_messages s (stream_entry_new c (now_at E 1)) msgs of
        (s', Inl er) \<Rightarrow> (s', Inl er)
      | (s', Inr r) \<Rightarrow>
        let r' = notify_send (r\<lparr>se_closed := closed, se_notify := se_notify cur\<rparr>);
            s'' = s'\<lparr>mem_total_bytes := release_bytes (mem_total_bytes s') (se_total_bytes cur)\<rparr> in
        (set_stream name r' s'',
         Inr \<lparr>ar_start_offset = offset_new 0 0, ar_next_offset = entry_next_offset r', ar_closed = closed\<rparr>)))))"

definition mem_delete :: "mem \<Rightarrow> string \<Rightarrow> mem \<times> unit res" where
  "mem_delete s name = (case get_stream s name of
     None \<Rightarrow> (s, Inl (NotFound name))
   | Some e \<Rightarrow>
     (case evaluate_delete name (se_state e) (se_ref_count e) of
        Inl er \<Rightarrow> (s, Inl er)
      | Inr DispTombstone \<Rightarrow> (set_stream name (e\<lparr>se_state := Tombstone\<rparr>) s, Inr ())
      | Inr HardDelete \<Rightarrow>
        (case hard_remove_stream s name of
           (s', Some fi) \<Rightarrow> (cascade_delete s' (source_name fi), Inr ())
         | (s', None) \<Rightarrow> (s', Inr ()))))"

text \<open>
  The expiry sweep. \<open>ord\<close> is the order in which the hash map yields its keys
  (the standard library leaves it unspecified); the \<open>i\<close>-th visit makes the
  \<open>i\<close>-th clock reading.
\<close>

definition expired_streams :: "env \<Rightarrow> mem \<Rightarrow> string list \<Rightarrow> (string \<times> u32) list" where
  "expired_streams E s ord =
     map (\<lambda>(i, n). (n, case get_stream s n of Some e \<Rightarrow> se_ref_count e | None \<Rightarrow> 0))
       (filter (\<lambda>(i, n). case get_stream s n of
            Some e \<Rightarrow> is_stream_expired (now_at E i) (se_config e) | None \<Rightarrow> False)
         (enumerate 0 ord))"

definition cleanup_one :: "mem \<Rightarrow> string \<times> u32 \<Rightarrow> mem" where
  "cleanup_one s nr = (case nr of (name, ref_count) \<Rightarrow>
     (case evaluate_expired_cleanup ref_count of
        DispTombstone \<Rightarrow> (case get_stream s name of
            Some e \<Rightarrow> set_stream name (e\<lparr>se_state := Tombstone\<rparr>) s
          | None \<Rightarrow> s)
      | HardDelete \<Rightarrow> remove_for_recreate s name))"

definition cleanup_expired_streams :: "env \<Rightarrow> mem \<Rightarrow> string list \<Rightarrow> mem \<times> nat" where
  "cleanup_expired_streams E s ord =
     (let expired = expired_streams E s ord in (foldl cleanup_one s expired, length expired))"

section \<open>Metadata, listing, subscription\<close>

definition mem_head :: "env \<Rightarrow> mem \<Rightarrow> string \<Rightarrow> stream_metadata res" where
  "mem_head E s name = (case get_stream s name of
     None \<Rightarrow> Inl (NotFound name)
   | Some e \<Rightarrow>
     (case check_stream_access (now_at E 0) (se_config e) (se_state e) name of
        Inl er \<Rightarrow> Inl er
      | Inr _ \<Rightarrow> Inr (entry_metadata e)))"

definition list_streams :: "env \<Rightarrow> mem \<Rightarrow> string list \<Rightarrow> (string \<times> stream_metadata) list" where
  "list_streams E s ord =
     sort_key fst (List.map_filter (\<lambda>(i, n). case get_stream s n of
         Some e \<Rightarrow> if is_stream_visible (now_at E i) (se_config e) (se_state e)
                   then Some (n, entry_metadata e) else None
       | None \<Rightarrow> None) (enumerate 0 ord))"

text \<open>A receiver is the number of notifications sent before it was created.\<close>

definition subscribe :: "env \<Rightarrow> mem \<Rightarrow> string \<Rightarrow> nat option" where
  "subscribe E s name = (case get_stream s name of
     None \<Rightarrow> None
   | Some e \<Rightarrow> if \<not> is_stream_visible (now_at E 0) (se_config e) (se_state e) then None
               else Some (se_notify e))"

definition load_subscription_state :: "mem \<Rightarrow> bytes option" where
  "load_subscription_state s = mem_subscription_state s"

definition save_subscription_state :: "mem \<Rightarrow> bytes \<Rightarrow> mem" where
  "save_subscription_state s st = s\<lparr>mem_subscription_state := Some st\<rparr>"

section \<open>Forking\<close>

text \<open>The segment loop of \<open>fork_initial_messages\<close>; here a missing stream is an error.\<close>

fun fork_source_messages :: "mem \<Rightarrow> offset \<Rightarrow> read_segment list \<Rightarrow> bytes list res" where
  "fork_source_messages s off [] = Inr []"
| "fork_source_messages s off (seg # segs) =
     (case get_stream s (seg_name seg) of
        None \<Rightarrow> Inl (NotFound (seg_name seg))
      | Some e \<Rightarrow>
        (case message_range msg_offset (se_messages e) off (read_up_to seg) of (a, b) \<Rightarrow>
        (case fork_source_messages s off segs of
           Inl er \<Rightarrow> Inl er
         | Inr rest \<Rightarrow> Inr (map msg_data (slice a b (se_messages e)) @ rest))))"

definition fork_initial_messages ::
  "env \<Rightarrow> mem \<Rightarrow> string \<Rightarrow> offset \<Rightarrow> stream_config \<Rightarrow> fork_options \<Rightarrow> bytes list res option" where
  "fork_initial_messages E s source off c opts =
     (if fo_sub_offset opts > 0 then
        (case build_read_plan source (fork_lookup s) of
           None \<Rightarrow> None
         | Some (Inl er) \<Rightarrow> Some (Inl er)
         | Some (Inr plan) \<Rightarrow>
           (case fork_source_messages s off plan of
              Inl er \<Rightarrow> Some (Inl er)
            | Inr msgs \<Rightarrow> Some (initial_fork_messages E c opts msgs)))
      else Some (initial_fork_messages E c opts []))"

definition incr_ref_count :: "string \<Rightarrow> mem \<Rightarrow> mem" where
  "incr_ref_count name s = (case get_stream s name of
     Some e \<Rightarrow> set_stream name (e\<lparr>se_ref_count := se_ref_count e + 1\<rparr>) s
   | None \<Rightarrow> s)"

definition create_fork_with_options ::
  "env \<Rightarrow> mem \<Rightarrow> string \<Rightarrow> string \<Rightarrow> offset option \<Rightarrow> stream_options \<Rightarrow> fork_options \<Rightarrow>
   (mem \<times> create_stream_result res) option" where
  "create_fork_with_options E s name src_name requested sopts opts =
     (case resolve E sopts (now_at E 0) of
        Inl er \<Rightarrow> Some (s, Inl er)
      | Inr c0 \<Rightarrow>
     (case get_stream s src_name of
        None \<Rightarrow> Some (s, Inl (NotFound src_name))
      | Some src \<Rightarrow>
        let c = (if inherit_content_type opts then c0\<lparr>content_type := content_type (se_config src)\<rparr> else c0) in
     (case prepare_fork_spec E (now_at E 1) (now_at E 2) src_name (se_config src) (se_state src)
             (entry_next_offset src) requested c of
        Inl er \<Rightarrow> Some (s, Inl er)
      | Inr (spec0, off) \<Rightarrow>
        let spec = spec0\<lparr>spec_sub_offset := fo_sub_offset opts\<rparr> in
     (case fork_initial_messages E s src_name off (spec_config spec) opts of
        None \<Rightarrow> None
      | Some (Inl er) \<Rightarrow> Some (s, Inl er)
      | Some (Inr msgs) \<Rightarrow>
        let existing = (case get_stream s name of
            None \<Rightarrow> Inr s
          | Some e \<Rightarrow>
            (case evaluate_fork_create (now_at E 3) name (se_config e) (se_fork_info e) (se_state e)
                    (se_ref_count e) spec of
               RemoveExpired \<Rightarrow> Inr (remove_for_recreate s name)
             | DispAlreadyExists \<Rightarrow> Inl (Inr AlreadyExists)
             | Conflict er \<Rightarrow> Inl (Inl er))) in
     (case existing of
        Inl result \<Rightarrow> Some (s, result)
      | Inr s1 \<Rightarrow>
        let (rs, bo) = (case parse_components off of Some rb \<Rightarrow> rb | None \<Rightarrow> (0, 0));
            entry = (stream_entry_new (spec_config spec) (now_at E 4))
              \<lparr>se_closed := created_closed c, se_next_read_seq := rs, se_next_byte_offset := bo,
               se_fork_info := Some \<lparr>source_name = spec_source_name spec, fork_offset = off,
                                     sub_offset = fo_sub_offset opts\<rparr>\<rparr> in
     (case commit_messages s1 entry msgs of
        (s2, Inl er) \<Rightarrow> Some (s2, Inl er)
      | (s2, Inr e1) \<Rightarrow>
          Some (incr_ref_count src_name (set_stream name e1 s2), Inr Created)))))))"

section \<open>Default methods of the trait\<close>

definition create_stream :: "env \<Rightarrow> mem \<Rightarrow> string \<Rightarrow> stream_options \<Rightarrow> mem \<times> create_stream_result res" where
  "create_stream E s name opts =
     (case create_stream_with_data E s name opts [] (opt_created_closed opts) of
        (s', r) \<Rightarrow> (s', map_sum id cw_status r))"

definition append_message :: "env \<Rightarrow> mem \<Rightarrow> string \<Rightarrow> bytes \<Rightarrow> string \<Rightarrow> mem \<times> append_result res" where
  "append_message E s name data ct = append_batch E s name [data] ct None False"

definition close_stream :: "env \<Rightarrow> mem \<Rightarrow> string \<Rightarrow> mem \<times> unit res" where
  "close_stream E s name =
     (case append_batch E s name [] [] None True of (s', r) \<Rightarrow> (s', map_sum id (\<lambda>_. ()) r))"

definition exists_stream :: "env \<Rightarrow> mem \<Rightarrow> string \<Rightarrow> bool res" where
  "exists_stream E s name = (case mem_head E s name of
     Inr _ \<Rightarrow> Inr True
   | Inl (NotFound _) \<Rightarrow> Inr False
   | Inl StreamExpired \<Rightarrow> Inr False
   | Inl (StreamGone _) \<Rightarrow> Inr False
   | Inl er \<Rightarrow> Inl er)"

definition fork_options_default :: fork_options where
  "fork_options_default = \<lparr>fo_sub_offset = 0, inherit_content_type = False, initial_body = []\<rparr>"

definition create_fork ::
  "env \<Rightarrow> mem \<Rightarrow> string \<Rightarrow> string \<Rightarrow> offset option \<Rightarrow> stream_options \<Rightarrow>
   (mem \<times> create_stream_result res) option" where
  "create_fork E s name src requested sopts =
     create_fork_with_options E s name src requested sopts fork_options_default"

end
