(* ===== verification/DS_Lineage.thy ===== *)
theory DS_Lineage
  imports DS_Memory
begin

text \<open>
  Fork lineages as parent maps, independent of the backend: a name is absent
  (\<open>None\<close>), a root (\<open>Some None\<close>) or a fork of a parent (\<open>Some (Some p)\<close>). Every
  present name reaches a root; this is what makes the lineage walk of
  \<open>build_read_plan\<close> end and the counting of forks meaningful.
\<close>

type_synonym parent_map = "string \<Rightarrow> string option option"

definition kids :: "parent_map \<Rightarrow> string \<Rightarrow> string set" where
  "kids P n = {c. P c = Some (Some n)}"

inductive rooted :: "parent_map \<Rightarrow> string \<Rightarrow> bool" for P where
  root: "P n = Some None \<Longrightarrow> rooted P n"
| fork: "P n = Some (Some p) \<Longrightarrow> rooted P p \<Longrightarrow> rooted P n"

inductive_simps rooted_iff: "rooted P n"

definition lineage :: "parent_map \<Rightarrow> bool" where
  "lineage P \<longleftrightarrow> (\<forall>n. P n \<noteq> None \<longrightarrow> rooted P n)"

lemma rooted_present: "rooted P n \<Longrightarrow> P n \<noteq> None"
  by (auto elim: rooted.cases)

lemma lineage_parent_present: "lineage P \<Longrightarrow> P c = Some (Some p) \<Longrightarrow> P p \<noteq> None"
proof -
  assume "lineage P" and c: "P c = Some (Some p)"
  then have "rooted P c" by (simp add: lineage_def)
  with c have "rooted P p" by (auto elim: rooted.cases)
  then show ?thesis by (rule rooted_present)
qed

lemma absent_no_kids: "lineage P \<Longrightarrow> P n = None \<Longrightarrow> kids P n = {}"
  using lineage_parent_present by (fastforce simp: kids_def)

lemma kids_empty_iff: "kids P n = {} \<longleftrightarrow> (\<forall>c. P c \<noteq> Some (Some n))"
  by (auto simp: kids_def)

text \<open>No present name is its own parent, or any of its ancestors' parent.\<close>

lemma rooted_not_self: "rooted P n \<Longrightarrow> P n \<noteq> Some (Some n)"
  by (induction rule: rooted.induct) auto

lemma lineage_not_self: "lineage P \<Longrightarrow> P n \<noteq> Some (Some n)"
  by (metis lineage_def option.distinct(1) rooted_not_self)

lemma lineage_drop_leaf:
  assumes "lineage P" "kids P n = {}"
  shows "lineage (P(n := None))"
proof -
  have "rooted (P(n := None)) m" if "rooted P m" "m \<noteq> n" for m
    using that
  proof (induction rule: rooted.induct)
    case (root m)
    then show ?case by (auto intro: rooted.root)
  next
    case (fork m p)
    with assms(2) have "p \<noteq> n" by (auto simp: kids_def)
    with fork show ?case by (auto intro: rooted.fork)
  qed
  with assms(1) show ?thesis by (simp add: lineage_def)
qed

lemma lineage_add:
  assumes "lineage P" "P n = None" "\<And>p. q = Some p \<Longrightarrow> P p \<noteq> None"
  shows "lineage (P(n := Some q))"
proof -
  let ?P = "P(n := Some q)"
  have old: "rooted ?P m" if "rooted P m" for m
    using that
  proof (induction rule: rooted.induct)
    case (root m)
    with assms(2) have "?P m = Some None" by auto
    then show ?case by (rule rooted.root)
  next
    case (fork m p)
    with assms(2) have "?P m = Some (Some p)" by auto
    then show ?case using fork.IH by (rule rooted.fork)
  qed
  have "rooted ?P n"
  proof (cases q)
    case None
    then show ?thesis by (auto intro: rooted.root)
  next
    case (Some p)
    then have "rooted P p" using assms(1,3) by (simp add: lineage_def)
    then show ?thesis using Some old by (intro rooted.fork [of _ n p]) auto
  qed
  with old assms(1) show ?thesis by (auto simp: lineage_def)
qed

lemma kids_drop_leaf:
  "kids (P(n := None)) m = kids P m - {n}"
  by (auto simp: kids_def)

lemma kids_add:
  "P n = None \<Longrightarrow> kids (P(n := Some q)) m = (if q = Some m then insert n (kids P m) else kids P m)"
  by (auto simp: kids_def split: if_splits)

section \<open>Lineages of the in-memory backend\<close>

definition parents :: "mem \<Rightarrow> parent_map" where
  "parents s n = map_option (\<lambda>e. map_option source_name (se_fork_info e)) (get_stream s n)"

lemma get_set_stream [simp]:
  "get_stream (set_stream n e s) m = (if m = n then Some e else get_stream s m)"
  by (simp add: get_stream_def set_stream_def)

lemma get_drop_stream [simp]:
  "get_stream (drop_stream n s) m = (if m = n then None else get_stream s m)"
  by (simp add: get_stream_def drop_stream_def)

lemma get_stream_total [simp]: "get_stream (s\<lparr>mem_total_bytes := t\<rparr>) m = get_stream s m"
  by (simp add: get_stream_def)

lemma set_stream_fields [simp]:
  "mem_total_bytes (set_stream n e s) = mem_total_bytes s"
  "mem_max_total_bytes (set_stream n e s) = mem_max_total_bytes s"
  "mem_max_stream_bytes (set_stream n e s) = mem_max_stream_bytes s"
  "mem_total_bytes (drop_stream n s) = mem_total_bytes s"
  "mem_max_total_bytes (drop_stream n s) = mem_max_total_bytes s"
  "mem_max_stream_bytes (drop_stream n s) = mem_max_stream_bytes s"
  by (simp_all add: set_stream_def drop_stream_def)

lemma parents_total [simp]: "parents (s\<lparr>mem_total_bytes := t\<rparr>) = parents s"
  by (simp add: parents_def fun_eq_iff)

lemma parents_set_stream:
  "parents (set_stream n e s) = (parents s)(n := Some (map_option source_name (se_fork_info e)))"
  by (auto simp: parents_def fun_eq_iff)

lemma parents_drop_stream [simp]: "parents (drop_stream n s) = (parents s)(n := None)"
  by (auto simp: parents_def fun_eq_iff)

lemma parents_None [simp]: "parents s n = None \<longleftrightarrow> get_stream s n = None"
  by (simp add: parents_def)

lemma parents_Some:
  "get_stream s n = Some e \<Longrightarrow> parents s n = Some (map_option source_name (se_fork_info e))"
  by (simp add: parents_def)

lemma parents_same:
  "get_stream s n = Some e \<Longrightarrow> se_fork_info e' = se_fork_info e \<Longrightarrow> parents (set_stream n e' s) = parents s"
  by (auto simp: parents_set_stream parents_Some fun_eq_iff)

lemma finite_kids [simp]: "finite (kids (parents s) n)"
proof (rule finite_subset)
  show "kids (parents s) n \<subseteq> fmdom' (mem_streams s)"
    by (auto simp: kids_def parents_def get_stream_def intro: fmdom'I)
qed simp

end
