(* ===== verification/DS_Entry.thy ===== *)
theory DS_Entry
  imports DS_Lineage
begin

text \<open>
  The log of one stream: its messages carry exactly the offsets that the
  lengths of the messages before them determine, so the whole index can be
  recomputed from the payloads. This is the invariant of a stream entry that
  every append keeps, and what makes the index ordered.
\<close>

section \<open>Consecutive offsets\<close>

fun chain_ok :: "u64 \<Rightarrow> u64 \<Rightarrow> message list \<Rightarrow> u64 \<Rightarrow> u64 \<Rightarrow> bool" where
  "chain_ok r b [] nr nb \<longleftrightarrow> nr = r \<and> nb = b"
| "chain_ok r b (m # ms) nr nb \<longleftrightarrow>
     m = message_new (offset_new r b) (msg_data m) \<and>
     chain_ok (r + 1) (b + u64_of_usize (length (msg_data m))) ms nr nb"

text \<open>The messages that appending payloads at a position creates, and the position after them.\<close>

fun log_from :: "u64 \<Rightarrow> u64 \<Rightarrow> bytes list \<Rightarrow> message list" where
  "log_from r b [] = []"
| "log_from r b (d # ds) =
     message_new (offset_new r b) d # log_from (r + 1) (b + u64_of_usize (length d)) ds"

lemma message_new_simps [simp]:
  "msg_offset (message_new off d) = off" "msg_data (message_new off d) = d"
  "msg_byte_len (message_new off d) = u64_of_usize (length d)"
  by (simp_all add: message_new_def)

lemma chain_ok_iff_log_from:
  "chain_ok r b ms nr nb \<longleftrightarrow>
    ms = log_from r b (map msg_data ms) \<and> nr = r + of_nat (length ms) \<and>
    nb = b + payload_bytes (map msg_data ms)"
  by (induction r b ms nr nb rule: chain_ok.induct) (auto simp: payload_bytes_Cons algebra_simps)

lemma map_data_log_from [simp]: "map msg_data (log_from r b ds) = ds"
  by (induction r b ds rule: log_from.induct) auto

lemma length_log_from [simp]: "length (log_from r b ds) = length ds"
  by (induction r b ds rule: log_from.induct) auto

lemma log_from_append:
  "log_from r b (xs @ ys) =
    log_from r b xs @ log_from (r + of_nat (length xs)) (b + payload_bytes xs) ys"
  by (induction r b xs rule: log_from.induct) (auto simp: payload_bytes_Cons algebra_simps)

lemma chain_ok_append:
  "chain_ok r b ms nr nb \<Longrightarrow>
    chain_ok r b (ms @ log_from nr nb ds) (nr + of_nat (length ds)) (nb + payload_bytes ds)"
  by (auto simp: chain_ok_iff_log_from log_from_append payload_bytes_def)

lemma log_from_offsets:
  "m \<in> set (log_from r b ds) \<Longrightarrow> unat r + length ds < 2 ^ 64 \<Longrightarrow>
    \<exists>r' b'. msg_offset m = offset_new r' b' \<and> unat r \<le> unat r' \<and> unat r' < unat r + length ds \<and>
            (r' = r \<longrightarrow> b' = b)"
proof (induction r b ds rule: log_from.induct)
  case (2 r b d ds)
  have r1: "unat (r + 1) = Suc (unat r)"
    using 2(3) by (intro unat_Suc64 [of _ "length (d # ds)"]) auto
  show ?case
  proof (cases "m = message_new (offset_new r b) d")
    case True
    then show ?thesis by auto
  next
    case False
    with 2 r1 obtain r' b' where "msg_offset m = offset_new r' b'" "Suc (unat r) \<le> unat r'"
      "unat r' < Suc (unat r) + length ds"
      by auto
    then show ?thesis by (intro exI [of _ r'] exI [of _ b']) auto
  qed
qed simp

lemma log_from_sorted:
  "unat r + length ds < 2 ^ 64 \<Longrightarrow>
    sorted_wrt (\<lambda>x y. offset_lt (msg_offset x) (msg_offset y)) (log_from r b ds)"
proof (induction r b ds rule: log_from.induct)
  case (2 r b d ds)
  have r1: "unat (r + 1) = Suc (unat r)"
    using 2(2) by (intro unat_Suc64 [of _ "length (d # ds)"]) auto
  have "offset_lt (offset_new r b) (msg_offset m)"
    if "m \<in> set (log_from (r + 1) (b + u64_of_usize (length d)) ds)" for m
    using log_from_offsets [OF that] 2(2) r1 by (auto simp: word_less_nat_alt)
  with 2 r1 show ?case by auto
qed simp

section \<open>The entry invariant\<close>

definition entry_base :: "stream_entry \<Rightarrow> u64 \<times> u64" where
  "entry_base e = (case se_fork_info e of None \<Rightarrow> (0, 0)
     | Some fi \<Rightarrow> (case parse_components (fork_offset fi) of Some rb \<Rightarrow> rb | None \<Rightarrow> (0, 0)))"

text \<open>
  The messages are consecutive from the fork position (or zero), the message
  counter has not wrapped, the byte counter is the payload's size, and a
  fork's anchor is a parsed offset other than the tail sentinel.
\<close>

definition entry_ok :: "stream_entry \<Rightarrow> bool" where
  "entry_ok e \<longleftrightarrow>
     chain_ok (fst (entry_base e)) (snd (entry_base e)) (se_messages e) (se_next_read_seq e)
       (se_next_byte_offset e) \<and>
     unat (fst (entry_base e)) + length (se_messages e) < 2 ^ 64 \<and>
     unat (se_total_bytes e) = sum_list (map (length \<circ> msg_data) (se_messages e)) \<and>
     (case se_fork_info e of None \<Rightarrow> True
      | Some fi \<Rightarrow> wf_offset (fork_offset fi) \<and> fork_offset fi \<noteq> Now)"

lemma wf_entry_next_offset [simp]: "wf_offset (entry_next_offset e)"
  by (simp add: entry_next_offset_def)

abbreviation in_order :: "message list \<Rightarrow> bool" where
  "in_order ms \<equiv> sorted_wrt (\<lambda>x y. offset_lt (msg_offset x) (msg_offset y)) ms"

lemma entry_ok_messages:
  "entry_ok e \<Longrightarrow> se_messages e =
     log_from (fst (entry_base e)) (snd (entry_base e)) (map msg_data (se_messages e))"
  by (simp add: entry_ok_def chain_ok_iff_log_from)

lemma entry_ok_next:
  assumes "entry_ok e"
  shows "unat (se_next_read_seq e) = unat (fst (entry_base e)) + length (se_messages e)"
proof -
  have "se_next_read_seq e = fst (entry_base e) + of_nat (length (se_messages e))"
    and "unat (fst (entry_base e)) + length (se_messages e) < 2 ^ 64"
    using assms by (auto simp: entry_ok_def chain_ok_iff_log_from)
  then show ?thesis by (simp add: unat_word_ariths unat_of_nat)
qed

lemma entry_ok_in_order: "entry_ok e \<Longrightarrow> in_order (se_messages e)"
  by (subst entry_ok_messages) (auto simp: entry_ok_def intro!: log_from_sorted)

text \<open>Every message lies between the entry's base and its tail.\<close>

lemma entry_ok_offset:
  assumes "entry_ok e" "m \<in> set (se_messages e)"
  shows "\<exists>r b. msg_offset m = offset_new r b \<and> unat (fst (entry_base e)) \<le> unat r \<and>
    unat r < unat (se_next_read_seq e) \<and> (r = fst (entry_base e) \<longrightarrow> b = snd (entry_base e))"
proof -
  let ?r = "fst (entry_base e)" and ?b = "snd (entry_base e)"
  have "m \<in> set (log_from ?r ?b (map msg_data (se_messages e)))"
    using assms entry_ok_messages by metis
  moreover have "unat ?r + length (map msg_data (se_messages e)) < 2 ^ 64"
    using assms by (simp add: entry_ok_def)
  ultimately show ?thesis
    using log_from_offsets entry_ok_next [OF assms(1)] by fastforce
qed

lemma entry_ok_before_next:
  assumes "entry_ok e" "m \<in> set (se_messages e)"
  shows "offset_lt (msg_offset m) (entry_next_offset e)"
  using entry_ok_offset [OF assms] by (auto simp: entry_next_offset_def word_less_nat_alt)

lemma entry_ok_wf: "entry_ok e \<Longrightarrow> m \<in> set (se_messages e) \<Longrightarrow> wf_offset (msg_offset m)"
  using entry_ok_offset by fastforce

text \<open>Own messages of a fork are at or after its anchor.\<close>

lemma entry_ok_after_fork:
  assumes "entry_ok e" "se_fork_info e = Some fi" "m \<in> set (se_messages e)"
  shows "\<not> offset_lt (msg_offset m) (fork_offset fi)"
proof -
  obtain r b where m: "msg_offset m = offset_new r b" "unat (fst (entry_base e)) \<le> unat r"
    "r = fst (entry_base e) \<longrightarrow> b = snd (entry_base e)"
    using entry_ok_offset [OF assms(1,3)] by blast
  have "wf_offset (fork_offset fi)" "fork_offset fi \<noteq> Now"
    using assms(1,2) by (auto simp: entry_ok_def)
  then show ?thesis
  proof (cases rule: wf_offset_cases)
    case (3 rs bo)
    then have "entry_base e = (rs, bo)" using assms(2) by (simp add: entry_base_def)
    with m 3 show ?thesis by (auto simp: word_less_nat_alt)
  qed (use m in auto)
qed

section \<open>Appending keeps the entry invariant\<close>

lemma push_messages_eq:
  "push_messages e ds = e\<lparr>se_next_read_seq := se_next_read_seq e + of_nat (length ds),
     se_next_byte_offset := se_next_byte_offset e + payload_bytes ds,
     se_total_bytes := se_total_bytes e + payload_bytes ds,
     se_messages := se_messages e @ log_from (se_next_read_seq e) (se_next_byte_offset e) ds\<rparr>"
  by (induction e ds rule: push_messages.induct)
    (simp_all add: Let_def payload_bytes_Cons entry_next_offset_def add.assoc)

lemma push_messages_simps [simp]:
  "se_config (push_messages e ds) = se_config e" "se_closed (push_messages e ds) = se_closed e"
  "se_fork_info (push_messages e ds) = se_fork_info e" "se_ref_count (push_messages e ds) = se_ref_count e"
  "se_state (push_messages e ds) = se_state e" "se_producers (push_messages e ds) = se_producers e"
  "se_last_seq (push_messages e ds) = se_last_seq e" "se_notify (push_messages e ds) = se_notify e"
  "se_created_at (push_messages e ds) = se_created_at e" "se_updated_at (push_messages e ds) = se_updated_at e"
  by (simp_all add: push_messages_eq)

lemma notify_send_simps [simp]:
  "se_config (notify_send e) = se_config e" "se_closed (notify_send e) = se_closed e"
  "se_fork_info (notify_send e) = se_fork_info e" "se_ref_count (notify_send e) = se_ref_count e"
  "se_state (notify_send e) = se_state e" "se_producers (notify_send e) = se_producers e"
  "se_last_seq (notify_send e) = se_last_seq e" "se_messages (notify_send e) = se_messages e"
  "se_total_bytes (notify_send e) = se_total_bytes e" "se_next_read_seq (notify_send e) = se_next_read_seq e"
  "se_next_byte_offset (notify_send e) = se_next_byte_offset e"
  "se_notify (notify_send e) = Suc (se_notify e)"
  "se_created_at (notify_send e) = se_created_at e" "se_updated_at (notify_send e) = se_updated_at e"
  by (simp_all add: notify_send_def)

text \<open>The entry invariant reads only these fields.\<close>

lemma entry_ok_cong:
  assumes "se_messages e' = se_messages e" "se_next_read_seq e' = se_next_read_seq e"
    "se_next_byte_offset e' = se_next_byte_offset e" "se_total_bytes e' = se_total_bytes e"
    "se_fork_info e' = se_fork_info e"
  shows "entry_ok e' \<longleftrightarrow> entry_ok e"
  using assms by (simp add: entry_ok_def entry_base_def)

lemma entry_ok_push_messages:
  assumes "entry_ok e" "payload_fits ds" "unat (se_next_read_seq e) + length ds < 2 ^ 64"
    "unat (se_total_bytes e) + unat (payload_bytes ds) < 2 ^ 64"
  shows "entry_ok (push_messages e ds)"
proof -
  let ?e = "push_messages e ds"
  have base: "entry_base ?e = entry_base e" by (simp add: entry_base_def)
  have chain: "chain_ok (fst (entry_base e)) (snd (entry_base e)) (se_messages ?e) (se_next_read_seq ?e)
      (se_next_byte_offset ?e)"
    using assms(1) by (simp add: entry_ok_def push_messages_eq chain_ok_append)
  have len: "unat (fst (entry_base e)) + length (se_messages ?e) < 2 ^ 64"
    using assms(3) entry_ok_next [OF assms(1)] by (simp add: push_messages_eq)
  have "unat (se_total_bytes ?e) = unat (se_total_bytes e) + sum_list (map length ds)"
    using assms(2,4) by (simp add: push_messages_eq unat_word_ariths unat_payload_bytes)
  also have "\<dots> = sum_list (map (length \<circ> msg_data) (se_messages ?e))"
    using assms(1) by (simp add: entry_ok_def push_messages_eq flip: map_map)
  finally show ?thesis
    using base chain len assms(1) by (simp add: entry_ok_def)
qed

lemma entry_ok_new [simp]: "entry_ok (stream_entry_new c now)"
  by (simp add: entry_ok_def entry_base_def stream_entry_new_def)

lemma stream_entry_new_simps [simp]:
  "se_total_bytes (stream_entry_new c now) = 0" "se_fork_info (stream_entry_new c now) = None"
  "se_ref_count (stream_entry_new c now) = 0" "se_messages (stream_entry_new c now) = []"
  "se_next_read_seq (stream_entry_new c now) = 0" "se_next_byte_offset (stream_entry_new c now) = 0"
  "se_closed (stream_entry_new c now) = False" "se_state (stream_entry_new c now) = Active"
  "se_config (stream_entry_new c now) = c"
  by (simp_all add: stream_entry_new_def)

end
