(* ===== verification/DS_Mem_Inv.thy ===== *)
theory DS_Mem_Inv
  imports DS_Entry
begin

text \<open>
  The invariant of the in-memory backend and the lemmas that carry its
  preservation: every entry is well formed and within its size limit, every
  fork reaches a root through present ancestors and starts within its source,
  the reference counts are the numbers of forks, and the global byte counter
  is the sum over the streams and within its limit.
\<close>

section \<open>The invariant\<close>

definition stream_bytes :: "mem \<Rightarrow> string \<Rightarrow> nat" where
  "stream_bytes s n = (case get_stream s n of Some e \<Rightarrow> unat (se_total_bytes e) | None \<Rightarrow> 0)"

definition sum_bytes :: "mem \<Rightarrow> nat" where
  "sum_bytes s = (\<Sum>n\<in>fmdom' (mem_streams s). stream_bytes s n)"

definition bytes_ok :: "mem \<Rightarrow> bool" where
  "bytes_ok s \<longleftrightarrow> unat (mem_total_bytes s) = sum_bytes s \<and> mem_total_bytes s \<le> mem_max_total_bytes s"

definition entries_ok :: "mem \<Rightarrow> bool" where
  "entries_ok s \<longleftrightarrow> (\<forall>n e. get_stream s n = Some e \<longrightarrow>
     entry_ok e \<and> se_total_bytes e \<le> mem_max_stream_bytes s)"

definition fork_bounds :: "mem \<Rightarrow> bool" where
  "fork_bounds s \<longleftrightarrow> (\<forall>c e fi p. get_stream s c = Some e \<longrightarrow> se_fork_info e = Some fi \<longrightarrow>
     get_stream s (source_name fi) = Some p \<longrightarrow> \<not> offset_lt (entry_next_offset p) (fork_offset fi))"

text \<open>The counts are exact, but for one extra on the name a removal is about to decrement.\<close>

definition counts_ok :: "mem \<Rightarrow> string option \<Rightarrow> bool" where
  "counts_ok s extra \<longleftrightarrow> (\<forall>n e. get_stream s n = Some e \<longrightarrow>
     unat (se_ref_count e) = card (kids (parents s) n) + (if extra = Some n then 1 else 0))"

definition mem_core :: "mem \<Rightarrow> bool" where
  "mem_core s \<longleftrightarrow> entries_ok s \<and> lineage (parents s) \<and> fork_bounds s \<and> bytes_ok s"

definition mem_inv :: "mem \<Rightarrow> bool" where
  "mem_inv s \<longleftrightarrow> mem_core s \<and> counts_ok s None"

lemmas mem_inv_defs = mem_inv_def mem_core_def entries_ok_def bytes_ok_def

lemma mem_inv_entry: "mem_inv s \<Longrightarrow> get_stream s n = Some e \<Longrightarrow> entry_ok e"
  by (auto simp: mem_inv_defs)

lemma mem_inv_lineage: "mem_inv s \<Longrightarrow> lineage (parents s)"
  by (simp add: mem_inv_defs)

lemma mem_inv_count:
  "mem_inv s \<Longrightarrow> get_stream s n = Some e \<Longrightarrow> unat (se_ref_count e) = card (kids (parents s) n)"
  by (simp add: mem_inv_def counts_ok_def)

lemma mem_inv_zero_count:
  "mem_inv s \<Longrightarrow> get_stream s n = Some e \<Longrightarrow> se_ref_count e = 0 \<longleftrightarrow> kids (parents s) n = {}"
  using mem_inv_count [of s n e] by (metis card_eq_0_iff finite_kids unat_0 unat_eq_zero)

lemma mem_inv_new: "mem_inv (mem_new mt ms)"
  by (simp add: mem_inv_defs mem_new_def fork_bounds_def counts_ok_def lineage_def sum_bytes_def
      get_stream_def parents_def)

section \<open>Byte accounting\<close>

lemma get_stream_dom: "get_stream s n = Some e \<Longrightarrow> n \<in> fmdom' (mem_streams s)"
  by (auto simp: get_stream_def intro: fmdom'I)

lemma stream_bytes_set [simp]:
  "stream_bytes (set_stream n e s) m = (if m = n then unat (se_total_bytes e) else stream_bytes s m)"
  by (simp add: stream_bytes_def)

lemma stream_bytes_drop [simp]:
  "stream_bytes (drop_stream n s) m = (if m = n then 0 else stream_bytes s m)"
  by (simp add: stream_bytes_def)

lemma stream_bytes_absent: "n \<notin> fmdom' (mem_streams s) \<Longrightarrow> stream_bytes s n = 0"
  by (auto simp: stream_bytes_def dest: get_stream_dom split: option.splits)

lemma sum_bytes_total [simp]: "sum_bytes (s\<lparr>mem_total_bytes := t\<rparr>) = sum_bytes s"
  by (simp add: sum_bytes_def stream_bytes_def)

lemma sum_bytes_split:
  "sum_bytes s = stream_bytes s n + (\<Sum>m\<in>fmdom' (mem_streams s) - {n}. stream_bytes s m)"
  by (cases "n \<in> fmdom' (mem_streams s)")
    (simp_all add: sum_bytes_def sum.remove stream_bytes_absent)

lemma sum_bytes_set: "sum_bytes (set_stream n e s) + stream_bytes s n = sum_bytes s + unat (se_total_bytes e)"
proof -
  have "(\<Sum>m\<in>fmdom' (mem_streams (set_stream n e s)) - {n}. stream_bytes (set_stream n e s) m)
      = (\<Sum>m\<in>fmdom' (mem_streams s) - {n}. stream_bytes s m)"
    by (rule sum.cong) (auto simp: set_stream_def fmdom'_alt_def stream_bytes_def get_stream_def)
  then show ?thesis
    using sum_bytes_split [of "set_stream n e s" n] sum_bytes_split [of s n] by simp
qed

lemma sum_bytes_drop: "sum_bytes (drop_stream n s) + stream_bytes s n = sum_bytes s"
proof -
  have "(\<Sum>m\<in>fmdom' (mem_streams (drop_stream n s)) - {n}. stream_bytes (drop_stream n s) m)
      = (\<Sum>m\<in>fmdom' (mem_streams s) - {n}. stream_bytes s m)"
    by (rule sum.cong) (auto simp: drop_stream_def fmdom'_alt_def stream_bytes_def get_stream_def)
  then show ?thesis
    using sum_bytes_split [of "drop_stream n s" n] sum_bytes_split [of s n] by simp
qed

lemma mem_core_bytes_le:
  "mem_core s \<Longrightarrow> get_stream s n = Some e \<Longrightarrow> unat (se_total_bytes e) \<le> unat (mem_total_bytes s)"
  using sum_bytes_split [of s n] by (simp add: mem_core_def bytes_ok_def stream_bytes_def)

section \<open>Committing messages\<close>

lemma commit_messages_Inl: "commit_messages s e msgs = (s', Inl er) \<Longrightarrow> s' = s"
  by (auto simp: commit_messages_def Let_def split: if_splits sum.splits)

lemma commit_messages_Inl_error:
  "commit_messages s e msgs = (s', Inl er) \<Longrightarrow> er = MemoryLimitExceeded \<or> er = StreamSizeLimitExceeded"
  by (auto simp: commit_messages_def reserve_bytes_def Let_def split: if_splits sum.splits option.splits)

text \<open>
  A successful commit: the counter grew by the payload and stayed within both
  limits, and the entry is the pushed one.
\<close>

lemma commit_messages_Inr:
  assumes "commit_messages s e msgs = (s', Inr e')"
    and "unat (se_total_bytes e) \<le> unat (mem_total_bytes s)"
    and "se_total_bytes e \<le> mem_max_stream_bytes s" "mem_total_bytes s \<le> mem_max_total_bytes s"
  obtains t where "s' = s\<lparr>mem_total_bytes := t\<rparr>"
    "unat t = unat (mem_total_bytes s) + unat (payload_bytes msgs)" "t \<le> mem_max_total_bytes s"
    "unat (se_total_bytes e) + unat (payload_bytes msgs) < 2 ^ 64"
    "se_total_bytes (push_messages e msgs) \<le> mem_max_stream_bytes s"
    "e' = (if msgs = [] then e else notify_send (push_messages e msgs))"
proof (cases "msgs = []")
  case True
  with assms have "s' = s" "e' = e" by (simp_all add: commit_messages_def)
  with True assms show ?thesis by (intro that [of "mem_total_bytes s"]) simp_all
next
  case False
  with assms(1) obtain t where t: "reserve_bytes (mem_total_bytes s) (mem_max_total_bytes s) (payload_bytes msgs) = Inr t"
    and le: "\<not> se_total_bytes e + payload_bytes msgs > mem_max_stream_bytes s"
    and s': "s' = s\<lparr>mem_total_bytes := t\<rparr>" "e' = notify_send (push_messages e msgs)"
    by (auto simp: commit_messages_def Let_def split: if_splits sum.splits)
  have ut: "unat t = unat (mem_total_bytes s) + unat (payload_bytes msgs)"
    using t by (rule unat_reserve_bytes)
  have tm: "t \<le> mem_max_total_bytes s"
    using t ut by (simp add: reserve_bytes_Inr word_le_nat_alt)
  have "unat (se_total_bytes e) + unat (payload_bytes msgs) \<le> unat t" using assms(2) ut by simp
  also have "\<dots> < 2 ^ 64" by simp
  finally show ?thesis using that [OF s'(1) ut tm] le s'(2) False by (simp add: push_messages_eq)
qed

section \<open>Changing one entry\<close>

text \<open>
  Replacing an entry by one of the same lineage keeps the invariant, when the
  new entry is well formed, the byte counter follows, and the tail does not
  move back while forks hang on the stream.
\<close>

lemma mem_inv_set_stream:
  assumes inv: "mem_inv s" and e: "get_stream s n = Some e"
    and same: "se_fork_info e' = se_fork_info e" "se_ref_count e' = se_ref_count e"
    and ok: "entry_ok e'" "se_total_bytes e' \<le> mem_max_stream_bytes s"
    and bytes: "unat t + unat (se_total_bytes e) = unat (mem_total_bytes s) + unat (se_total_bytes e')"
      "t \<le> mem_max_total_bytes s"
    and tail: "kids (parents s) n \<noteq> {} \<Longrightarrow> \<not> offset_lt (entry_next_offset e') (entry_next_offset e)"
  shows "mem_inv (set_stream n e' (s\<lparr>mem_total_bytes := t\<rparr>))" (is "mem_inv ?s")
proof -
  have par: "parents ?s = parents s"
    using parents_same [of "s\<lparr>mem_total_bytes := t\<rparr>" n e e'] e same by simp
  have "entries_ok ?s" using inv ok by (auto simp: mem_inv_defs)
  moreover have "lineage (parents ?s)" using inv par by (simp add: mem_inv_lineage)
  moreover have "counts_ok ?s None"
    using inv e same par by (auto simp: mem_inv_def counts_ok_def)
  moreover have "bytes_ok ?s"
    using inv e bytes sum_bytes_set [of n e' "s\<lparr>mem_total_bytes := t\<rparr>"]
    by (auto simp: mem_inv_defs stream_bytes_def)
  moreover have "fork_bounds ?s"
    unfolding fork_bounds_def
  proof (intro allI impI)
    fix c ec fi p
    assume c: "get_stream ?s c = Some ec" "se_fork_info ec = Some fi" "get_stream ?s (source_name fi) = Some p"
    then obtain ec0 where ec0: "get_stream s c = Some ec0" "se_fork_info ec0 = Some fi"
      using e same by (auto split: if_splits)
    then have kid: "c \<in> kids (parents s) (source_name fi)" by (simp add: kids_def parents_Some)
    have wf: "wf_offset (fork_offset fi)"
      using mem_inv_entry [OF inv ec0(1)] ec0(2) by (auto simp: entry_ok_def)
    show "\<not> offset_lt (entry_next_offset p) (fork_offset fi)"
    proof (cases "source_name fi = n")
      case True
      then have "\<not> offset_lt (entry_next_offset e) (fork_offset fi)" "p = e'"
        using inv e ec0 c(3) by (auto simp: mem_inv_def mem_core_def fork_bounds_def)
      moreover have "\<not> offset_lt (entry_next_offset e') (entry_next_offset e)"
        using tail kid True by blast
      ultimately show ?thesis
        using offset_ge_trans [of "entry_next_offset e" "entry_next_offset e'" "fork_offset fi"] wf by simp
    next
      case False
      with c(3) have "get_stream s (source_name fi) = Some p" by simp
      with inv ec0 show ?thesis by (auto simp: mem_inv_def mem_core_def fork_bounds_def)
    qed
  qed
  ultimately show ?thesis by (simp add: mem_inv_def mem_core_def)
qed

text \<open>The case of a change that leaves the log alone.\<close>

lemma mem_inv_update_meta:
  assumes "mem_inv s" "get_stream s n = Some e"
    "se_messages e' = se_messages e" "se_next_read_seq e' = se_next_read_seq e"
    "se_next_byte_offset e' = se_next_byte_offset e" "se_total_bytes e' = se_total_bytes e"
    "se_fork_info e' = se_fork_info e" "se_ref_count e' = se_ref_count e"
  shows "mem_inv (set_stream n e' s)"
proof -
  have "entry_ok e'" using entry_ok_cong [of e' e] mem_inv_entry [OF assms(1,2)] assms by simp
  moreover have "se_total_bytes e' \<le> mem_max_stream_bytes s" "mem_total_bytes s \<le> mem_max_total_bytes s"
    using assms(1,2,6) by (auto simp: mem_inv_defs)
  moreover have "entry_next_offset e' = entry_next_offset e"
    using assms by (simp add: entry_next_offset_def)
  ultimately have "mem_inv (set_stream n e' (s\<lparr>mem_total_bytes := mem_total_bytes s\<rparr>))"
    using assms by (intro mem_inv_set_stream [of s n e]) (auto simp: offset_lt_key entry_next_offset_def)
  then show ?thesis by simp
qed

section \<open>Removing a stream and the cascade\<close>

text \<open>The reference count is no part of the core.\<close>

lemma mem_core_set_ref_count:
  assumes core: "mem_core s" and e: "get_stream s n = Some e"
  shows "mem_core (set_stream n (e\<lparr>se_ref_count := r\<rparr>) s)" (is "mem_core (set_stream n ?e s)")
proof -
  have "entry_ok ?e" using core e entry_ok_cong [of ?e e] by (simp add: mem_core_def entries_ok_def)
  then have "entries_ok (set_stream n ?e s)" using core e by (auto simp: mem_core_def entries_ok_def)
  moreover have "lineage (parents (set_stream n ?e s))"
    using core parents_same [OF e, of ?e] by (simp add: mem_core_def)
  moreover have "bytes_ok (set_stream n ?e s)"
    using core e sum_bytes_set [of n ?e s] by (simp add: mem_core_def bytes_ok_def stream_bytes_def)
  moreover have "fork_bounds (set_stream n ?e s)"
    unfolding fork_bounds_def
  proof (intro allI impI)
    fix c ec fi p
    assume c: "get_stream (set_stream n ?e s) c = Some ec" "se_fork_info ec = Some fi"
      "get_stream (set_stream n ?e s) (source_name fi) = Some p"
    obtain ec0 where "get_stream s c = Some ec0" "se_fork_info ec0 = Some fi"
      using c(1,2) e by (auto split: if_splits)
    moreover obtain p0 where "get_stream s (source_name fi) = Some p0" "entry_next_offset p0 = entry_next_offset p"
      using c(3) e by (auto simp: entry_next_offset_def split: if_splits)
    ultimately show "\<not> offset_lt (entry_next_offset p) (fork_offset fi)"
      using core by (metis fork_bounds_def mem_core_def)
  qed
  ultimately show ?thesis by (simp add: mem_core_def)
qed

lemma core_drop_leaf:
  assumes core: "mem_core s" and e: "get_stream s n = Some e" and leaf: "kids (parents s) n = {}"
  shows "mem_core ((drop_stream n s)\<lparr>mem_total_bytes := release_bytes (mem_total_bytes s) (se_total_bytes e)\<rparr>)"
    (is "mem_core ?s")
proof -
  have "entries_ok ?s" using core by (auto simp: mem_core_def entries_ok_def)
  moreover have "lineage (parents ?s)"
    using core leaf by (simp add: mem_core_def lineage_drop_leaf)
  moreover have "fork_bounds ?s"
    using core by (auto simp: mem_core_def fork_bounds_def split: if_splits)
  moreover have "bytes_ok ?s"
    using core e sum_bytes_drop [of n s] unat_release_bytes [of "mem_total_bytes s" "se_total_bytes e"]
    by (auto simp: mem_core_def bytes_ok_def stream_bytes_def word_le_nat_alt)
  ultimately show ?thesis by (simp add: mem_core_def)
qed

lemma counts_drop:
  assumes counts: "counts_ok s ex" "ex = None \<or> ex = Some n" and e: "get_stream s n = Some e"
  shows "counts_ok ((drop_stream n s)\<lparr>mem_total_bytes := t\<rparr>) (map_option source_name (se_fork_info e))"
    (is "counts_ok ?s ?q")
  unfolding counts_ok_def
proof (intro allI impI)
  fix m em assume m: "get_stream ?s m = Some em"
  then have mn: "m \<noteq> n" "get_stream s m = Some em" by (auto split: if_splits)
  with counts have cnt: "unat (se_ref_count em) = card (kids (parents s) m)"
    by (auto simp: counts_ok_def)
  have n: "n \<in> kids (parents s) m \<longleftrightarrow> ?q = Some m"
    by (auto simp: kids_def parents_Some [OF e])
  have "card (kids (parents s) m) = card (kids (parents s) m - {n}) + (if ?q = Some m then 1 else 0)"
  proof (cases "?q = Some m")
    case True
    then show ?thesis using n card_Suc_Diff1 [OF finite_kids, of n s m] by simp
  next
    case False
    then show ?thesis using n by simp
  qed
  with cnt show "unat (se_ref_count em) = card (kids (parents ?s) m) + (if ?q = Some m then 1 else 0)"
    by (simp add: kids_drop_leaf)
qed

text \<open>The cascade restores exact counts and keeps everything else.\<close>

lemma cascade_delete_inv:
  "mem_core s \<Longrightarrow> counts_ok s (Some p) \<Longrightarrow> mem_inv (cascade_delete s p)"
proof (induction s p rule: cascade_delete.induct)
  case (1 s p)
  show ?case
  proof (cases "get_stream s p")
    case None
    with 1 show ?thesis
      by (auto simp: cascade_delete.simps [of s p] mem_inv_def counts_ok_def)
  next
    case (Some e)
    let ?e = "e\<lparr>se_ref_count := saturating_sub (se_ref_count e) 1\<rparr>"
    let ?s = "(drop_stream p s)\<lparr>mem_total_bytes := release_bytes (mem_total_bytes s) (se_total_bytes e)\<rparr>"
    have cnt: "unat (se_ref_count e) = card (kids (parents s) p) + 1"
      using "1.prems"(2) Some by (simp add: counts_ok_def)
    have cnt': "unat (se_ref_count ?e) = card (kids (parents s) p)"
      using cnt by (simp add: unat_saturating_sub)
    show ?thesis
    proof (cases "se_state e = Tombstone \<and> se_ref_count ?e = 0")
      case True
      then have "kids (parents s) p = {}" using cnt' by (simp add: card_eq_0_iff)
      then have core: "mem_core ?s" using "1.prems"(1) Some by (rule core_drop_leaf [rotated 2])
      have counts: "counts_ok ?s (map_option source_name (se_fork_info e))"
        by (rule counts_drop [OF "1.prems"(2) _ Some]) simp
      show ?thesis
      proof (cases "se_fork_info e")
        case None
        then have "cascade_delete s p = ?s"
          using Some True by (simp add: cascade_delete.simps [of s p])
        with None core counts show ?thesis by (simp add: mem_inv_def)
      next
        case (Some fi)
        then have "cascade_delete s p = cascade_delete ?s (source_name fi)"
          using \<open>get_stream s p = Some e\<close> True by (simp add: cascade_delete.simps [of s p])
        moreover have "mem_inv (cascade_delete ?s (source_name fi))"
          using "1.IH" [OF \<open>get_stream s p = Some e\<close> refl] True Some core counts by simp
        ultimately show ?thesis by simp
      qed
    next
      case False
      then have eq: "cascade_delete s p = set_stream p ?e s"
        using Some by (auto simp: cascade_delete.simps [of s p])
      have par: "parents (set_stream p ?e s) = parents s"
        using Some by (intro parents_same) simp_all
      have "mem_core (set_stream p ?e s)"
        using "1.prems"(1) Some by (rule mem_core_set_ref_count)
      moreover have "counts_ok (set_stream p ?e s) None"
        using "1.prems"(2) cnt' par by (auto simp: counts_ok_def)
      ultimately show ?thesis using eq by (simp add: mem_inv_def)
    qed
  qed
qed

lemma hard_remove_inv:
  assumes "mem_inv s" "get_stream s n = Some e" "kids (parents s) n = {}"
    "hard_remove_stream s n = (s', fo)"
  shows "mem_core s' \<and> counts_ok s' (map_option source_name fo) \<and> fo = se_fork_info e"
  using assms core_drop_leaf [of s n e] counts_drop [of s None n e]
  by (auto simp: hard_remove_stream_def mem_inv_def)

lemma remove_for_recreate_inv:
  assumes "mem_inv s" "get_stream s n = Some e" "se_ref_count e = 0"
  shows "mem_inv (remove_for_recreate s n)"
proof -
  obtain s' fo where r: "hard_remove_stream s n = (s', fo)" by fastforce
  have "kids (parents s) n = {}" using assms mem_inv_zero_count by blast
  note h = hard_remove_inv [OF assms(1,2) this r]
  then show ?thesis
    using cascade_delete_inv [of s'] by (auto simp: remove_for_recreate_def r mem_inv_def split: option.splits)
qed

lemma remove_for_recreate_absent:
  "get_stream s n = None \<Longrightarrow> remove_for_recreate s n = s"
  by (simp add: remove_for_recreate_def hard_remove_stream_def)

end
