(* ===== verification/DS_Mem_Ops.thy ===== *)
theory DS_Mem_Ops
  imports DS_Mem_Inv
begin

text \<open>
  Inversion of the operations of the in-memory backend (what a successful or
  failed call has done) and preservation of the invariant by each of them.
\<close>

section \<open>Inversion of the append operations\<close>

lemma set_stream_same: "get_stream s n = Some e \<Longrightarrow> set_stream n e s = s"
proof -
  assume "get_stream s n = Some e"
  then have "fmupd n e (mem_streams s) = mem_streams s"
    by (intro fmap_ext) (auto simp: get_stream_def)
  then show ?thesis by (simp add: set_stream_def)
qed

lemma set_stream_overwrite: "set_stream n e (set_stream n e' s) = set_stream n e s"
  by (simp add: set_stream_def)

lemma set_stream_total:
  "(set_stream n e s)\<lparr>mem_total_bytes := t\<rparr> = set_stream n e (s\<lparr>mem_total_bytes := t\<rparr>)"
  by (simp add: set_stream_def)

lemma apply_append_metadata_Inr:
  assumes "apply_append_metadata E now ttl_now c last_seq pending = Inr (c', seq', upd', ch)"
  shows "renew_ttl E ttl_now c = Inr (c', ch) \<and> upd' = Some now \<and>
    seq' = (case pending of Some n \<Rightarrow> Some n | None \<Rightarrow> last_seq)"
  using assms by (auto simp: apply_append_metadata_def Let_def split: sum.splits)

lemma append_batch_Inl: "append_batch E s n msgs ct sq close = (s', Inl er) \<Longrightarrow> s' = s"
  by (auto simp: append_batch_def Let_def dest: commit_messages_Inl split: sum.splits option.splits prod.splits)

text \<open>What a successful \<open>append_batch\<close> checked and did.\<close>

lemma append_batch_Inr:
  assumes "append_batch E s n msgs ct sq close = (s', Inr r)"
  obtains e pending c' ch s1 e1 where
    "get_stream s n = Some e" "msgs \<noteq> [] \<or> close"
    "precheck_batch_append (now_at E 0) (se_config e) (se_state e) (se_closed e) (se_last_seq e)
       n (if msgs \<noteq> [] then Some ct else None) sq = Inr pending"
    "renew_ttl E (now_at E 2) (se_config e) = Inr (c', ch)"
    "commit_messages s e msgs = (s1, Inr e1)"
    "s' = set_stream n (notify_send (e1\<lparr>se_config := c',
        se_last_seq := (case pending of Some q \<Rightarrow> Some q | None \<Rightarrow> se_last_seq e),
        se_updated_at := Some (now_at E 1), se_closed := se_closed e1 \<or> close\<rparr>)) s1"
    "r = \<lparr>ar_start_offset = entry_next_offset e, ar_next_offset = entry_next_offset e1,
          ar_closed = se_closed e1 \<or> close\<rparr>"
proof -
  have *: "msgs \<noteq> [] \<or> close"
    using assms by (auto simp: append_batch_def validate_batch_shape_def split: if_splits)
  show ?thesis
    using assms * that
    by (auto simp: append_batch_def Let_def entry_next_offset_def dest!: apply_append_metadata_Inr
        split: sum.splits option.splits prod.splits)
qed

lemma precheck_batch_append_Inr:
  assumes "precheck_batch_append now c st closed ls n cto sq = Inr pending"
  shows "st = Active" "\<not> is_stream_expired now c" "cto \<noteq> None \<Longrightarrow> \<not> closed"
    "cto = Some ct \<Longrightarrow> eq_ignore_ascii_case ct (content_type c)"
    "validate_seq ls sq = Inr pending"
  using assms
  by (auto simp: precheck_batch_append_def precheck_append_def validate_content_type_def
      split: option.splits sum.splits if_splits)

text \<open>The entry after a commit, field by field.\<close>

lemma commit_messages_fields:
  assumes "commit_messages s e msgs = (s1, Inr e1)"
  shows "se_config e1 = se_config e" "se_closed e1 = se_closed e" "se_fork_info e1 = se_fork_info e"
    "se_ref_count e1 = se_ref_count e" "se_state e1 = se_state e" "se_producers e1 = se_producers e"
    "se_last_seq e1 = se_last_seq e"
    "se_messages e1 = se_messages e @ log_from (se_next_read_seq e) (se_next_byte_offset e) msgs"
    "se_next_read_seq e1 = se_next_read_seq e + of_nat (length msgs)"
    "se_next_byte_offset e1 = se_next_byte_offset e + payload_bytes msgs"
    "se_total_bytes e1 = se_total_bytes e + payload_bytes msgs"
    "se_notify e1 = se_notify e + (if msgs = [] then 0 else 1)"
    "get_stream s1 m = get_stream s m" "mem_subscription_state s1 = mem_subscription_state s"
  using assms
  by (auto simp: commit_messages_def Let_def push_messages_eq split: if_splits sum.splits)

lemma append_with_producer_Inl:
  assumes "append_with_producer E s n msgs ct p cl sq = (s', Inl er)"
  shows "s' = s \<or> (\<exists>e. get_stream s n = Some e \<and>
    s' = set_stream n (e\<lparr>se_producers := cleanup_stale_producers E (now_at E 1) (se_producers e)\<rparr>) s)"
proof (cases "get_stream s n")
  case None
  with assms show ?thesis by (simp add: append_with_producer_def)
next
  case (Some e)
  obtain ps chk where pre: "precheck_producer_append E (now_at E 0) (now_at E 1) (se_config e) (se_state e)
      (se_closed e) (se_last_seq e) (se_producers e) n ct p msgs sq = (ps, chk)" by fastforce
  then have ps: "ps = se_producers e \<or> ps = cleanup_stale_producers E (now_at E 1) (se_producers e)"
    by (auto simp: precheck_producer_append_def Let_def split: sum.splits)
  have "s' = set_stream n (e\<lparr>se_producers := ps\<rparr>) s"
    using assms Some pre
    by (auto simp: append_with_producer_def Let_def dest: commit_messages_Inl
        split: sum.splits prod.splits producer_append_precheck.splits)
  with ps Some set_stream_same [OF Some] show ?thesis by auto
qed

lemma append_with_producer_Inr:
  assumes "append_with_producer E s n msgs ct p cl sq = (s', Inr r)"
  obtains (dup) e e0 ep q where "get_stream s n = Some e"
      "e0 = e\<lparr>se_producers := cleanup_stale_producers E (now_at E 1) (se_producers e)\<rparr>"
      "check_producer (se_producers e0 (prod_id p)) p (se_closed e) = Inr (CheckDuplicate ep q)"
      "s' = set_stream n e0 s" "r = Duplicate ep q (entry_next_offset e) (se_closed e)"
      "se_state e = Active" "\<not> is_stream_expired (now_at E 0) (se_config e)"
    | (acc) e e0 pending c' ch s1 e1 where "get_stream s n = Some e"
      "e0 = e\<lparr>se_producers := cleanup_stale_producers E (now_at E 1) (se_producers e)\<rparr>"
      "check_producer (se_producers e0 (prod_id p)) p (se_closed e) = Inr CheckAccept"
      "validate_seq (se_last_seq e) sq = Inr pending"
      "renew_ttl E (now_at E 3) (se_config e) = Inr (c', ch)"
      "commit_messages (set_stream n e0 s) e0 msgs = (s1, Inr e1)"
      "s' = set_stream n (e1\<lparr>se_closed := (if cl then True else se_closed e1), se_config := c',
          se_last_seq := (case pending of Some q \<Rightarrow> Some q | None \<Rightarrow> se_last_seq e),
          se_updated_at := Some (now_at E 2),
          se_producers := (se_producers e1)(prod_id p \<mapsto>
            \<lparr>ps_epoch = prod_epoch p, ps_last_seq = prod_seq p, ps_updated_at = now_at E 2\<rparr>)\<rparr>) s1"
      "r = Accepted (prod_epoch p) (prod_seq p) (entry_next_offset e1) (if cl then True else se_closed e1)"
      "se_state e = Active" "\<not> is_stream_expired (now_at E 0) (se_config e)"
      "msgs \<noteq> [] \<Longrightarrow> eq_ignore_ascii_case ct (content_type (se_config e))"
proof (cases "get_stream s n")
  case None
  with assms show ?thesis by (simp add: append_with_producer_def)
next
  case (Some e)
  let ?ps = "cleanup_stale_producers E (now_at E 1) (se_producers e)"
  obtain ps chk where pre: "precheck_producer_append E (now_at E 0) (now_at E 1) (se_config e) (se_state e)
      (se_closed e) (se_last_seq e) (se_producers e) n ct p msgs sq = (ps, chk)" by fastforce
  show ?thesis
  proof (cases chk)
    case (Inl er)
    with assms Some pre show ?thesis by (simp add: append_with_producer_def Let_def)
  next
    case (Inr res)
    have ok: "se_state e = Active" "\<not> is_stream_expired (now_at E 0) (se_config e)" and ps: "ps = ?ps"
      and ct: "msgs \<noteq> [] \<Longrightarrow> eq_ignore_ascii_case ct (content_type (se_config e))"
      using pre Inr by (auto simp: precheck_producer_append_def validate_content_type_def Let_def
          split: sum.splits if_splits)
    show ?thesis
    proof (cases res)
      case (PrecheckDuplicate ep q)
      with pre Inr ps have "check_producer (?ps (prod_id p)) p (se_closed e) = Inr (CheckDuplicate ep q)"
        by (auto simp: precheck_producer_append_def Let_def split: sum.splits if_splits producer_check.splits)
      then show ?thesis
        using assms Some pre Inr PrecheckDuplicate ps ok
        by (intro dup [of e _ ep q]) (auto simp: append_with_producer_def Let_def entry_next_offset_def)
    next
      case (PrecheckAccept pending)
      with pre Inr ps have chk: "check_producer (?ps (prod_id p)) p (se_closed e) = Inr CheckAccept"
        "validate_seq (se_last_seq e) sq = Inr pending"
        by (auto simp: precheck_producer_append_def Let_def split: sum.splits if_splits producer_check.splits)
      then show ?thesis
        using assms Some pre Inr PrecheckAccept ps ok ct
        by (auto simp: append_with_producer_def Let_def entry_next_offset_def dest!: apply_append_metadata_Inr
            split: sum.splits prod.splits intro: acc [of e, OF _ refl])
    qed
  qed
qed

section \<open>Preservation by append and read\<close>

text \<open>
  The side condition of every append: the batch is smaller than the address
  space and the message counter of the stream does not wrap.
\<close>

definition batch_fits :: "mem \<Rightarrow> string \<Rightarrow> bytes list \<Rightarrow> bool" where
  "batch_fits s n msgs \<longleftrightarrow> payload_fits msgs \<and> length msgs < 2 ^ 64 \<and>
     (case get_stream s n of Some e \<Rightarrow> unat (se_next_read_seq e) + length msgs < 2 ^ 64 | None \<Rightarrow> True)"

lemma next_offset_grows:
  assumes "unat (se_next_read_seq e) + length msgs < 2 ^ 64"
    "se_next_read_seq e1 = se_next_read_seq e + of_nat (length msgs)"
    "se_next_byte_offset e1 = se_next_byte_offset e + payload_bytes msgs"
  shows "\<not> offset_lt (entry_next_offset e1) (entry_next_offset e)"
proof -
  have "unat (se_next_read_seq e1) = unat (se_next_read_seq e) + length msgs"
    using assms(1,2) by (simp add: unat_word_ariths unat_of_nat)
  then show ?thesis
    using assms by (cases msgs) (auto simp: entry_next_offset_def word_less_nat_alt)
qed

text \<open>Committing to a present stream and storing the entry back with other metadata.\<close>

lemma commit_store_inv:
  assumes inv: "mem_inv s" and e: "get_stream s n = Some e" and fits: "batch_fits s n msgs"
    and c: "commit_messages s e msgs = (s1, Inr e1)"
    and same: "se_messages e2 = se_messages e1" "se_next_read_seq e2 = se_next_read_seq e1"
      "se_next_byte_offset e2 = se_next_byte_offset e1" "se_total_bytes e2 = se_total_bytes e1"
      "se_fork_info e2 = se_fork_info e1" "se_ref_count e2 = se_ref_count e1"
  shows "mem_inv (set_stream n e2 s1)"
proof -
  have core: "mem_core s" using inv by (simp add: mem_inv_def)
  have le: "unat (se_total_bytes e) \<le> unat (mem_total_bytes s)"
    using mem_core_bytes_le [OF core e] .
  have lim: "se_total_bytes e \<le> mem_max_stream_bytes s" "mem_total_bytes s \<le> mem_max_total_bytes s"
    using inv e by (auto simp: mem_inv_defs)
  from c le lim obtain t where t: "s1 = s\<lparr>mem_total_bytes := t\<rparr>"
    "unat t = unat (mem_total_bytes s) + unat (payload_bytes msgs)" "t \<le> mem_max_total_bytes s"
    "unat (se_total_bytes e) + unat (payload_bytes msgs) < 2 ^ 64"
    "se_total_bytes (push_messages e msgs) \<le> mem_max_stream_bytes s"
    by (rule commit_messages_Inr)
  have next_fits: "unat (se_next_read_seq e) + length msgs < 2 ^ 64" and pf: "payload_fits msgs"
    using fits e by (auto simp: batch_fits_def)
  note f = commit_messages_fields [OF c]
  have "entry_ok (push_messages e msgs)"
    using mem_inv_entry [OF inv e] pf next_fits t(4) by (rule entry_ok_push_messages)
  then have ok: "entry_ok e2"
    using entry_ok_cong [of e2 "push_messages e msgs"] same f by (simp add: push_messages_eq)
  have total: "se_total_bytes e2 \<le> mem_max_stream_bytes s"
    using t(5) same f by (simp add: push_messages_eq)
  have "unat (se_total_bytes e2) = unat (se_total_bytes e) + unat (payload_bytes msgs)"
    using t(4) same f by (simp add: unat_word_ariths)
  then have bytes: "unat t + unat (se_total_bytes e) = unat (mem_total_bytes s) + unat (se_total_bytes e2)"
    using t(2) by simp
  have "\<not> offset_lt (entry_next_offset e2) (entry_next_offset e)"
    using next_fits same f by (intro next_offset_grows [of e msgs]) simp_all
  then show ?thesis
    unfolding t(1) using same f ok total bytes t(3)
    by (intro mem_inv_set_stream [OF inv e]) simp_all
qed

lemma append_batch_inv:
  assumes "mem_inv s" "batch_fits s n msgs" "append_batch E s n msgs ct sq close = (s', r)"
  shows "mem_inv s'"
proof (cases r)
  case (Inl er)
  with assms append_batch_Inl show ?thesis by blast
next
  case (Inr ar)
  with assms(3) have "append_batch E s n msgs ct sq close = (s', Inr ar)" by simp
  then show ?thesis
    by (rule append_batch_Inr)
      (use assms(1,2) in \<open>auto intro!: commit_store_inv [of s n _ msgs]\<close>)
qed

lemma producers_update_inv:
  "mem_inv s \<Longrightarrow> get_stream s n = Some e \<Longrightarrow> mem_inv (set_stream n (e\<lparr>se_producers := ps\<rparr>) s)"
  by (rule mem_inv_update_meta [of s n e]) simp_all

lemma append_with_producer_inv:
  assumes "mem_inv s" "batch_fits s n msgs" "append_with_producer E s n msgs ct p cl sq = (s', r)"
  shows "mem_inv s'"
proof (cases r)
  case (Inl er)
  with assms(1,3) append_with_producer_Inl [of E s n msgs ct p cl sq s' er] show ?thesis
    by (auto simp: producers_update_inv)
next
  case (Inr ar)
  with assms(3) have "append_with_producer E s n msgs ct p cl sq = (s', Inr ar)" by simp
  then show ?thesis
  proof (cases rule: append_with_producer_Inr)
    case (dup e e0 ep q)
    with assms(1) show ?thesis by (simp add: producers_update_inv)
  next
    case (acc e e0 pending c' ch s1 e1)
    let ?s = "set_stream n e0 s"
    have "mem_inv ?s" using assms(1) acc(1,2) by (simp add: producers_update_inv)
    moreover have "get_stream ?s n = Some e0" by simp
    moreover have "batch_fits ?s n msgs" using assms(2) acc(1,2) by (simp add: batch_fits_def)
    ultimately show ?thesis
      using acc(6,7) by (auto intro!: commit_store_inv [of ?s n e0 msgs s1 e1])
  qed
qed

lemma mem_read_state:
  assumes "mem_read E s n from = Some (s', r)"
  shows "s' = s \<or> (\<exists>e c. get_stream s n = Some e \<and> s' = set_stream n (e\<lparr>se_config := c\<rparr>) s)"
  using assms by (auto simp: mem_read_def split: option.splits sum.splits prod.splits if_splits)

lemma mem_read_inv: "mem_inv s \<Longrightarrow> mem_read E s n from = Some (s', r) \<Longrightarrow> mem_inv s'"
  by (auto dest!: mem_read_state intro: mem_inv_update_meta)

section \<open>Preservation by delete and the expiry sweep\<close>

lemma mem_delete_inv:
  assumes inv: "mem_inv s" and d: "mem_delete s n = (s', r)"
  shows "mem_inv s'"
proof (cases "get_stream s n")
  case None
  with assms show ?thesis by (simp add: mem_delete_def)
next
  case (Some e)
  consider (gone) "se_state e = Tombstone" | (soft) "se_state e = Active" "se_ref_count e > 0"
    | (hard) "se_state e = Active" "se_ref_count e = 0"
    by (cases "se_state e") (auto simp: word_gt_0)
  then show ?thesis
  proof cases
    case gone
    with assms Some show ?thesis by (simp add: mem_delete_def evaluate_delete_def)
  next
    case soft
    with assms Some show ?thesis
      by (auto simp: mem_delete_def evaluate_delete_def intro: mem_inv_update_meta)
  next
    case hard
    then have "s' = remove_for_recreate s n"
      using Some d
      by (auto simp: mem_delete_def evaluate_delete_def remove_for_recreate_def split: prod.splits option.splits)
    with remove_for_recreate_inv [OF inv Some] hard show ?thesis by simp
  qed
qed

text \<open>
  The sweep works from counts read before it started. A count can only have
  fallen since, so a stream removed outright has no forks left.
\<close>

lemma cascade_get:
  assumes "get_stream (cascade_delete s p) m = Some e'"
  obtains e where "get_stream s m = Some e" "e' = e\<lparr>se_ref_count := se_ref_count e'\<rparr>"
    "unat (se_ref_count e') \<le> unat (se_ref_count e)"
  using assms
proof (induction s p arbitrary: thesis rule: cascade_delete.induct)
  case (1 s p)
  show ?case
  proof (cases "get_stream s p")
    case None
    with "1.prems" show ?thesis by (simp add: cascade_delete.simps [of s p])
  next
    case (Some q)
    let ?q = "q\<lparr>se_ref_count := saturating_sub (se_ref_count q) 1\<rparr>"
    let ?s = "(drop_stream p s)\<lparr>mem_total_bytes := release_bytes (mem_total_bytes s) (se_total_bytes q)\<rparr>"
    consider (rem) fi where "se_state q = Tombstone" "se_ref_count ?q = 0" "se_fork_info q = Some fi"
      | (last) "se_state q = Tombstone" "se_ref_count ?q = 0" "se_fork_info q = None"
      | (dec) "\<not> (se_state q = Tombstone \<and> se_ref_count ?q = 0)" by fastforce
    then show ?thesis
    proof cases
      case rem
      then have "get_stream (cascade_delete ?s (source_name fi)) m = Some e'"
        using "1.prems"(2) Some by (simp add: cascade_delete.simps [of s p])
      then obtain e where "get_stream ?s m = Some e" "e' = e\<lparr>se_ref_count := se_ref_count e'\<rparr>"
        "unat (se_ref_count e') \<le> unat (se_ref_count e)"
        using "1.IH" [OF Some refl, of ?s fi] rem by auto
      with "1.prems"(1) show ?thesis by (auto split: if_splits)
    next
      case last
      then have "get_stream ?s m = Some e'"
        using "1.prems"(2) Some by (simp add: cascade_delete.simps [of s p])
      with "1.prems"(1) show ?thesis by (auto split: if_splits)
    next
      case dec
      then have "get_stream (set_stream p ?q s) m = Some e'"
        using "1.prems"(2) Some by (auto simp: cascade_delete.simps [of s p])
      with "1.prems"(1) Some show ?thesis by (auto simp: unat_saturating_sub split: if_splits)
    qed
  qed
qed

lemma remove_for_recreate_get:
  assumes "get_stream (remove_for_recreate s n) m = Some e'"
  obtains e where "get_stream s m = Some e" "e' = e\<lparr>se_ref_count := se_ref_count e'\<rparr>"
    "unat (se_ref_count e') \<le> unat (se_ref_count e)" "m \<noteq> n \<or> get_stream s n = None"
proof (cases "get_stream s n")
  case None
  with assms that show ?thesis by (simp add: remove_for_recreate_absent)
next
  case (Some x)
  let ?s = "(drop_stream n s)\<lparr>mem_total_bytes := release_bytes (mem_total_bytes s) (se_total_bytes x)\<rparr>"
  show ?thesis
  proof (cases "se_fork_info x")
    case None
    with Some assms that show ?thesis
      by (auto simp: remove_for_recreate_def hard_remove_stream_def split: if_splits)
  next
    case (Some fi)
    with \<open>get_stream s n = Some x\<close> assms have "get_stream (cascade_delete ?s (source_name fi)) m = Some e'"
      by (simp add: remove_for_recreate_def hard_remove_stream_def)
    then show ?thesis by (rule cascade_get) (use that in \<open>auto split: if_splits\<close>)
  qed
qed

text \<open>A sweep list is good for a state when its zero counts are still zero there.\<close>

definition sweep_ok :: "mem \<Rightarrow> (string \<times> u32) list \<Rightarrow> bool" where
  "sweep_ok s xs \<longleftrightarrow> (\<forall>(n, r)\<in>set xs. r = 0 \<longrightarrow> (\<forall>e. get_stream s n = Some e \<longrightarrow> se_ref_count e = 0))"

lemma cleanup_one_get:
  assumes "get_stream (cleanup_one s x) m = Some e'"
  obtains e where "get_stream s m = Some e" "unat (se_ref_count e') \<le> unat (se_ref_count e)"
proof -
  obtain n r where x: "x = (n, r)" by fastforce
  show ?thesis
  proof (cases "r > 0")
    case True
    with x assms that show ?thesis
      by (auto simp: cleanup_one_def evaluate_expired_cleanup_def split: option.splits if_splits)
  next
    case False
    with x assms have "get_stream (remove_for_recreate s n) m = Some e'"
      by (simp add: cleanup_one_def evaluate_expired_cleanup_def)
    then show ?thesis by (rule remove_for_recreate_get) (rule that)
  qed
qed

lemma cleanup_one_inv:
  assumes "mem_inv s" "sweep_ok s (x # xs)"
  shows "mem_inv (cleanup_one s x) \<and> sweep_ok (cleanup_one s x) xs"
proof
  obtain n r where x: "x = (n, r)" by fastforce
  show "mem_inv (cleanup_one s x)"
  proof (cases "get_stream s n")
    case None
    with assms x show ?thesis
      by (auto simp: cleanup_one_def remove_for_recreate_absent split: delete_disposition.splits)
  next
    case (Some e)
    show ?thesis
    proof (cases "r > 0")
      case True
      with assms x Some show ?thesis
        by (auto simp: cleanup_one_def evaluate_expired_cleanup_def intro: mem_inv_update_meta)
    next
      case False
      then have "se_ref_count e = 0" using assms(2) x Some by (auto simp: sweep_ok_def word_gt_0)
      with False assms(1) x Some show ?thesis
        by (auto simp: cleanup_one_def evaluate_expired_cleanup_def intro: remove_for_recreate_inv)
    qed
  qed
  show "sweep_ok (cleanup_one s x) xs"
    unfolding sweep_ok_def
  proof (clarify)
    fix n e assume "(n, 0) \<in> set xs" and e: "get_stream (cleanup_one s x) n = Some e"
    then have zero: "get_stream s n = Some e0 \<Longrightarrow> se_ref_count e0 = 0" for e0
      using assms(2) by (auto simp: sweep_ok_def)
    from e obtain e0 where "get_stream s n = Some e0" "unat (se_ref_count e) \<le> unat (se_ref_count e0)"
      by (rule cleanup_one_get)
    with zero show "se_ref_count e = 0" by (simp add: unat_eq_zero)
  qed
qed

lemma foldl_cleanup_inv: "mem_inv s \<Longrightarrow> sweep_ok s xs \<Longrightarrow> mem_inv (foldl cleanup_one s xs)"
  by (induction xs arbitrary: s) (auto dest: cleanup_one_inv)

lemma cleanup_expired_streams_inv:
  assumes "mem_inv s" "cleanup_expired_streams E s ord = (s', k)"
  shows "mem_inv s'"
proof -
  have "sweep_ok s (expired_streams E s ord)"
    by (auto simp: sweep_ok_def expired_streams_def split: option.splits)
  with assms show ?thesis by (auto simp: cleanup_expired_streams_def Let_def intro: foldl_cleanup_inv)
qed

end
