(* ===== verification/DS_Mem_Create.thy ===== *)
theory DS_Mem_Create
  imports DS_Mem_Ops
begin

text \<open>
  Creation, replacement and forking in the in-memory backend keep the
  invariant. Forking needs one condition on the clock: a stream forked from
  itself must not expire between the two clock readings of the call.
\<close>

section \<open>Adding a stream\<close>

lemma mem_core_add:
  assumes inv: "mem_inv s" and new: "get_stream s n = None"
    and ok: "entry_ok e" "se_total_bytes e \<le> mem_max_stream_bytes s"
    and bytes: "unat t = unat (mem_total_bytes s) + unat (se_total_bytes e)" "t \<le> mem_max_total_bytes s"
    and src: "\<And>fi. se_fork_info e = Some fi \<Longrightarrow>
      \<exists>p. get_stream s (source_name fi) = Some p \<and> \<not> offset_lt (entry_next_offset p) (fork_offset fi)"
  shows "mem_core (set_stream n e (s\<lparr>mem_total_bytes := t\<rparr>))" (is "mem_core ?s")
proof -
  have lin: "lineage (parents s)" using inv by (rule mem_inv_lineage)
  have "entries_ok ?s" using inv ok by (auto simp: mem_inv_defs)
  moreover have "lineage (parents ?s)"
    using lin new src by (auto simp: parents_set_stream dest!: parents_Some intro!: lineage_add)
  moreover have "bytes_ok ?s"
    using inv new bytes sum_bytes_set [of n e "s\<lparr>mem_total_bytes := t\<rparr>"]
    by (auto simp: mem_inv_defs stream_bytes_def)
  moreover have "fork_bounds ?s"
    unfolding fork_bounds_def
  proof (intro allI impI)
    fix c ec fi p
    assume c: "get_stream ?s c = Some ec" "se_fork_info ec = Some fi" "get_stream ?s (source_name fi) = Some p"
    show "\<not> offset_lt (entry_next_offset p) (fork_offset fi)"
    proof (cases "c = n")
      case True
      with c src [of fi] new show ?thesis by (auto split: if_splits)
    next
      case False
      with c have "parents s c = Some (Some (source_name fi))" by (simp add: parents_Some)
      then have "get_stream s (source_name fi) \<noteq> None"
        using lineage_parent_present [OF lin] by fastforce
      with new c(3) have "get_stream s (source_name fi) = Some p" by (auto split: if_splits)
      with inv c False show ?thesis by (auto simp: mem_inv_def mem_core_def fork_bounds_def)
    qed
  qed
  ultimately show ?thesis by (simp add: mem_core_def)
qed

lemma mem_inv_add_root:
  assumes inv: "mem_inv s" and new: "get_stream s n = None"
    and e: "entry_ok e" "se_total_bytes e \<le> mem_max_stream_bytes s" "se_fork_info e = None" "se_ref_count e = 0"
    and bytes: "unat t = unat (mem_total_bytes s) + unat (se_total_bytes e)" "t \<le> mem_max_total_bytes s"
  shows "mem_inv (set_stream n e (s\<lparr>mem_total_bytes := t\<rparr>))" (is "mem_inv ?s")
proof -
  have "mem_core ?s" using assms by (intro mem_core_add) auto
  moreover have "counts_ok ?s None"
    using inv new e(3,4) absent_no_kids [OF mem_inv_lineage [OF inv], of n]
    by (auto simp: mem_inv_def counts_ok_def parents_set_stream kids_add)
  ultimately show ?thesis by (simp add: mem_inv_def)
qed

lemma get_incr_ref_count:
  "get_stream (incr_ref_count p s) m =
    (if m = p then map_option (\<lambda>e. e\<lparr>se_ref_count := se_ref_count e + 1\<rparr>) (get_stream s p) else get_stream s m)"
  by (auto simp: incr_ref_count_def split: option.splits)

text \<open>A new fork: its own entry, and one more reference on the source.\<close>

lemma mem_inv_add_fork:
  assumes inv: "mem_inv s" and new: "get_stream s n = None"
    and e: "entry_ok e" "se_total_bytes e \<le> mem_max_stream_bytes s" "se_fork_info e = Some fi" "se_ref_count e = 0"
    and bytes: "unat t = unat (mem_total_bytes s) + unat (se_total_bytes e)" "t \<le> mem_max_total_bytes s"
    and src: "get_stream s (source_name fi) = Some p" "\<not> offset_lt (entry_next_offset p) (fork_offset fi)"
    and room: "unat (se_ref_count p) + 1 < 2 ^ 32"
  shows "mem_inv (incr_ref_count (source_name fi) (set_stream n e (s\<lparr>mem_total_bytes := t\<rparr>)))"
    (is "mem_inv (incr_ref_count ?p ?s)")
proof -
  have core: "mem_core ?s" using assms by (intro mem_core_add) auto
  have pn: "?p \<noteq> n" using new src by auto
  let ?p1 = "p\<lparr>se_ref_count := se_ref_count p + 1\<rparr>"
  have eq: "incr_ref_count ?p ?s = set_stream ?p ?p1 ?s"
    using src pn by (simp add: incr_ref_count_def)
  have par: "parents (set_stream ?p ?p1 ?s) = parents ?s"
    using src pn by (intro parents_same [of _ _ p]) simp_all
  have "mem_core (set_stream ?p ?p1 ?s)"
    using core src pn by (intro mem_core_set_ref_count) simp_all
  moreover have "counts_ok (set_stream ?p ?p1 ?s) None"
    unfolding counts_ok_def par
  proof (intro allI impI)
    fix m em assume m: "get_stream (set_stream ?p ?p1 ?s) m = Some em"
    have kids: "kids (parents ?s) k = (if k = ?p then insert n (kids (parents s) k) else kids (parents s) k)" for k
      using new e(3) by (simp add: parents_set_stream kids_add)
    have n: "n \<notin> kids (parents s) ?p" using new by (simp add: kids_def parents_def)
    have "unat (se_ref_count p + 1) = unat (se_ref_count p) + 1"
      using room by (simp add: unat_word_ariths)
    then have room': "unat (se_ref_count p + 1) = card (kids (parents s) ?p) + 1"
      using mem_inv_count [OF inv src(1)] by simp
    have "unat (se_ref_count em) = card (kids (parents ?s) m)"
    proof (cases "m = ?p")
      case True
      with m have "em = ?p1" by simp
      with True show ?thesis unfolding kids using room' n by (simp add: card_insert_disjoint)
    next
      case p: False
      show ?thesis
      proof (cases "m = n")
        case True
        with p m have "em = e" by simp
        with p True e(4) show ?thesis
          unfolding kids using absent_no_kids [OF mem_inv_lineage [OF inv], of n] new by simp
      next
        case False
        with p m have "get_stream s m = Some em" by simp
        with p show ?thesis unfolding kids using mem_inv_count [OF inv, of m em] by simp
      qed
    qed
    then show "unat (se_ref_count em) = card (kids (parents ?s) m) + (if None = Some m then 1 else 0)"
      by simp
  qed
  ultimately show ?thesis using eq by (simp add: mem_inv_def)
qed

section \<open>Committing to a fresh entry\<close>

lemma commit_fresh:
  assumes inv: "mem_inv s" and e: "entry_ok e" "se_total_bytes e = 0"
    and fits: "payload_fits msgs" "unat (se_next_read_seq e) + length msgs < 2 ^ 64"
    and c: "commit_messages s e msgs = (s1, Inr e1)"
  obtains t where "s1 = s\<lparr>mem_total_bytes := t\<rparr>" "t \<le> mem_max_total_bytes s"
    "unat t = unat (mem_total_bytes s) + unat (se_total_bytes e1)"
    "entry_ok e1" "se_total_bytes e1 \<le> mem_max_stream_bytes s"
proof -
  have lim: "unat (se_total_bytes e) \<le> unat (mem_total_bytes s)"
    "se_total_bytes e \<le> mem_max_stream_bytes s" "mem_total_bytes s \<le> mem_max_total_bytes s"
    using inv e(2) by (auto simp: mem_inv_defs)
  from c lim obtain t where t: "s1 = s\<lparr>mem_total_bytes := t\<rparr>"
    "unat t = unat (mem_total_bytes s) + unat (payload_bytes msgs)" "t \<le> mem_max_total_bytes s"
    "unat (se_total_bytes e) + unat (payload_bytes msgs) < 2 ^ 64"
    "se_total_bytes (push_messages e msgs) \<le> mem_max_stream_bytes s"
    "e1 = (if msgs = [] then e else notify_send (push_messages e msgs))"
    by (rule commit_messages_Inr)
  have "entry_ok (push_messages e msgs)"
    using e(1) fits t(4) by (rule entry_ok_push_messages)
  then have "entry_ok e1"
    using t(6) entry_ok_cong [of "notify_send (push_messages e msgs)" "push_messages e msgs"] e(1) by simp
  moreover have "se_total_bytes e1 = payload_bytes msgs" "se_total_bytes (push_messages e msgs) = se_total_bytes e1"
    using commit_messages_fields(11) [OF c] e(2) by (simp_all add: push_messages_eq)
  ultimately show ?thesis using t by (intro that [of t]) auto
qed

section \<open>Create and replace\<close>

lemma remove_for_recreate_dropped: "get_stream (remove_for_recreate s n) n = None"
  using remove_for_recreate_get [of s n n] by (metis option.distinct(1) option.exhaust)

text \<open>The failed and the idempotent create leave the state alone, or have removed an expired stream.\<close>

lemma create_stream_with_data_cases:
  assumes "create_stream_with_data E s n opts msgs cl = (s', r)"
  obtains (unchanged) "s' = s" "\<And>cw. r = Inr cw \<Longrightarrow> cw_status cw = AlreadyExists"
    | (fresh) c s1 where "resolve E opts (now_at E 0) = Inr c"
      "s1 = s \<and> get_stream s n = None \<or> s1 = remove_for_recreate s n \<and>
        (\<exists>e. get_stream s n = Some e \<and> is_stream_expired (now_at E 1) (se_config e) \<and> se_ref_count e = 0)"
      "(\<exists>er s2. commit_messages s1 (stream_entry_new c (now_at E 2)) msgs = (s2, Inl er) \<and> s' = s2 \<and> r = Inl er) \<or>
       (\<exists>e1 s2. commit_messages s1 (stream_entry_new c (now_at E 2)) msgs = (s2, Inr e1) \<and>
          s' = set_stream n (if cl \<or> created_closed c then e1\<lparr>se_closed := True\<rparr> else e1) s2 \<and>
          r = Inr \<lparr>cw_status = Created, cw_next_offset = entry_next_offset e1,
                   cw_closed = cl \<or> created_closed c\<rparr>)"
proof (cases "resolve E opts (now_at E 0)")
  case (Inl er)
  with assms unchanged show ?thesis by (auto simp: create_stream_with_data_def)
next
  case (Inr c)
  have commit: "(if msgs \<noteq> [] then commit_messages s1 x msgs else (s1, Inr x)) = commit_messages s1 x msgs" for s1 x
    by (simp add: commit_messages_def)
  have closed: "se_closed e1 = False" if "commit_messages s1 (stream_entry_new c (now_at E 2)) msgs = (s2, Inr e1)" for s1 s2 e1
    using commit_messages_fields(2) [OF that] by simp
  show ?thesis
  proof (cases "get_stream s n")
    case None
    show ?thesis
      by (rule fresh [OF Inr, of s])
        (use assms Inr None in \<open>auto simp: create_stream_with_data_def commit Let_def entry_next_offset_def closed
           split: prod.splits sum.splits\<close>)
  next
    case (Some e)
    show ?thesis
    proof (cases "evaluate_root_create (now_at E 1) n (se_config e) (se_state e) (se_ref_count e) c")
      case RemoveExpired
      then have "is_stream_expired (now_at E 1) (se_config e) \<and> se_ref_count e = 0"
        by (simp add: evaluate_create_RemoveExpired)
      then show ?thesis
        by (intro fresh [OF Inr, of "remove_for_recreate s n"])
          (use assms Inr Some RemoveExpired in \<open>auto simp: create_stream_with_data_def commit Let_def
             entry_next_offset_def closed split: prod.splits sum.splits\<close>)
    next
      case DispAlreadyExists
      with assms Inr Some unchanged show ?thesis by (auto simp: create_stream_with_data_def)
    next
      case (Conflict er)
      with assms Inr Some unchanged show ?thesis by (auto simp: create_stream_with_data_def)
    qed
  qed
qed

lemma create_stream_with_data_inv:
  assumes inv: "mem_inv s" and fits: "payload_fits msgs" "length msgs < 2 ^ 64"
    and c: "create_stream_with_data E s n opts msgs cl = (s', r)"
  shows "mem_inv s'"
  using c
proof (cases rule: create_stream_with_data_cases)
  case unchanged
  with inv show ?thesis by simp
next
  case (fresh c s1)
  have inv1: "mem_inv s1"
    using fresh(2) inv by (auto intro: remove_for_recreate_inv)
  have none: "get_stream s1 n = None"
    using fresh(2) by (auto simp: remove_for_recreate_dropped)
  from fresh(3) show ?thesis
  proof (elim disjE exE conjE)
    fix er s2 assume "commit_messages s1 (stream_entry_new c (now_at E 2)) msgs = (s2, Inl er)" "s' = s2"
    with inv1 show ?thesis by (auto dest: commit_messages_Inl)
  next
    fix e1 s2 assume cm: "commit_messages s1 (stream_entry_new c (now_at E 2)) msgs = (s2, Inr e1)"
      and s': "s' = set_stream n (if cl \<or> created_closed c then e1\<lparr>se_closed := True\<rparr> else e1) s2"
    obtain t where t: "s2 = s1\<lparr>mem_total_bytes := t\<rparr>" "t \<le> mem_max_total_bytes s1"
      "unat t = unat (mem_total_bytes s1) + unat (se_total_bytes e1)"
      "entry_ok e1" "se_total_bytes e1 \<le> mem_max_stream_bytes s1"
      by (rule commit_fresh [OF inv1 _ _ fits(1) _ cm]) (use fits(2) in simp_all)
    let ?e = "if cl \<or> created_closed c then e1\<lparr>se_closed := True\<rparr> else e1"
    have "entry_ok ?e" using t(4) entry_ok_cong [of ?e e1] by simp
    then have "mem_inv (set_stream n ?e (s1\<lparr>mem_total_bytes := t\<rparr>))"
      using inv1 none t commit_messages_fields(3,4) [OF cm] by (intro mem_inv_add_root) auto
    with s' t(1) show ?thesis by simp
  qed
qed

lemma replace_stream_inv:
  assumes inv: "mem_inv s" and fits: "payload_fits msgs" "length msgs < 2 ^ 64"
    and r: "replace_stream E s n opts msgs cl = (s', res)"
  shows "mem_inv s'"
proof -
  have "s' = s \<or> (\<exists>c cur s1 e1. get_stream s n = Some cur \<and> se_ref_count cur = 0 \<and> se_fork_info cur = None \<and>
      commit_messages s (stream_entry_new c (now_at E 1)) msgs = (s1, Inr e1) \<and>
      s' = set_stream n (notify_send (e1\<lparr>se_closed := cl \<or> created_closed c, se_notify := se_notify cur\<rparr>))
        (s1\<lparr>mem_total_bytes := release_bytes (mem_total_bytes s1) (se_total_bytes cur)\<rparr>))"
    using r by (auto simp: replace_stream_def check_replace_def Let_def dest: commit_messages_Inl
        split: sum.splits option.splits prod.splits if_splits)
  then show ?thesis
  proof (elim disjE exE conjE)
    assume "s' = s" with inv show ?thesis by simp
  next
    fix c cur s1 e1
    assume cur: "get_stream s n = Some cur" "se_ref_count cur = 0" "se_fork_info cur = None"
      and cm: "commit_messages s (stream_entry_new c (now_at E 1)) msgs = (s1, Inr e1)"
      and s': "s' = set_stream n (notify_send (e1\<lparr>se_closed := cl \<or> created_closed c, se_notify := se_notify cur\<rparr>))
        (s1\<lparr>mem_total_bytes := release_bytes (mem_total_bytes s1) (se_total_bytes cur)\<rparr>)"
    obtain t where t: "s1 = s\<lparr>mem_total_bytes := t\<rparr>" "t \<le> mem_max_total_bytes s"
      "unat t = unat (mem_total_bytes s) + unat (se_total_bytes e1)"
      "entry_ok e1" "se_total_bytes e1 \<le> mem_max_stream_bytes s"
      by (rule commit_fresh [OF inv _ _ fits(1) _ cm]) (use fits(2) in simp_all)
    let ?e = "notify_send (e1\<lparr>se_closed := cl \<or> created_closed c, se_notify := se_notify cur\<rparr>)"
    let ?t = "release_bytes t (se_total_bytes cur)"
    have "entry_ok ?e" using t(4) entry_ok_cong [of ?e e1] by simp
    moreover have "kids (parents s) n = {}" using mem_inv_zero_count [OF inv cur(1)] cur(2) by simp
    moreover have "unat (se_total_bytes cur) \<le> unat (mem_total_bytes s)"
      using mem_core_bytes_le inv cur(1) by (simp add: mem_inv_def)
    then have "unat ?t + unat (se_total_bytes cur) = unat (mem_total_bytes s) + unat (se_total_bytes e1)"
      "unat ?t \<le> unat t"
      using t(3) by (simp_all add: unat_release_bytes)
    moreover from this t(2) have "?t \<le> mem_max_total_bytes s" by (simp add: word_le_nat_alt)
    ultimately have "mem_inv (set_stream n ?e (s\<lparr>mem_total_bytes := ?t\<rparr>))"
      using inv cur t(5) commit_messages_fields(3,4) [OF cm] by (intro mem_inv_set_stream [of s n cur]) auto
    with s' t(1) show ?thesis by simp
  qed
qed

end
