(* ===== verification/DS_Mem_Fork.thy ===== *)
theory DS_Mem_Fork
  imports DS_Mem_Create
begin

text \<open>
  Forking in the in-memory backend: what \<open>create_fork_with_options\<close> did, that it
  keeps the invariant, and that removing another expired stream on the way
  leaves the source alone.
\<close>

section \<open>Removal keeps active streams\<close>

lemma cascade_keeps_active:
  assumes "get_stream s m = Some e" "se_state e = Active"
  shows "\<exists>r. get_stream (cascade_delete s p) m = Some (e\<lparr>se_ref_count := r\<rparr>)"
  using assms
proof (induction s p arbitrary: e rule: cascade_delete.induct)
  case (1 s p)
  show ?case
  proof (cases "get_stream s p")
    case None
    with "1.prems" show ?thesis
      by (simp add: cascade_delete.simps [of s p]) (metis stream_entry.surjective stream_entry.update_convs(13))
  next
    case (Some q)
    let ?q = "q\<lparr>se_ref_count := saturating_sub (se_ref_count q) 1\<rparr>"
    let ?s = "(drop_stream p s)\<lparr>mem_total_bytes := release_bytes (mem_total_bytes s) (se_total_bytes q)\<rparr>"
    have same: "\<exists>r. x = x\<lparr>se_ref_count := r\<rparr>" for x :: stream_entry
      by (metis stream_entry.surjective stream_entry.update_convs(13))
    show ?thesis
    proof (cases "se_state q = Tombstone \<and> se_ref_count ?q = 0")
      case True
      then have "m \<noteq> p" using Some "1.prems" by auto
      then have m: "get_stream ?s m = Some e" using "1.prems" by simp
      show ?thesis
      proof (cases "se_fork_info q")
        case None
        with Some True have "cascade_delete s p = ?s" by (simp add: cascade_delete.simps [of s p])
        with m same [of e] show ?thesis by auto
      next
        case fi: (Some fi)
        with Some True have "cascade_delete s p = cascade_delete ?s (source_name fi)"
          by (simp add: cascade_delete.simps [of s p])
        with "1.IH" [OF Some refl, of ?s fi] True fi m "1.prems"(2) show ?thesis by simp
      qed
    next
      case False
      then have "cascade_delete s p = set_stream p ?q s"
        using Some by (auto simp: cascade_delete.simps [of s p])
      with "1.prems" Some same [of e] show ?thesis by auto
    qed
  qed
qed

lemma remove_for_recreate_keeps_active:
  assumes "get_stream s m = Some e" "se_state e = Active" "m \<noteq> n"
  shows "\<exists>r. get_stream (remove_for_recreate s n) m = Some (e\<lparr>se_ref_count := r\<rparr>)"
proof -
  have same: "\<exists>r. e = e\<lparr>se_ref_count := r\<rparr>"
    by (metis stream_entry.surjective stream_entry.update_convs(13))
  show ?thesis
  proof (cases "get_stream s n")
    case None
    with assms same show ?thesis by (simp add: remove_for_recreate_absent)
  next
    case (Some x)
    with assms same cascade_keeps_active [of _ m e] show ?thesis
      by (auto simp: remove_for_recreate_def hard_remove_stream_def split: option.splits)
  qed
qed

section \<open>What a fork did\<close>

text \<open>
  The conditions under which a fork is well behaved: the source's reference
  count and message counter do not wrap, and a stream forked from itself does
  not expire between the two clock readings of the call.
\<close>

definition fork_guard :: "env \<Rightarrow> mem \<Rightarrow> string \<Rightarrow> string \<Rightarrow> fork_options \<Rightarrow> bool" where
  "fork_guard E s name src opts \<longleftrightarrow> (\<forall>e. get_stream s src = Some e \<longrightarrow>
     unat (se_ref_count e) + 1 < 2 ^ 32 \<and>
     (name = src \<longrightarrow> is_stream_expired (now_at E 3) (se_config e) \<longrightarrow> is_stream_expired (now_at E 1) (se_config e)) \<and>
     (\<forall>off c msgs. fork_initial_messages E s src off c opts = Some (Inr msgs) \<longrightarrow>
        payload_fits msgs \<and> unat (se_next_read_seq e) + length msgs < 2 ^ 64))"

definition fork_entry :: "stream_config \<Rightarrow> time \<Rightarrow> bool \<Rightarrow> string \<Rightarrow> offset \<Rightarrow> u64 \<Rightarrow> stream_entry" where
  "fork_entry c now closed src off sub =
     (stream_entry_new c now)\<lparr>se_closed := closed,
        se_next_read_seq := fst (case parse_components off of Some rb \<Rightarrow> rb | None \<Rightarrow> (0, 0)),
        se_next_byte_offset := snd (case parse_components off of Some rb \<Rightarrow> rb | None \<Rightarrow> (0, 0)),
        se_fork_info := Some \<lparr>source_name = src, fork_offset = off, sub_offset = sub\<rparr>\<rparr>"

lemma fork_entry_simps [simp]:
  "se_fork_info (fork_entry c now cl src off sub) =
     Some \<lparr>source_name = src, fork_offset = off, sub_offset = sub\<rparr>"
  "se_messages (fork_entry c now cl src off sub) = []" "se_total_bytes (fork_entry c now cl src off sub) = 0"
  "se_ref_count (fork_entry c now cl src off sub) = 0" "se_closed (fork_entry c now cl src off sub) = cl"
  "se_config (fork_entry c now cl src off sub) = c" "se_state (fork_entry c now cl src off sub) = Active"
  by (simp_all add: fork_entry_def)

lemma entry_ok_fork_entry:
  "wf_offset off \<Longrightarrow> off \<noteq> Now \<Longrightarrow> entry_ok (fork_entry c now cl src off sub)"
  by (simp add: entry_ok_def entry_base_def fork_entry_def split: option.splits)

lemma create_fork_cases:
  assumes "create_fork_with_options E s name src req sopts opts = Some (s', r)"
  obtains (unchanged) "s' = s" "r \<noteq> Inr Created"
    | (fresh) e c off msgs s1 cl where "get_stream s src = Some e" "se_state e = Active"
      "\<not> is_stream_expired (now_at E 1) (se_config e)"
      "resolve_fork_offset req (entry_next_offset e) = Inr off"
      "content_type c = content_type (se_config e)"
      "fork_initial_messages E s src off c opts = Some (Inr msgs)"
      "s1 = s \<and> get_stream s name = None \<or> s1 = remove_for_recreate s name \<and>
        (\<exists>x. get_stream s name = Some x \<and> is_stream_expired (now_at E 3) (se_config x) \<and> se_ref_count x = 0)"
      "(\<exists>er s2. commit_messages s1 (fork_entry c (now_at E 4) cl src off (fo_sub_offset opts)) msgs = (s2, Inl er) \<and>
          s' = s2 \<and> r = Inl er) \<or>
       (\<exists>e1 s2. commit_messages s1 (fork_entry c (now_at E 4) cl src off (fo_sub_offset opts)) msgs = (s2, Inr e1) \<and>
          s' = incr_ref_count src (set_stream name e1 s2) \<and> r = Inr Created)"
proof (cases "resolve E sopts (now_at E 0)")
  case (Inl er)
  with assms unchanged show ?thesis by (auto simp: create_fork_with_options_def)
next
  case c0: (Inr c0)
  show ?thesis
  proof (cases "get_stream s src")
    case None
    with c0 assms unchanged show ?thesis by (auto simp: create_fork_with_options_def)
  next
    case src: (Some e)
    define c1 where "c1 = (if inherit_content_type opts then c0\<lparr>content_type := content_type (se_config e)\<rparr> else c0)"
    note body = assms [unfolded create_fork_with_options_def c0 sum.case src option.case Let_def, folded c1_def]
    let ?prep = "prepare_fork_spec E (now_at E 1) (now_at E 2) src (se_config e) (se_state e) (entry_next_offset e) req c1"
    show ?thesis
    proof (cases ?prep)
      case (Inl er)
      with body unchanged show ?thesis by auto
    next
      case prep: (Inr so)
      obtain spec off where so: "so = (spec, off)" by fastforce
      note p = prepare_fork_spec_Inr [OF prep [unfolded so]]
      let ?init = "fork_initial_messages E s src off (spec_config spec) opts"
      show ?thesis
      proof (cases "\<exists>msgs. ?init = Some (Inr msgs)")
        case False
        with prep so body unchanged show ?thesis by (auto split: option.splits sum.splits)
      next
        case True
        then obtain msgs where init: "?init = Some (Inr msgs)" by blast
        let ?spec = "spec\<lparr>spec_sub_offset := fo_sub_offset opts\<rparr>"
        let ?entry = "fork_entry (spec_config spec) (now_at E 4) (created_closed c1) src off (fo_sub_offset opts)"
        have tail: "(case commit_messages s1 x msgs of
            (s2, Inl er) \<Rightarrow> Some (s2, Inl er)
          | (s2, Inr e1) \<Rightarrow> Some (incr_ref_count src (set_stream name e1 s2), Inr Created)) = Some (s', r)
          \<Longrightarrow> (\<exists>er s2. commit_messages s1 x msgs = (s2, Inl er) \<and> s' = s2 \<and> r = Inl er) \<or>
           (\<exists>e1 s2. commit_messages s1 x msgs = (s2, Inr e1) \<and>
              s' = incr_ref_count src (set_stream name e1 s2) \<and> r = Inr Created)" for s1 x
          by (auto split: prod.splits sum.splits)
        obtain rs bo where rb: "(case parse_components off of Some rb \<Rightarrow> rb | None \<Rightarrow> (0, 0)) = (rs, bo)" by fastforce
        have entry: "(stream_entry_new (spec_config spec) (now_at E 4))\<lparr>se_closed := created_closed c1,
            se_next_read_seq := rs, se_next_byte_offset := bo,
            se_fork_info := Some \<lparr>source_name = src, fork_offset = off, sub_offset = fo_sub_offset opts\<rparr>\<rparr> = ?entry"
          unfolding fork_entry_def rb by simp
        have step: "(case (case get_stream s name of
              None \<Rightarrow> Inr s
            | Some x \<Rightarrow> (case evaluate_fork_create (now_at E 3) name (se_config x) (se_fork_info x) (se_state x)
                    (se_ref_count x) ?spec of
                 RemoveExpired \<Rightarrow> Inr (remove_for_recreate s name)
               | DispAlreadyExists \<Rightarrow> Inl (Inr AlreadyExists)
               | Conflict er \<Rightarrow> Inl (Inl er))) of
            Inl result \<Rightarrow> Some (s, result)
          | Inr s1 \<Rightarrow> (case commit_messages s1 ?entry msgs of
                (s2, Inl er) \<Rightarrow> Some (s2, Inl er)
              | (s2, Inr e1) \<Rightarrow> Some (incr_ref_count src (set_stream name e1 s2), Inr Created))) = Some (s', r)"
          unfolding entry [symmetric]
          using body prep so init p(4) rb by (simp cong: sum.case_cong)
        note fr = fresh [OF src p(1,2,3,6) init]
        show ?thesis
        proof (cases "get_stream s name")
          case None
          show ?thesis by (rule fr [of s, OF _ tail]) (use step None in simp_all)
        next
          case (Some x)
          show ?thesis
          proof (cases "evaluate_fork_create (now_at E 3) name (se_config x) (se_fork_info x) (se_state x)
                    (se_ref_count x) ?spec")
            case RemoveExpired
            show ?thesis
              by (rule fr [of "remove_for_recreate s name", OF _ tail])
                (use step Some RemoveExpired in \<open>simp_all add: evaluate_create_RemoveExpired\<close>)
          qed (use step Some unchanged in auto)
        qed
      qed
    qed
  qed
qed

lemma resolve_fork_offset_bounds:
  assumes "resolve_fork_offset req (entry_next_offset e) = Inr off" "\<And>x. req = Some x \<Longrightarrow> wf_offset x"
  shows "wf_offset off" "\<not> offset_lt (entry_next_offset e) off" "off \<noteq> Now"
    "unat (fst (case parse_components off of Some rb \<Rightarrow> rb | None \<Rightarrow> (0, 0))) \<le> unat (se_next_read_seq e)"
proof -
  have *: "wf_offset off \<and> \<not> offset_lt (entry_next_offset e) off"
    using resolve_fork_offset_Inr [OF assms(1)] assms(2) by simp
  then show "wf_offset off" "\<not> offset_lt (entry_next_offset e) off" by auto
  from * show "off \<noteq> Now" by (auto simp: entry_next_offset_def)
  show "unat (fst (case parse_components off of Some rb \<Rightarrow> rb | None \<Rightarrow> (0, 0))) \<le> unat (se_next_read_seq e)"
    using \<open>wf_offset off\<close> *
    by (cases rule: wf_offset_cases) (auto simp: entry_next_offset_def word_less_nat_alt)
qed

lemma create_fork_inv:
  assumes inv: "mem_inv s" and guard: "fork_guard E s name src opts"
    and req: "\<And>x. req = Some x \<Longrightarrow> wf_offset x"
    and c: "create_fork_with_options E s name src req sopts opts = Some (s', r)"
  shows "mem_inv s'"
  using c
proof (cases rule: create_fork_cases)
  case unchanged
  with inv show ?thesis by simp
next
  case (fresh e c off msgs s1 cl)
  note off = resolve_fork_offset_bounds [OF fresh(4) req]
  let ?x = "fork_entry c (now_at E 4) cl src off (fo_sub_offset opts)"
  have g: "unat (se_ref_count e) + 1 < 2 ^ 32" "payload_fits msgs" "unat (se_next_read_seq e) + length msgs < 2 ^ 64"
    "name = src \<Longrightarrow> \<not> is_stream_expired (now_at E 3) (se_config e)"
    using guard fresh(1,3,6) by (auto simp: fork_guard_def)
  have inv1: "mem_inv s1" using fresh(7) inv by (auto intro: remove_for_recreate_inv)
  have none: "get_stream s1 name = None" using fresh(7) by (auto simp: remove_for_recreate_dropped)
  have ne: "name \<noteq> src" using fresh(1,7) g(4) by auto
  have "\<exists>ra. get_stream s1 src = Some (e\<lparr>se_ref_count := ra\<rparr>) \<and> unat ra + 1 < 2 ^ 32"
  proof (cases "s1 = s")
    case True
    with fresh(1) g(1) show ?thesis by (intro exI [of _ "se_ref_count e"]) simp
  next
    case False
    then have s1: "s1 = remove_for_recreate s name" using fresh(7) by blast
    then obtain ra where ra: "get_stream s1 src = Some (e\<lparr>se_ref_count := ra\<rparr>)"
      using remove_for_recreate_keeps_active [OF fresh(1,2)] ne by metis
    then have "unat ra \<le> unat (se_ref_count e)"
      unfolding s1 by (rule remove_for_recreate_get) (use fresh(1) in simp)
    with ra g(1) show ?thesis by auto
  qed
  then obtain ra where p: "get_stream s1 src = Some (e\<lparr>se_ref_count := ra\<rparr>)" "unat ra + 1 < 2 ^ 32" by blast
  have seq: "unat (se_next_read_seq ?x) + length msgs < 2 ^ 64"
    using off(4) g(3) by (simp add: fork_entry_def)
  from fresh(8) show ?thesis
  proof (elim disjE exE conjE)
    fix er s2 assume "commit_messages s1 ?x msgs = (s2, Inl er)" "s' = s2"
    with inv1 show ?thesis by (auto dest: commit_messages_Inl)
  next
    fix e1 s2 assume cm: "commit_messages s1 ?x msgs = (s2, Inr e1)"
      and s': "s' = incr_ref_count src (set_stream name e1 s2)"
    obtain t where t: "s2 = s1\<lparr>mem_total_bytes := t\<rparr>" "t \<le> mem_max_total_bytes s1"
      "unat t = unat (mem_total_bytes s1) + unat (se_total_bytes e1)"
      "entry_ok e1" "se_total_bytes e1 \<le> mem_max_stream_bytes s1"
      by (rule commit_fresh [OF inv1 entry_ok_fork_entry [OF off(1,3)] _ g(2) seq cm]) simp_all
    have "mem_inv (incr_ref_count (source_name \<lparr>source_name = src, fork_offset = off, sub_offset = fo_sub_offset opts\<rparr>)
        (set_stream name e1 (s1\<lparr>mem_total_bytes := t\<rparr>)))"
      using inv1 none t p off(2) commit_messages_fields(3,4) [OF cm]
      by (intro mem_inv_add_fork [where p = "e\<lparr>se_ref_count := ra\<rparr>"]) (simp_all add: entry_next_offset_def)
    with s' t(1) show ?thesis by simp
  qed
qed

end
