(* ===== verification/DS_Log.thy ===== *)
theory DS_Log
  imports DS_Mem_Fork
begin

text \<open>
  The abstract log of a stream and the refinement of reading. A root's log is
  its own messages; a fork's log is the part of its source's log before the
  fork offset, followed by its own messages. The optimised read (a lineage
  walk, a read plan with tightened bounds, binary searches in each index)
  returns exactly the part of this log from the requested offset on.
\<close>

section \<open>The abstract log\<close>

inductive log_of :: "mem \<Rightarrow> string \<Rightarrow> message list \<Rightarrow> bool" for s where
  root: "get_stream s n = Some e \<Longrightarrow> se_fork_info e = None \<Longrightarrow> log_of s n (se_messages e)"
| fork: "get_stream s n = Some e \<Longrightarrow> se_fork_info e = Some fi \<Longrightarrow> log_of s (source_name fi) L \<Longrightarrow>
    log_of s n (filter (\<lambda>m. offset_lt (msg_offset m) (fork_offset fi)) L @ se_messages e)"

inductive_cases log_ofE: "log_of s n L"

lemma log_of_unique: "log_of s n L \<Longrightarrow> log_of s n L' \<Longrightarrow> L = L'"
proof (induction arbitrary: L' rule: log_of.induct)
  case (root n e)
  then show ?case by (auto elim: log_ofE)
next
  case (fork n e fi L)
  from fork.prems fork.hyps obtain L2 where "log_of s (source_name fi) L2"
      "L' = filter (\<lambda>m. offset_lt (msg_offset m) (fork_offset fi)) L2 @ se_messages e"
    by (auto elim: log_ofE)
  with fork.IH [of L2] show ?case by simp
qed

lemma log_of_exists: "rooted (parents s) n \<Longrightarrow> \<exists>L. log_of s n L"
proof (induction rule: rooted.induct)
  case (root n)
  then show ?case by (auto simp: parents_def intro: log_of.root)
next
  case (fork n p)
  then obtain e fi where "get_stream s n = Some e" "se_fork_info e = Some fi" "source_name fi = p"
    by (auto simp: parents_def)
  with fork.IH show ?case by (auto intro: log_of.fork)
qed

lemma mem_inv_log: "mem_inv s \<Longrightarrow> get_stream s n = Some e \<Longrightarrow> \<exists>L. log_of s n L"
  using mem_inv_lineage [of s] by (intro log_of_exists) (auto simp: lineage_def)

text \<open>A log is ordered by offset, well formed, and before its stream's tail.\<close>

lemma log_of_ok:
  assumes "log_of s n L" "mem_inv s"
  shows "in_order L \<and> (\<forall>m\<in>set L. wf_offset (msg_offset m)) \<and>
    (\<forall>e. get_stream s n = Some e \<longrightarrow> (\<forall>m\<in>set L. offset_lt (msg_offset m) (entry_next_offset e)))"
  using assms
proof (induction rule: log_of.induct)
  case (root n e)
  then have "entry_ok e" by (auto intro: mem_inv_entry)
  with root show ?case by (auto simp: entry_ok_in_order entry_ok_wf entry_ok_before_next)
next
  case (fork n e fi L)
  have ok: "entry_ok e" using fork by (auto intro: mem_inv_entry)
  have wf: "wf_offset (fork_offset fi)" using ok fork.hyps(2) by (simp add: entry_ok_def)
  have after: "\<not> offset_lt (msg_offset m) (fork_offset fi)" if "m \<in> set (se_messages e)" for m
    using entry_ok_after_fork [OF ok fork.hyps(2) that] .
  have base: "\<not> offset_lt (entry_next_offset e) (fork_offset fi)"
  proof -
    have "wf_offset (fork_offset fi)" "fork_offset fi \<noteq> Now" using ok fork.hyps(2) by (auto simp: entry_ok_def)
    moreover have "unat (fst (entry_base e)) \<le> unat (se_next_read_seq e)"
      "unat (se_next_read_seq e) = unat (fst (entry_base e)) \<Longrightarrow> se_next_byte_offset e = snd (entry_base e)"
      using entry_ok_next [OF ok] ok by (auto simp: entry_ok_def)
    ultimately show ?thesis
      using fork.hyps(2)
      by (cases rule: wf_offset_cases)
        (auto simp: entry_base_def entry_next_offset_def word_less_nat_alt word_unat_eq_iff)
  qed
  have L: "in_order L" "\<forall>m\<in>set L. wf_offset (msg_offset m)" using fork.IH fork.prems by auto
  have lt: "offset_lt (msg_offset a) x"
    if "a \<in> set L" "offset_lt (msg_offset a) (fork_offset fi)" "\<not> offset_lt x (fork_offset fi)" "wf_offset x" for a x
    using that L(2) wf offset_lt_le_trans [of "msg_offset a" "fork_offset fi" x] by simp
  have "in_order (filter (\<lambda>m. offset_lt (msg_offset m) (fork_offset fi)) L)"
    using L(1) by (rule sorted_wrt_filter)
  then have "in_order (filter (\<lambda>m. offset_lt (msg_offset m) (fork_offset fi)) L @ se_messages e)"
    using entry_ok_in_order [OF ok] lt after entry_ok_wf [OF ok]
    by (auto simp: sorted_wrt_append)
  moreover have "offset_lt (msg_offset m) (entry_next_offset e)"
    if "m \<in> set (filter (\<lambda>m. offset_lt (msg_offset m) (fork_offset fi)) L @ se_messages e)" for m
    using that lt [OF _ _ base] entry_ok_before_next [OF ok] by auto
  ultimately show ?case using L(2) entry_ok_wf [OF ok] fork.hyps(1) by auto
qed

section \<open>The lineage walk and the read plan\<close>

inductive chain_of :: "mem \<Rightarrow> string \<Rightarrow> (string \<times> offset option) list \<Rightarrow> bool" for s where
  root: "get_stream s n = Some e \<Longrightarrow> se_fork_info e = None \<Longrightarrow> chain_of s n [(n, None)]"
| fork: "get_stream s n = Some e \<Longrightarrow> se_fork_info e = Some fi \<Longrightarrow> chain_of s (source_name fi) ch \<Longrightarrow>
    chain_of s n ((n, Some (fork_offset fi)) # ch)"

lemma log_of_chain: "log_of s n L \<Longrightarrow> \<exists>ch. chain_of s n ch"
  by (induction rule: log_of.induct) (auto intro: chain_of.intros)

text \<open>The walk ends on every stream that reaches a root, with the chain from the leaf to the root.\<close>

lemma lineage_chain_of: "chain_of s n ch \<Longrightarrow> lineage_chain (fork_lookup s) n acc = Some (Inr (acc @ ch))"
proof (induction arbitrary: acc rule: chain_of.induct)
  case (root n e)
  then show ?case by (subst lineage_chain.simps) (simp add: fork_lookup_def)
next
  case (fork n e fi ch)
  from fork.hyps have "fork_lookup s n = Inr (Some fi)" by (simp add: fork_lookup_def)
  with fork.IH show ?case by (subst lineage_chain.simps) simp
qed

fun leaf_segments :: "offset option \<Rightarrow> (string \<times> offset option) list \<Rightarrow> read_segment list" where
  "leaf_segments u [] = []"
| "leaf_segments u ((n, f) # rest) = \<lparr>seg_name = n, read_up_to = u\<rparr> # leaf_segments f rest"

lemma leaf_segments_snoc:
  "leaf_segments u (xs @ [(n, f)]) =
    leaf_segments u xs @ [\<lparr>seg_name = n, read_up_to = (if xs = [] then u else snd (List.last xs))\<rparr>]"
  by (induction u xs rule: leaf_segments.induct) auto

lemma plan_segments_leaf: "plan_segments xs = rev (leaf_segments None (rev xs))"
proof (induction xs rule: plan_segments.induct)
  case (3 n a m f rest)
  have "leaf_segments None ((rev rest @ [(m, f)]) @ [(n, a)]) =
      leaf_segments None (rev rest @ [(m, f)]) @ [\<lparr>seg_name = n, read_up_to = f\<rparr>]"
    by (subst leaf_segments_snoc) simp
  with 3 show ?case by simp
qed simp_all

lemma build_read_plan_of:
  "chain_of s n ch \<Longrightarrow>
    build_read_plan n (fork_lookup s) = Some (Inr (rev (tighten None (leaf_segments None ch))))"
  by (simp add: build_read_plan_def lineage_chain_of plan_segments_leaf)

section \<open>What the segments hold\<close>

definition below :: "offset option \<Rightarrow> offset \<Rightarrow> bool" where
  "below b x = (case b of None \<Rightarrow> True | Some y \<Rightarrow> offset_lt x y)"

definition at_or_after :: "offset \<Rightarrow> offset \<Rightarrow> bool" where
  "at_or_after from x \<longleftrightarrow> offset_is_start from \<or> \<not> offset_lt x from"

lemma below_simps [simp]: "below None x" "below (Some y) x \<longleftrightarrow> offset_lt x y"
  by (simp_all add: below_def)

definition wf_bound :: "offset option \<Rightarrow> bool" where
  "wf_bound b = (case b of None \<Rightarrow> True | Some x \<Rightarrow> wf_offset x)"

lemma wf_bound_simps [simp]: "wf_bound None" "wf_bound (Some x) \<longleftrightarrow> wf_offset x"
  by (simp_all add: wf_bound_def)

text \<open>The running bound of the tightening pass.\<close>

definition meet :: "offset option \<Rightarrow> offset option \<Rightarrow> offset option" where
  "meet b u = (case u of Some l \<Rightarrow> Some (case b of None \<Rightarrow> l | Some x \<Rightarrow> offset_min x l) | None \<Rightarrow> b)"

lemma below_meet:
  "wf_offset x \<Longrightarrow> wf_bound b \<Longrightarrow> wf_bound u \<Longrightarrow> below (meet b u) x \<longleftrightarrow> below b x \<and> below u x"
  by (auto simp: meet_def offset_lt_min split: option.splits)

lemma wf_meet [simp]: "wf_bound b \<Longrightarrow> wf_bound u \<Longrightarrow> wf_bound (meet b u)"
  by (auto simp: meet_def split: option.splits)

lemma tighten_Cons:
  "tighten b (seg # segs) =
    seg\<lparr>read_up_to := meet b (read_up_to seg)\<rparr> # tighten (meet b (read_up_to seg)) segs"
  by (simp add: meet_def Let_def)

definition stream_messages :: "mem \<Rightarrow> string \<Rightarrow> message list" where
  "stream_messages s n = (case get_stream s n of Some e \<Rightarrow> se_messages e | None \<Rightarrow> [])"

definition segment_part :: "mem \<Rightarrow> offset \<Rightarrow> offset option \<Rightarrow> read_segment \<Rightarrow> message list" where
  "segment_part s from up_to seg =
     filter (\<lambda>m. at_or_after from (msg_offset m) \<and> below up_to (msg_offset m) \<and>
                 below (read_up_to seg) (msg_offset m)) (stream_messages s (seg_name seg))"

lemma segment_part_present:
  "get_stream s n = Some e \<Longrightarrow> segment_part s from up_to \<lparr>seg_name = n, read_up_to = b\<rparr> =
    filter (\<lambda>m. at_or_after from (msg_offset m) \<and> below up_to (msg_offset m) \<and> below b (msg_offset m)) (se_messages e)"
  by (simp add: segment_part_def stream_messages_def)

text \<open>The plan, root first, covers exactly the bounded part of the abstract log.\<close>

lemma plan_covers_log:
  assumes "log_of s n L" "chain_of s n ch" "mem_inv s" "wf_bound b" "wf_bound u"
  shows "concat (map (segment_part s from up_to) (rev (tighten b (leaf_segments u ch)))) =
    filter (\<lambda>m. at_or_after from (msg_offset m) \<and> below up_to (msg_offset m) \<and>
                below (meet b u) (msg_offset m)) L"
  using assms
proof (induction arbitrary: ch b u rule: log_of.induct)
  case (root n e)
  from root.prems(1) root.hyps have "ch = [(n, None)]"
    by (cases rule: chain_of.cases) auto
  with root.hyps show ?case
    by (simp add: tighten_Cons segment_part_def stream_messages_def del: tighten.simps(2))
next
  case (fork n e fi L)
  from fork.prems(1) fork.hyps obtain rest where ch: "ch = (n, Some (fork_offset fi)) # rest"
    and rest: "chain_of s (source_name fi) rest"
    by (cases rule: chain_of.cases) auto
  let ?b = "meet b u" and ?f = "Some (fork_offset fi)"
  have wf: "wf_bound ?f" using mem_inv_entry [OF fork.prems(2) fork.hyps(1)] fork.hyps(2)
    by (simp add: entry_ok_def)
  have L: "\<forall>m\<in>set L. wf_offset (msg_offset m)"
    using log_of_ok [OF fork.hyps(3) fork.prems(2)] by blast
  have "concat (map (segment_part s from up_to) (rev (tighten ?b (leaf_segments ?f rest)))) =
    filter (\<lambda>m. at_or_after from (msg_offset m) \<and> below up_to (msg_offset m) \<and>
                below (meet ?b ?f) (msg_offset m)) L"
    using fork.IH [OF rest fork.prems(2)] fork.prems(3,4) wf by simp
  also have "\<dots> = filter (\<lambda>m. at_or_after from (msg_offset m) \<and> below up_to (msg_offset m) \<and>
                below ?b (msg_offset m)) (filter (\<lambda>m. offset_lt (msg_offset m) (fork_offset fi)) L)"
    unfolding filter_filter using L fork.prems(3,4) wf by (intro filter_cong) (auto simp: below_meet)
  finally show ?case
    using segment_part_present [OF fork.hyps(1)] by (simp add: ch tighten_Cons del: tighten.simps(2))
qed

lemma wf_tighten:
  assumes "chain_of s n ch" "mem_inv s" "wf_bound b" "wf_bound u"
  shows "\<forall>seg\<in>set (tighten b (leaf_segments u ch)). wf_bound (read_up_to seg)"
  using assms
proof (induction arbitrary: b u rule: chain_of.induct)
  case (fork n e fi ch)
  have "wf_bound (Some (fork_offset fi))"
    using mem_inv_entry [OF fork.prems(1) fork.hyps(1)] fork.hyps(2) by (simp add: entry_ok_def)
  with fork.IH [of "meet b u" "Some (fork_offset fi)"] fork.prems show ?case
    by (simp add: tighten_Cons del: tighten.simps(2))
qed (simp add: tighten_Cons del: tighten.simps(2))

lemma chain_present:
  "chain_of s n ch \<Longrightarrow> seg \<in> set (tighten b (leaf_segments u ch)) \<Longrightarrow> get_stream s (seg_name seg) \<noteq> None"
proof (induction arbitrary: b u rule: chain_of.induct)
  case (fork n e fi ch)
  then show ?case by (auto simp: tighten_Cons simp del: tighten.simps(2))
qed (auto simp: tighten_Cons simp del: tighten.simps(2))

text \<open>The range of one index.\<close>

lemma entry_range:
  assumes "entry_ok e" "wf_offset from" "wf_bound b"
  shows "(case message_range msg_offset (se_messages e) from b of (i, j) \<Rightarrow> slice i j (se_messages e)) =
    filter (\<lambda>m. at_or_after from (msg_offset m) \<and> below b (msg_offset m)) (se_messages e)"
proof -
  have "wf_offset x" if "b = Some x" for x using that assms(3) by simp
  then show ?thesis
    using message_range_filter [of msg_offset "se_messages e" "from" b] assms(1,2)
    by (simp add: at_or_after_def below_def entry_ok_in_order entry_ok_wf)
qed

lemma map_entry_range:
  assumes "entry_ok e" "wf_offset from" "wf_bound b"
  shows "(case message_range msg_offset (se_messages e) from b of (i, j) \<Rightarrow> map msg_data (slice i j (se_messages e))) =
    map msg_data (filter (\<lambda>m. at_or_after from (msg_offset m) \<and> below b (msg_offset m)) (se_messages e))"
  using entry_range [OF assms] by (auto split: prod.splits)

lemma read_segments_parts:
  assumes "mem_inv s" "wf_offset from" "wf_offset up_to"
    "\<forall>seg\<in>set segs. wf_bound (read_up_to seg)"
  shows "read_segments s from up_to segs =
    map msg_data (concat (map (segment_part s from (Some up_to)) segs))"
  using assms(4)
proof (induction segs)
  case (Cons seg segs)
  show ?case
  proof (cases "get_stream s (seg_name seg)")
    case None
    with Cons show ?thesis by (simp add: segment_part_def stream_messages_def)
  next
    case (Some e)
    let ?b = "case read_up_to seg of None \<Rightarrow> up_to | Some b \<Rightarrow> offset_min b up_to"
    have ok: "entry_ok e" using assms(1) Some by (rule mem_inv_entry)
    have wf: "wf_offset ?b" using Cons.prems assms(3) by (auto split: option.splits)
    have "offset_lt (msg_offset m) ?b \<longleftrightarrow> below (Some up_to) (msg_offset m) \<and> below (read_up_to seg) (msg_offset m)"
      if "m \<in> set (se_messages e)" for m
      using Cons.prems assms(3) entry_ok_wf [OF ok that] by (auto simp: offset_lt_min split: option.splits)
    then have "filter (\<lambda>m. at_or_after from (msg_offset m) \<and> below (Some ?b) (msg_offset m)) (se_messages e)
        = segment_part s from (Some up_to) seg"
      using Some by (auto simp: segment_part_def stream_messages_def intro!: filter_cong)
    then show ?thesis
      using Cons Some map_entry_range [OF ok assms(2), of "Some ?b"] wf by simp
  qed
qed simp

lemma fork_source_parts:
  assumes "mem_inv s" "wf_offset off" "\<forall>seg\<in>set segs. wf_bound (read_up_to seg)"
    "\<forall>seg\<in>set segs. get_stream s (seg_name seg) \<noteq> None"
  shows "fork_source_messages s off segs = Inr (map msg_data (concat (map (segment_part s off None) segs)))"
  using assms(3,4)
proof (induction segs)
  case (Cons seg segs)
  then obtain e where e: "get_stream s (seg_name seg) = Some e" by auto
  have ok: "entry_ok e" using assms(1) e by (rule mem_inv_entry)
  have "segment_part s off None seg =
      filter (\<lambda>m. at_or_after off (msg_offset m) \<and> below (read_up_to seg) (msg_offset m)) (se_messages e)"
    using e by (simp add: segment_part_def stream_messages_def)
  with Cons e show ?case
    using map_entry_range [OF ok assms(2), of "read_up_to seg"] by (auto split: prod.splits)
qed simp

section \<open>The refinement of reading\<close>

text \<open>The source part of a fork's read: the inherited messages in the window.\<close>

lemma read_source_chain_log:
  assumes "mem_inv s" "log_of s src L" "wf_offset from" "wf_offset up_to"
  shows "read_source_chain s src from up_to = Some (Inr (map msg_data
    (filter (\<lambda>m. at_or_after from (msg_offset m) \<and> offset_lt (msg_offset m) up_to) L)))"
proof -
  obtain ch where ch: "chain_of s src ch" using log_of_chain assms(2) by blast
  let ?plan = "rev (tighten None (leaf_segments None ch))"
  have "read_segments s from up_to ?plan = map msg_data (concat (map (segment_part s from (Some up_to)) ?plan))"
    using assms wf_tighten [OF ch assms(1), of None None] by (intro read_segments_parts) auto
  with plan_covers_log [OF assms(2) ch assms(1), of None None "from" "Some up_to"] show ?thesis
    by (simp add: read_source_chain_def build_read_plan_of [OF ch] meet_def)
qed

definition log_read :: "message list \<Rightarrow> offset \<Rightarrow> bytes list" where
  "log_read L from = map msg_data (filter (\<lambda>m. at_or_after from (msg_offset m)) L)"

lemma finish_read_log:
  assumes inv: "mem_inv s" and e: "get_stream s n = Some e" and L: "log_of s n L"
    and frm: "wf_offset from" "from \<noteq> Now"
  shows "finish_read s from (prepare_read e from) =
    Some (Inr \<lparr>rr_messages = log_read L from, rr_next_offset = entry_next_offset e,
               rr_at_tail = True, rr_closed = se_closed e\<rparr>)"
proof -
  have ok: "entry_ok e" using inv e by (rule mem_inv_entry)
  have now: "\<not> offset_is_now from" using frm by (auto simp: offset_is_now_def split: offset.splits)
  have own: "read_local_messages e from (entry_next_offset e) = \<lparr>rr_messages = log_read (se_messages e) from,
      rr_next_offset = entry_next_offset e, rr_at_tail = True, rr_closed = se_closed e\<rparr>"
    using map_entry_range [OF ok frm(1), of None]
    by (auto simp: read_local_messages_def log_read_def split: prod.splits)
  from L show ?thesis
  proof (cases rule: log_of.cases)
    case (root e')
    with e now own show ?thesis by (simp add: finish_read_def prepare_read_def pending_finish_def Let_def)
  next
    case (fork e' fi Ls)
    note 2 = fork
    have fi: "se_fork_info e = Some fi" using 2 e by simp
    have wf: "wf_offset (fork_offset fi)" using ok fi by (simp add: entry_ok_def)
    let ?inh = "filter (\<lambda>m. offset_lt (msg_offset m) (fork_offset fi)) Ls"
    have Ls: "\<forall>m\<in>set Ls. wf_offset (msg_offset m)" using log_of_ok [OF 2(4) inv] by blast
    have src: "read_source_chain s (source_name fi) from (fork_offset fi) = Some (Inr (log_read ?inh from))"
      using read_source_chain_log [OF inv 2(4) frm(1) wf] by (simp add: log_read_def conj_commute)
    have skip: "log_read ?inh from = []" if "\<not> (offset_is_start from \<or> offset_lt from (fork_offset fi))"
      using that Ls wf frm(1) by (auto simp: log_read_def filter_empty_conv at_or_after_def offset_lt_key)
    have split: "log_read L from = log_read ?inh from @ log_read (se_messages e) from"
      using 2 e by (simp add: log_read_def)
    show ?thesis
    proof (cases "offset_is_start from \<or> offset_lt from (fork_offset fi)")
      case True
      then show ?thesis
        unfolding split by (simp add: finish_read_def prepare_read_def pending_finish_def Let_def fi now own src)
    next
      case False
      with skip show ?thesis
        unfolding split by (simp add: finish_read_def prepare_read_def pending_finish_def Let_def fi now own)
    qed
  qed
qed

end
