(* ===== verification/DS_Step.thy ===== *)
theory DS_Step
  imports DS_Log
begin

text \<open>
  Sequences of operations of the in-memory backend. \<open>exec\<close> runs one call of the
  \<open>Storage\<close> trait under an arbitrary clock; \<open>reachable\<close> states are those a server
  can be in. The invariant holds in all of them, every call returns, and a
  call changes the log of a stream it does not create or replace only by
  appending to it.
\<close>

section \<open>Operations\<close>

datatype op =
    OpCreate string stream_options "bytes list" bool
  | OpAppend string "bytes list" string "string option" bool
  | OpProducer string "bytes list" string producer_headers bool "string option"
  | OpRead string offset
  | OpReplace string stream_options "bytes list" bool
  | OpDelete string
  | OpSweep "string list"
  | OpFork string string "offset option" stream_options fork_options
  | OpSaveState bytes

fun exec :: "env \<Rightarrow> mem \<Rightarrow> op \<Rightarrow> mem option" where
  "exec E s (OpCreate n opts msgs cl) = Some (fst (create_stream_with_data E s n opts msgs cl))"
| "exec E s (OpAppend n msgs ct sq cl) = Some (fst (append_batch E s n msgs ct sq cl))"
| "exec E s (OpProducer n msgs ct p cl sq) = Some (fst (append_with_producer E s n msgs ct p cl sq))"
| "exec E s (OpRead n from) = map_option fst (mem_read E s n from)"
| "exec E s (OpReplace n opts msgs cl) = Some (fst (replace_stream E s n opts msgs cl))"
| "exec E s (OpDelete n) = Some (fst (mem_delete s n))"
| "exec E s (OpSweep ord) = Some (fst (cleanup_expired_streams E s ord))"
| "exec E s (OpFork n src req sopts opts) =
     map_option fst (create_fork_with_options E s n src req sopts opts)"
| "exec E s (OpSaveState st) = Some (save_subscription_state s st)"

text \<open>
  The side conditions: batches fit the address space, message counters and
  reference counts do not wrap, offsets come from \<open>Offset::new\<close> or the parser.
\<close>

fun op_ok :: "env \<Rightarrow> mem \<Rightarrow> op \<Rightarrow> bool" where
  "op_ok E s (OpCreate n opts msgs cl) \<longleftrightarrow> payload_fits msgs \<and> length msgs < 2 ^ 64"
| "op_ok E s (OpAppend n msgs ct sq cl) \<longleftrightarrow> batch_fits s n msgs"
| "op_ok E s (OpProducer n msgs ct p cl sq) \<longleftrightarrow> batch_fits s n msgs"
| "op_ok E s (OpRead n from) \<longleftrightarrow> wf_offset from"
| "op_ok E s (OpReplace n opts msgs cl) \<longleftrightarrow> payload_fits msgs \<and> length msgs < 2 ^ 64"
| "op_ok E s (OpDelete n) \<longleftrightarrow> True"
| "op_ok E s (OpSweep ord) \<longleftrightarrow> True"
| "op_ok E s (OpFork n src req sopts opts) \<longleftrightarrow>
     fork_guard E s n src opts \<and> (case req of Some off \<Rightarrow> wf_offset off | None \<Rightarrow> True)"
| "op_ok E s (OpSaveState st) \<longleftrightarrow> True"

inductive reachable :: "mem \<Rightarrow> bool" where
  init: "reachable (mem_new max_total max_stream)"
| step: "reachable s \<Longrightarrow> op_ok E s op \<Longrightarrow> exec E s op = Some s' \<Longrightarrow> reachable s'"

section \<open>The invariant of reachable states\<close>

lemma save_subscription_state_simps [simp]:
  "get_stream (save_subscription_state s st) n = get_stream s n"
  "mem_streams (save_subscription_state s st) = mem_streams s"
  "mem_total_bytes (save_subscription_state s st) = mem_total_bytes s"
  "mem_max_total_bytes (save_subscription_state s st) = mem_max_total_bytes s"
  "mem_max_stream_bytes (save_subscription_state s st) = mem_max_stream_bytes s"
  by (simp_all add: save_subscription_state_def get_stream_def)

lemma parents_save_state [simp]: "parents (save_subscription_state s st) = parents s"
  by (simp add: parents_def fun_eq_iff)

lemma save_subscription_state_inv: "mem_inv s \<Longrightarrow> mem_inv (save_subscription_state s st)"
  by (simp add: mem_inv_defs fork_bounds_def counts_ok_def sum_bytes_def stream_bytes_def)

lemma exec_inv:
  assumes "mem_inv s" "op_ok E s op" "exec E s op = Some s'"
  shows "mem_inv s'"
proof (cases op)
  case (OpCreate n opts msgs cl)
  with assms show ?thesis
    by (cases "create_stream_with_data E s n opts msgs cl") (auto intro: create_stream_with_data_inv)
next
  case (OpAppend n msgs ct sq cl)
  with assms show ?thesis
    by (cases "append_batch E s n msgs ct sq cl") (auto intro: append_batch_inv)
next
  case (OpProducer n msgs ct p cl sq)
  with assms show ?thesis
    by (cases "append_with_producer E s n msgs ct p cl sq") (auto intro: append_with_producer_inv)
next
  case (OpReplace n opts msgs cl)
  with assms show ?thesis
    by (cases "replace_stream E s n opts msgs cl") (auto intro: replace_stream_inv)
next
  case (OpDelete n)
  with assms show ?thesis by (cases "mem_delete s n") (auto intro: mem_delete_inv)
next
  case (OpSweep ord)
  with assms show ?thesis
    by (cases "cleanup_expired_streams E s ord") (auto intro: cleanup_expired_streams_inv)
next
  case (OpFork n src req sopts opts)
  with assms(3) obtain r where "create_fork_with_options E s n src req sopts opts = Some (s', r)" by auto
  moreover have "fork_guard E s n src opts" "\<And>x. req = Some x \<Longrightarrow> wf_offset x"
    using assms(2) OpFork by (auto split: option.splits)
  ultimately show ?thesis using assms(1) create_fork_inv by blast
next
  case (OpRead n off)
  with assms(3) obtain r where "mem_read E s n off = Some (s', r)" by auto
  with assms(1) show ?thesis by (rule mem_read_inv)
next
  case (OpSaveState st)
  with assms show ?thesis by (auto simp: save_subscription_state_inv)
qed

lemma reachable_mem_inv: "reachable s \<Longrightarrow> mem_inv s"
  by (induction rule: reachable.induct) (auto simp: mem_inv_new intro: exec_inv)

section \<open>Every call returns\<close>

lemma finish_read_returns:
  assumes "mem_inv s" "get_stream s n = Some e" "wf_offset from"
  obtains r where "finish_read s from (prepare_read e from) = Some (Inr r)"
proof (cases "from = Now")
  case True
  then show ?thesis
    by (intro that) (simp add: finish_read_def prepare_read_def pending_finish_def Let_def)
next
  case False
  obtain L where "log_of s n L" using mem_inv_log assms(1,2) by blast
  from finish_read_log [OF assms(1,2) this assms(3) False] show ?thesis by (rule that)
qed

lemma mem_read_returns:
  assumes "mem_inv s" "wf_offset from"
  shows "\<exists>s' r. mem_read E s n from = Some (s', r)"
proof (cases "get_stream s n")
  case None
  then show ?thesis by (simp add: mem_read_def)
next
  case (Some e)
  obtain r where "finish_read s from (prepare_read e from) = Some (Inr r)"
    using assms Some by (auto elim: finish_read_returns)
  with Some show ?thesis by (auto simp: mem_read_def split: sum.splits)
qed

lemma fork_initial_messages_returns:
  assumes "mem_inv s" "get_stream s src = Some e"
  shows "\<exists>r. fork_initial_messages E s src off c opts = Some r"
proof -
  obtain L where "log_of s src L" using mem_inv_log assms by blast
  then obtain ch where "chain_of s src ch" using log_of_chain by blast
  then show ?thesis
    by (auto simp: fork_initial_messages_def build_read_plan_of split: sum.splits)
qed

lemma create_fork_returns:
  assumes "mem_inv s"
  shows "\<exists>s' r. create_fork_with_options E s n src req sopts opts = Some (s', r)"
proof (cases "get_stream s src")
  case None
  then show ?thesis by (auto simp: create_fork_with_options_def split: sum.splits)
next
  case (Some e)
  define F where "F off c = the (fork_initial_messages E s src off c opts)" for off c
  have F: "fork_initial_messages E s src off c opts = Some (F off c)" for off c
    using fork_initial_messages_returns [OF assms Some, of E off c opts] by (auto simp: F_def)
  have "create_fork_with_options E s n src req sopts opts \<noteq> None"
    unfolding create_fork_with_options_def Some F Let_def
    by (simp split: sum.split prod.split)
  then show ?thesis by fast
qed

lemma exec_returns:
  assumes "mem_inv s" "op_ok E s op"
  shows "\<exists>s'. exec E s op = Some s'"
proof (cases op)
  case (OpRead n off)
  with assms mem_read_returns [of s off E n] show ?thesis by auto
next
  case (OpFork n src req sopts opts)
  with assms create_fork_returns [of s E n src req sopts opts] show ?thesis by auto
qed simp_all

end
