(* ===== verification/DS_Frame.thy ===== *)
theory DS_Frame
  imports DS_Step
begin

text \<open>
  What one operation does to the streams it is not about: their entries stay
  as they are up to the reference count (and, in the expiry sweep, the
  tombstone mark), and so do their logs, also along fork lineages that lead
  through the stream the operation changes.
\<close>

section \<open>Logs under changes of the state\<close>

text \<open>Appending to one stream extends its own log and no other.\<close>

lemma log_of_update:
  assumes inv: "mem_inv s" and e: "get_stream s n = Some e" and e': "get_stream s' n = Some e'"
    and same: "se_fork_info e' = se_fork_info e" "se_messages e' = se_messages e @ new"
    and new: "\<forall>x\<in>set new. wf_offset (msg_offset x) \<and> \<not> offset_lt (msg_offset x) (entry_next_offset e)"
    and others: "\<And>m. m \<noteq> n \<Longrightarrow> get_stream s' m = get_stream s m"
    and L: "log_of s m L"
  shows "log_of s' m (if m = n then L @ new else L)"
  using L
proof (induction rule: log_of.induct)
  case (root m em)
  show ?case
  proof (cases "m = n")
    case True
    with root e have "em = e" by simp
    with root e' same True log_of.root [of s' n e'] show ?thesis by simp
  next
    case False
    with root others log_of.root [of s' m em] show ?thesis by simp
  qed
next
  case (fork m em fi L)
  let ?p = "source_name fi"
  have kid: "m \<in> kids (parents s) ?p" using fork.hyps by (simp add: kids_def parents_Some)
  have mp: "?p \<noteq> m"
    using lineage_not_self [OF mem_inv_lineage [OF inv], of m] kid by (auto simp: kids_def)
  have wf: "wf_offset (fork_offset fi)"
    using mem_inv_entry [OF inv fork.hyps(1)] fork.hyps(2) by (simp add: entry_ok_def)
  have inherited: "filter (\<lambda>x. offset_lt (msg_offset x) (fork_offset fi)) (if ?p = n then L @ new else L) =
      filter (\<lambda>x. offset_lt (msg_offset x) (fork_offset fi)) L"
  proof (cases "?p = n")
    case True
    then have "\<not> offset_lt (entry_next_offset e) (fork_offset fi)"
      using inv fork.hyps e by (auto simp: mem_inv_def mem_core_def fork_bounds_def)
    then have "\<not> offset_lt (msg_offset x) (fork_offset fi)" if "x \<in> set new" for x
      using that new wf offset_ge_trans [of "entry_next_offset e" "msg_offset x" "fork_offset fi"] by simp
    then show ?thesis by (auto simp: filter_empty_conv)
  qed simp
  show ?case
  proof (cases "m = n")
    case True
    with fork.hyps e have em: "em = e" by simp
    have "log_of s' m (filter (\<lambda>x. offset_lt (msg_offset x) (fork_offset fi)) (if ?p = n then L @ new else L)
        @ se_messages e')"
      using fork.IH True e' same fork.hyps(2) em by (intro log_of.fork) simp_all
    then show ?thesis unfolding inherited using True same em by simp
  next
    case False
    have "log_of s' m (filter (\<lambda>x. offset_lt (msg_offset x) (fork_offset fi)) (if ?p = n then L @ new else L)
        @ se_messages em)"
      using fork.IH fork.hyps False others [OF False] by (intro log_of.fork) simp_all
    then show ?thesis unfolding inherited using False by simp
  qed
qed

text \<open>A state whose streams all come from another one: whatever survives keeps its log.\<close>

definition retains :: "mem \<Rightarrow> mem \<Rightarrow> bool" where
  "retains s s' \<longleftrightarrow> (\<forall>m e'. get_stream s' m = Some e' \<longrightarrow>
     (\<exists>e. get_stream s m = Some e \<and> se_messages e' = se_messages e \<and> se_fork_info e' = se_fork_info e))"

lemma retains_refl [simp]: "retains s s"
  by (simp add: retains_def)

lemma retains_trans: "retains s s1 \<Longrightarrow> retains s1 s2 \<Longrightarrow> retains s s2"
  by (fastforce simp: retains_def)

lemma retained_log:
  assumes "retains s s'" "log_of s' m L"
  shows "log_of s m L"
  using assms(2,1)
proof (induction rule: log_of.induct)
  case (root m e')
  then obtain e where "get_stream s m = Some e" "se_messages e' = se_messages e" "se_fork_info e = None"
    by (fastforce simp: retains_def)
  then show ?case using log_of.root [of s m e] by simp
next
  case (fork m e' fi L)
  then obtain e where "get_stream s m = Some e" "se_messages e' = se_messages e" "se_fork_info e = Some fi"
    by (fastforce simp: retains_def)
  then show ?case using log_of.fork [of s m e fi L] fork by simp
qed

lemma retains_log:
  assumes "retains s s'" "mem_inv s'" "log_of s m L" "get_stream s' m \<noteq> None"
  shows "log_of s' m L"
proof -
  obtain L' where "log_of s' m L'" using mem_inv_log assms(2,4) by blast
  moreover from this have "log_of s m L'" by (rule retained_log [OF assms(1)])
  ultimately show ?thesis using assms(3) log_of_unique by blast
qed

text \<open>Adding a stream, or replacing one without forks.\<close>

lemma log_of_extend:
  assumes "log_of s m L" "m \<noteq> n" "kids (parents s) n = {}"
    and others: "\<And>k e. k \<noteq> n \<Longrightarrow> get_stream s k = Some e \<Longrightarrow> \<exists>r. get_stream s' k = Some (e\<lparr>se_ref_count := r\<rparr>)"
  shows "log_of s' m L"
  using assms(1,2)
proof (induction rule: log_of.induct)
  case (root m e)
  then obtain r where "get_stream s' m = Some (e\<lparr>se_ref_count := r\<rparr>)" using others by blast
  then show ?case using log_of.root [of s' m "e\<lparr>se_ref_count := r\<rparr>"] root.hyps by simp
next
  case (fork m e fi L)
  have "m \<in> kids (parents s) (source_name fi)" using fork.hyps by (simp add: kids_def parents_Some)
  then have "source_name fi \<noteq> n" using assms(3) by auto
  moreover obtain r where "get_stream s' m = Some (e\<lparr>se_ref_count := r\<rparr>)"
    using others fork by blast
  ultimately show ?case using log_of.fork [of s' m "e\<lparr>se_ref_count := r\<rparr>" fi L] fork by simp
qed

section \<open>Removal and the sweep\<close>

lemma same_ref_count: "\<exists>r. e = e\<lparr>se_ref_count := r\<rparr>" for e :: stream_entry
  by (metis stream_entry.surjective stream_entry.update_convs(13))

lemma remove_for_recreate_retains: "retains s (remove_for_recreate s n)"
  unfolding retains_def
proof (intro allI impI)
  fix m e' assume "get_stream (remove_for_recreate s n) m = Some e'"
  then obtain e where "get_stream s m = Some e" "e' = e\<lparr>se_ref_count := se_ref_count e'\<rparr>"
    by (rule remove_for_recreate_get) blast
  then show "\<exists>e. get_stream s m = Some e \<and> se_messages e' = se_messages e \<and> se_fork_info e' = se_fork_info e"
    by (metis stream_entry.select_convs(2,12) stream_entry.surjective stream_entry.update_convs(13))
qed

lemma cleanup_one_entry:
  assumes "get_stream (cleanup_one s x) m = Some e'"
  obtains e r st where "get_stream s m = Some e" "e' = e\<lparr>se_ref_count := r, se_state := st\<rparr>"
proof -
  obtain n r where x: "x = (n, r)" by fastforce
  show ?thesis
  proof (cases "r > 0")
    case True
    show ?thesis
    proof (cases "get_stream s n")
      case None
      with True x assms have "get_stream s m = Some e'"
        by (simp add: cleanup_one_def evaluate_expired_cleanup_def)
      then show ?thesis by (intro that [of e' "se_state e'" "se_ref_count e'"]) simp_all
    next
      case (Some e)
      with True x assms have *: "get_stream (set_stream n (e\<lparr>se_state := Tombstone\<rparr>) s) m = Some e'"
        by (simp add: cleanup_one_def evaluate_expired_cleanup_def)
      show ?thesis
      proof (cases "m = n")
        case True
        with * Some show ?thesis by (intro that [of e Tombstone "se_ref_count e"]) simp_all
      next
        case False
        with * show ?thesis by (intro that [of e' "se_state e'" "se_ref_count e'"]) simp_all
      qed
    qed
  next
    case False
    with x assms have "get_stream (remove_for_recreate s n) m = Some e'"
      by (simp add: cleanup_one_def evaluate_expired_cleanup_def)
    then obtain e where e: "get_stream s m = Some e" "e' = e\<lparr>se_ref_count := se_ref_count e'\<rparr>"
      by (rule remove_for_recreate_get)
    from e(2) have "e' = e\<lparr>se_ref_count := se_ref_count e', se_state := se_state e\<rparr>"
      by (cases e, cases e') simp
    with e(1) show ?thesis by (rule that)
  qed
qed

lemma foldl_cleanup_entry:
  assumes "get_stream (foldl cleanup_one s xs) m = Some e'"
  obtains e r st where "get_stream s m = Some e" "e' = e\<lparr>se_ref_count := r, se_state := st\<rparr>"
  using assms
proof (induction xs arbitrary: s thesis)
  case Nil
  then show ?case by (intro Nil(1) [of e' "se_state e'" "se_ref_count e'"]) simp_all
next
  case (Cons x xs)
  from Cons.prems(2) obtain e1 r1 st1 where e1: "get_stream (cleanup_one s x) m = Some e1"
      "e' = e1\<lparr>se_ref_count := r1, se_state := st1\<rparr>"
    using Cons.IH [of "cleanup_one s x"] by auto
  from e1(1) obtain e r st where "get_stream s m = Some e" "e1 = e\<lparr>se_ref_count := r, se_state := st\<rparr>"
    by (rule cleanup_one_entry)
  with e1(2) Cons.prems(1) [of e st1 r1] show ?case by simp
qed


lemma sweep_retains: "retains s (foldl cleanup_one s xs)"
  unfolding retains_def
proof (intro allI impI)
  fix m e' assume "get_stream (foldl cleanup_one s xs) m = Some e'"
  then obtain e r st where "get_stream s m = Some e" "e' = e\<lparr>se_ref_count := r, se_state := st\<rparr>"
    by (rule foldl_cleanup_entry)
  then show "\<exists>e. get_stream s m = Some e \<and> se_messages e' = se_messages e \<and> se_fork_info e' = se_fork_info e"
    by auto
qed

section \<open>Extending a stream\<close>

text \<open>
  One stream gets payloads appended (possibly none) and perhaps other
  metadata; the other streams are as before.
\<close>

definition extends :: "mem \<Rightarrow> mem \<Rightarrow> string \<Rightarrow> bytes list \<Rightarrow> bool" where
  "extends s s' n ds \<longleftrightarrow> (\<forall>k. k \<noteq> n \<longrightarrow> get_stream s' k = get_stream s k) \<and>
     (\<exists>e e'. get_stream s n = Some e \<and> get_stream s' n = Some e' \<and> se_fork_info e' = se_fork_info e \<and>
        se_messages e' = se_messages e @ log_from (se_next_read_seq e) (se_next_byte_offset e) ds \<and>
        se_next_read_seq e' = se_next_read_seq e + of_nat (length ds) \<and>
        se_next_byte_offset e' = se_next_byte_offset e + payload_bytes ds)"

lemma log_from_after:
  assumes "unat r + length ds < 2 ^ 64" "x \<in> set (log_from r b ds)"
  shows "wf_offset (msg_offset x) \<and> \<not> offset_lt (msg_offset x) (offset_new r b)"
  using log_from_offsets [OF assms(2,1)] by (auto simp: word_less_nat_alt)

lemma extends_log:
  assumes "mem_inv s" "extends s s' n ds" "get_stream s n = Some e"
    "unat (se_next_read_seq e) + length ds < 2 ^ 64" "log_of s m L"
  shows "log_of s' m (if m = n then L @ log_from (se_next_read_seq e) (se_next_byte_offset e) ds else L)"
proof -
  obtain e' where e': "get_stream s' n = Some e'" "se_fork_info e' = se_fork_info e"
      "se_messages e' = se_messages e @ log_from (se_next_read_seq e) (se_next_byte_offset e) ds"
    using assms(2,3) by (auto simp: extends_def)
  show ?thesis
    by (rule log_of_update [OF assms(1,3) e' _ _ assms(5)])
      (use assms(2) log_from_after [OF assms(4)] in \<open>auto simp: extends_def entry_next_offset_def\<close>)
qed

lemma extends_refl: "get_stream s n = Some e \<Longrightarrow> extends s s n []"
  by (simp add: extends_def)

lemma extends_meta:
  "get_stream s n = Some e \<Longrightarrow> se_messages e' = se_messages e \<Longrightarrow> se_fork_info e' = se_fork_info e \<Longrightarrow>
    se_next_read_seq e' = se_next_read_seq e \<Longrightarrow> se_next_byte_offset e' = se_next_byte_offset e \<Longrightarrow>
    extends s (set_stream n e' s) n []"
  by (simp add: extends_def)

lemma extends_commit:
  assumes "get_stream s n = Some e0" "commit_messages s1 e msgs = (s2, Inr e1)"
    "\<And>k. k \<noteq> n \<Longrightarrow> get_stream s1 k = get_stream s k"
    "se_messages e = se_messages e0" "se_fork_info e = se_fork_info e0"
    "se_next_read_seq e = se_next_read_seq e0" "se_next_byte_offset e = se_next_byte_offset e0"
    "se_messages e' = se_messages e1" "se_fork_info e' = se_fork_info e1"
    "se_next_read_seq e' = se_next_read_seq e1" "se_next_byte_offset e' = se_next_byte_offset e1"
  shows "extends s (set_stream n e' s2) n msgs"
  using assms commit_messages_fields [OF assms(2)] by (simp add: extends_def)

lemma append_batch_extends:
  assumes "append_batch E s n msgs ct sq cl = (s', r)" "get_stream s n = Some e"
  shows "extends s s' n (case r of Inr _ \<Rightarrow> msgs | Inl _ \<Rightarrow> [])"
proof (cases r)
  case (Inl er)
  with assms show ?thesis by (auto dest!: append_batch_Inl intro: extends_refl)
next
  case (Inr a)
  with assms(1) have "append_batch E s n msgs ct sq cl = (s', Inr a)" by simp
  then show ?thesis
    by (rule append_batch_Inr) (use Inr in \<open>auto intro: extends_commit\<close>)
qed

definition producer_payload :: "producer_append_result res \<Rightarrow> bytes list \<Rightarrow> bytes list" where
  "producer_payload r msgs = (case r of Inr (Accepted _ _ _ _) \<Rightarrow> msgs | _ \<Rightarrow> [])"

lemma append_with_producer_extends:
  assumes "append_with_producer E s n msgs ct p cl sq = (s', r)" "get_stream s n = Some e"
  shows "extends s s' n (producer_payload r msgs)"
proof (cases r)
  case (Inl er)
  with assms have "append_with_producer E s n msgs ct p cl sq = (s', Inl er)" by simp
  then show ?thesis
    using append_with_producer_Inl assms(2) Inl
    by (fastforce simp: producer_payload_def intro: extends_refl extends_meta)
next
  case (Inr a)
  with assms(1) have "append_with_producer E s n msgs ct p cl sq = (s', Inr a)" by simp
  then show ?thesis
  proof (cases rule: append_with_producer_Inr)
    case (dup e e0 ep q)
    with Inr show ?thesis by (auto simp: producer_payload_def intro: extends_meta)
  next
    case (acc e e0 pending c' ch s1 e1)
    with Inr have "producer_payload r msgs = msgs" by (simp add: producer_payload_def)
    with acc show ?thesis by (auto intro!: extends_commit [of s n e "set_stream n e0 s" e0 msgs s1 e1])
  qed
qed

lemma mem_read_extends:
  assumes "mem_read E s n from = Some (s', r)" "get_stream s n = Some e"
  shows "extends s s' n []"
  using mem_read_state [OF assms(1)] assms(2) by (auto intro: extends_refl extends_meta)

section \<open>Isolation\<close>

fun target :: "op \<Rightarrow> string option" where
  "target (OpCreate n opts msgs cl) = Some n"
| "target (OpAppend n msgs ct sq cl) = Some n"
| "target (OpProducer n msgs ct p cl sq) = Some n"
| "target (OpRead n from) = Some n"
| "target (OpReplace n opts msgs cl) = Some n"
| "target (OpDelete n) = Some n"
| "target (OpSweep ord) = None"
| "target (OpFork n src req sopts opts) = Some n"
| "target (OpSaveState st) = None"

text \<open>The entry-level frame of each kind of operation.\<close>

lemma append_batch_get:
  "append_batch E s n msgs ct sq cl = (s', r) \<Longrightarrow> m \<noteq> n \<Longrightarrow> get_stream s' m = get_stream s m"
  by (cases r) (auto dest!: append_batch_Inl elim!: append_batch_Inr simp: commit_messages_fields(13))

lemma append_with_producer_get:
  "append_with_producer E s n msgs ct p cl sq = (s', r) \<Longrightarrow> m \<noteq> n \<Longrightarrow> get_stream s' m = get_stream s m"
  by (cases r) (auto dest!: append_with_producer_Inl elim!: append_with_producer_Inr simp: commit_messages_fields(13))

lemma mem_read_get: "mem_read E s n from = Some (s', r) \<Longrightarrow> m \<noteq> n \<Longrightarrow> get_stream s' m = get_stream s m"
  by (auto dest!: mem_read_state)

lemma mem_delete_eq:
  assumes "mem_delete s n = (s', r)"
  shows "s' = s \<or> (\<exists>e. get_stream s n = Some e \<and> s' = set_stream n (e\<lparr>se_state := Tombstone\<rparr>) s) \<or>
    (\<exists>e. get_stream s n = Some e \<and> se_ref_count e = 0 \<and> s' = remove_for_recreate s n)"
proof (cases "get_stream s n")
  case (Some e)
  show ?thesis
  proof (cases "evaluate_delete n (se_state e) (se_ref_count e)")
    case (Inr d)
    then have "d = HardDelete \<Longrightarrow> se_ref_count e = 0"
      by (auto simp: evaluate_delete_Inr word_gt_0 split: if_splits)
    with assms Some Inr show ?thesis
      by (cases d) (auto simp: mem_delete_def remove_for_recreate_def split: prod.splits option.splits)
  qed (use assms Some in \<open>simp add: mem_delete_def\<close>)
qed (use assms in \<open>simp add: mem_delete_def\<close>)


text \<open>Creation and forking: what was there stays, or was the expired stream of that name, or a tombstone.\<close>

lemma commit_get_other:
  "commit_messages s e msgs = (s1, x) \<Longrightarrow> get_stream s1 m = get_stream s m"
  by (cases x) (auto dest: commit_messages_Inl simp: commit_messages_fields(13))

definition adds :: "mem \<Rightarrow> mem \<Rightarrow> string \<Rightarrow> bool" where
  "adds s s' n \<longleftrightarrow> (\<exists>s1. mem_inv s1 \<and> (s1 = s \<or> s1 = remove_for_recreate s n) \<and>
     (s' = s \<or> get_stream s1 n = None) \<and>
     (\<forall>k e. k \<noteq> n \<longrightarrow> get_stream s1 k = Some e \<longrightarrow> (\<exists>r. get_stream s' k = Some (e\<lparr>se_ref_count := r\<rparr>))) \<and>
     (\<forall>k. k \<noteq> n \<longrightarrow> get_stream s1 k = None \<longrightarrow> get_stream s' k = None))"

lemma adds_refl: "mem_inv s \<Longrightarrow> adds s s n"
  unfolding adds_def by (rule exI [of _ s]) (auto simp: same_ref_count)

lemma addsI:
  assumes "mem_inv s" "s1 = s \<and> get_stream s n = None \<or> s1 = remove_for_recreate s n \<and>
      (\<exists>e. get_stream s n = Some e \<and> P e \<and> se_ref_count e = 0)"
    and get: "\<And>k. k \<noteq> n \<Longrightarrow> get_stream s' k = get_stream s1 k \<or>
      get_stream s' k = map_option (\<lambda>e. e\<lparr>se_ref_count := se_ref_count e + 1\<rparr>) (get_stream s1 k)"
  shows "adds s s' n"
  unfolding adds_def
proof (intro exI [of _ s1] conjI allI impI)
  show "mem_inv s1" using assms(1,2) by (auto intro: remove_for_recreate_inv)
  show "s1 = s \<or> s1 = remove_for_recreate s n" "s' = s \<or> get_stream s1 n = None"
    using assms(2) by (auto simp: remove_for_recreate_dropped)
  show "\<exists>r. get_stream s' k = Some (e\<lparr>se_ref_count := r\<rparr>)" if "k \<noteq> n" "get_stream s1 k = Some e" for k e
    using get [OF that(1)] that(2) same_ref_count [of e] by auto
  show "get_stream s' k = None" if "k \<noteq> n" "get_stream s1 k = None" for k
    using get [OF that(1)] that(2) by auto
qed

lemma create_adds:
  assumes "mem_inv s" "create_stream_with_data E s n opts msgs cl = (s', r)"
  shows "adds s s' n"
  using assms(2)
proof (cases rule: create_stream_with_data_cases)
  case unchanged
  with assms(1) show ?thesis by (simp add: adds_refl)
next
  case (fresh c s1)
  show ?thesis
    by (rule addsI [OF assms(1) fresh(2)]) (use fresh(3) in \<open>auto simp: commit_get_other\<close>)
qed

lemma create_fork_adds:
  assumes "mem_inv s" "create_fork_with_options E s n src req sopts opts = Some (s', r)"
  shows "adds s s' n"
  using assms(2)
proof (cases rule: create_fork_cases)
  case unchanged
  with assms(1) show ?thesis by (simp add: adds_refl)
next
  case (fresh e c off msgs s1 cl)
  show ?thesis
    by (rule addsI [OF assms(1) fresh(7)])
      (use fresh(8) in \<open>auto simp: commit_get_other get_incr_ref_count\<close>)
qed

lemma replace_get:
  assumes "replace_stream E s n opts msgs cl = (s', r)"
  shows "s' = s \<or> (\<exists>cur. get_stream s n = Some cur \<and> se_ref_count cur = 0 \<and> se_fork_info cur = None) \<and>
    (\<forall>m. m \<noteq> n \<longrightarrow> get_stream s' m = get_stream s m)"
  using assms
  by (auto simp: replace_stream_def check_replace_def Let_def commit_get_other
      dest: commit_messages_Inl split: sum.splits option.splits prod.splits if_splits)


text \<open>The shared step of creation and forking.\<close>

lemma adds_other:
  assumes adds: "adds s s' n" and mn: "m \<noteq> n" and e: "get_stream s m = Some e"
  shows "get_stream s' m = Some e' \<Longrightarrow> log_of s m L \<Longrightarrow> log_of s' m L \<and> (\<exists>r. e' = e\<lparr>se_ref_count := r\<rparr>)"
    and "se_state e = Active \<Longrightarrow> \<exists>r. get_stream s' m = Some (e\<lparr>se_ref_count := r\<rparr>)"
proof -
  obtain s1 where inv: "mem_inv s1" and s1: "s1 = s \<or> s1 = remove_for_recreate s n"
    and new: "s' = s \<or> get_stream s1 n = None"
    and keep: "\<And>k e. k \<noteq> n \<Longrightarrow> get_stream s1 k = Some e \<Longrightarrow> \<exists>r. get_stream s' k = Some (e\<lparr>se_ref_count := r\<rparr>)"
      "\<And>k. k \<noteq> n \<Longrightarrow> get_stream s1 k = None \<Longrightarrow> get_stream s' k = None"
    using adds unfolding adds_def by blast
  have ret: "retains s s1" using s1 by (auto simp: remove_for_recreate_retains)
  {
    assume e': "get_stream s' m = Some e'" and L: "log_of s m L"
    then obtain x where x: "get_stream s1 m = Some x" using keep(2) [OF mn] by fastforce
    from s1 have "\<exists>r. x = e\<lparr>se_ref_count := r\<rparr>"
    proof
      assume "s1 = s"
      with x e same_ref_count [of e] show ?thesis by simp
    next
      assume "s1 = remove_for_recreate s n"
      with x have "get_stream (remove_for_recreate s n) m = Some x" by simp
      then show ?thesis by (rule remove_for_recreate_get) (use e in auto)
    qed
    moreover obtain r where "e' = x\<lparr>se_ref_count := r\<rparr>" using keep(1) [OF mn x] e' by auto
    ultimately have "\<exists>r. e' = e\<lparr>se_ref_count := r\<rparr>" by auto
    moreover have "log_of s' m L"
    proof (cases "s' = s")
      case True
      with L show ?thesis by simp
    next
      case False
      then have "kids (parents s1) n = {}"
        using new absent_no_kids [OF mem_inv_lineage [OF inv]] by simp
      moreover have "log_of s1 m L" by (rule retains_log [OF ret inv L]) (simp add: x)
      ultimately show ?thesis using log_of_extend [OF _ mn _ keep(1)] by blast
    qed
    ultimately show "log_of s' m L \<and> (\<exists>r. e' = e\<lparr>se_ref_count := r\<rparr>)" by simp
  }
  assume act: "se_state e = Active"
  obtain r where "get_stream s1 m = Some (e\<lparr>se_ref_count := r\<rparr>)"
    using s1 e same_ref_count [of e] remove_for_recreate_keeps_active [OF e act mn] by auto
  from keep(1) [OF mn this] show "\<exists>r. get_stream s' m = Some (e\<lparr>se_ref_count := r\<rparr>)" by simp
qed

text \<open>
  A stream is kept: when present in both states it has the same log and the
  same entry, but for the reference count and the tombstone mark.
\<close>

definition kept :: "mem \<Rightarrow> mem \<Rightarrow> string \<Rightarrow> bool" where
  "kept s s' m \<longleftrightarrow> (\<forall>e e' L. get_stream s m = Some e \<longrightarrow> get_stream s' m = Some e' \<longrightarrow> log_of s m L \<longrightarrow>
     log_of s' m L \<and> (\<exists>r st. e' = e\<lparr>se_ref_count := r, se_state := st\<rparr>))"

lemma same_marks: "\<exists>r st. x = x\<lparr>se_ref_count := r, se_state := st\<rparr>" for x :: stream_entry
  by (rule exI [of _ "se_ref_count x"], rule exI [of _ "se_state x"]) simp

lemma marks_ref_count: "\<exists>r st. x\<lparr>se_ref_count := rc\<rparr> = x\<lparr>se_ref_count := r, se_state := st\<rparr>" for x :: stream_entry
  by (rule exI [of _ rc], rule exI [of _ "se_state x"]) simp

lemma kept_refl: "kept s s m"
  by (simp add: kept_def same_marks)

lemma kept_adds: "adds s s' n \<Longrightarrow> m \<noteq> n \<Longrightarrow> kept s s' m"
  unfolding kept_def using adds_other(1) marks_ref_count by metis

lemma batch_fits_Nil [simp]: "batch_fits s n []"
  using unat_less_u64 by (auto simp: batch_fits_def payload_fits_def split: option.splits)

lemma kept_extends:
  assumes inv: "mem_inv s" and n: "extends s s' n ds" "batch_fits s n ds" "m \<noteq> n"
  shows "kept s s' m"
  unfolding kept_def
proof (intro allI impI)
  fix e e' L assume m: "get_stream s m = Some e" "get_stream s' m = Some e'" "log_of s m L"
  obtain x where x: "get_stream s n = Some x" using n(1) by (auto simp: extends_def)
  then have "unat (se_next_read_seq x) + length ds < 2 ^ 64" using n(2) by (simp add: batch_fits_def)
  from extends_log [OF inv n(1) x this m(3)] n m same_marks [of e]
  show "log_of s' m L \<and> (\<exists>r st. e' = e\<lparr>se_ref_count := r, se_state := st\<rparr>)" by (auto simp: extends_def)
qed

lemma kept_append_batch:
  assumes "mem_inv s" "batch_fits s n msgs" "append_batch E s n msgs ct sq cl = (s', r)" "m \<noteq> n"
  shows "kept s s' m"
proof (cases "get_stream s n")
  case None
  with assms show ?thesis by (auto simp: append_batch_def kept_refl split: sum.splits)
next
  case (Some x)
  from append_batch_extends [OF assms(3) Some] assms show ?thesis
    by (auto intro: kept_extends split: sum.splits)
qed

lemma kept_append_with_producer:
  assumes "mem_inv s" "batch_fits s n msgs" "append_with_producer E s n msgs ct p cl sq = (s', r)" "m \<noteq> n"
  shows "kept s s' m"
proof (cases "get_stream s n")
  case None
  with assms show ?thesis by (auto simp: append_with_producer_def kept_refl)
next
  case (Some x)
  have "batch_fits s n (producer_payload r msgs)"
    using assms(2) by (simp add: producer_payload_def split: sum.splits producer_append_result.splits)
  from kept_extends [OF assms(1) append_with_producer_extends [OF assms(3) Some] this assms(4)] show ?thesis .
qed

lemma kept_read:
  assumes "mem_inv s" "mem_read E s n from = Some (s', r)" "m \<noteq> n"
  shows "kept s s' m"
proof (cases "get_stream s n")
  case None
  with assms show ?thesis by (simp add: mem_read_def kept_refl)
next
  case (Some x)
  show ?thesis by (rule kept_extends [OF assms(1) mem_read_extends [OF assms(2) Some] batch_fits_Nil assms(3)])
qed

lemma kept_replace:
  assumes "mem_inv s" "replace_stream E s n opts msgs cl = (s', r)" "m \<noteq> n"
  shows "kept s s' m"
  using replace_get [OF assms(2)]
proof
  assume *: "(\<exists>cur. get_stream s n = Some cur \<and> se_ref_count cur = 0 \<and> se_fork_info cur = None) \<and>
    (\<forall>m. m \<noteq> n \<longrightarrow> get_stream s' m = get_stream s m)"
  then have "kids (parents s) n = {}" using mem_inv_zero_count [OF assms(1)] by blast
  then have "log_of s' m L" if "log_of s m L" for L
    using log_of_extend [OF that assms(3), of s'] * same_ref_count by auto
  with * assms(3) same_marks show ?thesis by (auto simp: kept_def)
qed (simp add: kept_refl)

lemma kept_retained:
  assumes "mem_inv s'" "retains s s'"
    "\<And>e e'. get_stream s m = Some e \<Longrightarrow> get_stream s' m = Some e' \<Longrightarrow>
      \<exists>r st. e' = e\<lparr>se_ref_count := r, se_state := st\<rparr>"
  shows "kept s s' m"
  using assms retains_log [OF assms(2,1)] by (simp add: kept_def)

lemma kept_delete:
  assumes "mem_inv s" "mem_delete s n = (s', r)" "m \<noteq> n"
  shows "kept s s' m"
  using mem_delete_eq [OF assms(2)]
proof (elim disjE exE conjE)
  fix x assume "get_stream s n = Some x" "s' = set_stream n (x\<lparr>se_state := Tombstone\<rparr>) s"
  then have "extends s s' n []" by (auto intro: extends_meta)
  from kept_extends [OF assms(1) this batch_fits_Nil assms(3)] show ?thesis .
next
  assume s': "s' = remove_for_recreate s n"
  show ?thesis
  proof (rule kept_retained)
    show "mem_inv s'" using assms by (auto intro: mem_delete_inv)
    show "retains s s'" using s' remove_for_recreate_retains by simp
    fix e e' assume e: "get_stream s m = Some e" "get_stream s' m = Some e'"
    then have "get_stream (remove_for_recreate s n) m = Some e'" using s' by simp
    then have "\<exists>r. e' = e\<lparr>se_ref_count := r\<rparr>" by (rule remove_for_recreate_get) (use e in auto)
    then show "\<exists>r st. e' = e\<lparr>se_ref_count := r, se_state := st\<rparr>" using marks_ref_count by metis
  qed
qed (simp add: kept_refl)

lemma kept_sweep:
  assumes "mem_inv s" "cleanup_expired_streams E s ord = (s', k)"
  shows "kept s s' m"
proof (rule kept_retained)
  show "mem_inv s'" using assms by (rule cleanup_expired_streams_inv)
  have s': "s' = foldl cleanup_one s (expired_streams E s ord)"
    using assms(2) by (auto simp: cleanup_expired_streams_def Let_def)
  then show "retains s s'" by (simp add: sweep_retains)
  fix e e' assume e: "get_stream s m = Some e" "get_stream s' m = Some e'"
  then have "get_stream (foldl cleanup_one s (expired_streams E s ord)) m = Some e'" using s' by simp
  then show "\<exists>r st. e' = e\<lparr>se_ref_count := r, se_state := st\<rparr>" by (rule foldl_cleanup_entry) (use e in auto)
qed

text \<open>An operation leaves the log and the content of every other stream that survives it alone.\<close>

lemma exec_kept:
  assumes inv: "mem_inv s" and ok: "op_ok E s op" and ex: "exec E s op = Some s'" and m: "target op \<noteq> Some m"
  shows "kept s s' m"
proof (cases op)
  case (OpCreate n opts msgs cl)
  with assms show ?thesis by (auto simp: prod_eq_iff intro: kept_adds [OF create_adds [OF inv]])
next
  case (OpAppend n msgs ct sq cl)
  with assms show ?thesis by (auto simp: prod_eq_iff intro: kept_append_batch [OF inv])
next
  case (OpProducer n msgs ct p cl sq)
  with assms show ?thesis by (auto simp: prod_eq_iff intro: kept_append_with_producer [OF inv])
next
  case (OpRead n off)
  with assms show ?thesis by (auto intro: kept_read [OF inv])
next
  case (OpReplace n opts msgs cl)
  with assms show ?thesis by (auto simp: prod_eq_iff intro: kept_replace [OF inv])
next
  case (OpDelete n)
  with assms show ?thesis by (auto simp: prod_eq_iff intro: kept_delete [OF inv])
next
  case (OpSweep ord)
  with assms show ?thesis by (auto simp: prod_eq_iff intro: kept_sweep [OF inv])
next
  case (OpFork n src req sopts opts)
  with assms show ?thesis by (auto intro: kept_adds [OF create_fork_adds [OF inv]])
next
  case (OpSaveState b)
  then have "retains s s'" using ex by (auto simp: retains_def)
  then show ?thesis
    using OpSaveState ex exec_inv [OF inv ok ex] same_marks by (auto intro: kept_retained)
qed

text \<open>No operation but the sweep removes or marks another live stream.\<close>

lemma exec_active:
  assumes inv: "mem_inv s" and ex: "exec E s op = Some s'" and m: "target op \<noteq> Some m"
    and sweep: "\<And>ord. op \<noteq> OpSweep ord" and e: "get_stream s m = Some e" "se_state e = Active"
  shows "\<exists>r. get_stream s' m = Some (e\<lparr>se_ref_count := r\<rparr>)"
proof -
  have same: ?thesis if "get_stream s' m = get_stream s m" using that e same_ref_count [of e] by simp
  show ?thesis
  proof (cases op)
    case (OpCreate n opts msgs cl)
    with assms show ?thesis by (auto simp: prod_eq_iff intro: adds_other(2) [OF create_adds [OF inv]])
  next
    case (OpAppend n msgs ct sq cl)
    then show ?thesis
      using ex m append_batch_get [of E s n msgs ct sq cl s']
      by (intro same) (cases "append_batch E s n msgs ct sq cl", auto)
  next
    case (OpProducer n msgs ct p cl sq)
    then show ?thesis
      using ex m append_with_producer_get [of E s n msgs ct p cl sq s']
      by (intro same) (cases "append_with_producer E s n msgs ct p cl sq", auto)
  next
    case (OpRead n off)
    then show ?thesis using ex m by (intro same) (auto intro: mem_read_get)
  next
    case (OpReplace n opts msgs cl)
    then show ?thesis
      using ex m replace_get [of E s n opts msgs cl s']
      by (intro same) (cases "replace_stream E s n opts msgs cl", auto)
  next
    case (OpDelete n)
    then obtain r where d: "mem_delete s n = (s', r)" using ex by (auto simp: prod_eq_iff)
    have mn: "m \<noteq> n" using m OpDelete by simp
    from mem_delete_eq [OF d] same mn remove_for_recreate_keeps_active [OF e mn] show ?thesis by auto
  next
    case (OpFork n src req sopts opts)
    with assms show ?thesis by (auto intro: adds_other(2) [OF create_fork_adds [OF inv]])
  next
    case (OpSaveState b)
    then show ?thesis using ex by (intro same) auto
  qed (use sweep in simp)
qed

end
