(* ===== verification/DS_Store.thy ===== *)
theory DS_Store
  imports DS_Frame
begin

text \<open>
  The contract of a stream store towards its readers, as a locale that does
  not mention the backend: a stream has a log ordered before its tail, and a
  step of the store that does not recreate the stream only appends to the log
  at or after the tail. From the contract alone a reader that resumes at the
  offset of its last read sees every message once and in order. The
  in-memory backend is an instance.
\<close>

section \<open>Splitting a log at a position\<close>

lemma log_split:
  assumes "in_order L" "\<forall>m\<in>set L. wf_offset (msg_offset m)" "wf_offset cur"
  shows "map msg_data (filter (\<lambda>m. offset_lt (msg_offset m) cur) L) @ log_read L cur = map msg_data L"
proof -
  let ?P = "\<lambda>m. offset_lt (msg_offset m) cur"
  have "sorted_wrt (\<lambda>a b. ?P b \<longrightarrow> ?P a) L"
    using assms(1) by (rule sorted_wrt_mono_rel [rotated]) (use assms in \<open>auto simp: offset_lt_key\<close>)
  then have "filter ?P L @ filter (\<lambda>m. \<not> ?P m) L = L"
    by (metis append_take_drop_id partitioned_filter)
  moreover have "filter (\<lambda>m. at_or_after cur (msg_offset m)) L = filter (\<lambda>m. \<not> ?P m) L"
    using assms(2) by (intro filter_cong) (auto simp: at_or_after_def offset_is_start_def split: offset.splits)
  ultimately show ?thesis by (simp add: log_read_def flip: map_append)
qed

section \<open>The contract\<close>

locale log_store =
  fixes inv :: "'s \<Rightarrow> bool"
    and log :: "'s \<Rightarrow> string \<Rightarrow> message list \<Rightarrow> bool"
    and tail :: "'s \<Rightarrow> string \<Rightarrow> offset option"
    and step :: "string \<Rightarrow> 's \<Rightarrow> 's \<Rightarrow> bool"
  assumes log_exists: "inv s \<Longrightarrow> tail s n = Some t \<Longrightarrow> \<exists>L. log s n L"
    and log_functional: "log s n L \<Longrightarrow> log s n L' \<Longrightarrow> L = L'"
    and log_in_order: "inv s \<Longrightarrow> log s n L \<Longrightarrow> in_order L"
    and log_before_tail: "inv s \<Longrightarrow> log s n L \<Longrightarrow> tail s n = Some t \<Longrightarrow> m \<in> set L \<Longrightarrow>
      wf_offset (msg_offset m) \<and> offset_lt (msg_offset m) t"
    and tail_wf: "tail s n = Some t \<Longrightarrow> wf_offset t"
    and step_inv: "inv s \<Longrightarrow> step n s s' \<Longrightarrow> inv s'"
    and step_appends: "inv s \<Longrightarrow> step n s s' \<Longrightarrow> log s n L \<Longrightarrow> tail s n = Some t \<Longrightarrow> tail s' n = Some t' \<Longrightarrow>
      \<exists>new. log s' n (L @ new) \<and>
        (\<forall>m\<in>set new. wf_offset (msg_offset m) \<and> \<not> offset_lt (msg_offset m) t) \<and> \<not> offset_lt t' t"
begin

text \<open>
  A reader's position is good when it is at most the tail and what the reader
  has consumed is exactly the log before the position.
\<close>

definition synced :: "'s \<Rightarrow> string \<Rightarrow> offset \<Rightarrow> bytes list \<Rightarrow> bool" where
  "synced s n cur ds \<longleftrightarrow> wf_offset cur \<and> cur \<noteq> Now \<and>
     (\<exists>L t. log s n L \<and> tail s n = Some t \<and> \<not> offset_lt t cur \<and>
        ds = map msg_data (filter (\<lambda>m. offset_lt (msg_offset m) cur) L))"

lemma synced_start:
  assumes "inv s" "tail s n = Some t" "\<not> offset_lt t Start"
  shows "synced s n Start []"
proof -
  obtain L where L: "log s n L" using log_exists assms(1,2) by blast
  have "\<not> offset_lt (msg_offset m) Start" if "m \<in> set L" for m
    using log_before_tail [OF assms(1) L assms(2) that] by simp
  then have "filter (\<lambda>m. offset_lt (msg_offset m) Start) L = []" by (auto simp: filter_empty_conv)
  with L assms(2,3) show ?thesis unfolding synced_def by auto
qed

lemma synced_step:
  assumes inv: "inv s" and sync: "synced s n cur ds" and step: "step n s s'" and alive: "tail s' n = Some t'"
  shows "synced s' n cur ds"
proof -
  obtain L t where L: "log s n L" "tail s n = Some t" "\<not> offset_lt t cur"
      "ds = map msg_data (filter (\<lambda>m. offset_lt (msg_offset m) cur) L)" and cur: "wf_offset cur" "cur \<noteq> Now"
    using sync by (auto simp: synced_def)
  obtain new where new: "log s' n (L @ new)" "\<not> offset_lt t' t"
      "\<forall>m\<in>set new. wf_offset (msg_offset m) \<and> \<not> offset_lt (msg_offset m) t"
    using step_appends [OF inv step L(1,2) alive] by blast
  have wf: "wf_offset t" "wf_offset t'" using tail_wf L(2) alive by auto
  have "\<not> offset_lt (msg_offset m) cur" if "m \<in> set new" for m
    using that new(3) L(3) cur wf(1) offset_ge_trans [of t "msg_offset m" cur] by blast
  then have none: "filter (\<lambda>m. offset_lt (msg_offset m) cur) new = []" by (auto simp: filter_empty_conv)
  have "\<not> offset_lt t' cur" using wf cur L(3) new(2) offset_ge_trans [of t t' cur] by blast
  then show ?thesis
    unfolding synced_def using cur new(1) alive L(4) none
    by (auto intro!: exI [of _ "L @ new"] exI [of _ t'])
qed

text \<open>
  A read from the position that returns the log from there on, and the tail as
  the next position, leaves the reader with the whole log.
\<close>

lemma synced_read:
  assumes inv: "inv s" and sync: "synced s n cur ds" and t: "tail s n = Some t" "t \<noteq> Now"
    and L: "log s n L" and batch: "xs = log_read L cur"
  shows "ds @ xs = map msg_data L" "synced s n t (ds @ xs)"
proof -
  have ds: "ds = map msg_data (filter (\<lambda>m. offset_lt (msg_offset m) cur) L)"
    and cur: "wf_offset cur" using sync L log_functional by (auto simp: synced_def)
  have ok: "wf_offset (msg_offset m) \<and> offset_lt (msg_offset m) t" if "m \<in> set L" for m
    using log_before_tail [OF inv L t(1) that] .
  show whole: "ds @ xs = map msg_data L"
    unfolding ds batch using log_in_order [OF inv L] ok cur by (intro log_split) auto
  have "filter (\<lambda>m. offset_lt (msg_offset m) t) L = L" using ok by (simp add: filter_id_conv)
  then show "synced s n t (ds @ xs)"
    unfolding synced_def using whole L t tail_wf [OF t(1)] by (auto simp: offset_lt_key)
qed

end

section \<open>The in-memory backend is a log store\<close>

definition mem_tail :: "mem \<Rightarrow> string \<Rightarrow> offset option" where
  "mem_tail s n = map_option entry_next_offset (get_stream s n)"

fun recreates :: "op \<Rightarrow> string \<Rightarrow> bool" where
  "recreates (OpCreate n opts msgs cl) m \<longleftrightarrow> n = m"
| "recreates (OpReplace n opts msgs cl) m \<longleftrightarrow> n = m"
| "recreates (OpFork n src req sopts opts) m \<longleftrightarrow> n = m"
| "recreates _ m \<longleftrightarrow> False"

text \<open>Any operation on any stream, under any clock, that does not create or replace stream \<open>n\<close>.\<close>

definition mem_step :: "string \<Rightarrow> mem \<Rightarrow> mem \<Rightarrow> bool" where
  "mem_step n s s' \<longleftrightarrow> (\<exists>E op. op_ok E s op \<and> exec E s op = Some s' \<and> \<not> recreates op n)"

lemma exec_target_extends:
  assumes ok: "op_ok E s op" and ex: "exec E s op = Some s'" and tg: "target op = Some n" "\<not> recreates op n"
    and e: "get_stream s n = Some e" "get_stream s' n = Some e'"
  shows "\<exists>ds. extends s s' n ds \<and> batch_fits s n ds"
proof (cases op)
  case (OpAppend n' msgs ct sq cl)
  then obtain r where "append_batch E s n msgs ct sq cl = (s', r)" using ex tg by (auto simp: prod_eq_iff)
  from append_batch_extends [OF this e(1)] OpAppend ok tg show ?thesis
    by (intro exI [of _ "case r of Inr _ \<Rightarrow> msgs | Inl _ \<Rightarrow> []"]) (auto split: sum.splits)
next
  case (OpProducer n' msgs ct p cl sq)
  then obtain r where "append_with_producer E s n msgs ct p cl sq = (s', r)" using ex tg by (auto simp: prod_eq_iff)
  from append_with_producer_extends [OF this e(1)] OpProducer ok tg show ?thesis
    by (intro exI [of _ "producer_payload r msgs"])
      (auto simp: producer_payload_def split: sum.splits producer_append_result.splits)
next
  case (OpRead n' off)
  then obtain r where "mem_read E s n off = Some (s', r)" using ex tg by auto
  from mem_read_extends [OF this e(1)] show ?thesis by (intro exI [of _ "[]"]) simp
next
  case (OpDelete n')
  then obtain r where d: "mem_delete s n = (s', r)" using ex tg by (auto simp: prod_eq_iff)
  from mem_delete_eq [OF d] e have "extends s s' n []"
    by (auto simp: remove_for_recreate_dropped intro: extends_refl intro!: extends_meta [of s n e])
  then show ?thesis by (intro exI [of _ "[]"]) simp
qed (use tg in simp_all)

lemma extends_tail:
  assumes "extends s s' n ds" "batch_fits s n ds" "get_stream s n = Some e" "get_stream s' n = Some e'"
  shows "\<not> offset_lt (entry_next_offset e') (entry_next_offset e)"
  using assms by (intro next_offset_grows [of e ds]) (auto simp: extends_def batch_fits_def)

lemma offset_lt_irrefl [simp]: "\<not> offset_lt x x"
  by (simp add: offset_lt_def offset_cmp_def compare_of_def split: option.splits)

lemma mem_step_appends:
  assumes inv: "mem_inv s" and st: "mem_step n s s'" and L: "log_of s n L"
    and e: "get_stream s n = Some e" "get_stream s' n = Some e'"
  shows "\<exists>new. log_of s' n (L @ new) \<and>
    (\<forall>m\<in>set new. wf_offset (msg_offset m) \<and> \<not> offset_lt (msg_offset m) (entry_next_offset e)) \<and>
    \<not> offset_lt (entry_next_offset e') (entry_next_offset e)"
proof -
  obtain E op where op: "op_ok E s op" "exec E s op = Some s'" "\<not> recreates op n"
    using st by (auto simp: mem_step_def)
  show ?thesis
  proof (cases "target op = Some n")
    case True
    obtain ds where ds: "extends s s' n ds" "batch_fits s n ds"
      using exec_target_extends [OF op(1,2) True op(3) e] by blast
    then have fits: "unat (se_next_read_seq e) + length ds < 2 ^ 64" using e by (simp add: batch_fits_def)
    from extends_log [OF inv ds(1) e(1) fits L] extends_tail [OF ds e] log_from_after [OF fits] show ?thesis
      by (intro exI [of _ "log_from (se_next_read_seq e) (se_next_byte_offset e) ds"])
        (auto simp: entry_next_offset_def)
  next
    case False
    have "kept s s' n" by (rule exec_kept [OF inv op(1,2) False])
    with e L have "log_of s' n L" "\<exists>r st. e' = e\<lparr>se_ref_count := r, se_state := st\<rparr>" by (auto simp: kept_def)
    then show ?thesis by (intro exI [of _ "[]"]) (auto simp: entry_next_offset_def)
  qed
qed

interpretation mem_store: log_store mem_inv log_of mem_tail mem_step
proof
  fix s n t assume "mem_inv s" "mem_tail s n = Some t"
  then show "\<exists>L. log_of s n L" using mem_inv_log by (auto simp: mem_tail_def)
next
  fix s n L L' assume "log_of s n L" "log_of s n L'"
  then show "L = L'" by (rule log_of_unique)
next
  fix s n L assume "mem_inv s" "log_of s n L"
  then show "in_order L" using log_of_ok by blast
next
  fix s n L t m assume "mem_inv s" "log_of s n L" "mem_tail s n = Some t" "m \<in> set L"
  then show "wf_offset (msg_offset m) \<and> offset_lt (msg_offset m) t"
    using log_of_ok [of s n L] by (auto simp: mem_tail_def)
next
  fix s n t assume "mem_tail s n = Some t"
  then show "wf_offset t" by (auto simp: mem_tail_def)
next
  fix s n s' assume "mem_inv s" "mem_step n s s'"
  then show "mem_inv s'" by (auto simp: mem_step_def intro: exec_inv)
next
  fix s n s' L t t'
  assume "mem_inv s" "mem_step n s s'" "log_of s n L" "mem_tail s n = Some t" "mem_tail s' n = Some t'"
  then show "\<exists>new. log_of s' n (L @ new) \<and>
      (\<forall>m\<in>set new. wf_offset (msg_offset m) \<and> \<not> offset_lt (msg_offset m) t) \<and> \<not> offset_lt t' t"
    using mem_step_appends by (auto simp: mem_tail_def)
qed

end
