(* ===== verification/DS_Session.thy ===== *)
theory DS_Session
  imports DS_Store
begin

text \<open>
  Reads of the in-memory backend against the abstract log, and reading
  sessions: a client that reads a stream from the start and then always from
  the offset its last read returned, while the server executes arbitrary
  other operations in between.
\<close>

section \<open>The result of a read\<close>

lemma mem_read_Inr:
  assumes "mem_read E s n from = Some (s', Inr r)"
  obtains e where "get_stream s n = Some e" "se_state e = Active"
    "\<not> is_stream_expired (now_at E 0) (se_config e)"
    "finish_read s from (prepare_read e from) = Some (Inr r)"
    "s' = s \<or> (\<exists>c. s' = set_stream n (e\<lparr>se_config := c\<rparr>) s)"
proof (cases "get_stream s n")
  case None
  with assms show ?thesis by (simp add: mem_read_def)
next
  case (Some e)
  with assms have acc: "check_stream_access (now_at E 0) (se_config e) (se_state e) n = Inr ()"
    by (auto simp: mem_read_def split: sum.splits)
  with Some assms have "finish_read s from (prepare_read e from) = Some (Inr r)"
    by (auto simp: mem_read_def split: sum.splits option.splits if_splits prod.splits)
  with Some acc assms that [of e] mem_read_state [OF assms] show ?thesis by auto
qed

text \<open>A successful read returns the log from the offset on, and the tail.\<close>

lemma mem_read_log:
  assumes inv: "mem_inv s" and L: "log_of s n L" and off: "wf_offset from" "from \<noteq> Now"
    and r: "mem_read E s n from = Some (s', Inr r)"
  shows "rr_messages r = log_read L from" "mem_tail s n = Some (rr_next_offset r)"
    "log_of s' n L" "mem_tail s' n = Some (rr_next_offset r)"
proof -
  obtain e where e: "get_stream s n = Some e" "finish_read s from (prepare_read e from) = Some (Inr r)"
      "s' = s \<or> (\<exists>c. s' = set_stream n (e\<lparr>se_config := c\<rparr>) s)"
    using r by (rule mem_read_Inr) blast
  have res: "r = \<lparr>rr_messages = log_read L from, rr_next_offset = entry_next_offset e,
               rr_at_tail = True, rr_closed = se_closed e\<rparr>"
    using finish_read_log [OF inv e(1) L off] e(2) by simp
  then show "rr_messages r = log_read L from" "mem_tail s n = Some (rr_next_offset r)"
    using e(1) by (simp_all add: mem_tail_def)
  show "mem_tail s' n = Some (rr_next_offset r)"
    using e res by (auto simp: mem_tail_def entry_next_offset_def)
  have "unat (se_next_read_seq e) + length ([] :: bytes list) < 2 ^ 64"
    by simp
  from extends_log [OF inv mem_read_extends [OF r e(1)] e(1) this L] show "log_of s' n L" by simp
qed

section \<open>Sessions\<close>

inductive session :: "string \<Rightarrow> mem \<Rightarrow> offset \<Rightarrow> bytes list \<Rightarrow> bool" for n where
  start: "reachable s \<Longrightarrow> get_stream s n = Some e \<Longrightarrow> session n s Start []"
| other: "session n s cur ds \<Longrightarrow> op_ok E s op \<Longrightarrow> exec E s op = Some s' \<Longrightarrow> \<not> recreates op n \<Longrightarrow>
    get_stream s' n = Some e \<Longrightarrow> session n s' cur ds"
| read: "session n s cur ds \<Longrightarrow> mem_read E s n cur = Some (s', Inr r) \<Longrightarrow>
    session n s' (rr_next_offset r) (ds @ rr_messages r)"

lemma session_synced:
  assumes "session n s cur ds"
  shows "mem_inv s \<and> mem_store.synced s n cur ds"
  using assms
proof (induction rule: session.induct)
  case (start s e)
  then have inv: "mem_inv s" by (simp add: reachable_mem_inv)
  have "mem_tail s n = Some (entry_next_offset e)" using start(2) by (simp add: mem_tail_def)
  from mem_store.synced_start [OF inv this] inv show ?case by simp
next
  case (other s cur ds E op s' e)
  then have step: "mem_step n s s'" by (auto simp: mem_step_def)
  have "mem_tail s' n = Some (entry_next_offset e)" using other.hyps(5) by (simp add: mem_tail_def)
  from mem_store.synced_step [OF _ _ step this] mem_store.step_inv [OF _ step] other.IH
  show ?case by blast
next
  case (read s cur ds E s' r)
  then have inv: "mem_inv s" and sync: "mem_store.synced s n cur ds" by auto
  then have cur: "wf_offset cur" "cur \<noteq> Now" by (auto simp: mem_store.synced_def)
  obtain L where L: "log_of s n L" using sync by (auto simp: mem_store.synced_def)
  note r = mem_read_log [OF inv L cur read.hyps(2)]
  have "rr_next_offset r \<noteq> Now" using r(2) by (auto simp: mem_tail_def entry_next_offset_def)
  from mem_store.synced_read(2) [OF inv sync r(2) this L r(1)]
  have sync': "mem_store.synced s n (rr_next_offset r) (ds @ rr_messages r)" .
  have "mem_step n s s'"
    unfolding mem_step_def using read.hyps(2) cur
    by (intro exI [of _ E] exI [of _ "OpRead n cur"]) simp
  from mem_store.step_inv [OF inv this] mem_store.synced_step [OF inv sync' this r(4)]
  show ?case by simp
qed

lemma session_read_whole:
  assumes "session n s cur ds" "mem_read E s n cur = Some (s', Inr r)" "log_of s' n L"
  shows "ds @ rr_messages r = map msg_data L"
proof -
  from session_synced [OF assms(1)] have inv: "mem_inv s" and sync: "mem_store.synced s n cur ds" by auto
  then have cur: "wf_offset cur" "cur \<noteq> Now" by (auto simp: mem_store.synced_def)
  obtain L0 where L0: "log_of s n L0" using sync by (auto simp: mem_store.synced_def)
  note r = mem_read_log [OF inv L0 cur assms(2)]
  have "L0 = L" using r(3) assms(3) by (rule log_of_unique)
  moreover have "rr_next_offset r \<noteq> Now" using r(2) by (auto simp: mem_tail_def entry_next_offset_def)
  ultimately show ?thesis using mem_store.synced_read(1) [OF inv sync r(2) _ L0 r(1)] by simp
qed

end
