(* ===== verification/DS_Sample.thy ===== *)
theory DS_Sample
  imports DS_Session
begin

text \<open>
  A concrete environment and a few concrete states of the in-memory backend,
  reached by its own operations, at which the properties are instantiated.
\<close>

text \<open>A clock that advances by one at every reading, a date parser that rejects, a JSON codec of \<open>null\<close>,
  and the identity as the other encoders.\<close>

definition sample_env :: env where
  "sample_env = \<lparr>now_at = int, plus_seconds = (\<lambda>t d. Some (t + d)), minus_seconds = (\<lambda>t d. t - d),
     parse_date_time = (\<lambda>_. Inl ''input contains invalid characters''), header_value_ok = (\<lambda>_. True),
     from_slice = (\<lambda>b. if b = ''null'' then Inr JNull else Inl ''expected value''), to_vec = (\<lambda>_. ''null''),
     num_milliseconds = (\<lambda>a b. 1000 * (a - b)), num_seconds = (\<lambda>a b. a - b), to_rfc3339 = (\<lambda>_. ''1970''),
     base64_encode = id\<rparr>"

definition sample_empty :: mem where
  "sample_empty = mem_new 100 50"

text \<open>A stream \<open>a\<close> with two messages.\<close>

definition op_create :: op where
  "op_create = OpCreate ''a'' (stream_options_new ''text/plain'') [''hello'', ''x''] False"

definition sample_one :: mem where
  "sample_one = fst (create_stream_with_data sample_env sample_empty ''a''
     (stream_options_new ''text/plain'') [''hello'', ''x''] False)"

text \<open>A fork \<open>b\<close> of \<open>a\<close> after its first message.\<close>

definition op_fork :: op where
  "op_fork = OpFork ''b'' ''a'' (Some (offset_new 1 5)) (stream_options_new ''text/plain'') fork_options_default"

definition sample_two :: mem where
  "sample_two = (case create_fork sample_env sample_one ''b'' ''a'' (Some (offset_new 1 5))
     (stream_options_new ''text/plain'') of Some (s, _) \<Rightarrow> s | None \<Rightarrow> sample_one)"

lemma sample_one_reachable: "reachable sample_one"
proof (rule reachable.step)
  show "reachable sample_empty" unfolding sample_empty_def by (rule reachable.init)
  show "op_ok sample_env sample_empty op_create" by (simp add: op_create_def payload_fits_def)
  show "exec sample_env sample_empty op_create = Some sample_one" by (simp add: op_create_def sample_one_def)
qed

lemma sample_one_present: "\<exists>e. get_stream sample_one ''a'' = Some e"
proof -
  have "get_stream sample_one ''a'' \<noteq> None" by code_simp
  then show ?thesis by blast
qed

lemma sample_one_read:
  "map_option snd (mem_read sample_env sample_one ''a'' Start) =
    Some (Inr \<lparr>rr_messages = [''hello'', ''x''], rr_next_offset = offset_new 2 6, rr_at_tail = True,
               rr_closed = False\<rparr>)"
  by code_simp

lemma fork_default_guard:
  assumes "get_stream s src = Some e" "unat (se_ref_count e) + 1 < 2 ^ 32" "name \<noteq> src"
  shows "fork_guard E s name src fork_options_default"
proof -
  have nil: "msgs = []" if "fork_initial_messages E s src off c fork_options_default = Some (Inr msgs)" for off c msgs
    using that
    by (simp add: fork_initial_messages_def initial_fork_messages_def fork_options_default_def Let_def
        extract_messages_def usize_try_from_def)
  show ?thesis using assms by (auto simp: fork_guard_def payload_fits_def dest!: nil)
qed

lemma sample_two_reachable: "reachable sample_two"
proof (rule reachable.step)
  show "reachable sample_one" by (rule sample_one_reachable)
  obtain e where e: "get_stream sample_one ''a'' = Some e" using sample_one_present by blast
  have "map_option se_ref_count (get_stream sample_one ''a'') = Some 0" by code_simp
  with e have "fork_guard sample_env sample_one ''b'' ''a'' fork_options_default"
    by (intro fork_default_guard [OF e]) simp_all
  then show "op_ok sample_env sample_one op_fork" by (simp add: op_fork_def)
  have "create_fork sample_env sample_one ''b'' ''a'' (Some (offset_new 1 5))
      (stream_options_new ''text/plain'') \<noteq> None" by code_simp
  then show "exec sample_env sample_one op_fork = Some sample_two"
    by (auto simp: op_fork_def sample_two_def create_fork_def)
qed

lemma sample_two_read:
  "map_option snd (mem_read sample_env sample_two ''b'' Start) =
    Some (Inr \<lparr>rr_messages = [''hello''], rr_next_offset = offset_new 1 5, rr_at_tail = True,
               rr_closed = False\<rparr>)"
  by code_simp

end
