(* ===== verification/DS_Prop_Storage.thy ===== *)
theory DS_Prop_Storage
  imports DS_Sample
begin

text \<open>
  The properties of the in-memory backend: reading and forking against the
  abstract log, totality and invariant, isolation, the contracts of append,
  create and delete, idempotent producers, and capacity.
\<close>

section \<open>Reading\<close>

text \<open>
  C2. A read of a live stream returns, and what it returns is the part of the
  stream's abstract log from the requested offset on, the tail as the next
  offset, and the closed flag: the lineage walk, the tightened read plan and
  the binary searches of a fork's read compute the same as a filter over the
  log.
\<close>

theorem read_refines_log:
  assumes s: "reachable s" "get_stream s n = Some e" "log_of s n L"
    and live: "se_state e = Active" "\<not> is_stream_expired (now_at E 0) (se_config e)"
      "\<not> is_stream_expired (now_at E 1) (se_config e)" "renew_ttl E (now_at E 2) (se_config e) = Inr (c', ch)"
    and off: "wf_offset off" "off \<noteq> Now"
  shows "\<exists>s'. mem_read E s n off = Some (s', Inr
    \<lparr>rr_messages = map msg_data (filter (\<lambda>m. off = Start \<or> \<not> offset_lt (msg_offset m) off) L),
     rr_next_offset = entry_next_offset e, rr_at_tail = True, rr_closed = se_closed e\<rparr>)"
proof -
  have "log_read L off = map msg_data (filter (\<lambda>m. off = Start \<or> \<not> offset_lt (msg_offset m) off) L)"
    by (simp add: log_read_def at_or_after_def offset_is_start_def)
  with finish_read_log [OF reachable_mem_inv [OF s(1)] s(2,3) off] s(2) live show ?thesis
    by (auto simp: mem_read_def check_stream_access_def)
qed

lemma sample_two_logs: "\<exists>L. log_of sample_two ''b'' L" "\<exists>e. get_stream sample_two ''b'' = Some e"
proof -
  have "get_stream sample_two ''b'' \<noteq> None" by code_simp
  then show e: "\<exists>e. get_stream sample_two ''b'' = Some e" by blast
  then show "\<exists>L. log_of sample_two ''b'' L"
    using mem_inv_log reachable_mem_inv [OF sample_two_reachable] by blast
qed

theorem read_refines_log_witness:
  "\<exists>e L s'. get_stream sample_two ''b'' = Some e \<and> log_of sample_two ''b'' L \<and>
    mem_read sample_env sample_two ''b'' Start = Some (s', Inr
      \<lparr>rr_messages = map msg_data (filter (\<lambda>m. Start = Start \<or> \<not> offset_lt (msg_offset m) Start) L),
       rr_next_offset = entry_next_offset e, rr_at_tail = True, rr_closed = se_closed e\<rparr>)"
proof -
  obtain e L where e: "get_stream sample_two ''b'' = Some e" "log_of sample_two ''b'' L"
    using sample_two_logs by blast
  have "map_option (\<lambda>e. (se_state e, ttl_seconds (se_config e), expires_at (se_config e)))
      (get_stream sample_two ''b'') = Some (Active, None, None)" by code_simp
  then have c: "se_state e = Active" "ttl_seconds (se_config e) = None" "expires_at (se_config e) = None"
    using e(1) by auto
  have "\<exists>s'. mem_read sample_env sample_two ''b'' Start = Some (s', Inr
      \<lparr>rr_messages = map msg_data (filter (\<lambda>m. Start = Start \<or> \<not> offset_lt (msg_offset m) Start) L),
       rr_next_offset = entry_next_offset e, rr_at_tail = True, rr_closed = se_closed e\<rparr>)"
    by (rule read_refines_log [OF sample_two_reachable e c(1) _ _ renew_ttl_None [OF c(2)]])
      (use c in \<open>simp_all add: is_stream_expired_def\<close>)
  with e show ?thesis by blast
qed

text \<open>
  C3. Every storage call on a reachable state returns (no lineage walk and no
  cascade runs forever), and leaves the store in a state where all entries are
  consistent, every fork reaches a root through present ancestors within
  whose tail it starts, reference counts equal the numbers of forks, and the
  byte counter is the sum over the streams and within its limit.
\<close>

theorem calls_return_and_keep_invariant:
  assumes "reachable s" "op_ok E s op"
  shows "\<exists>s'. exec E s op = Some s' \<and> mem_inv s'"
  using exec_returns [OF reachable_mem_inv [OF assms(1)] assms(2)]
    exec_inv [OF reachable_mem_inv [OF assms(1)] assms(2)] by blast

lemma sample_two_fork_ok: "op_ok sample_env sample_two (OpDelete ''a'')"
  by simp

theorem calls_return_and_keep_invariant_witness:
  "\<exists>s'. exec sample_env sample_two (OpDelete ''a'') = Some s' \<and> mem_inv s'"
  by (rule calls_return_and_keep_invariant [OF sample_two_reachable sample_two_fork_ok])

text \<open>
  C10. An operation on one stream leaves every other live stream exactly as it
  was but for its reference count, and leaves its log alone, also when the
  other stream is a fork or the source of the first.
\<close>

theorem operations_isolated:
  assumes "reachable s" "op_ok E s op" "exec E s op = Some s'" "target op = Some n" "m \<noteq> n"
    and "get_stream s m = Some e" "se_state e = Active" "log_of s m L"
  shows "\<exists>r. get_stream s' m = Some (e\<lparr>se_ref_count := r\<rparr>) \<and> log_of s' m L"
proof -
  have inv: "mem_inv s" using assms(1) by (rule reachable_mem_inv)
  have tg: "target op \<noteq> Some m" and sw: "\<And>ord. op \<noteq> OpSweep ord" using assms(4,5) by auto
  obtain r where r: "get_stream s' m = Some (e\<lparr>se_ref_count := r\<rparr>)"
    using exec_active [OF inv assms(3) tg sw assms(6,7)] by blast
  with exec_kept [OF inv assms(2,3) tg] assms(6,8) show ?thesis by (auto simp: kept_def)
qed

theorem operations_isolated_witness:
  "\<exists>s' r e L. exec sample_env sample_two (OpDelete ''a'') = Some s' \<and>
    get_stream s' ''b'' = Some (e\<lparr>se_ref_count := r\<rparr>) \<and> log_of s' ''b'' L"
proof -
  obtain e L where e: "get_stream sample_two ''b'' = Some e" "log_of sample_two ''b'' L"
    using sample_two_logs by blast
  have "map_option se_state (get_stream sample_two ''b'') = Some Active" by code_simp
  then have act: "se_state e = Active" using e(1) by simp
  obtain s' where s': "exec sample_env sample_two (OpDelete ''a'') = Some s'" by simp
  show ?thesis
    using operations_isolated [OF sample_two_reachable sample_two_fork_ok s' _ _ e(1) act e(2), of "''a''"] s' by auto
qed

section \<open>Forking\<close>

text \<open>The initial messages of a fork, from the source's abstract log.\<close>

lemma fork_initial_messages_log:
  assumes inv: "mem_inv s" and L: "log_of s src L" and off: "wf_offset off"
  shows "fork_initial_messages E s src off c opts =
    Some (initial_fork_messages E c opts (if fo_sub_offset opts > 0 then log_read L off else []))"
proof -
  obtain ch where ch: "chain_of s src ch" using log_of_chain L by blast
  let ?plan = "rev (tighten None (leaf_segments None ch))"
  have "fork_source_messages s off ?plan = Inr (map msg_data (concat (map (segment_part s off None) ?plan)))"
    using inv off wf_tighten [OF ch inv, of None None] chain_present [OF ch, of _ None None]
    by (intro fork_source_parts) auto
  also have "concat (map (segment_part s off None) ?plan) = filter (\<lambda>m. at_or_after off (msg_offset m)) L"
    using plan_covers_log [OF L ch inv, of None None off None] by (simp add: meet_def)
  finally show ?thesis
    by (simp add: fork_initial_messages_def build_read_plan_of [OF ch] log_read_def split: sum.splits)
qed

text \<open>
  C11. A created fork starts with exactly the source's log before the fork
  offset, followed by the messages copied for the sub-offset and the messages
  of the request body; the source's log is unchanged.
\<close>

theorem fork_starts_with_source_prefix:
  assumes s: "reachable s" "log_of s src L"
    and guard: "fork_guard E s n src opts" "\<And>x. req = Some x \<Longrightarrow> wf_offset x"
    and created: "create_fork_with_options E s n src req sopts opts = Some (s', Inr Created)"
  shows "\<exists>e off c msgs M. get_stream s src = Some e \<and>
    resolve_fork_offset req (entry_next_offset e) = Inr off \<and>
    initial_fork_messages E c opts (if fo_sub_offset opts > 0 then log_read L off else []) = Inr msgs \<and>
    map msg_data M = msgs \<and>
    log_of s' n (filter (\<lambda>m. offset_lt (msg_offset m) off) L @ M) \<and> log_of s' src L"
  using created
proof (cases rule: create_fork_cases)
  case (fresh e c off msgs s1 cl)
  have inv: "mem_inv s" using s(1) by (rule reachable_mem_inv)
  note off = resolve_fork_offset_bounds [OF fresh(4) guard(2)]
  let ?x = "fork_entry c (now_at E 4) cl src off (fo_sub_offset opts)"
  from fresh(8) obtain e1 s2 where cm: "commit_messages s1 ?x msgs = (s2, Inr e1)"
    and s': "s' = incr_ref_count src (set_stream n e1 s2)" by auto
  have ne: "n \<noteq> src"
    using guard(1) fresh(1,3,7) by (auto simp: fork_guard_def)
  have adds: "adds s s' n" using inv created by (rule create_fork_adds)
  obtain ra where "get_stream s' src = Some (e\<lparr>se_ref_count := ra\<rparr>)"
    using adds_other(2) [OF adds _ fresh(1,2)] ne by blast
  then have src: "log_of s' src L" using adds_other(1) [OF adds _ fresh(1) _ s(2)] ne by blast
  have get: "get_stream s' n = Some e1" using s' ne by (simp add: get_incr_ref_count)
  note f = commit_messages_fields [OF cm]
  from log_of.fork [OF get, of "\<lparr>source_name = src, fork_offset = off, sub_offset = fo_sub_offset opts\<rparr>" L] src f(3)
  have "log_of s' n (filter (\<lambda>m. offset_lt (msg_offset m) off) L @ se_messages e1)" by simp
  moreover have "map msg_data (se_messages e1) = msgs" using f(8) by simp
  moreover have "initial_fork_messages E c opts (if fo_sub_offset opts > 0 then log_read L off else []) = Inr msgs"
    using fork_initial_messages_log [OF inv s(2) off(1)] fresh(6) by simp
  ultimately show ?thesis using fresh(1,4) src by blast
qed simp

lemma sample_one_log: "\<exists>L. log_of sample_one ''a'' L"
  using mem_inv_log reachable_mem_inv [OF sample_one_reachable] sample_one_present by blast

lemma sample_fork_guard: "fork_guard sample_env sample_one ''b'' ''a'' fork_options_default"
proof -
  obtain e where e: "get_stream sample_one ''a'' = Some e" using sample_one_present by blast
  have "map_option se_ref_count (get_stream sample_one ''a'') = Some 0" by code_simp
  with e show ?thesis by (intro fork_default_guard [OF e]) simp_all
qed

lemma sample_fork_created:
  "\<exists>s'. create_fork_with_options sample_env sample_one ''b'' ''a'' (Some (offset_new 1 5))
    (stream_options_new ''text/plain'') fork_options_default = Some (s', Inr Created)"
proof -
  have "map_option snd (create_fork_with_options sample_env sample_one ''b'' ''a'' (Some (offset_new 1 5))
    (stream_options_new ''text/plain'') fork_options_default) = Some (Inr Created)" by code_simp
  then show ?thesis by auto
qed

theorem fork_starts_with_source_prefix_witness:
  "\<exists>s' L M. log_of sample_one ''a'' L \<and> log_of s' ''a'' L \<and>
    log_of s' ''b'' (filter (\<lambda>m. offset_lt (msg_offset m) (offset_new 1 5)) L @ M)"
proof -
  obtain L where L: "log_of sample_one ''a'' L" using sample_one_log by blast
  obtain s' where c: "create_fork_with_options sample_env sample_one ''b'' ''a'' (Some (offset_new 1 5))
    (stream_options_new ''text/plain'') fork_options_default = Some (s', Inr Created)"
    using sample_fork_created by blast
  from fork_starts_with_source_prefix [OF sample_one_reachable L sample_fork_guard _ c] L show ?thesis
    by (auto simp: resolve_fork_offset_def split: if_splits)
qed

section \<open>Appending\<close>

text \<open>
  C12. A successful append puts exactly its messages at the end of the log, in
  order, at consecutive positions from the returned start offset (the old
  tail) on; the returned next offset is the new tail, the returned flag says
  whether the stream is now closed, and subscribers are notified.
\<close>

theorem append_extends_log:
  assumes s: "reachable s" "batch_fits s n msgs" "log_of s n L"
    and app: "append_batch E s n msgs ct sq close = (s', Inr r)"
  shows "\<exists>e e'. get_stream s n = Some e \<and> get_stream s' n = Some e' \<and>
    ar_start_offset r = entry_next_offset e \<and> ar_next_offset r = entry_next_offset e' \<and>
    log_of s' n (L @ log_from (se_next_read_seq e) (se_next_byte_offset e) msgs) \<and>
    ar_closed r = se_closed e' \<and> se_closed e' = (se_closed e \<or> close) \<and> se_notify e < se_notify e'"
  using app
proof (rule append_batch_Inr)
  fix e pending c' ch s1 e1
  assume e: "get_stream s n = Some e" and cm: "commit_messages s e msgs = (s1, Inr e1)"
    and s': "s' = set_stream n (notify_send (e1\<lparr>se_config := c',
        se_last_seq := (case pending of Some q \<Rightarrow> Some q | None \<Rightarrow> se_last_seq e),
        se_updated_at := Some (now_at E 1), se_closed := se_closed e1 \<or> close\<rparr>)) s1"
    and r: "r = \<lparr>ar_start_offset = entry_next_offset e, ar_next_offset = entry_next_offset e1,
          ar_closed = se_closed e1 \<or> close\<rparr>"
  have "unat (se_next_read_seq e) + length msgs < 2 ^ 64" using s(2) e by (simp add: batch_fits_def)
  from extends_log [OF reachable_mem_inv [OF s(1)] append_batch_extends [OF app e] e _ s(3)] this
  have "log_of s' n (L @ log_from (se_next_read_seq e) (se_next_byte_offset e) msgs)" by simp
  with e r s' commit_messages_fields [OF cm] show ?thesis
    by (auto simp: entry_next_offset_def)
qed

definition sample_append :: "mem \<times> append_result res" where
  "sample_append = append_batch sample_env sample_one ''a'' [''y''] ''text/plain'' None True"

lemma sample_append_ok: "\<exists>s' r. sample_append = (s', Inr r)"
proof -
  have "\<not> isl (snd sample_append)" by code_simp
  then show ?thesis by (metis prod.collapse sum.collapse(2))
qed

lemma sample_append_fits: "batch_fits sample_one ''a'' [''y'']"
proof -
  obtain e where e: "get_stream sample_one ''a'' = Some e" using sample_one_present by blast
  have "map_option se_next_read_seq (get_stream sample_one ''a'') = Some 2" by code_simp
  with e show ?thesis by (simp add: batch_fits_def payload_fits_def)
qed

theorem append_extends_log_witness:
  "\<exists>s' r L. \<exists>e :: stream_entry. sample_append = (s', Inr r) \<and> log_of sample_one ''a'' L \<and>
    log_of s' ''a'' (L @ log_from (se_next_read_seq e) (se_next_byte_offset e) [''y''])"
proof -
  obtain L where L: "log_of sample_one ''a'' L" using sample_one_log by blast
  obtain s' r where a: "sample_append = (s', Inr r)" using sample_append_ok by blast
  from append_extends_log [OF sample_one_reachable sample_append_fits L a [unfolded sample_append_def]] L a
  show ?thesis by blast
qed

text \<open>
  C13. A rejected append has no effect: the whole store is as before, the byte
  counter included. A rejected producer append at most prunes producer states
  that are older than seven days.
\<close>

theorem rejected_appends_change_nothing:
  "(append_batch E s n msgs ct sq close = (s', Inl er) \<longrightarrow> s' = s) \<and>
   (append_with_producer E s n msgs ct p close sq = (s', Inl er) \<longrightarrow>
     s' = s \<or> (\<exists>e. get_stream s n = Some e \<and>
       s' = set_stream n (e\<lparr>se_producers := cleanup_stale_producers E (now_at E 1) (se_producers e)\<rparr>) s))"
  using append_batch_Inl append_with_producer_Inl by blast

lemma sample_append_missing:
  "append_batch sample_env sample_one ''zz'' [''y''] ''text/plain'' None False = (sample_one, Inl (NotFound ''zz''))"
proof -
  have "get_stream sample_one ''zz'' = None" by code_simp
  then show ?thesis by (simp add: append_batch_def validate_batch_shape_def)
qed

theorem rejected_appends_change_nothing_witness:
  "append_batch sample_env sample_one ''zz'' [''y''] ''text/plain'' None False = (sample_one, Inl (NotFound ''zz'')) \<and>
   sample_one = sample_one"
  using rejected_appends_change_nothing [of sample_env sample_one "''zz''" "[''y'']" "''text/plain''" None False
      sample_one "NotFound ''zz''"] sample_append_missing by blast

section \<open>Idempotent producers\<close>

text \<open>
  C14. Retrying an accepted producer append (same identity, epoch and sequence
  number) within seven days is answered as a duplicate with the offset of the
  first answer, and changes neither the log nor the closed flag.
\<close>

theorem producer_retry_is_duplicate:
  assumes acc: "append_with_producer E s n msgs ct p cl sq = (s', Inr (Accepted ep q off c))"
    and fresh: "minus_seconds E' (now_at E' 1) PRODUCER_STATE_TTL_SECS < now_at E 2"
    and e': "get_stream s' n = Some e'" and live: "\<not> is_stream_expired (now_at E' 0) (se_config e')"
  shows "\<exists>ps. append_with_producer E' s' n msgs ct p cl sq =
    (set_stream n (e'\<lparr>se_producers := ps\<rparr>) s', Inr (Duplicate (prod_epoch p) (prod_seq p) off c))"
  using acc
proof (cases rule: append_with_producer_Inr)
  case (acc e e0 pending c' ch s1 e1)
  note f = commit_messages_fields [OF acc(6)]
  have e'_eq: "e' = e1\<lparr>se_closed := (if cl then True else se_closed e1), se_config := c',
          se_last_seq := (case pending of Some q \<Rightarrow> Some q | None \<Rightarrow> se_last_seq e),
          se_updated_at := Some (now_at E 2),
          se_producers := (se_producers e1)(prod_id p \<mapsto>
            \<lparr>ps_epoch = prod_epoch p, ps_last_seq = prod_seq p, ps_updated_at = now_at E 2\<rparr>)\<rparr>"
    using e' acc(7) by simp
  have res: "off = entry_next_offset e'" "c = se_closed e'"
    using acc(8) e'_eq by (simp_all add: entry_next_offset_def)
  have st: "se_state e' = Active" using e'_eq f(5) acc(2,9) by simp
  have ct: "content_type (se_config e') = content_type (se_config e)"
    using renew_ttl_keeps [OF acc(5)] e'_eq by simp
  let ?ps = "cleanup_stale_producers E' (now_at E' 1) (se_producers e')"
  have rec: "?ps (prod_id p) =
      Some \<lparr>ps_epoch = prod_epoch p, ps_last_seq = prod_seq p, ps_updated_at = now_at E 2\<rparr>"
    using fresh e'_eq by (simp add: cleanup_stale_producers_def)
  have "precheck_producer_append E' (now_at E' 0) (now_at E' 1) (se_config e') (se_state e') (se_closed e')
      (se_last_seq e') (se_producers e') n ct p msgs sq = (?ps, Inr (PrecheckDuplicate (prod_epoch p) (prod_seq p)))"
    using live st acc(11) ct rec
    by (simp add: precheck_producer_append_def check_stream_access_def validate_content_type_def check_producer_def)
  then show ?thesis
    using e' res by (auto simp: append_with_producer_def Let_def entry_next_offset_def)
qed simp

definition sample_producer :: producer_headers where
  "sample_producer = \<lparr>prod_id = ''w'', prod_epoch = 0, prod_seq = 0\<rparr>"

definition sample_produced :: "mem \<times> producer_append_result res" where
  "sample_produced = append_with_producer sample_env sample_one ''a'' [''z''] ''text/plain'' sample_producer False None"

lemma sample_produced_accepted:
  "\<exists>s' e'. sample_produced = (s', Inr (Accepted 0 0 (offset_new 3 7) False)) \<and> get_stream s' ''a'' = Some e' \<and>
    expires_at (se_config e') = None"
proof -
  have "snd sample_produced = Inr (Accepted 0 0 (offset_new 3 7) False)" by code_simp
  moreover have "map_option (expires_at \<circ> se_config) (get_stream (fst sample_produced) ''a'') = Some None" by code_simp
  ultimately show ?thesis
    by (intro exI [of _ "fst sample_produced"]) (auto simp: prod_eq_iff)
qed

theorem producer_retry_is_duplicate_witness:
  "\<exists>s' e' ps. append_with_producer sample_env s' ''a'' [''z''] ''text/plain'' sample_producer False None =
    (set_stream ''a'' (e'\<lparr>se_producers := ps\<rparr>) s', Inr (Duplicate 0 0 (offset_new 3 7) False))"
proof -
  obtain s' e' where s': "sample_produced = (s', Inr (Accepted 0 0 (offset_new 3 7) False))"
      "get_stream s' ''a'' = Some e'" "expires_at (se_config e') = None"
    using sample_produced_accepted by blast
  have "minus_seconds sample_env (now_at sample_env 1) PRODUCER_STATE_TTL_SECS < now_at sample_env 2"
    by (simp add: sample_env_def PRODUCER_STATE_TTL_SECS_def)
  from producer_retry_is_duplicate [OF s'(1) [unfolded sample_produced_def] this s'(2)] s'(3)
  show ?thesis by (auto simp: is_stream_expired_def sample_producer_def)
qed

text \<open>
  C15. A producer append is accepted only in order: the first append of an
  identity and the first of a new epoch carry sequence number zero, any other
  the successor of the last one (no wrap-around), the epoch never falls, the
  stream is open; and then the accepted epoch and number are what the stream
  records for that identity.
\<close>

theorem producer_accepts_in_order:
  assumes "append_with_producer E s n msgs ct p cl sq = (s', Inr (Accepted ep q off c))"
  shows "\<exists>e e'. get_stream s n = Some e \<and> get_stream s' n = Some e' \<and> \<not> se_closed e \<and>
    ep = prod_epoch p \<and> q = prod_seq p \<and>
    (case cleanup_stale_producers E (now_at E 1) (se_producers e) (prod_id p) of
       None \<Rightarrow> q = 0
     | Some st \<Rightarrow> ps_epoch st < ep \<and> q = 0 \<or> ps_epoch st = ep \<and> unat q = unat (ps_last_seq st) + 1) \<and>
    map_option (\<lambda>st. (ps_epoch st, ps_last_seq st)) (se_producers e' (prod_id p)) = Some (ep, q)"
  using assms
proof (cases rule: append_with_producer_Inr)
  case (acc e e0 pending c' ch s1 e1)
  have suc: "unat (prod_seq p) = unat l + 1" if "\<not> prod_seq p \<le> l" "\<not> l + 1 < prod_seq p" for l :: u64
  proof -
    have "l \<noteq> - 1" using that(1) by auto
    then have "unat (l + 1) = unat l + 1" by (metis Suc_eq_plus1 add.commute add_eq_0_iff2 unatSuc)
    with that show ?thesis by (simp add: word_le_nat_alt word_less_nat_alt)
  qed
  have "\<not> se_closed e"
    using acc(3) by (auto simp: check_producer_def split: option.splits if_splits)
  moreover have "case se_producers e0 (prod_id p) of None \<Rightarrow> prod_seq p = 0
     | Some st \<Rightarrow> ps_epoch st < prod_epoch p \<and> prod_seq p = 0 \<or>
         ps_epoch st = prod_epoch p \<and> unat (prod_seq p) = unat (ps_last_seq st) + 1"
    using acc(3) suc by (auto simp: check_producer_def split: option.splits if_splits)
  ultimately show ?thesis using acc(1,2,7,8) by auto
qed simp

theorem producer_accepts_in_order_witness:
  "\<exists>s' e'. get_stream s' ''a'' = Some e' \<and>
    map_option (\<lambda>st. (ps_epoch st, ps_last_seq st)) (se_producers e' ''w'') = Some (0, 0)"
proof -
  obtain s' where s': "sample_produced = (s', Inr (Accepted 0 0 (offset_new 3 7) False))"
    using sample_produced_accepted by blast
  from producer_accepts_in_order [OF s' [unfolded sample_produced_def]] show ?thesis
    by (auto simp: sample_producer_def)
qed

lemma append_with_producer_check_error:
  assumes "get_stream s n = Some e" "se_state e = Active" "\<not> is_stream_expired (now_at E 0) (se_config e)"
    "eq_ignore_ascii_case ct (content_type (se_config e))"
    "check_producer (cleanup_stale_producers E (now_at E 1) (se_producers e) (prod_id p)) p (se_closed e) = Inl er"
  shows "append_with_producer E s n msgs ct p cl sq =
    (set_stream n (e\<lparr>se_producers := cleanup_stale_producers E (now_at E 1) (se_producers e)\<rparr>) s, Inl er)"
proof -
  have "precheck_producer_append E (now_at E 0) (now_at E 1) (se_config e) (se_state e) (se_closed e)
      (se_last_seq e) (se_producers e) n ct p msgs sq =
      (cleanup_stale_producers E (now_at E 1) (se_producers e), Inl er)"
    using assms by (simp add: precheck_producer_append_def check_stream_access_def validate_content_type_def)
  with assms(1) show ?thesis by (simp add: append_with_producer_def Let_def)
qed

text \<open>
  C16. Zombie fencing: once an epoch has been recorded for an identity, an
  append of that identity under a lower epoch is answered with the fencing
  error and writes nothing, and one that skips a sequence number is answered
  with the gap and writes nothing.
\<close>

theorem stale_producers_are_fenced:
  assumes e: "get_stream s n = Some e" and live: "se_state e = Active" "\<not> is_stream_expired (now_at E 0) (se_config e)"
    and ct: "eq_ignore_ascii_case ct (content_type (se_config e))"
    and st: "cleanup_stale_producers E (now_at E 1) (se_producers e) (prod_id p) = Some st"
    and bad: "prod_epoch p < ps_epoch st \<and> er = EpochFenced (ps_epoch st) (prod_epoch p) \<or>
      prod_epoch p = ps_epoch st \<and> \<not> se_closed e \<and> unat (ps_last_seq st) + 1 < unat (prod_seq p) \<and>
        er = SequenceGap (ps_last_seq st + 1) (prod_seq p)"
  shows "append_with_producer E s n msgs ct p cl sq =
    (set_stream n (e\<lparr>se_producers := cleanup_stale_producers E (now_at E 1) (se_producers e)\<rparr>) s, Inl er)"
proof (rule append_with_producer_check_error [OF e live ct])
  from bad show "check_producer (cleanup_stale_producers E (now_at E 1) (se_producers e) (prod_id p)) p (se_closed e) = Inl er"
  proof (elim disjE conjE)
    assume gap: "prod_epoch p = ps_epoch st" "\<not> se_closed e" "unat (ps_last_seq st) + 1 < unat (prod_seq p)"
      and er: "er = SequenceGap (ps_last_seq st + 1) (prod_seq p)"
    have "unat (ps_last_seq st) + 1 < 2 ^ 64" using gap(3) unat_less_u64 [of "prod_seq p"] by linarith
    then have "unat (ps_last_seq st + 1) = unat (ps_last_seq st) + 1" by (simp add: unat_word_ariths)
    with gap(3) have "\<not> prod_seq p \<le> ps_last_seq st" "ps_last_seq st + 1 < prod_seq p"
      by (simp_all add: word_le_nat_alt word_less_nat_alt)
    with gap(1,2) er st show ?thesis by (simp add: check_producer_def)
  qed (use st in \<open>simp add: check_producer_def\<close>)
qed

definition sample_gap :: producer_headers where
  "sample_gap = \<lparr>prod_id = ''w'', prod_epoch = 0, prod_seq = 5\<rparr>"

theorem stale_producers_are_fenced_witness:
  "\<exists>s' e ps. append_with_producer sample_env s' ''a'' [''z''] ''text/plain'' sample_gap False None =
    (set_stream ''a'' (e\<lparr>se_producers := ps\<rparr>) s', Inl (SequenceGap 1 5))"
proof -
  let ?s = "fst sample_produced"
  have m: "map_option (\<lambda>e. (se_state e, se_closed e, expires_at (se_config e), content_type (se_config e),
      map_option (\<lambda>st. (ps_epoch st, ps_last_seq st))
        (cleanup_stale_producers sample_env (now_at sample_env 1) (se_producers e) ''w'')))
      (get_stream ?s ''a'') = Some (Active, False, None, ''text/plain'', Some (0, 0))" by code_simp
  then obtain e st where e: "get_stream ?s ''a'' = Some e" "se_state e = Active" "\<not> se_closed e"
      "expires_at (se_config e) = None" "content_type (se_config e) = ''text/plain''"
      "cleanup_stale_producers sample_env (now_at sample_env 1) (se_producers e) (prod_id sample_gap) = Some st"
      "ps_epoch st = 0" "ps_last_seq st = 0"
    by (auto simp: sample_gap_def)
  have "append_with_producer sample_env ?s ''a'' [''z''] ''text/plain'' sample_gap False None =
    (set_stream ''a'' (e\<lparr>se_producers := cleanup_stale_producers sample_env (now_at sample_env 1) (se_producers e)\<rparr>) ?s,
     Inl (SequenceGap 1 5))"
    by (rule stale_producers_are_fenced [OF e(1,2) _ _ e(6)])
      (use e in \<open>simp_all add: is_stream_expired_def eq_ignore_ascii_case_def sample_gap_def\<close>)
  then show ?thesis by blast
qed

end
