(* ===== verification/DS_Life.thy ===== *)
theory DS_Life
  imports DS_Session
begin

text \<open>
  The life of one stream over a sequence of operations that do not recreate
  it: what every operation keeps of its closed flag and of its notification
  counter. \<open>later\<close> relates a state to the states a server can reach from it
  while the stream stays present.
\<close>

inductive later :: "string \<Rightarrow> mem \<Rightarrow> mem \<Rightarrow> bool" for n where
  same: "later n s s"
| more: "later n s s1 \<Longrightarrow> mem_step n s1 s2 \<Longrightarrow> get_stream s2 n = Some e \<Longrightarrow> later n s s2"

text \<open>How one operation may change the entry of a stream it appends \<open>ds\<close> to.\<close>

definition grows :: "stream_entry \<Rightarrow> stream_entry \<Rightarrow> bytes list \<Rightarrow> bool" where
  "grows e e' ds \<longleftrightarrow> (se_closed e \<longrightarrow> se_closed e' \<and> ds = []) \<and>
     se_notify e \<le> se_notify e' \<and> (ds \<noteq> [] \<longrightarrow> se_notify e < se_notify e') \<and>
     config_eq (se_config e) (se_config e')"

lemma grows_same:
  "se_closed e' = se_closed e \<Longrightarrow> se_notify e' = se_notify e \<Longrightarrow> config_eq (se_config e) (se_config e') \<Longrightarrow>
    grows e e' []"
  by (simp add: grows_def)

lemma renew_ttl_config_eq: "renew_ttl E now c = Inr (c', b) \<Longrightarrow> config_eq c c'"
  by (auto simp: renew_ttl_def config_eq_def split: option.splits sum.splits)

lemma mem_read_entry:
  assumes "mem_read E s n from = Some (s', r)" "get_stream s n = Some e" "get_stream s' n = Some e'"
  shows "se_closed e' = se_closed e \<and> se_notify e' = se_notify e \<and> config_eq (se_config e) (se_config e')"
  using assms
  by (auto simp: mem_read_def split: option.splits sum.splits if_splits prod.splits)
    (rule renew_ttl_config_eq)

lemma commit_messages_notify:
  "commit_messages s e msgs = (s1, Inr e1) \<Longrightarrow>
    se_notify e1 = (if msgs = [] then se_notify e else Suc (se_notify e))"
  by (auto simp: commit_messages_def Let_def split: sum.splits if_splits)

lemma append_batch_grows:
  assumes "append_batch E s n msgs ct sq cl = (s', r)" "get_stream s n = Some e" "get_stream s' n = Some e'"
  shows "grows e e' (case r of Inr _ \<Rightarrow> msgs | Inl _ \<Rightarrow> [])"
proof (cases r)
  case (Inl er)
  with assms show ?thesis by (auto dest!: append_batch_Inl intro: grows_same)
next
  case (Inr a)
  with assms(1) have "append_batch E s n msgs ct sq cl = (s', Inr a)" by simp
  then show ?thesis
  proof (rule append_batch_Inr)
    fix e0 pending c' ch s1 e1
    assume "get_stream s n = Some e0" and ttl: "renew_ttl E (now_at E 2) (se_config e0) = Inr (c', ch)" and pre: "precheck_batch_append (now_at E 0) (se_config e0)
        (se_state e0) (se_closed e0) (se_last_seq e0) n (if msgs \<noteq> [] then Some ct else None) sq = Inr pending"
      and cm: "commit_messages s e0 msgs = (s1, Inr e1)"
      and s': "s' = set_stream n (notify_send (e1\<lparr>se_config := c',
        se_last_seq := (case pending of Some q \<Rightarrow> Some q | None \<Rightarrow> se_last_seq e0),
        se_updated_at := Some (now_at E 1), se_closed := se_closed e1 \<or> cl\<rparr>)) s1"
    moreover from this assms(2) have "e0 = e" by simp
    ultimately show ?thesis
      using assms(3) Inr precheck_batch_append_Inr(3) [OF pre] commit_messages_fields(2) [OF cm]
        commit_messages_notify [OF cm] renew_ttl_config_eq [OF ttl]
      by (auto simp: grows_def split: if_splits)
  qed
qed

lemma append_with_producer_grows:
  assumes "append_with_producer E s n msgs ct p cl sq = (s', r)" "get_stream s n = Some e"
    "get_stream s' n = Some e'"
  shows "grows e e' (producer_payload r msgs)"
proof (cases r)
  case (Inl er)
  with append_with_producer_Inl [of E s n msgs ct p cl sq s' er] assms show ?thesis
    by (auto simp: producer_payload_def intro!: grows_same)
next
  case (Inr a)
  with assms(1) have "append_with_producer E s n msgs ct p cl sq = (s', Inr a)" by simp
  then show ?thesis
  proof (cases rule: append_with_producer_Inr)
    case (dup e1 e0 ep q)
    with assms(2,3) Inr show ?thesis by (auto simp: producer_payload_def intro!: grows_same)
  next
    case (acc e1 e0 pending c' ch s1 e2)
    have "\<not> se_closed e1" using acc(3) by (auto simp: check_producer_def split: option.splits if_splits)
    with acc assms(2,3) Inr commit_messages_notify [OF acc(6)] renew_ttl_config_eq [OF acc(5)] show ?thesis
      by (auto simp: producer_payload_def grows_def)
  qed
qed

lemma exec_target_grows:
  assumes ok: "op_ok E s op" and ex: "exec E s op = Some s'" and tg: "target op = Some n" "\<not> recreates op n"
    and e: "get_stream s n = Some e" "get_stream s' n = Some e'"
  shows "\<exists>ds. extends s s' n ds \<and> batch_fits s n ds \<and> grows e e' ds"
proof (cases op)
  case (OpAppend n' msgs ct sq cl)
  then obtain r where r: "append_batch E s n msgs ct sq cl = (s', r)" using ex tg by (auto simp: prod_eq_iff)
  from append_batch_extends [OF r e(1)] append_batch_grows [OF r e] OpAppend ok tg show ?thesis
    by (intro exI [of _ "case r of Inr _ \<Rightarrow> msgs | Inl _ \<Rightarrow> []"]) (auto split: sum.splits)
next
  case (OpProducer n' msgs ct p cl sq)
  then obtain r where r: "append_with_producer E s n msgs ct p cl sq = (s', r)" using ex tg by (auto simp: prod_eq_iff)
  from append_with_producer_extends [OF r e(1)] append_with_producer_grows [OF r e] OpProducer ok tg show ?thesis
    by (intro exI [of _ "producer_payload r msgs"])
      (auto simp: producer_payload_def split: sum.splits producer_append_result.splits)
next
  case (OpRead n' off)
  then obtain r where r: "mem_read E s n off = Some (s', r)" using ex tg by auto
  have "grows e e' []" using mem_read_entry [OF r e] by (auto intro!: grows_same)
  with mem_read_extends [OF r e(1)] show ?thesis by (auto intro: exI [of _ "[]"])
next
  case (OpDelete n')
  then obtain r where "mem_delete s n = (s', r)" using ex tg by (auto simp: prod_eq_iff)
  then have "s' = s \<or> s' = set_stream n (e\<lparr>se_state := Tombstone\<rparr>) s"
    using mem_delete_eq [of s n s' r] e remove_for_recreate_dropped [of s n] by auto
  then have "extends s s' n []" "grows e e' []"
    using e by (auto intro!: extends_refl extends_meta [OF e(1)] grows_same)
  then show ?thesis by (auto intro: exI [of _ "[]"])
qed (use tg in auto)

lemma mem_step_grows:
  assumes inv: "mem_inv s" and st: "mem_step n s s'" and L: "log_of s n L"
    and e: "get_stream s n = Some e" "get_stream s' n = Some e'"
  shows "\<exists>ds. log_of s' n (L @ log_from (se_next_read_seq e) (se_next_byte_offset e) ds) \<and> grows e e' ds \<and>
    se_next_read_seq e' = se_next_read_seq e + of_nat (length ds) \<and>
    se_next_byte_offset e' = se_next_byte_offset e + payload_bytes ds"
proof -
  obtain E op where op: "op_ok E s op" "exec E s op = Some s'" "\<not> recreates op n"
    using st by (auto simp: mem_step_def)
  show ?thesis
  proof (cases "target op = Some n")
    case True
    obtain ds where ds: "extends s s' n ds" "batch_fits s n ds" "grows e e' ds"
      using exec_target_grows [OF op(1,2) True op(3) e] by blast
    then have "unat (se_next_read_seq e) + length ds < 2 ^ 64" using e(1) by (simp add: batch_fits_def)
    from extends_log [OF inv ds(1) e(1) this L] ds e show ?thesis
      by (intro exI [of _ ds]) (auto simp: extends_def)
  next
    case False
    from exec_kept [OF inv op(1,2) False] e L obtain r st where
      "log_of s' n L" "e' = e\<lparr>se_ref_count := r, se_state := st\<rparr>" by (auto simp: kept_def)
    then show ?thesis by (intro exI [of _ "[]"]) (auto intro: grows_same)
  qed
qed

text \<open>Over any number of operations.\<close>

lemma later_inv: "later n s s' \<Longrightarrow> mem_inv s \<Longrightarrow> mem_inv s'"
  by (induction rule: later.induct) (auto intro: mem_store.step_inv)

lemma later_present: "later n s s' \<Longrightarrow> get_stream s n = Some e \<Longrightarrow> \<exists>e'. get_stream s' n = Some e'"
  by (induction rule: later.induct) auto

lemma later_grows:
  assumes "later n s s'" "mem_inv s" "log_of s n L" "get_stream s n = Some e" "get_stream s' n = Some e'"
  shows "\<exists>M. log_of s' n (L @ M) \<and> se_notify e \<le> se_notify e' \<and>
    (se_closed e \<longrightarrow> se_closed e' \<and> entry_next_offset e' = entry_next_offset e \<and> M = []) \<and>
    (M \<noteq> [] \<longrightarrow> se_notify e < se_notify e') \<and> config_eq (se_config e) (se_config e')"
  using assms
proof (induction arbitrary: e' rule: later.induct)
  case (same s)
  then show ?case by (intro exI [of _ "[]"]) auto
next
  case (more s s1 s2 x)
  obtain e1 where e1: "get_stream s1 n = Some e1" using later_present more.hyps(1) more.prems(3) by blast
  from more.IH [OF more.prems(1-3) e1] obtain M where M: "log_of s1 n (L @ M)" "se_notify e \<le> se_notify e1"
    "se_closed e \<longrightarrow> se_closed e1 \<and> entry_next_offset e1 = entry_next_offset e \<and> M = []"
    "M \<noteq> [] \<longrightarrow> se_notify e < se_notify e1" "config_eq (se_config e) (se_config e1)" by blast
  have inv1: "mem_inv s1" using later_inv more.hyps(1) more.prems(1) by blast
  from mem_step_grows [OF inv1 more.hyps(2) M(1) e1 more.prems(4)] obtain ds where
    ds: "log_of s2 n ((L @ M) @ log_from (se_next_read_seq e1) (se_next_byte_offset e1) ds)" "grows e1 e' ds"
    "se_next_read_seq e' = se_next_read_seq e1 + of_nat (length ds)"
    "se_next_byte_offset e' = se_next_byte_offset e1 + payload_bytes ds" by blast
  show ?case
    by (rule exI [of _ "M @ log_from (se_next_read_seq e1) (se_next_byte_offset e1) ds"])
      (use M ds in \<open>auto simp: grows_def entry_next_offset_def intro: config_eq_trans\<close>)
qed

lemma later_tail:
  assumes "later n s s'" "mem_inv s" "log_of s n L" "get_stream s n = Some e" "get_stream s' n = Some e'"
  shows "\<not> offset_lt (entry_next_offset e') (entry_next_offset e)"
  using assms
proof (induction arbitrary: e' rule: later.induct)
  case (more s s1 s2 x)
  obtain e1 where e1: "get_stream s1 n = Some e1" using later_present more.hyps(1) more.prems(3) by blast
  obtain N where N: "log_of s1 n (L @ N)"
    using later_grows [OF more.hyps(1) more.prems(1-3) e1] by blast
  have inv1: "mem_inv s1" using later_inv more.hyps(1) more.prems(1) by blast
  have "\<not> offset_lt (entry_next_offset e') (entry_next_offset e1)"
    using mem_step_appends [OF inv1 more.hyps(2) N e1 more.prems(4)] by blast
  with more.IH [OF more.prems(1-3) e1] show ?case by (meson offset_ge_trans wf_entry_next_offset)
qed simp

text \<open>
  A subscriber that found the tail has a notification pending once a read from
  that tail would return messages.
\<close>

lemma wakeup_pending:
  assumes s: "reachable s" "subscribe E s n = Some rcv" "later n s s1"
    and r1: "mem_read E1 s1 n off = Some (s2, Inr r1)" "wf_offset off"
    and s3: "later n s2 s3" "mem_read E3 s3 n (rr_next_offset r1) = Some (s4, Inr r3)" "rr_messages r3 \<noteq> []"
  shows "\<exists>e3. get_stream s3 n = Some e3 \<and> rcv < se_notify e3"
proof -
  obtain e where e: "get_stream s n = Some e" "rcv = se_notify e"
    using s(2) by (auto simp: subscribe_def split: option.splits if_splits)
  have inv: "mem_inv s" and inv1: "mem_inv s1" using s later_inv reachable_mem_inv by blast+
  obtain L where L: "log_of s n L" using mem_inv_log inv e(1) by blast
  obtain e1 where e1: "get_stream s1 n = Some e1" using later_present s(3) e(1) by blast
  from later_grows [OF s(3) inv L e(1) e1] obtain M where
    M: "log_of s1 n (L @ M)" "se_notify e \<le> se_notify e1" by blast
  have st1: "mem_step n s1 s2"
    unfolding mem_step_def using r1 by (intro exI [of _ E1] exI [of _ "OpRead n off"]) simp
  obtain x where fin: "get_stream s1 n = Some x" "finish_read s1 off (prepare_read x off) = Some (Inr r1)"
      "s2 = s1 \<or> (\<exists>c. s2 = set_stream n (x\<lparr>se_config := c\<rparr>) s1)"
    using r1(1) by (rule mem_read_Inr) blast
  then obtain e2 where e2: "get_stream s2 n = Some e2" "entry_next_offset e2 = entry_next_offset e1"
      "se_notify e2 = se_notify e1" using e1 by (auto simp: entry_next_offset_def)
  have tail: "rr_next_offset r1 = entry_next_offset e2"
    using fin e1 e2(2) by (auto simp: finish_read_def prepare_read_def pending_finish_def read_local_messages_def
        Let_def split: if_splits option.splits sum.splits prod.splits)
  have inv2: "mem_inv s2" using mem_store.step_inv [OF inv1 st1] .
  obtain L2 where L2: "log_of s2 n L2" using mem_inv_log inv2 e2(1) by blast
  have before: "offset_lt (msg_offset m) (entry_next_offset e2)" if "m \<in> set L2" for m
    using mem_store.log_before_tail [OF inv2 L2 _ that] e2(1) by (simp add: mem_tail_def)
  obtain e3 where e3: "get_stream s3 n = Some e3" using later_present s3(1) e2(1) by blast
  from later_grows [OF s3(1) inv2 L2 e2(1) e3] obtain N where
    N: "log_of s3 n (L2 @ N)" "N \<noteq> [] \<longrightarrow> se_notify e2 < se_notify e3" by blast
  have "rr_messages r3 = log_read (L2 @ N) (rr_next_offset r1)"
    by (rule mem_read_log(1) [OF later_inv [OF s3(1) inv2] N(1) _ _ s3(2)])
      (simp_all add: tail entry_next_offset_def)
  with s3(3) before tail have "N \<noteq> []"
    by (auto simp: log_read_def at_or_after_def filter_empty_conv entry_next_offset_def)
  with N M(2) e(2) e2(3) e3 show ?thesis by auto
qed

text \<open>What is appended later lies at or after the earlier tail.\<close>

lemma later_new_after:
  assumes "later n s s'" "mem_inv s" "log_of s n L" "get_stream s n = Some e" "log_of s' n (L @ M)" "m \<in> set M"
  shows "\<not> offset_lt (msg_offset m) (entry_next_offset e)"
  using assms
proof (induction arbitrary: M rule: later.induct)
  case (same s)
  then show ?case using log_of_unique [OF same.prems(2,4)] by simp
next
  case (more s s1 s2 x)
  obtain e1 where e1: "get_stream s1 n = Some e1" using later_present more.hyps(1) more.prems(3) by blast
  obtain N where N: "log_of s1 n (L @ N)"
    using later_grows [OF more.hyps(1) more.prems(1-3) e1] by blast
  have inv1: "mem_inv s1" using later_inv more.hyps(1) more.prems(1) by blast
  from mem_step_appends [OF inv1 more.hyps(2) N e1 more.hyps(3)] obtain new where
    new: "log_of s2 n ((L @ N) @ new)"
      "\<forall>m\<in>set new. wf_offset (msg_offset m) \<and> \<not> offset_lt (msg_offset m) (entry_next_offset e1)" by blast
  have "M = N @ new" using log_of_unique [OF more.prems(4) new(1)] by simp
  moreover have "\<not> offset_lt (msg_offset m) (entry_next_offset e)" if "m \<in> set new"
  proof -
    have "\<not> offset_lt (entry_next_offset e1) (entry_next_offset e)"
      using later_tail [OF more.hyps(1) more.prems(1-3) e1] .
    with new(2) that show ?thesis
      by (meson offset_ge_trans wf_entry_next_offset)
  qed
  ultimately show ?case using more.IH [OF more.prems(1-3) N] more.prems(5) by auto
qed

end
