(* ===== verification/DS_Sweep.thy ===== *)
theory DS_Sweep
  imports DS_Life
begin

text \<open>
  Tombstones and the expiry sweep of the in-memory backend: no operation but
  the sweep leaves a tombstone that no fork needs, and the sweep takes every
  expired stream out of service and leaves the others as they are.
\<close>

section \<open>Tombstones\<close>

definition no_garbage :: "mem \<Rightarrow> bool" where
  "no_garbage s \<longleftrightarrow> (\<forall>n e. get_stream s n = Some e \<longrightarrow> se_state e = Tombstone \<longrightarrow> se_ref_count e \<noteq> 0)"

lemma no_garbage_set:
  "no_garbage s \<Longrightarrow> se_state e = Active \<or> se_ref_count e \<noteq> 0 \<Longrightarrow> no_garbage (set_stream n e s)"
  by (auto simp: no_garbage_def)

lemma no_garbage_drop [simp]: "no_garbage s \<Longrightarrow> no_garbage (drop_stream n s)"
  by (simp add: no_garbage_def)

lemma no_garbage_total [simp]: "no_garbage (s\<lparr>mem_total_bytes := t\<rparr>) = no_garbage s"
  by (simp add: no_garbage_def)

lemma cascade_no_garbage: "no_garbage s \<Longrightarrow> no_garbage (cascade_delete s p)"
proof (induction s p rule: cascade_delete.induct)
  case (1 s p)
  show ?case
  proof (cases "get_stream s p")
    case None
    with 1 show ?thesis by (simp add: cascade_delete.simps [of s p])
  next
    case (Some e)
    have "se_state (e\<lparr>se_ref_count := r\<rparr>) = Active \<or> se_state (e\<lparr>se_ref_count := r\<rparr>) = Tombstone" for r
      using stream_state.exhaust by blast
    with 1 Some show ?thesis
      by (auto simp: cascade_delete.simps [of s p] Let_def no_garbage_set split: option.splits)
  qed
qed

lemma remove_for_recreate_no_garbage: "no_garbage s \<Longrightarrow> no_garbage (remove_for_recreate s n)"
  by (auto simp: remove_for_recreate_def hard_remove_stream_def cascade_no_garbage split: option.splits)

lemma no_garbage_commit: "commit_messages s e msgs = (s1, x) \<Longrightarrow> no_garbage s1 = no_garbage s"
  by (simp add: no_garbage_def commit_get_other)

lemma no_garbage_incr:
  assumes "no_garbage s" "\<And>e. get_stream s n = Some e \<Longrightarrow> se_state e = Active"
  shows "no_garbage (incr_ref_count n s)"
  using assms by (auto simp: incr_ref_count_def intro!: no_garbage_set split: option.splits)

text \<open>An operation that only replaces the entry of \<open>n\<close> by one with the same mark and count.\<close>

lemma no_garbage_extends:
  assumes "no_garbage s" "\<And>m. m \<noteq> n \<Longrightarrow> get_stream s' m = get_stream s m"
    and "\<And>e'. get_stream s' n = Some e' \<Longrightarrow> \<exists>e. get_stream s n = Some e \<and> se_state e' = se_state e \<and>
      se_ref_count e' = se_ref_count e"
  shows "no_garbage s'"
  unfolding no_garbage_def
proof (intro allI impI)
  fix m e assume "get_stream s' m = Some e" "se_state e = Tombstone"
  with assms show "se_ref_count e \<noteq> 0" by (cases "m = n") (auto simp: no_garbage_def)
qed

lemma append_batch_marks:
  assumes "append_batch E s n msgs ct sq cl = (s', r)" "get_stream s' n = Some e'"
  shows "\<exists>e. get_stream s n = Some e \<and> se_state e' = se_state e \<and> se_ref_count e' = se_ref_count e"
proof (cases r)
  case (Inl er)
  with assms show ?thesis by (auto dest!: append_batch_Inl)
next
  case (Inr a)
  with assms(1) have "append_batch E s n msgs ct sq cl = (s', Inr a)" by simp
  then show ?thesis
    by (rule append_batch_Inr) (use assms(2) in \<open>auto simp: commit_messages_fields(4,5)\<close>)
qed

lemma append_with_producer_marks:
  assumes "append_with_producer E s n msgs ct p cl sq = (s', r)" "get_stream s' n = Some e'"
  shows "\<exists>e. get_stream s n = Some e \<and> se_state e' = se_state e \<and> se_ref_count e' = se_ref_count e"
proof (cases r)
  case (Inl er)
  with append_with_producer_Inl [of E s n msgs ct p cl sq s' er] assms show ?thesis by auto
next
  case (Inr a)
  with assms(1) have "append_with_producer E s n msgs ct p cl sq = (s', Inr a)" by simp
  then show ?thesis
    by (cases rule: append_with_producer_Inr) (use assms(2) in \<open>auto simp: commit_messages_fields(4,5)\<close>)
qed

lemma replace_no_garbage:
  assumes "no_garbage s" "replace_stream E s n opts msgs cl = (s', r)"
  shows "no_garbage s'"
  using assms
  by (auto simp: replace_stream_def Let_def no_garbage_commit commit_messages_fields(5) intro!: no_garbage_set
      dest: commit_messages_Inl split: sum.splits option.splits prod.splits)

lemma create_no_garbage:
  assumes "no_garbage s" "create_stream_with_data E s n opts msgs cl = (s', r)"
  shows "no_garbage s'"
  using assms(2)
proof (cases rule: create_stream_with_data_cases)
  case unchanged
  with assms(1) show ?thesis by simp
next
  case (fresh c s1)
  have "no_garbage s1" using fresh(2) assms(1) remove_for_recreate_no_garbage by blast
  moreover have "se_state e1 = Active" if "commit_messages s1 (stream_entry_new c (now_at E 2)) msgs = (s2, Inr e1)"
    for s2 e1 using commit_messages_fields(5) [OF that] by simp
  ultimately show ?thesis
    using fresh(3) by (auto simp: no_garbage_commit intro!: no_garbage_set split: if_splits)
qed

lemma fork_no_garbage:
  assumes "no_garbage s" "create_fork_with_options E s n src req sopts opts = Some (s', r)"
  shows "no_garbage s'"
  using assms(2)
proof (cases rule: create_fork_cases)
  case unchanged
  with assms(1) show ?thesis by simp
next
  case (fresh e c off msgs s1 cl)
  let ?x = "fork_entry c (now_at E 4) cl src off (fo_sub_offset opts)"
  have ng: "no_garbage s1" using fresh(7) assms(1) remove_for_recreate_no_garbage by blast
  have act: "se_state x = Active" if "get_stream s1 src = Some x" for x
    using fresh(7)
  proof
    assume "s1 = s \<and> get_stream s n = None"
    with that fresh(1,2) show ?thesis by simp
  next
    assume "s1 = remove_for_recreate s n \<and>
      (\<exists>x. get_stream s n = Some x \<and> is_stream_expired (now_at E 3) (se_config x) \<and> se_ref_count x = 0)"
    with that have "get_stream (remove_for_recreate s n) src = Some x" by simp
    then obtain e0 where "get_stream s src = Some e0" "x = e0\<lparr>se_ref_count := se_ref_count x\<rparr>"
      by (rule remove_for_recreate_get)
    with fresh(1,2) show ?thesis by (metis option.inject stream_entry.simps(14) stream_entry.simps(28)
          stream_entry.ext_inject stream_entry.surjective stream_entry.update_convs(13))
  qed
  from fresh(8) show ?thesis
  proof (elim disjE exE conjE)
    fix e1 s2
    assume cm: "commit_messages s1 ?x msgs = (s2, Inr e1)" and s': "s' = incr_ref_count src (set_stream n e1 s2)"
    have "se_state e1 = Active" using commit_messages_fields(5) [OF cm] by (simp add: fork_entry_def)
    with ng cm act s' show ?thesis
      by (auto intro!: no_garbage_incr no_garbage_set simp: no_garbage_commit commit_get_other split: if_splits)
  qed (use ng in \<open>simp add: no_garbage_commit\<close>)
qed

lemma delete_no_garbage:
  assumes "no_garbage s" "mem_delete s n = (s', r)"
  shows "no_garbage s'"
  using assms
  by (auto simp: mem_delete_def evaluate_delete_def hard_remove_stream_def cascade_no_garbage word_gt_0
      intro!: no_garbage_set split: option.splits if_splits)

lemma exec_no_garbage:
  assumes ng: "no_garbage s" and ex: "exec E s op = Some s'" and sweep: "\<And>ord. op \<noteq> OpSweep ord"
  shows "no_garbage s'"
proof (cases op)
  case (OpCreate n opts msgs cl)
  with ex show ?thesis by (auto simp: prod_eq_iff intro: create_no_garbage [OF ng])
next
  case (OpAppend n msgs ct sq cl)
  then obtain r where "append_batch E s n msgs ct sq cl = (s', r)" using ex by (auto simp: prod_eq_iff)
  then show ?thesis using append_batch_get append_batch_marks by (intro no_garbage_extends [OF ng]) blast+
next
  case (OpProducer n msgs ct p cl sq)
  then obtain r where "append_with_producer E s n msgs ct p cl sq = (s', r)" using ex by (auto simp: prod_eq_iff)
  then show ?thesis
    using append_with_producer_get append_with_producer_marks by (intro no_garbage_extends [OF ng]) blast+
next
  case (OpRead n off)
  then obtain r where "mem_read E s n off = Some (s', r)" using ex by auto
  from mem_read_state [OF this] ng show ?thesis by (auto simp: no_garbage_def split: if_splits)
next
  case (OpReplace n opts msgs cl)
  with ex show ?thesis by (auto simp: prod_eq_iff intro: replace_no_garbage [OF ng])
next
  case (OpDelete n)
  with ex show ?thesis by (auto simp: prod_eq_iff intro: delete_no_garbage [OF ng])
next
  case (OpFork n src req sopts opts)
  with ex show ?thesis by (auto intro: fork_no_garbage [OF ng])
next
  case (OpSaveState b)
  with ng ex show ?thesis by (auto simp: no_garbage_def)
qed (use sweep in blast)

section \<open>The sweep\<close>

text \<open>One round never revives a stream, and touches only the stream it is for and tombstones.\<close>

lemma cleanup_one_state:
  assumes "get_stream (cleanup_one s x) m = Some e'"
  shows "\<exists>e. get_stream s m = Some e \<and> (se_state e' = se_state e \<or> se_state e' = Tombstone) \<and>
    (m = fst x \<longrightarrow> se_state e' = Tombstone) \<and> se_config e' = se_config e"
proof -
  obtain n r where x: "x = (n, r)" by fastforce
  show ?thesis
  proof (cases "r > 0")
    case True
    with x assms show ?thesis
      by (auto simp: cleanup_one_def evaluate_expired_cleanup_def split: option.splits if_splits)
  next
    case False
    with x assms have *: "get_stream (remove_for_recreate s n) m = Some e'"
      by (simp add: cleanup_one_def evaluate_expired_cleanup_def)
    then have "m \<noteq> n" using remove_for_recreate_dropped [of s n] by auto
    from * obtain e where "get_stream s m = Some e" "e' = e\<lparr>se_ref_count := se_ref_count e'\<rparr>"
      by (rule remove_for_recreate_get)
    with x \<open>m \<noteq> n\<close> show ?thesis by (cases e, cases e') auto
  qed
qed

lemma cleanup_one_other:
  assumes "get_stream s m = Some e" "se_state e = Active" "m \<noteq> fst x"
  shows "\<exists>r. get_stream (cleanup_one s x) m = Some (e\<lparr>se_ref_count := r\<rparr>)"
proof -
  obtain n r where x: "x = (n, r)" by fastforce
  with assms same_ref_count [of e] remove_for_recreate_keeps_active [OF assms(1,2), of n] show ?thesis
    by (auto simp: cleanup_one_def evaluate_expired_cleanup_def split: option.splits)
qed

lemma foldl_cleanup_state:
  assumes "get_stream (foldl cleanup_one s xs) m = Some e'"
  shows "\<exists>e. get_stream s m = Some e \<and> (se_state e' = se_state e \<or> se_state e' = Tombstone) \<and>
    (m \<in> fst ` set xs \<longrightarrow> se_state e' = Tombstone) \<and> se_config e' = se_config e"
  using assms
proof (induction xs arbitrary: s)
  case (Cons x xs)
  from Cons.IH [of "cleanup_one s x"] Cons.prems obtain e1 where
    e1: "get_stream (cleanup_one s x) m = Some e1" "se_state e' = se_state e1 \<or> se_state e' = Tombstone"
      "m \<in> fst ` set xs \<longrightarrow> se_state e' = Tombstone" "se_config e' = se_config e1" by auto
  from cleanup_one_state [OF e1(1)] e1 show ?case by auto
qed simp

lemma foldl_cleanup_other:
  assumes "get_stream s m = Some e" "se_state e = Active" "m \<notin> fst ` set xs"
  shows "\<exists>r. get_stream (foldl cleanup_one s xs) m = Some (e\<lparr>se_ref_count := r\<rparr>)"
  using assms
proof (induction xs arbitrary: s e)
  case (Cons x xs)
  from cleanup_one_other [OF Cons.prems(1,2), of x] Cons.prems(3) obtain r where
    "get_stream (cleanup_one s x) m = Some (e\<lparr>se_ref_count := r\<rparr>)" by auto
  from Cons.IH [OF this] Cons.prems show ?case by simp
qed (auto simp: same_ref_count)

text \<open>The streams the scan finds under a clock that stands still.\<close>

lemma expired_streams_names:
  assumes "\<And>i. now_at E i = t" "set ord = fmdom' (mem_streams s)" "distinct ord"
  shows "fst ` set (expired_streams E s ord) =
      {n. \<exists>e. get_stream s n = Some e \<and> is_stream_expired t (se_config e)}"
    and "length (expired_streams E s ord) =
      card {n. \<exists>e. get_stream s n = Some e \<and> is_stream_expired t (se_config e)}"
proof -
  have clock: "now_at E = (\<lambda>_. t)" using assms(1) by (rule ext)
  let ?P = "\<lambda>n. case get_stream s n of Some e \<Rightarrow> is_stream_expired t (se_config e) | None \<Rightarrow> False"
  have en: "map snd (filter (\<lambda>(i, n). ?P n) (enumerate k xs)) = filter ?P xs" for k xs
    by (induction xs arbitrary: k) auto
  have names: "map fst (expired_streams E s ord) = filter ?P ord"
    unfolding expired_streams_def clock by (simp add: en [of 0 ord, symmetric] split_def comp_def)
  have set: "set (filter ?P ord) = {n. \<exists>e. get_stream s n = Some e \<and> is_stream_expired t (se_config e)}"
    using assms(2) get_stream_dom by (auto split: option.splits)
  show "fst ` set (expired_streams E s ord) =
      {n. \<exists>e. get_stream s n = Some e \<and> is_stream_expired t (se_config e)}"
    using names set by (metis set_map)
  have "length (expired_streams E s ord) = card (set (filter ?P ord))"
    using arg_cong [OF names, of length] distinct_card [OF distinct_filter [OF assms(3)], of ?P]
    by (simp only: length_map)
  with set show "length (expired_streams E s ord) =
      card {n. \<exists>e. get_stream s n = Some e \<and> is_stream_expired t (se_config e)}" by simp
qed

section \<open>The listing\<close>

lemma sort_key_pairs:
  assumes "distinct xs"
  shows "sort_key fst (map (\<lambda>n. (n, f n)) xs) = map (\<lambda>n. (n, f n)) (sorted_list_of_set (set xs))"
proof (rule map_sorted_distinct_set_unique [of fst])
  show "inj_on fst (set (sort_key fst (map (\<lambda>n. (n, f n)) xs)) \<union>
      set (map (\<lambda>n. (n, f n)) (sorted_list_of_set (set xs))))" by (auto simp: inj_on_def)
qed (use assms in \<open>auto simp: comp_def distinct_map inj_on_def\<close>)

lemma list_streams_eq:
  assumes "\<And>i. now_at E i = t" "set ord = fmdom' (mem_streams s)" "distinct ord"
  shows "list_streams E s ord = map (\<lambda>n. (n, entry_metadata (the (get_stream s n))))
    (sorted_list_of_set {n. \<exists>e. get_stream s n = Some e \<and> is_stream_visible t (se_config e) (se_state e)})"
proof -
  have clock: "now_at E = (\<lambda>_. t)" using assms(1) by (rule ext)
  let ?P = "\<lambda>n. case get_stream s n of Some e \<Rightarrow> is_stream_visible t (se_config e) (se_state e) | None \<Rightarrow> False"
  let ?f = "\<lambda>n. entry_metadata (the (get_stream s n))"
  have en: "List.map_filter (\<lambda>(i, n). case get_stream s n of
         Some e \<Rightarrow> if is_stream_visible t (se_config e) (se_state e) then Some (n, entry_metadata e) else None
       | None \<Rightarrow> None) (enumerate k xs) = map (\<lambda>n. (n, ?f n)) (filter ?P xs)" for k xs
    by (induction xs arbitrary: k) (auto simp: List.map_filter_simps split: option.splits)
  have "set (filter ?P ord) = {n. \<exists>e. get_stream s n = Some e \<and> is_stream_visible t (se_config e) (se_state e)}"
    using assms(2) get_stream_dom by (auto split: option.splits)
  with sort_key_pairs [of "filter ?P ord" ?f] assms(3) show ?thesis
    unfolding list_streams_def clock en by simp
qed

end
