(* ===== verification/DS_Prop_Life.thy ===== *)
theory DS_Prop_Life
  imports DS_Prop_Storage DS_Sweep
begin

text \<open>
  Properties of the in-memory backend over the life of a stream: closing,
  notification, capacity, repeated creation, deletion and the fork lifetime,
  the expiry sweep and the listing.
\<close>

section \<open>Closing and notification\<close>

text \<open>
  C17. Closing is permanent: whatever operations follow, as long as the stream
  is not recreated it stays closed, its log and its tail stay as they are, and
  no append of messages succeeds on it.
\<close>

theorem closed_streams_are_frozen:
  assumes "reachable s" "get_stream s n = Some e" "se_closed e" "log_of s n L"
    and "later n s s'" "get_stream s' n = Some e'"
  shows "se_closed e' \<and> log_of s' n L \<and> entry_next_offset e' = entry_next_offset e \<and>
    (\<forall>E msgs ct sq cl s'' r. msgs \<noteq> [] \<longrightarrow> append_batch E s' n msgs ct sq cl \<noteq> (s'', Inr r)) \<and>
    (\<forall>E msgs ct p sq cl s'' ep q off c.
       append_with_producer E s' n msgs ct p cl sq \<noteq> (s'', Inr (Accepted ep q off c)))"
proof -
  have closed: "se_closed e'" "log_of s' n L" "entry_next_offset e' = entry_next_offset e"
    using later_grows [OF assms(5) reachable_mem_inv [OF assms(1)] assms(4,2,6)] assms(3) by auto
  have "append_batch E s' n msgs ct sq cl \<noteq> (s'', Inr r)" if ne: "msgs \<noteq> []" for E msgs ct sq cl s'' r
  proof
    assume a: "append_batch E s' n msgs ct sq cl = (s'', Inr r)"
    from a obtain pending where "precheck_batch_append (now_at E 0) (se_config e') (se_state e') (se_closed e')
        (se_last_seq e') n (Some ct) sq = Inr pending"
      by (rule append_batch_Inr) (use assms(6) ne in auto)
    from precheck_batch_append_Inr(3) [OF this] closed(1) show False by simp
  qed
  moreover have "append_with_producer E s' n msgs ct p cl sq \<noteq> (s'', Inr (Accepted ep q off c))"
    for E msgs ct p sq cl s'' ep q off c
  proof
    assume "append_with_producer E s' n msgs ct p cl sq = (s'', Inr (Accepted ep q off c))"
    then show False
      by (cases rule: append_with_producer_Inr)
        (use assms(6) closed(1) in \<open>auto simp: check_producer_def split: option.splits if_splits\<close>)
  qed
  ultimately show ?thesis using closed by blast
qed

text \<open>The sample stream after a closing append.\<close>

definition sample_closed :: mem where
  "sample_closed = fst sample_append"

lemma sample_closed_reachable: "reachable sample_closed"
  by (rule reachable.step [OF sample_one_reachable, of sample_env "OpAppend ''a'' [''y''] ''text/plain'' None True"])
    (simp_all add: sample_append_fits sample_closed_def sample_append_def)

lemma sample_closed_entry: "\<exists>e L. get_stream sample_closed ''a'' = Some e \<and> se_closed e \<and> log_of sample_closed ''a'' L"
proof -
  have "map_option se_closed (get_stream sample_closed ''a'') = Some True" by code_simp
  then obtain e where "get_stream sample_closed ''a'' = Some e" "se_closed e" by auto
  moreover from this have "\<exists>L. log_of sample_closed ''a'' L"
    using mem_inv_log reachable_mem_inv [OF sample_closed_reachable] by blast
  ultimately show ?thesis by blast
qed

theorem closed_streams_are_frozen_witness:
  "\<exists>L. log_of sample_closed ''a'' L \<and>
    (\<forall>s'' r. append_batch sample_env sample_closed ''a'' [''z''] ''text/plain'' None False \<noteq> (s'', Inr r))"
proof -
  obtain e L where e: "get_stream sample_closed ''a'' = Some e" "se_closed e" "log_of sample_closed ''a'' L"
    using sample_closed_entry by blast
  from closed_streams_are_frozen [OF sample_closed_reachable e later.same e(1)] show ?thesis
    by (intro exI [of _ L]) blast
qed

text \<open>
  C18. No wakeup is lost: a waiter that subscribes and then reads, and finds the
  tail, has a notification pending as soon as a read from that tail would
  return anything, whatever runs between the subscription and its read and
  between its read and the later one.
\<close>

theorem no_lost_wakeup:
  assumes s: "reachable s" "subscribe E s n = Some rcv" "later n s s1"
    and r1: "mem_read E1 s1 n off = Some (s2, Inr r1)" "wf_offset off"
    and s3: "later n s2 s3" "mem_read E3 s3 n (rr_next_offset r1) = Some (s4, Inr r3)" "rr_messages r3 \<noteq> []"
  shows "\<exists>e3. get_stream s3 n = Some e3 \<and> rcv < se_notify e3"
  using assms by (rule wakeup_pending)

lemma sample_one_read_state:
  "\<exists>r. mem_read sample_env sample_one ''a'' Start = Some (sample_one, Inr r) \<and> rr_next_offset r = offset_new 2 6"
proof -
  obtain s' r where r: "mem_read sample_env sample_one ''a'' Start = Some (s', Inr r)" "rr_next_offset r = offset_new 2 6"
    using sample_one_read by auto
  obtain e where e: "get_stream sample_one ''a'' = Some e" using sample_one_present by blast
  have "map_option (ttl_seconds \<circ> se_config) (get_stream sample_one ''a'') = Some None" by code_simp
  then have "s' = sample_one"
    using r(1) e by (auto simp: mem_read_def split: sum.splits)
  with r show ?thesis by blast
qed

lemma sample_closed_read:
  "\<exists>s' r. mem_read sample_env sample_closed ''a'' (offset_new 2 6) = Some (s', Inr r) \<and> rr_messages r = [''y'']"
proof -
  have "map_option (map_sum id rr_messages \<circ> snd) (mem_read sample_env sample_closed ''a'' (offset_new 2 6)) =
    Some (Inr [''y''])" by code_simp
  then obtain s' x where "mem_read sample_env sample_closed ''a'' (offset_new 2 6) = Some (s', x)"
      "map_sum id rr_messages x = Inr [''y'']" by auto
  then show ?thesis by (cases x) auto
qed

lemma sample_closed_later: "later ''a'' sample_one sample_closed"
proof -
  have "mem_step ''a'' sample_one sample_closed"
    unfolding mem_step_def
    by (intro exI [of _ sample_env] exI [of _ "OpAppend ''a'' [''y''] ''text/plain'' None True"])
      (simp add: sample_append_fits sample_closed_def sample_append_def)
  with sample_closed_entry show ?thesis using later.more later.same by blast
qed

theorem no_lost_wakeup_witness:
  "\<exists>rcv e3. subscribe sample_env sample_one ''a'' = Some rcv \<and> get_stream sample_closed ''a'' = Some e3 \<and>
    rcv < se_notify e3"
proof -
  have "subscribe sample_env sample_one ''a'' \<noteq> None" by code_simp
  then obtain rcv where rcv: "subscribe sample_env sample_one ''a'' = Some rcv" by blast
  obtain r where r: "mem_read sample_env sample_one ''a'' Start = Some (sample_one, Inr r)"
      "rr_next_offset r = offset_new 2 6" using sample_one_read_state by blast
  obtain s' r' where r': "mem_read sample_env sample_closed ''a'' (rr_next_offset r) = Some (s', Inr r')"
      "rr_messages r' = [''y'']" using sample_closed_read r(2) by auto
  from no_lost_wakeup [OF sample_one_reachable rcv later.same r(1) _ sample_closed_later r'(1)] r'(2) rcv
  show ?thesis by auto
qed

section \<open>Capacity\<close>




section \<open>Creating again\<close>

lemma resolve_config_eq: "resolve E opts t = Inr c \<Longrightarrow> resolve E' opts t' = Inr c' \<Longrightarrow> config_eq c c'"
  by (auto simp: resolve_def config_eq_def Let_def split: if_splits expiry.splits sum.splits)

lemma create_again:
  assumes s: "reachable s" "op_ok E s (OpCreate n opts msgs cl)"
    and made: "create_stream_with_data E s n opts msgs cl = (s1, Inr cw)" "cw_status cw = Created"
    and s': "later n s1 s'" "get_stream s' n = Some e'" "se_state e' = Active"
      "\<not> is_stream_expired (now_at E' 1) (se_config e')"
    and again: "resolve E' opts (now_at E' 0) = Inr c'"
  shows "create_stream_with_data E' s' n opts msgs' cl' =
    (s', Inr \<lparr>cw_status = AlreadyExists, cw_next_offset = entry_next_offset e', cw_closed = se_closed e'\<rparr>)"
proof -
  have inv1: "mem_inv s1"
    using reachable_mem_inv [OF s(1)] s(2) made(1) by (auto intro: create_stream_with_data_inv)
  obtain c e1 where c: "resolve E opts (now_at E 0) = Inr c" "get_stream s1 n = Some e1" "se_config e1 = c"
    using made(1)
  proof (cases rule: create_stream_with_data_cases)
    case unchanged
    with made(2) show ?thesis by auto
  next
    case (fresh c s0)
    with made show ?thesis by (auto dest!: commit_messages_fields(1) intro!: that)
  qed
  obtain L where L: "log_of s1 n L" using mem_inv_log inv1 c(2) by blast
  have "config_eq (se_config e1) (se_config e')" using later_grows [OF s'(1) inv1 L c(2) s'(2)] by blast
  then have "config_eq (se_config e') c'"
    using resolve_config_eq [OF c(1) again] c(3) config_eq_sym config_eq_trans by blast
  with s' again show ?thesis
    by (simp add: create_stream_with_data_def evaluate_root_create_def existing_path_disposition_def)
qed

text \<open>
  Creation is idempotent: repeating a create request with the same options
  against the live stream it made, after any number of other operations,
  answers that the stream exists, with its current tail and closed flag, and
  changes nothing, even when the request carries messages.
\<close>

theorem create_again_changes_nothing:
  assumes s: "reachable s" "op_ok E s (OpCreate n opts msgs cl)"
    and made: "create_stream_with_data E s n opts msgs cl = (s1, Inr cw)" "cw_status cw = Created"
    and s': "later n s1 s'" "get_stream s' n = Some e'" "se_state e' = Active"
      "\<not> is_stream_expired (now_at E' 1) (se_config e')"
    and again: "resolve E' opts (now_at E' 0) = Inr c'"
  shows "create_stream_with_data E' s' n opts msgs' cl' =
    (s', Inr \<lparr>cw_status = AlreadyExists, cw_next_offset = entry_next_offset e', cw_closed = se_closed e'\<rparr>)"
  using assms by (rule create_again)

definition sample_created :: "mem \<times> create_with_data_result res" where
  "sample_created = create_stream_with_data sample_env sample_empty ''a'' (stream_options_new ''text/plain'')
     [''hello'', ''x''] False"

theorem create_again_changes_nothing_witness:
  "\<exists>e. get_stream sample_one ''a'' = Some e \<and>
    create_stream_with_data sample_env sample_one ''a'' (stream_options_new ''text/plain'') [''other''] False =
      (sample_one, Inr \<lparr>cw_status = AlreadyExists, cw_next_offset = entry_next_offset e, cw_closed = se_closed e\<rparr>)"
proof -
  obtain e where e: "get_stream sample_one ''a'' = Some e" using sample_one_present by blast
  have "map_option (\<lambda>e. (se_state e, expires_at (se_config e))) (get_stream sample_one ''a'') = Some (Active, None)"
    by code_simp
  then have live: "se_state e = Active" "expires_at (se_config e) = None" using e by auto
  have "map_sum id cw_status (snd sample_created) = Inr Created" by code_simp
  then obtain cw where "snd sample_created = Inr cw" "cw_status cw = Created"
    by (cases "snd sample_created") auto
  then have cw: "create_stream_with_data sample_env sample_empty ''a'' (stream_options_new ''text/plain'')
     [''hello'', ''x''] False = (sample_one, Inr cw)" "cw_status cw = Created"
    by (simp_all add: sample_created_def sample_one_def prod_eq_iff)
  have res: "resolve sample_env (stream_options_new ''text/plain'') (now_at sample_env 0) =
      Inr \<lparr>content_type = ''text/plain'', ttl_seconds = None, expires_at = None, created_closed = False\<rparr>"
    by code_simp
  have "reachable sample_empty" by (simp add: sample_empty_def reachable.init)
  from create_again_changes_nothing [OF this _ cw later.same e live(1) _ res, of "[''other'']" False] live(2) e
  show ?thesis by (auto simp: is_stream_expired_def payload_fits_def)
qed

section \<open>Deleting\<close>




text \<open>
  C23. A tombstone is kept only for its forks: no operation other than the
  expiry sweep leaves a tombstone without a live reference, so every
  tombstone has a present fork that names it as its source, and the last
  delete of a fork removes it.
\<close>

theorem tombstones_have_forks:
  assumes "reachable s" "op_ok E s op" "exec E s op = Some s'" "\<And>ord. op \<noteq> OpSweep ord"
    and "no_garbage s" "get_stream s' n = Some e" "se_state e = Tombstone"
  shows "no_garbage s' \<and> (\<exists>m f fi. get_stream s' m = Some f \<and> se_fork_info f = Some fi \<and> source_name fi = n)"
proof -
  have ng: "no_garbage s'" using exec_no_garbage assms(3-5) by blast
  have inv: "mem_inv s'" using exec_inv [OF reachable_mem_inv [OF assms(1)] assms(2,3)] .
  have "se_ref_count e \<noteq> 0" using ng assms(6,7) by (simp add: no_garbage_def)
  then obtain m where "m \<in> kids (parents s') n" using mem_inv_zero_count [OF inv assms(6)] by blast
  then obtain f fi where "get_stream s' m = Some f" "se_fork_info f = Some fi" "source_name fi = n"
    by (auto simp: kids_def parents_def split: option.splits)
  with ng show ?thesis by blast
qed

theorem tombstones_have_forks_witness:
  "\<exists>s' m f fi. exec sample_env sample_two (OpDelete ''a'') = Some s' \<and> no_garbage s' \<and>
    get_stream s' m = Some f \<and> se_fork_info f = Some fi \<and> source_name fi = ''a''"
proof -
  obtain s' where s': "exec sample_env sample_two (OpDelete ''a'') = Some s'" by simp
  have "map_option se_state (get_stream (fst (mem_delete sample_two ''a'')) ''a'') = Some Tombstone" by code_simp
  then obtain e where e: "get_stream s' ''a'' = Some e" "se_state e = Tombstone" using s' by auto
  have step1: "no_garbage sample_one"
    by (rule exec_no_garbage [of sample_empty sample_env op_create])
      (simp_all add: no_garbage_def sample_empty_def mem_new_def get_stream_def op_create_def sample_one_def)
  have "exec sample_env sample_one op_fork = Some sample_two"
  proof -
    have "create_fork sample_env sample_one ''b'' ''a'' (Some (offset_new 1 5))
      (stream_options_new ''text/plain'') \<noteq> None" by code_simp
    then show ?thesis by (auto simp: op_fork_def sample_two_def create_fork_def)
  qed
  then have "no_garbage sample_two" by (rule exec_no_garbage [OF step1]) (simp add: op_fork_def)
  from tombstones_have_forks [OF sample_two_reachable sample_two_fork_ok s' _ this e] s' show ?thesis by blast
qed

section \<open>The expiry sweep and the listing\<close>


text \<open>A store whose only stream has expired at time 5.\<close>

definition still_env :: "time \<Rightarrow> env" where
  "still_env t = sample_env\<lparr>now_at := \<lambda>_. t\<rparr>"

definition sample_expiring :: mem where
  "sample_expiring = fst (create_stream_with_data (still_env 0) sample_empty ''a''
     (with_ttl 5 (stream_options_new ''text/plain'')) [''hello''] False)"

lemma sample_expiring_dom: "fmdom' (mem_streams sample_expiring) = {''a''}"
  by (simp add: sample_expiring_def create_stream_with_data_def still_env_def sample_env_def sample_empty_def
      mem_new_def with_ttl_def) code_simp


text \<open>
  The listing does not depend on the order of the hash map: it holds
  exactly the visible streams with their metadata, each once, in ascending
  order of their names.
\<close>

theorem listing_is_sorted_and_exact:
  assumes "\<And>i. now_at E i = t" "set ord = fmdom' (mem_streams s)" "distinct ord"
  shows "list_streams E s ord = map (\<lambda>n. (n, entry_metadata (the (get_stream s n))))
    (sorted_list_of_set {n. \<exists>e. get_stream s n = Some e \<and> is_stream_visible t (se_config e) (se_state e)})"
  using assms by (rule list_streams_eq)

theorem listing_is_sorted_and_exact_witness:
  "list_streams (still_env 9) sample_expiring [''a''] = []"
proof -
  have "set [''a''] = fmdom' (mem_streams sample_expiring)" "distinct [''a'']" by (simp_all add: sample_expiring_dom)
  from listing_is_sorted_and_exact [OF _ this, of "still_env 9" 9]
  have l: "list_streams (still_env 9) sample_expiring [''a''] =
    map (\<lambda>n. (n, entry_metadata (the (get_stream sample_expiring n)))) (sorted_list_of_set
      {n. \<exists>e. get_stream sample_expiring n = Some e \<and> is_stream_visible 9 (se_config e) (se_state e)})"
    by (simp add: still_env_def)
  have "map_option (\<lambda>e. is_stream_visible 9 (se_config e) (se_state e)) (get_stream sample_expiring ''a'') = Some False"
    by code_simp
  then have "\<not> is_stream_visible 9 (se_config e) (se_state e)" if "get_stream sample_expiring n = Some e" for n e
    using get_stream_dom [OF that] that sample_expiring_dom by simp
  then have "{n. \<exists>e. get_stream sample_expiring n = Some e \<and> is_stream_visible 9 (se_config e) (se_state e)} = {}"
    by blast
  with l show ?thesis by simp
qed

section \<open>Where the code falls short\<close>

text \<open>
  A producer append that only closes the stream sends no notification: the
  stream is closed, and the counter its waiters watch is unchanged.
\<close>

theorem producer_close_is_silent:
  assumes "append_with_producer E s n [] ct p True sq = (s', Inr (Accepted ep q off c))"
  shows "\<exists>e e'. get_stream s n = Some e \<and> get_stream s' n = Some e' \<and> \<not> se_closed e \<and> se_closed e' \<and>
    se_notify e' = se_notify e"
  using assms
proof (cases rule: append_with_producer_Inr)
  case (acc e e0 pending c' ch s1 e1)
  have "\<not> se_closed e" using acc(3) by (auto simp: check_producer_def split: option.splits if_splits)
  with acc commit_messages_notify [OF acc(6)] show ?thesis by simp
qed simp

text \<open>
  A fork of a stream onto its own name, created while the stream expires
  between two readings of the clock, becomes its own source; a read of it
  follows that lineage forever.
\<close>

lemma lineage_chain_self:
  assumes "lookup n = Inr (Some fi)" "source_name fi = n"
  shows "lineage_chain lookup n ch = None"
proof (rule ccontr)
  assume "lineage_chain lookup n ch \<noteq> None"
  then obtain y where "lineage_chain lookup n ch = Some y" by blast
  then have "\<not> (lookup n = Inr (Some fi) \<and> source_name fi = n)"
    by (rule lineage_chain.raw_induct [where P = "\<lambda>l c ch y. \<not> (l c = Inr (Some fi) \<and> source_name fi = c)", rotated]) fastforce
  with assms show False by simp
qed

definition race_env :: env where
  "race_env = sample_env\<lparr>now_at := \<lambda>i. if i < 3 then 0 else 9\<rparr>"

definition self_fork :: "(mem \<times> create_stream_result res) option" where
  "self_fork = create_fork race_env sample_expiring ''a'' ''a'' None (stream_options_new ''text/plain'')"

theorem self_fork_never_returns:
  "\<exists>s'. self_fork = Some (s', Inr Created) \<and> mem_read (still_env 0) s' ''a'' Start = None"
proof -
  have "map_option snd self_fork = Some (Inr Created)" by code_simp
  then obtain s' where s': "self_fork = Some (s', Inr Created)" by auto
  have "map_option (\<lambda>(s, r). map_option (\<lambda>e. (se_state e, is_stream_expired 0 (se_config e),
      map_option source_name (se_fork_info e))) (get_stream s ''a'')) self_fork =
    Some (Some (Active, False, Some ''a''))" by code_simp
  from this [unfolded s'] obtain e fi where e: "get_stream s' ''a'' = Some e" "se_state e = Active"
      "\<not> is_stream_expired 0 (se_config e)" "se_fork_info e = Some fi" "source_name fi = ''a''"
    by auto
  have "lineage_chain (fork_lookup s') ''a'' [] = None"
    using e by (intro lineage_chain_self [of _ _ fi]) (simp_all add: fork_lookup_def)
  then have "finish_read s' Start (prepare_read e Start) = None"
    using e by (simp add: finish_read_def prepare_read_def pending_finish_def read_source_chain_def build_read_plan_def
        Let_def)
  moreover have "now_at (still_env 0) i = 0" for i by (simp add: still_env_def)
  ultimately have "mem_read (still_env 0) s' ''a'' Start = None" using e by (simp add: mem_read_def check_stream_access_def)
  with s' show ?thesis by blast
qed

end
