(* ===== verification/DS_Http.thy ===== *)
theory DS_Http
  imports DS_Memory
begin

text \<open>
  The HTTP vocabulary of the handlers: problem responses (\<open>protocol/problem.rs\<close>,
  \<open>protocol/error.rs\<close>), the response builder and the helpers of
  \<open>handlers/common.rs\<close>, and the admission of storage jobs (\<open>execution.rs\<close>).

  Header maps are partial functions from the names as the source writes them;
  \<open>insert\<close> is function update. A body is the bytes that are sent.
\<close>

section \<open>Responses\<close>

type_synonym response_headers = "string \<rightharpoonup> string"

record response =
  rs_status :: nat
  rs_headers :: response_headers
  rs_body :: "bytes option"

definition stream_response_new :: "nat \<Rightarrow> response" where
  "stream_response_new status = \<lparr>rs_status = status, rs_headers = Map.empty, rs_body = None\<rparr>"

definition rs_with_body :: "bytes \<Rightarrow> response \<Rightarrow> response" where
  "rs_with_body b r = r\<lparr>rs_body := Some b\<rparr>"

definition rs_header :: "string \<Rightarrow> string \<Rightarrow> response \<Rightarrow> response" where
  "rs_header n v r = r\<lparr>rs_headers := (rs_headers r)(n \<mapsto> v)\<rparr>"

definition rs_content_type :: "string \<Rightarrow> response \<Rightarrow> response" where
  "rs_content_type ct r = rs_header ''content-type'' ct r"

definition rs_next_offset :: "offset \<Rightarrow> response \<Rightarrow> response" where
  "rs_next_offset off r = rs_header ''Stream-Next-Offset'' (as_str off) r"

definition rs_closed_if :: "bool \<Rightarrow> response \<Rightarrow> response" where
  "rs_closed_if closed r = (if closed then rs_header ''Stream-Closed'' ''true'' r else r)"

definition rs_up_to_date :: "bool \<Rightarrow> response \<Rightarrow> response" where
  "rs_up_to_date v r = rs_header ''Stream-Up-To-Date'' (if v then ''true'' else ''false'') r"

definition rs_cursor :: "string \<Rightarrow> response \<Rightarrow> response" where
  "rs_cursor c r = rs_header ''Stream-Cursor'' c r"

definition rs_etag :: "string \<Rightarrow> response \<Rightarrow> response" where
  "rs_etag e r = rs_header ''etag'' e r"

definition rs_location :: "string \<Rightarrow> response \<Rightarrow> response" where
  "rs_location l r = rs_header ''location'' l r"

lemmas response_defs = stream_response_new_def rs_with_body_def rs_header_def rs_content_type_def
  rs_next_offset_def rs_closed_if_def rs_up_to_date_def rs_cursor_def rs_etag_def rs_location_def

section \<open>Problem responses\<close>

record problem_details =
  problem_type :: string
  title :: string
  status :: nat
  code :: string
  detail :: "string option"
  inst :: "string option"

definition problem_details_new :: "string \<Rightarrow> string \<Rightarrow> nat \<Rightarrow> string \<Rightarrow> problem_details" where
  "problem_details_new ty ti st co =
     \<lparr>problem_type = ty, title = ti, status = st, code = co, detail = None, inst = None\<rparr>"

definition details_of_error :: "error \<Rightarrow> problem_details" where
  "details_of_error e =
     (let d = error_problem e in
      (problem_details_new (pd_type_uri d) (pd_title d) (pd_status d) (pd_code d))
        \<lparr>detail := Some (problem_detail_text e)\<rparr>)"

record problem_response =
  problem :: problem_details
  pr_headers :: response_headers

definition problem_response_new :: "problem_details \<Rightarrow> problem_response" where
  "problem_response_new p = \<lparr>problem = p, pr_headers = Map.empty\<rparr>"

definition pr_with_header :: "string \<Rightarrow> string \<Rightarrow> problem_response \<Rightarrow> problem_response" where
  "pr_with_header n v p = p\<lparr>pr_headers := (pr_headers p)(n \<mapsto> v)\<rparr>"

definition pr_with_instance :: "string \<Rightarrow> problem_response \<Rightarrow> problem_response" where
  "pr_with_instance i p = p\<lparr>problem := (problem p)\<lparr>inst := Some i\<rparr>\<rparr>"

definition problem_of :: "error \<Rightarrow> problem_response" where
  "problem_of e =
     (let r = problem_response_new (details_of_error e) in
      case retry_after e of
        Some secs \<Rightarrow> pr_with_header ''retry-after'' (nat_to_string secs) r
      | None \<Rightarrow> r)"

type_synonym 'a problem_result = "problem_response + 'a"

text \<open>The wire form; \<open>serde_json\<close> prints the object with the fields that are present.\<close>

definition problem_json :: "problem_details \<Rightarrow> json" where
  "problem_json p = JObject
     ([(''type'', JString (problem_type p)), (''title'', JString (title p)),
       (''status'', JNumber (nat_to_string (status p))), (''code'', JString (code p))]
      @ (case detail p of Some d \<Rightarrow> [(''detail'', JString d)] | None \<Rightarrow> [])
      @ (case inst p of Some i \<Rightarrow> [(''instance'', JString i)] | None \<Rightarrow> []))"

text \<open>\<open>StatusCode::from_u16\<close> accepts 100 to 999.\<close>

definition problem_into_response :: "env \<Rightarrow> problem_response \<Rightarrow> response" where
  "problem_into_response E p =
     \<lparr>rs_status = (if 100 \<le> status (problem p) \<and> status (problem p) < 1000 then status (problem p) else 500),
      rs_headers = (Map.empty(''content-type'' \<mapsto> ''application/problem+json'')) ++ pr_headers p,
      rs_body = Some (to_vec E (problem_json (problem p)))\<rparr>"

lemmas problem_resp_defs = problem_response_new_def pr_with_header_def pr_with_instance_def
  details_of_error_def problem_details_new_def

section \<open>Shared helpers of the handlers\<close>

text \<open>What \<open>axum::body::to_bytes(body, limit)\<close> yields.\<close>

datatype body_outcome = BodyBytes bytes | BodyTooLong | BodyFailed string

definition read_body :: "nat \<Rightarrow> body_outcome \<Rightarrow> bytes problem_result" where
  "read_body limit b = (case b of
     BodyBytes bs \<Rightarrow> Inr bs
   | BodyTooLong \<Rightarrow> Inl (problem_response_new
       ((problem_details_new ''/errors/request-body-too-large'' ''Request Body Too Large'' 413
          ''REQUEST_BODY_TOO_LARGE'')
        \<lparr>detail := Some (''request body exceeds the '' @ nat_to_string limit @ ''-byte limit'')\<rparr>))
   | BodyFailed e \<Rightarrow> Inl (problem_response_new
       ((problem_details_new ''/errors/invalid-body'' ''Invalid Body'' 400 ''INVALID_BODY'')
        \<lparr>detail := Some (''failed to read request body: '' @ e)\<rparr>)))"

definition parse_stream_closed :: "header_map \<Rightarrow> bool" where
  "parse_stream_closed hs =
     (case header_str hs ''Stream-Closed'' of Some v \<Rightarrow> parse_bool v | None \<Rightarrow> False)"

definition extract_messages_http :: "env \<Rightarrow> bytes \<Rightarrow> string \<Rightarrow> bytes list problem_result" where
  "extract_messages_http E body ct = map_sum problem_of id (extract_messages E body ct)"

definition with_instance :: "string \<Rightarrow> 'a problem_result \<Rightarrow> 'a problem_result" where
  "with_instance uri r = map_sum (pr_with_instance uri) id r"

section \<open>Admission of storage jobs\<close>

datatype execution_error = ExecBusy | ExecClosed | ExecFailed

fun execution_error_display :: "execution_error \<Rightarrow> string" where
  "execution_error_display ExecBusy = ''all storage execution slots are occupied''"
| "execution_error_display ExecClosed = ''storage execution is shutting down''"
| "execution_error_display ExecFailed = ''storage job did not complete normally; outcome may be uncertain''"

definition into_domain :: "execution_error \<Rightarrow> error" where
  "into_domain e = (case e of
     ExecFailed \<Rightarrow> Storage (execution_error_display e)
   | _ \<Rightarrow> storage_unavailable ''execution'' ''admission'' (execution_error_display e))"

text \<open>
  \<open>AsyncStreams::run\<close> with the outcome of the admission: a job that is not
  admitted does not run.
\<close>

definition run_job :: "execution_error option \<Rightarrow> (execution_error \<Rightarrow> 'e) \<Rightarrow> 's \<Rightarrow> ('s \<Rightarrow> 's \<times> ('e + 'a)) \<Rightarrow> 's \<times> ('e + 'a)" where
  "run_job admission from_execution s work = (case admission of
     Some e \<Rightarrow> (s, Inl (from_execution e))
   | None \<Rightarrow> work s)"

text \<open>Later readings of the clock by the same request.\<close>

definition skip_readings :: "nat \<Rightarrow> env \<Rightarrow> env" where
  "skip_readings k E = E\<lparr>now_at := \<lambda>i. now_at E (i + k)\<rparr>"

end
