(* ===== verification/DS_Sse.thy ===== *)
theory DS_Sse
  imports DS_Http
begin

text \<open>
  The Server-Sent-Events wire format of \<open>protocol/sse.rs\<close>. A Rust \<open>String\<close> is its
  UTF-8 bytes, so texts are byte strings here; \<open>from_utf8_lossy\<close> replaces each
  maximal invalid sequence by the three bytes of U+FFFD as the standard library
  does.
\<close>

section \<open>UTF-8 with replacement\<close>

definition byte_in :: "nat \<Rightarrow> nat \<Rightarrow> char \<Rightarrow> bool" where
  "byte_in lo hi c \<longleftrightarrow> lo \<le> of_char c \<and> of_char c \<le> hi"

definition is_cont :: "char \<Rightarrow> bool" where
  "is_cont c \<longleftrightarrow> byte_in 0x80 0xBF c"

text \<open>The continuation bytes that may follow a leading byte, first to last; \<open>None\<close>: no leading byte.\<close>

definition cont_ranges :: "char \<Rightarrow> (nat \<times> nat) list option" where
  "cont_ranges c =
     (if byte_in 0 0x7F c then Some []
      else if byte_in 0xC2 0xDF c then Some [(0x80, 0xBF)]
      else if byte_in 0xE0 0xE0 c then Some [(0xA0, 0xBF), (0x80, 0xBF)]
      else if byte_in 0xE1 0xEC c \<or> byte_in 0xEE 0xEF c then Some [(0x80, 0xBF), (0x80, 0xBF)]
      else if byte_in 0xED 0xED c then Some [(0x80, 0x9F), (0x80, 0xBF)]
      else if byte_in 0xF0 0xF0 c then Some [(0x90, 0xBF), (0x80, 0xBF), (0x80, 0xBF)]
      else if byte_in 0xF1 0xF3 c then Some [(0x80, 0xBF), (0x80, 0xBF), (0x80, 0xBF)]
      else if byte_in 0xF4 0xF4 c then Some [(0x80, 0x8F), (0x80, 0xBF), (0x80, 0xBF)]
      else None)"

text \<open>How many of the following bytes match, and whether all that are needed do.\<close>

fun match_cont :: "(nat \<times> nat) list \<Rightarrow> bytes \<Rightarrow> nat \<times> bool" where
  "match_cont [] bs = (0, True)"
| "match_cont (r # rs) [] = (0, False)"
| "match_cont ((lo, hi) # rs) (b # bs) =
     (if byte_in lo hi b then (case match_cont rs bs of (k, ok) \<Rightarrow> (Suc k, ok)) else (0, False))"

definition replacement :: bytes where
  "replacement = map char_of [0xEF, 0xBF, 0xBD :: nat]"

function from_utf8_lossy :: "bytes \<Rightarrow> bytes" where
  "from_utf8_lossy [] = []"
| "from_utf8_lossy (c # bs) = (case cont_ranges c of
     None \<Rightarrow> replacement @ from_utf8_lossy bs
   | Some rs \<Rightarrow>
       (let (k, ok) = match_cont rs bs in
        (if ok then c # take k bs else replacement) @ from_utf8_lossy (drop k bs)))"
  by pat_completeness auto
termination by (relation "measure length") auto

section \<open>Frames\<close>

text \<open>The loop of \<open>split_lines\<close> with the current line: CRLF, CR and LF all end a line.\<close>

fun skip_lf :: "bytes \<Rightarrow> bytes" where
  "skip_lf [] = []"
| "skip_lf (d # ds) = (if d = CHR 0x0A then ds else d # ds)"

lemma length_skip_lf [termination_simp]: "length (skip_lf cs) < Suc (length cs)"
  by (cases cs) auto

fun split_lines_loop :: "bytes \<Rightarrow> bytes \<Rightarrow> bytes list" where
  "split_lines_loop cur [] = [cur]"
| "split_lines_loop cur (c # cs) =
     (if c = CHR 0x0D then cur # split_lines_loop [] (skip_lf cs)
      else if c = CHR 0x0A then cur # split_lines_loop [] cs
      else split_lines_loop (cur @ [c]) cs)"

definition split_lines :: "bytes \<Rightarrow> bytes list" where
  "split_lines body = split_lines_loop [] body"

definition format_raw_data_frame :: "bytes \<Rightarrow> bytes" where
  "format_raw_data_frame body =
     ''event: data'' @ [CHR 0x0A] @
     concat (map (\<lambda>line. ''data:'' @ line @ [CHR 0x0A]) (split_lines body)) @ [CHR 0x0A]"

definition format_data_frame :: "env \<Rightarrow> bytes \<Rightarrow> bool \<Rightarrow> bool \<Rightarrow> bytes" where
  "format_data_frame E d is_binary is_json = format_raw_data_frame
     (if is_binary then base64_encode E d
      else if is_json then ''['' @ from_utf8_lossy d @ '']''
      else from_utf8_lossy d)"

text \<open>The loop of \<open>format_data_frames\<close> over a JSON batch: a comma before every message but the first.\<close>

fun array_content :: "nat \<Rightarrow> bytes list \<Rightarrow> bytes" where
  "array_content i [] = []"
| "array_content i (m # ms) = (if i > 0 then '','' else []) @ from_utf8_lossy m @ array_content (Suc i) ms"

definition format_data_frames :: "env \<Rightarrow> bytes list \<Rightarrow> bool \<Rightarrow> bool \<Rightarrow> bytes" where
  "format_data_frames E msgs is_binary is_json =
     (if msgs = [] then []
      else if is_json then format_raw_data_frame (''['' @ array_content 0 msgs @ '']'')
      else concat (map (\<lambda>m. format_data_frame E m is_binary False) msgs))"

record control_payload =
  cp_next_offset :: string
  cp_cursor :: "string option"
  cp_up_to_date :: "bool option"
  cp_closed :: "bool option"

text \<open>The derived serialization in camel case, absent fields skipped.\<close>

definition control_json :: "control_payload \<Rightarrow> json" where
  "control_json p = JObject
     ([(''streamNextOffset'', JString (cp_next_offset p))]
      @ (case cp_cursor p of Some c \<Rightarrow> [(''streamCursor'', JString c)] | None \<Rightarrow> [])
      @ (case cp_up_to_date p of Some b \<Rightarrow> [(''upToDate'', JBool b)] | None \<Rightarrow> [])
      @ (case cp_closed p of Some b \<Rightarrow> [(''streamClosed'', JBool b)] | None \<Rightarrow> []))"

definition format_control_frame :: "env \<Rightarrow> control_payload \<Rightarrow> bytes" where
  "format_control_frame E p =
     ''event: control'' @ [CHR 0x0A] @ ''data:'' @ to_vec E (control_json p) @ [CHR 0x0A, CHR 0x0A]"

definition format_keepalive_frame :: bytes where
  "format_keepalive_frame = '':'' @ [CHR 0x0A, CHR 0x0A]"

definition is_text_content_type :: "string \<Rightarrow> bool" where
  "is_text_content_type ct \<longleftrightarrow> strip_prefix ''text/'' ct \<noteq> None \<or> ct \<in> {''application/json''}"

definition is_binary_content_type :: "string \<Rightarrow> bool" where
  "is_binary_content_type ct \<longleftrightarrow> \<not> is_text_content_type ct"

section \<open>Lemmas\<close>

lemma match_cont_length: "match_cont rs bs = (k, ok) \<Longrightarrow> k \<le> length bs"
  by (induction rs bs arbitrary: k rule: match_cont.induct) (auto split: if_splits prod.splits)

lemma from_utf8_lossy_ascii: "\<forall>c\<in>set bs. byte_in 0 0x7F c \<Longrightarrow> from_utf8_lossy bs = bs"
  by (induction bs) (auto simp: cont_ranges_def)

text \<open>No line that is split off contains a line end.\<close>

lemma split_lines_loop_clean:
  "CHR 0x0D \<notin> set cur \<Longrightarrow> CHR 0x0A \<notin> set cur \<Longrightarrow> l \<in> set (split_lines_loop cur cs) \<Longrightarrow>
    CHR 0x0D \<notin> set l \<and> CHR 0x0A \<notin> set l"
  by (induction cur cs arbitrary: l rule: split_lines_loop.induct) (auto split: if_splits)

text \<open>
  A client's reading of one event: the text of each line after \<open>data:\<close>, up to
  the blank line that ends the event.
\<close>

fun sse_lines :: "bytes \<Rightarrow> bytes list" where
  "sse_lines bs = split_on (CHR 0x0A) bs"

definition sse_data :: "bytes \<Rightarrow> bytes list" where
  "sse_data frame = List.map_filter (strip_prefix ''data:'') (sse_lines frame)"

lemma split_on_line:
  "c \<notin> set l \<Longrightarrow> split_on c (l @ c # rest) = l # split_on c rest"
  by (induction l) auto

lemma map_filter_Cons: "List.map_filter f (x # xs) = (case f x of Some y \<Rightarrow> y # List.map_filter f xs | None \<Rightarrow> List.map_filter f xs)"
  by (simp add: List.map_filter_simps split: option.splits)

lemma strip_prefix_append [simp]: "strip_prefix p (p @ s) = Some s"
  by (induction p) auto

lemma sse_data_lines:
  assumes "\<forall>l\<in>set ls. CHR 0x0A \<notin> set l"
  shows "List.map_filter (strip_prefix ''data:'')
    (split_on (CHR 0x0A) (concat (map (\<lambda>line. ''data:'' @ line @ [CHR 0x0A]) ls) @ [CHR 0x0A])) = ls"
  using assms
proof (induction ls)
  case (Cons l ls)
  let ?rest = "concat (map (\<lambda>line. ''data:'' @ line @ [CHR 0x0A]) ls) @ [CHR 0x0A]"
  have "CHR 0x0A \<notin> set (''data:'' @ l)" using Cons.prems by simp
  then have "split_on (CHR 0x0A) ((''data:'' @ l) @ CHR 0x0A # ?rest) = (''data:'' @ l) # split_on (CHR 0x0A) ?rest"
    by (rule split_on_line)
  moreover have "strip_prefix ''data:'' (''data:'' @ l) = Some l" by (rule strip_prefix_append)
  ultimately show ?case using Cons by (simp add: map_filter_Cons)
qed (simp add: List.map_filter_simps)

lemma sse_data_frame: "sse_data (format_raw_data_frame body) = split_lines body"
proof -
  let ?b = "concat (map (\<lambda>line. ''data:'' @ line @ [CHR 0x0A]) (split_lines body)) @ [CHR 0x0A]"
  have "CHR 0x0A \<notin> set ''event: data''" by simp
  then have "split_on (CHR 0x0A) (''event: data'' @ CHR 0x0A # ?b) = ''event: data'' # split_on (CHR 0x0A) ?b"
    by (rule split_on_line)
  moreover have "\<forall>l\<in>set (split_lines body). CHR 0x0A \<notin> set l"
    using split_lines_loop_clean [of "[]" _ body] by (auto simp: split_lines_def)
  ultimately show ?thesis
    using sse_data_lines [of "split_lines body"]
    by (simp add: sse_data_def format_raw_data_frame_def map_filter_Cons)
qed

text \<open>Joining lines undoes the splitting when there is no carriage return.\<close>

fun join_lf :: "bytes list \<Rightarrow> bytes" where
  "join_lf [] = []"
| "join_lf [l] = l"
| "join_lf (l # ls) = l @ CHR 0x0A # join_lf ls"

lemma split_lines_loop_nonempty [simp]: "split_lines_loop cur cs \<noteq> []"
  by (induction cur cs rule: split_lines_loop.induct) auto

lemma join_lf_Cons: "ls \<noteq> [] \<Longrightarrow> join_lf (l # ls) = l @ CHR 0x0A # join_lf ls"
  by (cases ls) auto

lemma join_split_lines: "CHR 0x0D \<notin> set cs \<Longrightarrow> join_lf (split_lines_loop cur cs) = cur @ cs"
  by (induction cur cs rule: split_lines_loop.induct) (auto simp: join_lf_Cons)

end
