(* ===== verification/DS_Get.thy ===== *)
theory DS_Get
  imports DS_Sse DS_Session
begin

text \<open>
  The GET handler of \<open>handlers/get.rs\<close> in its three modes. Every \<open>await\<close> of the
  source lets other requests run, so the handler is cut there: the head
  request, the catch-up read, the first and the second half of a long poll,
  and the event loop of the SSE body are separate definitions, each over the
  storage and the cursor counter at its own time. \<open>None\<close>: the storage read does
  not return.
\<close>

type_synonym cursor = u64

record read_query =
  q_offset :: "string option"
  q_live :: "string option"

definition resolve_offset :: "read_query \<Rightarrow> string problem_result" where
  "resolve_offset q = (case q_live q of
     Some live \<Rightarrow> (case q_offset q of
         Some off \<Rightarrow> Inr off
       | None \<Rightarrow> Inl (problem_of (InvalidHeader ''offset''
           (''offset query parameter is required for live='' @ live @ '' mode''))))
   | None \<Rightarrow> Inr (case q_offset q of Some off \<Rightarrow> off | None \<Rightarrow> ''-1''))"

section \<open>Responses\<close>

definition generate_etag :: "string \<Rightarrow> read_result \<Rightarrow> string" where
  "generate_etag start r =
     (let en = as_str (rr_next_offset r) in
      if rr_closed r \<and> rr_at_tail r then [CHR 0x22] @ start @ '':'' @ en @ '':c'' @ [CHR 0x22]
      else [CHR 0x22] @ start @ '':'' @ en @ [CHR 0x22])"

definition build_304_response :: "read_result \<Rightarrow> response" where
  "build_304_response r = rs_up_to_date True (rs_next_offset (rr_next_offset r) (stream_response_new 304))"

definition compute_etag :: "read_result \<Rightarrow> string \<Rightarrow> string option \<Rightarrow> string \<times> response option" where
  "compute_etag r raw_offset if_none_match =
     (let etag = generate_etag raw_offset r in
      (etag, case if_none_match of
         Some client \<Rightarrow> if client = etag then Some (build_304_response r) else None
       | None \<Rightarrow> None))"

definition build_body :: "read_result \<Rightarrow> string \<Rightarrow> bytes" where
  "build_body r ct =
     (if is_json_content_type ct then wrap_read_iter (rr_messages r)
      else if rr_messages r = [] then [] else concat (rr_messages r))"

definition build_data_response :: "read_result \<Rightarrow> string \<Rightarrow> string \<Rightarrow> string option \<Rightarrow> response" where
  "build_data_response r ct etag cursor_val =
     (let resp = rs_with_body (build_body r ct) (rs_closed_if (rr_closed r \<and> rr_at_tail r) (rs_etag etag
           (rs_up_to_date (rr_at_tail r) (rs_next_offset (rr_next_offset r) (rs_content_type ct
             (stream_response_new 200)))))) in
      case cursor_val of Some c \<Rightarrow> rs_cursor c resp | None \<Rightarrow> resp)"

definition build_204_response :: "cursor \<Rightarrow> offset \<Rightarrow> bool \<Rightarrow> cursor \<times> response" where
  "build_204_response cur off closed = (case cursor_generate cur off of (cur', c) \<Rightarrow>
     (cur', rs_cursor c (rs_closed_if closed (rs_up_to_date True (rs_next_offset off (stream_response_new 204))))))"

section \<open>The head of the request and the catch-up mode\<close>

datatype read_mode = CatchUp | LongPoll | Sse

text \<open>The part before the first storage read: offset, stream and mode, and the content type.\<close>

definition read_stream_begin ::
  "env \<Rightarrow> execution_error option \<Rightarrow> string \<Rightarrow> read_query \<Rightarrow> mem \<Rightarrow>
   (string \<times> offset \<times> string \<times> read_mode) problem_result" where
  "read_stream_begin E admission name q s =
     (case resolve_offset q of
        Inl p \<Rightarrow> Inl p
      | Inr raw_offset \<Rightarrow>
     (case offset_from_str raw_offset of
        Inl er \<Rightarrow> Inl (problem_of er)
      | Inr off \<Rightarrow>
     (case run_job admission into_domain s (\<lambda>s. (s, mem_head E s name)) of
        (_, Inl er) \<Rightarrow> Inl (problem_of er)
      | (_, Inr m) \<Rightarrow>
        let ct = content_type (md_config m) in
        (case q_live q of
           None \<Rightarrow> Inr (raw_offset, off, ct, CatchUp)
         | Some live \<Rightarrow>
             if live = ''long-poll'' then Inr (raw_offset, off, ct, LongPoll)
             else if live = ''sse'' then Inr (raw_offset, off, ct, Sse)
             else Inl (problem_of (InvalidHeader ''live'' (''unsupported live mode: '' @ live)))))))"

text \<open>\<open>AsyncStreams::read\<close> and \<open>subscribe_and_read\<close>.\<close>

definition service_read ::
  "env \<Rightarrow> execution_error option \<Rightarrow> string \<Rightarrow> offset \<Rightarrow> mem \<Rightarrow> (mem \<times> read_result res) option" where
  "service_read E admission name off s = (case admission of
     Some e \<Rightarrow> Some (s, Inl (into_domain e))
   | None \<Rightarrow> mem_read E s name off)"

definition subscribe_and_read ::
  "env \<Rightarrow> execution_error option \<Rightarrow> string \<Rightarrow> offset \<Rightarrow> mem \<Rightarrow> (mem \<times> (nat \<times> read_result) res) option" where
  "subscribe_and_read E admission name off s = (case admission of
     Some e \<Rightarrow> Some (s, Inl (into_domain e))
   | None \<Rightarrow> (case subscribe E s name of
       None \<Rightarrow> Some (s, Inl (NotFound name))
     | Some rcv \<Rightarrow> map_option (\<lambda>(s', r). (s', map_sum id (Pair rcv) r)) (mem_read (skip_readings 1 E) s name off)))"

definition read_catch_up ::
  "env \<Rightarrow> execution_error option \<Rightarrow> string \<Rightarrow> offset \<Rightarrow> string \<Rightarrow> string option \<Rightarrow> string \<Rightarrow> mem \<Rightarrow>
   (mem \<times> response problem_result) option" where
  "read_catch_up E admission name off raw_offset if_none_match ct s =
     map_option (\<lambda>(s', res). (s', case res of
         Inl er \<Rightarrow> Inl (problem_of er)
       | Inr r \<Rightarrow> (case compute_etag r raw_offset if_none_match of
           (etag, Some resp) \<Rightarrow> Inr resp
         | (etag, None) \<Rightarrow> Inr (build_data_response r ct etag None))))
       (service_read E admission name off s)"

section \<open>Long poll\<close>

datatype long_poll = PollDone "response problem_result" | PollWait nat offset

text \<open>Up to the \<open>select!\<close>: subscribe, read, and answer or wait at the tail.\<close>

definition read_long_poll ::
  "env \<Rightarrow> execution_error option \<Rightarrow> string \<Rightarrow> offset \<Rightarrow> string \<Rightarrow> string option \<Rightarrow> string \<Rightarrow> cursor \<Rightarrow> mem \<Rightarrow>
   (mem \<times> cursor \<times> long_poll) option" where
  "read_long_poll E admission name off raw_offset if_none_match ct cur s =
     map_option (\<lambda>(s', res). (case res of
         Inl er \<Rightarrow> (s', cur, PollDone (Inl (problem_of er)))
       | Inr (rcv, r) \<Rightarrow>
         (case compute_etag r raw_offset if_none_match of
            (etag, Some resp) \<Rightarrow> (s', cur, PollDone (Inr resp))
          | (etag, None) \<Rightarrow>
            if rr_messages r \<noteq> [] then
              (case cursor_generate cur (rr_next_offset r) of (cur', c) \<Rightarrow>
                 (s', cur', PollDone (Inr (build_data_response r ct etag (Some c)))))
            else if rr_closed r \<and> rr_at_tail r then
              (case build_204_response cur (rr_next_offset r) True of (cur', resp) \<Rightarrow>
                 (s', cur', PollDone (Inr resp)))
            else (s', cur, PollWait rcv (rr_next_offset r)))))
       (subscribe_and_read E admission name off s)"

definition handle_long_poll_wake ::
  "env \<Rightarrow> execution_error option \<Rightarrow> string \<Rightarrow> offset \<Rightarrow> string \<Rightarrow> string \<Rightarrow> cursor \<Rightarrow> mem \<Rightarrow>
   (mem \<times> cursor \<times> response problem_result) option" where
  "handle_long_poll_wake E admission name off raw_offset ct cur s =
     map_option (\<lambda>(s', res). (case res of
         Inl er \<Rightarrow> (s', cur, Inl (problem_of er))
       | Inr r \<Rightarrow>
         if rr_messages r = [] then
           (case build_204_response cur (rr_next_offset r) (rr_closed r \<and> rr_at_tail r) of (cur', resp) \<Rightarrow>
              (s', cur', Inr resp))
         else
           (case cursor_generate cur (rr_next_offset r) of (cur', c) \<Rightarrow>
              (s', cur', Inr (build_data_response r ct (generate_etag raw_offset r) (Some c))))))
       (service_read E admission name off s)"

datatype poll_event = Notified | TimedOut | ShuttingDown

definition long_poll_select ::
  "env \<Rightarrow> execution_error option \<Rightarrow> string \<Rightarrow> offset \<Rightarrow> string \<Rightarrow> poll_event \<Rightarrow> cursor \<Rightarrow> mem \<Rightarrow>
   (mem \<times> cursor \<times> response problem_result) option" where
  "long_poll_select E admission name tail_offset ct ev cur s = (case ev of
     ShuttingDown \<Rightarrow> (case build_204_response cur tail_offset False of (cur', resp) \<Rightarrow> Some (s, cur', Inr resp))
   | _ \<Rightarrow> handle_long_poll_wake E admission name tail_offset (as_str tail_offset) ct cur s)"

section \<open>SSE\<close>

record sse_encoding =
  is_binary :: bool
  is_json :: bool

definition build_sse_control :: "cursor \<Rightarrow> read_result \<Rightarrow> cursor \<times> control_payload" where
  "build_sse_control cur r =
     (let closed_at_tail = rr_closed r \<and> rr_at_tail r;
          (cur', c) = (if closed_at_tail then (cur, None)
                       else map_prod id Some (cursor_generate cur (rr_next_offset r))) in
      (cur', \<lparr>cp_next_offset = as_str (rr_next_offset r), cp_cursor = c,
              cp_up_to_date = (if rr_at_tail r then Some True else None),
              cp_closed = (if closed_at_tail then Some True else None)\<rparr>))"

text \<open>
  The loop of \<open>encode_read_as_sse_frames\<close>: one control event after every
  message, whose offset is counted back from the tail. The subtractions wrap.
\<close>

fun sse_message_controls ::
  "u64 \<Rightarrow> u64 \<Rightarrow> bool \<Rightarrow> bool \<Rightarrow> u64 \<Rightarrow> cursor \<Rightarrow> bytes list \<Rightarrow> cursor \<times> (bytes \<times> control_payload) list" where
  "sse_message_controls tail_seq tail_bytes at_tail closed remaining cur [] = (cur, [])"
| "sse_message_controls tail_seq tail_bytes at_tail closed remaining cur (m # ms) =
     (let remaining' = remaining - u64_of_usize (length m);
          remaining_messages = u64_of_usize (length ms);
          here = (remaining_messages = 0 \<and> at_tail);
          (cur', ctl) = build_sse_control cur
             \<lparr>rr_messages = [], rr_next_offset = offset_new (tail_seq - remaining_messages) (tail_bytes - remaining'),
              rr_at_tail = here, rr_closed = closed \<and> here\<rparr>;
          (cur'', rest) = sse_message_controls tail_seq tail_bytes at_tail closed remaining' cur' ms in
      (cur'', (m, ctl) # rest))"

text \<open>\<open>None\<close>: the tail offset is a sentinel (the \<open>expect\<close> panics).\<close>

definition encode_read_as_sse_frames ::
  "env \<Rightarrow> cursor \<Rightarrow> read_result \<Rightarrow> sse_encoding \<Rightarrow> (cursor \<times> bytes) option" where
  "encode_read_as_sse_frames E cur r enc =
     (if is_json enc \<or> rr_messages r = [] then
        (case build_sse_control cur r of (cur', ctl) \<Rightarrow>
           Some (cur', format_data_frames E (rr_messages r) False (is_json enc) @ format_control_frame E ctl))
      else (case parse_components (rr_next_offset r) of
          None \<Rightarrow> None
        | Some (tail_seq, tail_bytes) \<Rightarrow>
          (case sse_message_controls tail_seq tail_bytes (rr_at_tail r) (rr_closed r)
                  (payload_bytes (rr_messages r)) cur (rr_messages r) of (cur', ctls) \<Rightarrow>
             Some (cur', concat (map (\<lambda>(m, ctl).
               format_data_frame E m (is_binary enc) False @ format_control_frame E ctl) ctls)))))"

text \<open>The wait loop of \<open>build_sse_byte_stream\<close>: the resume offset and the idle deadline.\<close>

record sse_state =
  ss_tail :: offset
  ss_idle_deadline :: "nat option"

datatype sse_event = RecvOk | RecvLagged | RecvClosed | KeepaliveTick | IdleDeadline | SseShutdown

datatype sse_next = SseContinue sse_state | SseEnd

definition sse_start ::
  "env \<Rightarrow> nat \<Rightarrow> nat \<Rightarrow> cursor \<Rightarrow> read_result \<Rightarrow> sse_encoding \<Rightarrow> (cursor \<times> bytes \<times> sse_next) option" where
  "sse_start E instant reconnect_secs cur r enc =
     map_option (\<lambda>(cur', frames).
         (cur', frames,
          if rr_closed r \<and> rr_at_tail r then SseEnd
          else SseContinue \<lparr>ss_tail = rr_next_offset r,
                 ss_idle_deadline = (if reconnect_secs > 0 then Some (instant + reconnect_secs) else None)\<rparr>))
       (encode_read_as_sse_frames E cur r enc)"

definition sse_step ::
  "env \<Rightarrow> execution_error option \<Rightarrow> string \<Rightarrow> nat \<Rightarrow> nat \<Rightarrow> sse_encoding \<Rightarrow> sse_event \<Rightarrow> cursor \<Rightarrow> mem \<Rightarrow>
   sse_state \<Rightarrow> (mem \<times> cursor \<times> bytes \<times> sse_next) option" where
  "sse_step E admission name instant reconnect_secs enc ev cur s st = (case ev of
     KeepaliveTick \<Rightarrow> Some (s, cur, format_keepalive_frame, SseContinue st)
   | IdleDeadline \<Rightarrow> Some (s, cur, [], SseEnd)
   | SseShutdown \<Rightarrow> Some (s, cur, [], SseEnd)
   | RecvClosed \<Rightarrow> (case service_read E admission name (ss_tail st) s of
         None \<Rightarrow> None
       | Some (s', Inl _) \<Rightarrow> Some (s', cur, [], SseEnd)
       | Some (s', Inr r) \<Rightarrow>
           map_option (\<lambda>(cur', frames). (s', cur', frames, SseEnd)) (encode_read_as_sse_frames E cur r enc))
   | _ \<Rightarrow> (case service_read E admission name (ss_tail st) s of
         None \<Rightarrow> None
       | Some (s', Inl _) \<Rightarrow> Some (s', cur, [], SseEnd)
       | Some (s', Inr r) \<Rightarrow>
           map_option (\<lambda>(cur', frames).
               (s', cur', frames,
                if rr_closed r \<and> rr_at_tail r then SseEnd
                else SseContinue \<lparr>ss_tail = rr_next_offset r,
                   ss_idle_deadline = (if rr_messages r \<noteq> [] \<and> reconnect_secs > 0
                                       then Some (instant + reconnect_secs) else ss_idle_deadline st)\<rparr>))
             (encode_read_as_sse_frames E cur r enc)))"

definition read_sse ::
  "env \<Rightarrow> execution_error option \<Rightarrow> string \<Rightarrow> offset \<Rightarrow> string \<Rightarrow> nat \<Rightarrow> nat \<Rightarrow> cursor \<Rightarrow> mem \<Rightarrow>
   (mem \<times> cursor \<times> (response \<times> bytes \<times> sse_next) problem_result) option" where
  "read_sse E admission name off ct instant reconnect_secs cur s =
     (let enc = \<lparr>is_binary = is_binary_content_type ct, is_json = is_json_content_type ct\<rparr> in
      case subscribe_and_read E admission name off s of
        None \<Rightarrow> None
      | Some (s', Inl er) \<Rightarrow> Some (s', cur, Inl (problem_of er))
      | Some (s', Inr (rcv, r)) \<Rightarrow>
          let resp = rs_content_type ''text/event-stream'' (stream_response_new 200);
              resp' = (if is_binary enc then rs_header ''stream-sse-data-encoding'' ''base64'' resp else resp) in
          map_option (\<lambda>(cur', frames, nxt). (s', cur', Inr (resp', frames, nxt)))
            (sse_start E instant reconnect_secs cur r enc))"

end
