(* ===== verification/DS_Handlers.thy ===== *)
theory DS_Handlers
  imports DS_Http
begin

text \<open>
  The PUT, POST, HEAD, DELETE and list handlers of \<open>handlers/\<close> over the
  in-memory backend. The closure a handler submits runs against the service's
  storage in one piece; its clock readings continue those of the storage call
  before (\<open>skip_readings\<close>). The result is the problem or the response; a
  problem carries the request's instance.
\<close>

type_synonym 'a handler = "mem \<times> 'a problem_result"

section \<open>POST\<close>

definition stream_closed_response :: "env \<Rightarrow> mem \<Rightarrow> string \<Rightarrow> problem_response" where
  "stream_closed_response E s name =
     (let r = pr_with_header ''Stream-Closed'' ''true'' (problem_of StreamClosed) in
      case mem_head E s name of
        Inr m \<Rightarrow> pr_with_header ''Stream-Next-Offset'' (as_str (md_next_offset m)) r
      | Inl _ \<Rightarrow> r)"

definition handle_non_producer_append ::
  "env \<Rightarrow> mem \<Rightarrow> string \<Rightarrow> bytes list \<Rightarrow> string \<Rightarrow> bool \<Rightarrow> string option \<Rightarrow> response handler" where
  "handle_non_producer_append E s name msgs ct should_close sq =
     (case append_batch E s name msgs ct sq should_close of
        (s', Inl er) \<Rightarrow>
          (s', Inl (if er = StreamClosed then stream_closed_response (skip_readings 1 E) s' name
                    else problem_of er))
      | (s', Inr r) \<Rightarrow>
          (s', Inr (rs_closed_if (ar_closed r) (rs_next_offset (ar_next_offset r) (stream_response_new 204)))))"

definition producer_error_response ::
  "env \<Rightarrow> mem \<Rightarrow> string \<Rightarrow> producer_headers \<Rightarrow> error \<Rightarrow> problem_response" where
  "producer_error_response E s name p er = (case er of
     StreamClosed \<Rightarrow> stream_closed_response E s name
   | EpochFenced cur _ \<Rightarrow>
       pr_with_header ''Producer-Epoch'' (u64_to_string cur) (problem_of (EpochFenced cur (prod_epoch p)))
   | SequenceGap ex ac \<Rightarrow>
       pr_with_header ''Producer-Received-Seq'' (u64_to_string ac)
         (pr_with_header ''Producer-Expected-Seq'' (u64_to_string ex) (problem_of (SequenceGap ex ac)))
   | _ \<Rightarrow> problem_of er)"

definition handle_producer_append ::
  "env \<Rightarrow> mem \<Rightarrow> string \<Rightarrow> bytes list \<Rightarrow> string \<Rightarrow> producer_headers \<Rightarrow> bool \<Rightarrow> bool \<Rightarrow> string option \<Rightarrow>
   response handler" where
  "handle_producer_append E s name msgs ct p should_close is_close_only sq =
     (case append_with_producer E s name msgs ct p should_close sq of
        (s', Inl er) \<Rightarrow> (s', Inl (producer_error_response (skip_readings 2 E) s' name p er))
      | (s', Inr r) \<Rightarrow>
          let st = (case r of
              Accepted _ _ _ _ \<Rightarrow> if is_close_only then 204 else 200
            | Duplicate _ _ _ _ \<Rightarrow> 204) in
          (s', Inr (rs_closed_if (pa_closed r)
            (rs_header ''Producer-Seq'' (u64_to_string (pa_seq r))
              (rs_header ''Producer-Epoch'' (u64_to_string (pa_epoch r))
                (rs_next_offset (pa_next_offset r) (stream_response_new st)))))))"

text \<open>The closure of \<open>append_data\<close>.\<close>

definition append_job :: "env \<Rightarrow> string \<Rightarrow> header_map \<Rightarrow> bytes \<Rightarrow> mem \<Rightarrow> response handler" where
  "append_job E name hs body s =
     (let should_close = parse_stream_closed hs;
          is_close_only = (body = [] \<and> should_close);
          content_type_raw = header_str hs ''content-type'' in
      case (if is_close_only then
              Inr (case content_type_raw of Some ct \<Rightarrow> normalize_content_type ct | None \<Rightarrow> [])
            else (case content_type_raw of
                None \<Rightarrow> Inl (problem_of (InvalidHeader ''Content-Type'' ''missing required header''))
              | Some ct \<Rightarrow> Inr (normalize_content_type ct))) of
        Inl p \<Rightarrow> (s, Inl p)
      | Inr ct \<Rightarrow>
      (case parse_producer_headers hs of
        Inl er \<Rightarrow> (s, Inl (problem_of er))
      | Inr producer \<Rightarrow>
        let stream_seq = header_str hs ''Stream-Seq'' in
        if body = [] \<and> \<not> should_close then (s, Inl (problem_of EmptyBody))
        else (case extract_messages_http E body ct of
            Inl p \<Rightarrow> (s, Inl p)
          | Inr msgs \<Rightarrow>
            if msgs = [] \<and> \<not> is_close_only then (s, Inl (problem_of EmptyArray))
            else (case producer of
                Some p \<Rightarrow> handle_producer_append E s name msgs ct p should_close is_close_only stream_seq
              | None \<Rightarrow> handle_non_producer_append E s name msgs ct should_close stream_seq))))"

definition append_data ::
  "env \<Rightarrow> execution_error option \<Rightarrow> nat \<Rightarrow> string \<Rightarrow> string \<Rightarrow> header_map \<Rightarrow> body_outcome \<Rightarrow> mem \<Rightarrow> response handler" where
  "append_data E admission body_limit name uri hs body s =
     (case (case read_body body_limit body of
        Inl p \<Rightarrow> (s, Inl p)
      | Inr bs \<Rightarrow> run_job admission (problem_of \<circ> into_domain) s (append_job E name hs bs)) of
        (s', r) \<Rightarrow> (s', with_instance uri r))"

section \<open>PUT\<close>

definition parse_content_type :: "header_map \<Rightarrow> string problem_result" where
  "parse_content_type hs = (case header_str hs ''content-type'' of
     Some ct \<Rightarrow>
       if trim ct = [] then Inl (problem_of (InvalidHeader ''Content-Type'' ''empty value''))
       else Inr (normalize_content_type ct)
   | None \<Rightarrow> Inr ''application/octet-stream'')"

definition build_config :: "env \<Rightarrow> header_map \<Rightarrow> string \<Rightarrow> bool \<Rightarrow> stream_options problem_result" where
  "build_config E hs ct closed =
     (case (case header_str hs ''Stream-TTL'' of
              Some v \<Rightarrow> map_sum problem_of Some (parse_ttl v) | None \<Rightarrow> Inr None) of
        Inl p \<Rightarrow> Inl p
      | Inr ttl \<Rightarrow>
     (case (case header_str hs ''Stream-Expires-At'' of
              Some v \<Rightarrow> map_sum problem_of Some (parse_expires_at E v) | None \<Rightarrow> Inr None) of
        Inl p \<Rightarrow> Inl p
      | Inr ex \<Rightarrow>
        if ttl \<noteq> None \<and> ex \<noteq> None then Inl (problem_of ConflictingExpiration)
        else
          let c0 = stream_options_new ct;
              c1 = (case ttl of
                  Some t \<Rightarrow> with_ttl t c0
                | None \<Rightarrow> (case ex of Some d \<Rightarrow> with_expires_at d c0 | None \<Rightarrow> c0)) in
          Inr (if closed then with_closed True c1 else c1)))"

definition parse_sub_offset :: "header_map \<Rightarrow> u64 option res" where
  "parse_sub_offset hs =
     (let bad = InvalidHeader ''Stream-Fork-Sub-Offset'' ''expected a non-negative integer'' in
      case hs ''stream-fork-sub-offset'' of
        None \<Rightarrow> Inr None
      | Some None \<Rightarrow> Inl bad
      | Some (Some txt) \<Rightarrow>
          if txt = [] \<or> \<not> list_all is_ascii_digit txt then Inl bad
          else (case parse_u64 txt of
              Inl _ \<Rightarrow> Inl (InvalidHeader ''Stream-Fork-Sub-Offset'' ''integer out of range'')
            | Inr n \<Rightarrow> Inr (Some n)))"

definition created_status :: "create_stream_result \<Rightarrow> nat" where
  "created_status r = (if r = Created then 201 else 200)"

definition strip_stream_base_path :: "string \<Rightarrow> string \<Rightarrow> string" where
  "strip_stream_base_path value base =
     (let prefix = (if base = ''/'' then ''/'' else base @ ''/'') in
      case strip_prefix prefix value of Some n \<Rightarrow> n | None \<Rightarrow> value)"

text \<open>The fields of \<open>ProxyTrustResult\<close> the handler reads.\<close>

record request_origin =
  scheme :: string
  authority :: "string option"

definition build_location_url :: "request_origin \<Rightarrow> string \<Rightarrow> string \<Rightarrow> string" where
  "build_location_url origin base name =
     (let host = (case authority origin of Some a \<Rightarrow> a | None \<Rightarrow> ''localhost'') in
      if base = ''/'' then scheme origin @ ''://'' @ host @ ''/'' @ name
      else scheme origin @ ''://'' @ host @ base @ ''/'' @ name)"

text \<open>
  A fork request; \<open>None\<close> when the storage call does not return. The \<open>head\<close> after
  the creation is a second storage call.
\<close>

definition create_fork_stream ::
  "env \<Rightarrow> mem \<Rightarrow> string \<Rightarrow> string \<Rightarrow> string option \<Rightarrow> string \<Rightarrow> stream_options \<Rightarrow> string \<Rightarrow> fork_options \<Rightarrow>
   response handler option" where
  "create_fork_stream E s name forked_from offset_raw base config location opts =
     (let src = strip_stream_base_path forked_from base in
      if is_reserved src then Some (s, Inl (problem_of (InvalidStreamName ''reserved control namespace'')))
      else (case (case offset_raw of
               Some txt \<Rightarrow> map_sum problem_of Some (offset_from_str txt) | None \<Rightarrow> Inr None) of
          Inl p \<Rightarrow> Some (s, Inl p)
        | Inr off \<Rightarrow>
        (case create_fork_with_options E s name src off config opts of
            None \<Rightarrow> None
          | Some (s', Inl er) \<Rightarrow> Some (s', Inl (problem_of er))
          | Some (s', Inr created) \<Rightarrow>
            (case mem_head (skip_readings 5 E) s' name of
                Inl er \<Rightarrow> Some (s', Inl (problem_of er))
              | Inr meta \<Rightarrow> Some (s', Inr (rs_closed_if (md_closed meta) (rs_location location
                  (rs_next_offset (md_next_offset meta) (rs_content_type (content_type (md_config meta))
                    (stream_response_new (created_status created)))))))))))"

definition service_create ::
  "env \<Rightarrow> mem \<Rightarrow> string \<Rightarrow> stream_options \<Rightarrow> bytes list \<Rightarrow> mem \<times> create_with_data_result res" where
  "service_create E s name opts msgs = create_stream_with_data E s name opts msgs (opt_created_closed opts)"

definition create_standard_stream ::
  "env \<Rightarrow> mem \<Rightarrow> string \<Rightarrow> bytes \<Rightarrow> string \<Rightarrow> stream_options \<Rightarrow> string \<Rightarrow> response handler" where
  "create_standard_stream E s name body ct config location =
     (case extract_messages_http E body ct of
        Inl p \<Rightarrow> (s, Inl p)
      | Inr msgs \<Rightarrow>
     (case service_create E s name config msgs of
        (s', Inl er) \<Rightarrow> (s', Inl (problem_of er))
      | (s', Inr r) \<Rightarrow> (s', Inr (rs_closed_if (cw_closed r) (rs_location location
          (rs_next_offset (cw_next_offset r) (rs_content_type ct
            (stream_response_new (created_status (cw_status r))))))))))"

definition create_job ::
  "env \<Rightarrow> string \<Rightarrow> string \<Rightarrow> request_origin \<Rightarrow> header_map \<Rightarrow> bytes \<Rightarrow> mem \<Rightarrow> response handler option" where
  "create_job E base name origin hs body s =
     (case parse_content_type hs of
        Inl p \<Rightarrow> Some (s, Inl p)
      | Inr ct \<Rightarrow>
     (case build_config E hs ct (parse_stream_closed hs) of
        Inl p \<Rightarrow> Some (s, Inl p)
      | Inr config \<Rightarrow>
     (case parse_sub_offset hs of
        Inl er \<Rightarrow> Some (s, Inl (problem_of er))
      | Inr sub \<Rightarrow>
        if \<not> contains_key hs ''Stream-Forked-From'' \<and>
           (sub \<noteq> None \<or> contains_key hs ''Stream-Fork-Offset'') then
          Some (s, Inl (problem_of (InvalidHeader ''Stream-Forked-From'' ''required with fork offsets'')))
        else
          let opts = \<lparr>fo_sub_offset = (case sub of Some n \<Rightarrow> n | None \<Rightarrow> 0),
                      inherit_content_type = (\<not> contains_key hs ''content-type''), initial_body = body\<rparr>;
              location = build_location_url origin base name in
          (case header_str hs ''Stream-Forked-From'' of
             Some forked_from \<Rightarrow>
               create_fork_stream E s name forked_from (header_str hs ''Stream-Fork-Offset'') base config
                 location opts
           | None \<Rightarrow> Some (create_standard_stream E s name body ct config location)))))"

definition create_stream_handler ::
  "env \<Rightarrow> execution_error option \<Rightarrow> nat \<Rightarrow> string \<Rightarrow> string \<Rightarrow> string \<Rightarrow> request_origin \<Rightarrow> header_map \<Rightarrow>
   body_outcome \<Rightarrow> mem \<Rightarrow> response handler option" where
  "create_stream_handler E admission body_limit base name uri origin hs body s =
     map_option (\<lambda>(s', r). (s', with_instance uri r))
       (case read_body body_limit body of
          Inl p \<Rightarrow> Some (s, Inl p)
        | Inr bs \<Rightarrow> (case admission of
            Some e \<Rightarrow> Some (s, Inl (problem_of (into_domain e)))
          | None \<Rightarrow> create_job E base name origin hs bs s))"

section \<open>HEAD, DELETE and the listing\<close>

text \<open>\<open>i64::to_string\<close>, and division that truncates towards zero.\<close>

definition int_to_string :: "int \<Rightarrow> string" where
  "int_to_string i = (if i < 0 then ''-'' @ nat_to_string (nat (- i)) else nat_to_string (nat i))"

definition tdiv :: "int \<Rightarrow> int \<Rightarrow> int" where
  "tdiv a b = (if a < 0 then - ((- a) div b) else a div b)"

definition remaining_seconds :: "env \<Rightarrow> stream_config \<Rightarrow> time \<Rightarrow> time \<Rightarrow> int" where
  "remaining_seconds E c deadline now =
     (if ttl_seconds c \<noteq> None then tdiv (num_milliseconds E deadline now + 999) 1000
      else num_seconds E deadline now)"

definition metadata_response :: "env \<Rightarrow> time \<Rightarrow> stream_metadata \<Rightarrow> response" where
  "metadata_response E now m =
     (let r = rs_closed_if (md_closed m) (rs_next_offset (md_next_offset m)
                (rs_content_type (content_type (md_config m)) (stream_response_new 200))) in
      case expires_at (md_config m) of
        None \<Rightarrow> r
      | Some deadline \<Rightarrow>
          let rem = remaining_seconds E (md_config m) deadline now in
          if rem > 0 then
            rs_header ''Stream-Expires-At'' (to_rfc3339 E deadline)
              (rs_header ''Stream-TTL'' (int_to_string rem) r)
          else r)"

definition stream_metadata_handler ::
  "env \<Rightarrow> execution_error option \<Rightarrow> string \<Rightarrow> string \<Rightarrow> mem \<Rightarrow> response problem_result" where
  "stream_metadata_handler E admission name uri s = with_instance uri
     (case run_job admission into_domain s (\<lambda>s. (s, mem_head E s name)) of
        (_, Inl er) \<Rightarrow> Inl (problem_of er)
      | (_, Inr m) \<Rightarrow> Inr (metadata_response E (now_at E 1) m))"

definition delete_stream_handler ::
  "execution_error option \<Rightarrow> string \<Rightarrow> string \<Rightarrow> mem \<Rightarrow> response handler" where
  "delete_stream_handler admission name uri s =
     (case run_job admission into_domain s (\<lambda>s. mem_delete s name) of
        (s', Inl er) \<Rightarrow> (s', with_instance uri (Inl (problem_of er)))
      | (s', Inr _) \<Rightarrow> (s', Inr (stream_response_new 204)))"

record stream_list_entry =
  le_name :: string
  le_closed :: bool
  le_message_count :: u64
  le_total_bytes :: u64
  le_content_type :: string
  le_created_at :: time
  le_updated_at :: "time option"
  le_ttl_seconds :: "u64 option"
  le_expires_at :: "time option"

definition from_metadata :: "string \<Rightarrow> stream_metadata \<Rightarrow> stream_list_entry" where
  "from_metadata n m =
     \<lparr>le_name = n, le_closed = md_closed m, le_message_count = md_message_count m,
      le_total_bytes = md_total_bytes m, le_content_type = content_type (md_config m),
      le_created_at = md_created_at m, le_updated_at = md_updated_at m,
      le_ttl_seconds = ttl_seconds (md_config m), le_expires_at = expires_at (md_config m)\<rparr>"

definition list_entries :: "env \<Rightarrow> mem \<Rightarrow> string list \<Rightarrow> stream_list_entry list" where
  "list_entries E s ord = map (\<lambda>(n, m). from_metadata n m) (list_streams E s ord)"

end
