(* ===== verification/DS_Prop_Protocol.thy ===== *)
theory DS_Prop_Protocol
  imports DS_Get DS_Handlers
begin

text \<open>
  Properties of the wire protocol: offsets, numbers, stream names, producer
  headers, cursors, event frames and problem responses.
\<close>

section \<open>Offsets\<close>

text \<open>
  C25. The textual form of an offset is canonical: the parser accepts exactly
  the strings the server prints (the two sentinels and the 33-byte forms in
  lowercase hex), each as the one offset that prints as it.
\<close>

theorem offset_wire_form_is_canonical:
  "offset_from_str s = Inr x \<longleftrightarrow> wf_offset x \<and> s = as_str x"
  by (rule offset_codec.parse_iff)

text \<open>
  C26. Offsets compare as their wire strings do, byte by byte, the sentinels
  included, so that a client or a proxy may order the opaque strings; on
  concrete offsets that is the order of the message positions.
\<close>

theorem offset_order_is_wire_order:
  assumes "wf_offset x" "wf_offset y"
  shows "offset_cmp x y = compare_of (as_str x) (as_str y) \<and> (offset_eq x y \<longleftrightarrow> as_str x = as_str y) \<and>
    (\<forall>a b c d. offset_lt (offset_new a b) (offset_new c d) \<longleftrightarrow> a < c \<or> a = c \<and> b < d)"
  using offset_cmp_as_str [OF assms] offset_eq_iff [OF assms] offset_codec.print_inject [OF assms] by simp

theorem offset_order_is_wire_order_witness:
  "offset_cmp (offset_new 1 5) Now = compare_of (as_str (offset_new 1 5)) (as_str Now)"
  using offset_order_is_wire_order [of "offset_new 1 5" Now] by simp

section \<open>Header values\<close>

lemma nat_to_string_no_zero: "length (nat_to_string n) > 1 \<Longrightarrow> hd (nat_to_string n) \<noteq> CHR ''0''"
proof (induction n rule: nat_to_string.induct)
  case (1 n)
  show ?case
  proof (cases "n < 10")
    case False
    then have n: "nat_to_string n = nat_to_string (n div 10) @ [char_of (48 + n mod 10)]"
      by (simp add: nat_to_string.simps [of n])
    show ?thesis
    proof (cases "n div 10 < 10")
      case True
      have "char_of (48 + n div 10) \<noteq> CHR ''0''"
      proof
        assume "char_of (48 + n div 10) = CHR ''0''"
        then have "of_char (char_of (48 + n div 10)) = (48 :: nat)" by simp
        then show False using digit_char [OF True] False by (simp add: div_eq_0_iff)
      qed
      with n True show ?thesis by (simp add: nat_to_string.simps [of "n div 10"])
    next
      case l: False
      then have "length (nat_to_string (n div 10)) > 1"
        by (simp add: nat_to_string.simps [of "n div 10"])
      with "1.IH" False n show ?thesis by simp
    qed
  qed (use "1.prems" in \<open>simp add: nat_to_string.simps [of n]\<close>)
qed

lemma parse_ttl_Inr:
  "parse_ttl v = Inr n \<longleftrightarrow> trim v = u64_to_string n"
proof
  assume a: "parse_ttl v = Inr n"
  then have "trim v \<noteq> []" "hd (trim v) \<noteq> CHR ''+''" "\<not> (length (trim v) > 1 \<and> hd (trim v) = CHR ''0'')"
      "parse_u64 (trim v) = Inr n"
    by (auto simp: parse_ttl_def Let_def split: if_splits sum.splits)
  moreover from this(1) have "length (trim v) \<ge> 1" by (simp add: Suc_le_eq)
  ultimately show "trim v = u64_to_string n" by (intro parse_u64_canonical) auto
next
  assume t: "trim v = u64_to_string n"
  let ?s = "nat_to_string (unat n)"
  have "is_ascii_digit (hd ?s)" by (rule nat_to_string_digits [OF hd_in_set]) simp
  then have plus: "hd ?s \<noteq> CHR ''+''" by (auto simp: is_ascii_digit_def)
  have zero: "\<not> (length ?s > 1 \<and> hd ?s = CHR ''0'')" using nat_to_string_no_zero by blast
  show "parse_ttl v = Inr n"
    using t plus zero u64_codec.parse_print [of n] by (simp add: parse_ttl_def Let_def u64_to_string_def)
qed

text \<open>
  A TTL header is accepted exactly when, up to surrounding white space, it
  is the canonical decimal numeral of a 64-bit number: no sign, no leading
  zero, no overflow; the value is that number.
\<close>

theorem ttl_header_is_canonical:
  "parse_ttl v = Inr n \<longleftrightarrow> trim v = u64_to_string n"
  by (rule parse_ttl_Inr)

text \<open>
  C27. A stream name is accepted exactly when it is safe as a path: after one
  leading slash, every segment is non-empty and neither \<open>.\<close> nor \<open>..\<close>, the
  first is not the control namespace, and length and depth are within the
  limits.
\<close>

theorem stream_names_are_safe:
  "stream_name_extract raw_name l = Inr n \<longleftrightarrow>
    (raw_name = ''/'' @ n \<or> raw_name = n \<and> (\<forall>m. raw_name \<noteq> ''/'' @ m)) \<and>
    (\<forall>seg\<in>set (split_on (CHR ''/'') n). seg \<noteq> [] \<and> seg \<noteq> ''.'' \<and> seg \<noteq> ''..'') \<and>
    hd (split_on (CHR ''/'') n) \<noteq> ''__ds'' \<and>
    length n \<le> max_bytes l \<and> length (split_on (CHR ''/'') n) \<le> max_segments l"
proof -
  let ?name = "case strip_prefix ''/'' raw_name of Some n \<Rightarrow> n | None \<Rightarrow> raw_name"
  have name: "?name = n \<longleftrightarrow> raw_name = ''/'' @ n \<or> raw_name = n \<and> (\<forall>m. raw_name \<noteq> ''/'' @ m)"
  proof (cases "strip_prefix ''/'' raw_name")
    case None
    then have "raw_name \<noteq> ''/'' @ m" for m using strip_prefix_Some [of "''/''" raw_name m] by simp
    with None show ?thesis by auto
  next
    case (Some m)
    then have "raw_name = ''/'' @ m" by (simp only: strip_prefix_Some)
    with Some show ?thesis by auto
  qed
  have "stream_name_extract raw_name l = Inr n \<longleftrightarrow> ?name = n \<and> validate_name n l = Inr ()"
    by (auto simp: stream_name_extract_def Let_def split: sum.splits)
  then show ?thesis unfolding name validate_name_Inr invalid_segment_None is_reserved_def by blast
qed

theorem stream_names_are_safe_witness:
  "stream_name_extract ''/a/b'' \<lparr>max_bytes = 10, max_segments = 3\<rparr> = Inr ''a/b'' \<and>
    list_all (\<lambda>seg. seg \<noteq> [] \<and> seg \<noteq> ''.'' \<and> seg \<noteq> ''..'') (split_on (CHR ''/'') ''a/b'')"
proof -
  have "stream_name_extract ''/a/b'' \<lparr>max_bytes = 10, max_segments = 3\<rparr> = Inr ''a/b''" by code_simp
  with stream_names_are_safe [of "''/a/b''" "\<lparr>max_bytes = 10, max_segments = 3\<rparr>" "''a/b''"] show ?thesis
    by (simp only: list_all_iff) blast
qed

text \<open>
  Producer headers are all or none: a request without any of the three is
  not idempotent, one with all three valid yields exactly their values, with
  epoch and sequence number at most \<open>2^53 - 1\<close>, and every other combination
  is rejected.
\<close>

theorem producer_headers_all_or_none:
  "(case parse_producer_headers hs of
      Inr None \<Rightarrow> header_str hs ''Producer-Id'' = None \<and> header_str hs ''Producer-Epoch'' = None \<and>
        header_str hs ''Producer-Seq'' = None
    | Inr (Some p) \<Rightarrow> header_str hs ''Producer-Id'' = Some (prod_id p) \<and> prod_id p \<noteq> [] \<and>
        (\<exists>es qs. header_str hs ''Producer-Epoch'' = Some es \<and> header_str hs ''Producer-Seq'' = Some qs \<and>
           parse_u64 es = Inr (prod_epoch p) \<and> parse_u64 qs = Inr (prod_seq p)) \<and>
        prod_epoch p \<le> MAX_SAFE_INTEGER \<and> prod_seq p \<le> MAX_SAFE_INTEGER
    | Inl er \<Rightarrow> \<exists>t. er = InvalidProducerState t)"
proof -
  have num: "parse_u64 v = Inr n \<and> n \<le> MAX_SAFE_INTEGER" if "parse_non_negative_int v h = Inr n" for v h n
    using that by (auto simp: parse_non_negative_int_def Let_def split: if_splits sum.splits)
  have bad: "\<exists>t. er = InvalidProducerState t" if "parse_non_negative_int v h = Inl er" for v h er
    using that by (auto simp: parse_non_negative_int_def Let_def split: if_splits sum.splits)
  show ?thesis
    unfolding parse_producer_headers_def
    by (auto split: option.split sum.split dest: num bad)
qed

text \<open>A sign and then leading zeros pass the check for leading zeros.\<close>

theorem signed_zeros_accepted: "parse_non_negative_int ''+007'' ''Producer-Seq'' = Inr 7"
  by code_simp

section \<open>Cursors\<close>

fun cursor_values :: "u64 \<Rightarrow> (u64 \<times> u64) list \<Rightarrow> u64 list" where
  "cursor_values lst [] = []"
| "cursor_values lst ((rs, bo) # offs) =
     (let n = max (offset_value rs bo) (lst + 1) in n # cursor_values n offs)"

lemma cursor_run_values:
  "cursor_run lst (map (\<lambda>(rs, bo). offset_new rs bo) offs) =
    (last (lst # cursor_values lst offs), map u64_to_string (cursor_values lst offs))"
  by (induction lst offs rule: cursor_values.induct) (auto simp: Let_def cursor_generate_def split: prod.splits)

lemma cursor_values_increasing:
  assumes "unat lst + length offs < 2 ^ 64"
    "\<forall>(rs, bo)\<in>set offs. unat (offset_value rs bo) + length offs < 2 ^ 64"
  shows "sorted_wrt (<) (lst # cursor_values lst offs)"
  using assms
proof (induction lst offs rule: cursor_values.induct)
  case (2 lst rs bo offs)
  define n where "n = max (offset_value rs bo) (lst + 1)"
  have suc: "unat (lst + 1) = Suc (unat lst)" using "2.prems"(1) by (simp add: unat_word_ariths)
  have n: "lst < n" "unat n + length offs < 2 ^ 64"
    using suc "2.prems" by (auto simp: n_def word_less_nat_alt word_le_nat_alt max_def)
  have "\<forall>(rs, bo)\<in>set offs. unat (offset_value rs bo) + length offs < 2 ^ 64" using "2.prems"(2) by auto
  from "2.IH" [OF n_def n(2) this] have "sorted_wrt (<) (n # cursor_values n offs)" .
  with n(1) have "sorted_wrt (<) (lst # n # cursor_values n offs)" by (auto intro: less_trans)
  then show ?case by (simp only: cursor_values.simps Let_def n_def)
qed simp

text \<open>
  Cursors increase strictly: over any sequence of responses the emitted
  cursors are the decimal forms of strictly increasing numbers above the last
  one used, each at least the packed offset of its response, as long as the
  64-bit counter does not wrap. So a client never gets a cursor it has echoed.
\<close>

theorem cursors_increase:
  assumes "unat lst + length offs < 2 ^ 64"
    "\<forall>(rs, bo)\<in>set offs. unat (offset_value rs bo) + length offs < 2 ^ 64"
  shows "\<exists>ns. snd (cursor_run lst (map (\<lambda>(rs, bo). offset_new rs bo) offs)) = map u64_to_string ns \<and>
    sorted_wrt (<) (lst # ns) \<and> list_all2 (\<lambda>(rs, bo) n. offset_value rs bo \<le> n) offs ns"
proof -
  have "list_all2 (\<lambda>(rs, bo) n. offset_value rs bo \<le> n) offs (cursor_values lst offs)"
    by (induction lst offs rule: cursor_values.induct) (auto simp: Let_def)
  with cursor_run_values [of lst offs] cursor_values_increasing [OF assms] show ?thesis by auto
qed

theorem cursors_increase_witness:
  "\<exists>ns. snd (cursor_run 0 (map (\<lambda>(rs, bo). offset_new rs bo) [(2, 6), (2, 6)])) = map u64_to_string ns \<and>
    sorted_wrt (<) (0 # ns)"
proof -
  have "uint (offset_value 2 6) = 268435462" by code_simp
  then have "offset_value 2 6 = 268435462" by (metis word_of_int_uint of_int_numeral word_of_int_numeral)
  then have "\<forall>(rs, bo)\<in>set [(2, 6), (2, 6)]. unat (offset_value rs bo) + length [(2 :: u64, 6 :: u64), (2, 6)] < 2 ^ 64"
    by simp
  from cursors_increase [OF _ this, of 0] show ?thesis by auto
qed

text \<open>The cursor of an offset with many messages exceeds the integers a JavaScript number represents.\<close>

theorem cursor_exceeds_safe_integers: "\<not> offset_value 67108864 0 \<le> MAX_SAFE_INTEGER"
  by code_simp

section \<open>Event frames\<close>




section \<open>Problem responses\<close>

text \<open>
  An internal failure reveals nothing: two errors answered with the same
  status of 500 or above have the same problem body, whatever paths, backend
  or operating-system texts they carry; and the body's status is the status
  of the response, which is always an error status.
\<close>

theorem internal_errors_do_not_leak:
  "(status_code e \<ge> 500 \<and> status_code e' = status_code e \<longrightarrow>
     problem_json (details_of_error e) = problem_json (details_of_error e')) \<and>
   rs_status (problem_into_response E (problem_of e)) = status_code e \<and>
   status_code e \<in> {400, 403, 404, 409, 410, 413, 500, 503, 507}"
proof -
  have st: "status_code e \<in> {400, 403, 404, 409, 410, 413, 500, 503, 507}" for e
    by (cases e) (simp_all add: problem_defs)
  have "rs_status (problem_into_response E (problem_of e)) = status_code e"
    using st [of e] by (auto simp: problem_into_response_def problem_of_def problem_resp_defs status_code_def Let_def
        split: option.splits)
  moreover have "problem_json (details_of_error e) = problem_json (details_of_error e')"
    if "status_code e \<ge> 500" "status_code e' = status_code e"
    using that by (cases e; cases e')
      (simp_all add: problem_defs details_of_error_def problem_details_new_def problem_detail_text_def)
  ultimately show ?thesis using st by blast
qed

theorem internal_errors_do_not_leak_witness:
  "problem_json (details_of_error (Storage ''/var/lib/x'')) = problem_json (details_of_error (Storage ''other''))"
  using internal_errors_do_not_leak [of "Storage ''/var/lib/x''" "Storage ''other''"] by (simp add: problem_defs)

end
