(* ===== verification/DS_Sub_Model.thy ===== *)
theory DS_Sub_Model
  imports DS_Http "HOL-Library.Finite_Map"
begin

text \<open>
  The data of the subscription service: \<open>subscriptions/model.rs\<close> (configuration,
  path patterns, links, wakes), \<open>subscriptions/crypto.rs\<close> (tokens) and the error
  type of \<open>subscriptions/mod.rs\<close>.

  A \<open>BTreeMap\<close> is a finite map that is iterated in ascending order of its keys,
  a \<open>BTreeSet\<close> its ascending list. Times are milliseconds since the epoch
  (\<open>i64\<close>, far from its bounds). The primitives of \<open>ring\<close>, \<open>base64\<close> and the
  deserializers that \<open>serde\<close> derives are fields of the record \<open>crypto_env\<close>.
\<close>

section \<open>Errors\<close>

record api_error =
  ae_status :: nat
  ae_code :: string
  ae_message :: string
  ae_extra :: json

type_synonym 'a api = "api_error + 'a"

definition ae_bad :: "string \<Rightarrow> string \<Rightarrow> api_error" where
  "ae_bad c m = \<lparr>ae_status = 400, ae_code = c, ae_message = m, ae_extra = JNull\<rparr>"

definition ae_internal :: "string \<Rightarrow> api_error" where
  "ae_internal m = \<lparr>ae_status = 503, ae_code = ''UNAVAILABLE'', ae_message = m, ae_extra = JNull\<rparr>"

definition ae_conflict :: "string \<Rightarrow> string \<Rightarrow> api_error" where
  "ae_conflict c m = \<lparr>ae_status = 409, ae_code = c, ae_message = m, ae_extra = JNull\<rparr>"

definition ae_fenced :: api_error where
  "ae_fenced = ae_conflict ''FENCED'' ''wake or lease is no longer current''"

definition ae_missing :: api_error where
  "ae_missing = \<lparr>ae_status = 404, ae_code = ''NOT_FOUND'', ae_message = ''subscription not found'', ae_extra = JNull\<rparr>"

definition ae_json :: api_error where
  "ae_json = ae_bad ''INVALID_JSON'' ''invalid JSON request''"

definition ae_of_error :: "error \<Rightarrow> api_error" where
  "ae_of_error e = ae_internal ''subscription storage operation failed''"

definition ae_from_execution :: "execution_error \<Rightarrow> api_error" where
  "ae_from_execution e =
     (let r = ae_internal ''subscription execution unavailable'' in
      if e = ExecFailed then r\<lparr>ae_status := 500\<rparr> else r)"

text \<open>The response: the fields of \<open>extra\<close> join the error object; 503 asks for a retry after a second.\<close>

definition ae_into_response :: "env \<Rightarrow> api_error \<Rightarrow> response" where
  "ae_into_response E a =
     (let fields = [(''code'', JString (ae_code a)), (''message'', JString (ae_message a))]
            @ (case ae_extra a of JObject kvs \<Rightarrow> kvs | _ \<Rightarrow> []);
          r = rs_with_body (to_vec E (JObject [(''error'', JObject fields)]))
                (rs_content_type ''application/json'' (stream_response_new (ae_status a))) in
      if ae_status a = 503 then rs_header ''retry-after'' ''1'' r else r)"

section \<open>Configurations\<close>

datatype delivery_type = Webhook | PullWake

record configuration =
  cf_kind :: delivery_type
  cf_pattern :: "string option"
  cf_streams :: "string list"
  cf_webhook :: "string option"
  cf_wake_stream :: "string option"
  cf_lease_ttl_ms :: int
  cf_description :: "string option"

definition default_lease :: int where
  "default_lease = 30000"

text \<open>\<open>char::is_control\<close> on UTF-8 text: the C0 controls, DEL, and the C1 controls (two bytes).\<close>

fun any_control :: "string \<Rightarrow> bool" where
  "any_control [] = False"
| "any_control (c # cs) \<longleftrightarrow>
     of_char c < (32 :: nat) \<or> of_char c = (127 :: nat) \<or>
     (of_char c = (0xC2 :: nat) \<and> (case cs of d # _ \<Rightarrow> of_char d \<in> {0x80..0x9F :: nat} | [] \<Rightarrow> False)) \<or>
     any_control cs"

definition validate_path :: "string \<Rightarrow> unit api" where
  "validate_path path =
     (if path = [] \<or> length path > 1024 \<or> length (split_on (CHR ''/'') path) > 64 \<or>
         invalid_segment path \<noteq> None \<or> is_reserved path \<or> any_control path
      then Inl (ae_bad ''INVALID_PATH'' ''expected an application stream-root-relative path'')
      else Inr ())"

text \<open>
  \<open>glob_matches\<close>: the table says for every prefix of the path whether the
  pattern read so far matches it; a segment of the pattern updates it in place.
\<close>

definition glob_segment :: "string list \<Rightarrow> bool list \<Rightarrow> string \<Rightarrow> bool list" where
  "glob_segment path matches seg =
     (if seg = ''**'' then
        foldl (\<lambda>m i. m[i := (m ! i \<or> m ! (i - 1))]) matches [1..<Suc (length path)]
      else
        (foldl (\<lambda>m i. m[i := (m ! (i - 1) \<and> (seg = ''*'' \<or> seg = path ! (i - 1)))]) matches
           (rev [1..<Suc (length path)]))[0 := False])"

definition glob_matches :: "string \<Rightarrow> string \<Rightarrow> bool" where
  "glob_matches pattern path0 =
     (let path = split_on (CHR ''/'') path0;
          start = (replicate (length path + 1) False)[0 := True] in
      foldl (glob_segment path) start (split_on (CHR ''/'') pattern) ! length path)"

definition cf_matches :: "configuration \<Rightarrow> string \<Rightarrow> bool" where
  "cf_matches c path = (case cf_pattern c of Some p \<Rightarrow> glob_matches p path | None \<Rightarrow> False)"

fun validate_paths :: "string list \<Rightarrow> unit api" where
  "validate_paths [] = Inr ()"
| "validate_paths (p # ps) = (case validate_path p of Inl e \<Rightarrow> Inl e | Inr _ \<Rightarrow> validate_paths ps)"

definition cf_validate :: "configuration \<Rightarrow> unit api" where
  "cf_validate c =
     (if cf_pattern c = None \<and> cf_streams c = [] then Inl (ae_bad ''INVALID_CONFIG'' ''pattern or streams is required'')
      else if \<not> (1000 \<le> cf_lease_ttl_ms c \<and> cf_lease_ttl_ms c \<le> 600000) then
        Inl (ae_bad ''INVALID_CONFIG'' ''lease_ttl_ms must be between 1000 and 600000'')
      else (case (case cf_pattern c of
              None \<Rightarrow> Inr ()
            | Some p \<Rightarrow> (case validate_path p of
                Inl e \<Rightarrow> Inl e
              | Inr _ \<Rightarrow>
                if \<exists>s\<in>set (split_on (CHR ''/'') p). CHR ''*'' \<in> set s \<and> s \<noteq> ''*'' \<and> s \<noteq> ''**'' then
                  Inl (ae_bad ''INVALID_CONFIG'' ''wildcards must occupy a complete path segment'')
                else Inr ())) of
          Inl e \<Rightarrow> Inl e
        | Inr _ \<Rightarrow>
      (case validate_paths (cf_streams c) of
          Inl e \<Rightarrow> Inl e
        | Inr _ \<Rightarrow>
      if cf_kind c = Webhook \<and> (cf_webhook c = None \<or> cf_wake_stream c \<noteq> None) then
        Inl (ae_bad ''INVALID_CONFIG'' ''webhook delivery requires only webhook.url'')
      else if cf_kind c = PullWake \<and> (cf_wake_stream c = None \<or> cf_webhook c \<noteq> None) then
        Inl (ae_bad ''INVALID_CONFIG'' ''pull-wake delivery requires only wake_stream'')
      else (case cf_wake_stream c of
          None \<Rightarrow> Inr ()
        | Some path \<Rightarrow> (case validate_path path of
            Inl e \<Rightarrow> Inl e
          | Inr _ \<Rightarrow>
            if cf_matches c path \<or> path \<in> set (cf_streams c) then
              Inl (ae_bad ''INVALID_CONFIG'' ''a subscription cannot consume its own wake stream'')
            else Inr ())))))"

section \<open>Subscriptions\<close>

record link =
  lk_explicit :: bool
  lk_acked_offset :: string

record snapshot =
  sn_path :: string
  sn_link_type :: string
  sn_acked_offset :: string
  sn_tail_offset :: string
  sn_has_pending :: bool

record wake =
  wk_id :: string
  wk_generation :: u64
  wk_streams :: "snapshot list"
  wk_token :: "string option"
  wk_holder :: "string option"
  wk_lease_until :: "int option"
  wk_delivered :: bool

type_synonym links = "(string, link) fmap"

record subscription =
  sb_config :: configuration
  sb_config_hash :: string
  sb_links :: links
  sb_created_at :: string
  sb_origin :: string
  sb_generation :: u64
  sb_wake :: "wake option"
  sb_deleted :: bool
  sb_next_attempt_at :: int
  sb_attempts :: u32
  sb_failed :: bool

record database =
  db_version :: u32
  db_signing_key :: bytes
  db_subscriptions :: "(string, subscription) fmap"

text \<open>The tails of the application streams, as their printed offsets.\<close>

type_synonym tails = "(string, string) fmap"

definition link_type :: "link \<Rightarrow> string" where
  "link_type l = (if lk_explicit l then ''explicit'' else ''glob'')"

definition snapshot_of :: "tails \<Rightarrow> string \<times> link \<Rightarrow> snapshot" where
  "snapshot_of tails pl = (case pl of (path, l) \<Rightarrow>
     let tail = (case fmlookup tails path of Some t \<Rightarrow> t | None \<Rightarrow> lk_acked_offset l) in
     \<lparr>sn_path = path, sn_link_type = link_type l, sn_acked_offset = lk_acked_offset l, sn_tail_offset = tail,
      sn_has_pending = (tail > lk_acked_offset l)\<rparr>)"

definition snapshots :: "subscription \<Rightarrow> tails \<Rightarrow> snapshot list" where
  "snapshots sub tails = map (snapshot_of tails) (sorted_list_of_fmap (sb_links sub))"

definition opt_json :: "string option \<Rightarrow> json" where
  "opt_json x = (case x of Some s \<Rightarrow> JString s | None \<Rightarrow> JNull)"

definition kind_json :: "delivery_type \<Rightarrow> json" where
  "kind_json k = JString (case k of Webhook \<Rightarrow> ''webhook'' | PullWake \<Rightarrow> ''pull-wake'')"

definition sub_response :: "subscription \<Rightarrow> string \<Rightarrow> string \<Rightarrow> string \<Rightarrow> json" where
  "sub_response sub sid kid base_path = JObject
     [(''id'', JString sid), (''subscription_id'', JString sid), (''type'', kind_json (cf_kind (sb_config sub))),
      (''pattern'', opt_json (cf_pattern (sb_config sub))),
      (''streams'', JArray (map (\<lambda>(path, l). JObject [(''path'', JString path), (''link_type'', JString (link_type l)),
         (''acked_offset'', JString (lk_acked_offset l))]) (sorted_list_of_fmap (sb_links sub)))),
      (''webhook'', (case cf_webhook (sb_config sub) of
          None \<Rightarrow> JNull
        | Some url \<Rightarrow> JObject [(''url'', JString url), (''signing'', JObject [(''alg'', JString ''ed25519''),
            (''kid'', JString kid), (''jwks_url'', JString (sb_origin sub @ base_path @ ''/__ds/jwks.json''))])])),
      (''wake_stream'', opt_json (cf_wake_stream (sb_config sub))),
      (''lease_ttl_ms'', JNumber (nat_to_string (nat (cf_lease_ttl_ms (sb_config sub))))),
      (''created_at'', JString (sb_created_at sub)),
      (''status'', JString (if sb_failed sub then ''failed'' else ''active'')),
      (''description'', opt_json (cf_description (sb_config sub)))]"

section \<open>Tokens\<close>

record claims =
  cl_subscription :: string
  cl_generation :: u64
  cl_wake_id :: string

record completion =
  cm_wake_id :: string
  cm_generation :: u64
  cm_acks :: "(string \<times> string) list"
  cm_done :: bool

text \<open>
  \<open>ed25519_public\<close> is \<open>Ed25519KeyPair::from_pkcs8\<close> followed by \<open>public_key\<close>,
  \<open>ed25519_sign\<close> and \<open>ed25519_verify\<close> sign and check a signature; \<open>random_bytes\<close>
  is what the random source yields for a subscription during one operation;
  \<open>url_encode\<close> and \<open>url_decode\<close> are the unpadded URL-safe base64 engine; the
  remaining fields are the derived serializers of the named types.
\<close>

record crypto_env =
  ed25519_public :: "bytes \<Rightarrow> bytes option"
  ed25519_sign :: "bytes \<Rightarrow> bytes \<Rightarrow> bytes"
  ed25519_verify :: "bytes \<Rightarrow> bytes \<Rightarrow> bytes \<Rightarrow> bool"
  sha256 :: "bytes \<Rightarrow> bytes"
  random_bytes :: "string \<Rightarrow> bytes option"
  url_encode :: "bytes \<Rightarrow> string"
  url_decode :: "string \<Rightarrow> bytes option"
  claims_to_vec :: "claims \<Rightarrow> bytes option"
  claims_from_slice :: "bytes \<Rightarrow> claims option"
  completion_from_slice :: "bytes \<Rightarrow> completion option"
  claim_from_slice :: "bytes \<Rightarrow> string option"
  membership_from_slice :: "bytes \<Rightarrow> string list option"
  config_from_slice :: "bytes \<Rightarrow> configuration option"
  config_to_vec :: "configuration \<Rightarrow> bytes option"
  database_to_vec :: "database \<Rightarrow> bytes option"
  database_from_slice :: "bytes \<Rightarrow> database option"

definition crypto_key :: "crypto_env \<Rightarrow> bytes \<Rightarrow> bytes api" where
  "crypto_key C k = (case ed25519_public C k of
     Some p \<Rightarrow> Inr p
   | None \<Rightarrow> Inl (ae_internal ''invalid persisted signing key''))"

definition crypto_hash :: "crypto_env \<Rightarrow> bytes \<Rightarrow> string" where
  "crypto_hash C bs = url_encode C (sha256 C bs)"

definition quote_json :: "string \<Rightarrow> string" where
  "quote_json s = [CHR 0x22] @ s @ [CHR 0x22]"

definition crypto_kid :: "crypto_env \<Rightarrow> string \<Rightarrow> string" where
  "crypto_kid C x = ''ds_'' @ crypto_hash C (''{'' @ quote_json ''crv'' @ '':'' @ quote_json ''Ed25519'' @ '','' @
     quote_json ''kty'' @ '':'' @ quote_json ''OKP'' @ '','' @ quote_json ''x'' @ '':'' @ quote_json x @ ''}'')"

text \<open>\<open>jwk\<close>: the key's identifier and the whole object.\<close>

definition crypto_jwk :: "crypto_env \<Rightarrow> bytes \<Rightarrow> (string \<times> json) api" where
  "crypto_jwk C k = (case crypto_key C k of
     Inl e \<Rightarrow> Inl e
   | Inr p \<Rightarrow>
       let x = url_encode C p; kid = crypto_kid C x in
       Inr (kid, JObject [(''kty'', JString ''OKP''), (''crv'', JString ''Ed25519''), (''kid'', JString kid),
         (''use'', JString ''sig''), (''alg'', JString ''EdDSA''), (''x'', JString x)]))"

definition crypto_random_id :: "crypto_env \<Rightarrow> string \<Rightarrow> string api" where
  "crypto_random_id C sid = (case random_bytes C sid of
     Some bs \<Rightarrow> Inr (''w_'' @ url_encode C bs)
   | None \<Rightarrow> Inl (ae_internal ''random source unavailable''))"

text \<open>\<open>retry_jitter\<close>: a 16-bit number scaled to -200..200 with truncating division.\<close>

definition crypto_retry_jitter :: "crypto_env \<Rightarrow> string \<Rightarrow> int api" where
  "crypto_retry_jitter C sid = (case random_bytes C sid of
     Some (b0 # b1 # _) \<Rightarrow> Inr ((of_char b0 + 256 * of_char b1) * 400 div 65535 - 200)
   | _ \<Rightarrow> Inl (ae_internal ''random source unavailable''))"

definition crypto_signature :: "crypto_env \<Rightarrow> bytes \<Rightarrow> bytes \<Rightarrow> string api" where
  "crypto_signature C k d = (case crypto_key C k of
     Inl e \<Rightarrow> Inl e
   | Inr _ \<Rightarrow> Inr (url_encode C (ed25519_sign C k d)))"

definition crypto_token :: "crypto_env \<Rightarrow> bytes \<Rightarrow> claims \<Rightarrow> string api" where
  "crypto_token C k cl = (case claims_to_vec C cl of
     None \<Rightarrow> Inl ae_json
   | Some bs \<Rightarrow>
       let payload = url_encode C bs in
       (case crypto_signature C k payload of
          Inl e \<Rightarrow> Inl e
        | Inr sig \<Rightarrow> Inr (payload @ ''.'' @ sig)))"

text \<open>\<open>str::split_once\<close>.\<close>

fun split_once :: "char \<Rightarrow> string \<Rightarrow> (string \<times> string) option" where
  "split_once c [] = None"
| "split_once c (x # xs) =
     (if x = c then Some ([], xs) else map_option (map_prod ((#) x) id) (split_once c xs))"

definition crypto_verify :: "crypto_env \<Rightarrow> bytes \<Rightarrow> string \<Rightarrow> claims api" where
  "crypto_verify C k tok = (case split_once (CHR ''.'') tok of
     None \<Rightarrow> Inl ae_fenced
   | Some (payload, sig) \<Rightarrow>
     (case url_decode C sig of
        None \<Rightarrow> Inl ae_fenced
      | Some sg \<Rightarrow>
     (case crypto_key C k of
        Inl e \<Rightarrow> Inl e
      | Inr pub \<Rightarrow>
        if \<not> ed25519_verify C pub payload sg then Inl ae_fenced
        else (case url_decode C payload of
            None \<Rightarrow> Inl ae_fenced
          | Some bs \<Rightarrow> (case claims_from_slice C bs of None \<Rightarrow> Inl ae_fenced | Some cl \<Rightarrow> Inr cl)))))"

section \<open>Refreshing and waking\<close>

definition fresh_link :: link where
  "fresh_link = \<lparr>lk_explicit = False, lk_acked_offset = as_str (offset_new 0 0)\<rparr>"

definition or_insert :: "string \<Rightarrow> link \<Rightarrow> links \<Rightarrow> links" where
  "or_insert path l ls = (case fmlookup ls path of Some _ \<Rightarrow> ls | None \<Rightarrow> fmupd path l ls)"

definition map_keys :: "('k::linorder, 'v) fmap \<Rightarrow> 'k list" where
  "map_keys m = map fst (sorted_list_of_fmap m)"

definition refresh_sub :: "tails \<Rightarrow> int \<Rightarrow> subscription \<Rightarrow> subscription" where
  "refresh_sub tails now sub0 =
     (let sub = sub0\<lparr>sb_links := foldl (\<lambda>ls path.
            if cf_matches (sb_config sub0) path then or_insert path fresh_link ls else ls)
          (sb_links sub0) (map_keys tails)\<rparr> in
      case sb_wake sub of
        Some w \<Rightarrow>
          if (case wk_lease_until w of Some t \<Rightarrow> t \<le> now | None \<Rightarrow> False) \<and> \<not> sb_failed sub
          then sub\<lparr>sb_wake := None, sb_next_attempt_at := now\<rparr> else sub
      | None \<Rightarrow> sub)"

definition refresh :: "tails \<Rightarrow> int \<Rightarrow> database \<Rightarrow> database" where
  "refresh tails now db =
     db\<lparr>db_subscriptions := fmmap (\<lambda>s. if sb_deleted s then s else refresh_sub tails now s) (db_subscriptions db)\<rparr>"

definition checked_suc :: "u64 \<Rightarrow> u64 option" where
  "checked_suc n = checked_add n 1"

definition issue_wake :: "crypto_env \<Rightarrow> subscription \<Rightarrow> string \<Rightarrow> bytes \<Rightarrow> tails \<Rightarrow> int \<Rightarrow> subscription api" where
  "issue_wake C sub sid key tails now =
     (case checked_suc (sb_generation sub) of
        None \<Rightarrow> Inl (ae_internal ''generation exhausted'')
      | Some g \<Rightarrow>
     (case crypto_random_id C sid of
        Inl e \<Rightarrow> Inl e
      | Inr wake_id \<Rightarrow>
        let webhook = (cf_kind (sb_config sub) = Webhook) in
     (case (if webhook then map_sum id Some
              (crypto_token C key \<lparr>cl_subscription = sid, cl_generation = g, cl_wake_id = wake_id\<rparr>)
            else Inr None) of
        Inl e \<Rightarrow> Inl e
      | Inr token \<Rightarrow>
        Inr (sub\<lparr>sb_generation := g,
          sb_wake := Some \<lparr>wk_id = wake_id, wk_generation = g, wk_streams = snapshots sub tails, wk_token = token,
            wk_holder = None,
            wk_lease_until = (if webhook then Some (now + cf_lease_ttl_ms (sb_config sub)) else None),
            wk_delivered = False\<rparr>,
          sb_attempts := 0, sb_failed := False, sb_next_attempt_at := now\<rparr>))))"

definition pending :: "subscription \<Rightarrow> tails \<Rightarrow> bool" where
  "pending sub tails \<longleftrightarrow> list_ex sn_has_pending (snapshots sub tails)"

end
