(* ===== verification/DS_Sub_Api.thy ===== *)
theory DS_Sub_Api
  imports DS_Sub_Model DS_Handlers
begin

text \<open>
  The operations of the subscription service: the control API of
  \<open>subscriptions/api.rs\<close>, the reconciliation of \<open>subscriptions/worker.rs\<close> and the
  persistence of \<open>subscriptions/mod.rs\<close>.

  Every operation works on a copy of the database and makes it visible by
  \<open>save\<close>. The service runs over the in-memory backend; what a durable backend's
  \<open>save_subscription_state\<close> may answer is an argument (\<open>Some\<close> error), and so are
  the readings of the clock. A response is its status and its JSON body.
\<close>

section \<open>The service\<close>

record service =
  sv_storage :: mem
  sv_database :: database
  sv_base_path :: string

text \<open>\<open>ms k\<close> is the \<open>k\<close>-th \<open>timestamp_millis\<close> of an operation, \<open>secs\<close> its \<open>timestamp\<close>, \<open>stamp\<close> its RFC 3339 time.\<close>

record moment =
  ms :: "nat \<Rightarrow> int"
  secs :: int
  stamp :: string

type_synonym api_response = "nat \<times> json option"

definition service_save :: "crypto_env \<Rightarrow> error option \<Rightarrow> service \<Rightarrow> database \<Rightarrow> service \<times> unit api" where
  "service_save C fault sv nxt =
     (case database_to_vec C nxt of
        None \<Rightarrow> (sv, Inl ae_json)
      | Some bs \<Rightarrow>
     (case database_to_vec C (sv_database sv) of
        None \<Rightarrow> (sv, Inl ae_json)
      | Some old \<Rightarrow>
        if old \<noteq> bs then
          (case fault of
             Some er \<Rightarrow> (sv, Inl (ae_of_error er))
           | None \<Rightarrow> (sv\<lparr>sv_storage := save_subscription_state (sv_storage sv) bs, sv_database := nxt\<rparr>, Inr ()))
        else (sv\<lparr>sv_database := nxt\<rparr>, Inr ())))"

text \<open>\<open>load_database\<close> at start-up: the loaded or the new database is written back. A new key is an argument.\<close>

definition load_database :: "crypto_env \<Rightarrow> bytes api \<Rightarrow> mem \<Rightarrow> string + (mem \<times> database)" where
  "load_database C new_key s =
     (case (case load_subscription_state s of
          Some bs \<Rightarrow> (case database_from_slice C bs of
              None \<Rightarrow> Inl ''invalid persisted subscription state''
            | Some db \<Rightarrow>
              if db_version db \<noteq> 1 then Inl ''unsupported subscription state version''
              else map_sum ae_message (\<lambda>_. db) (crypto_jwk C (db_signing_key db)))
        | None \<Rightarrow> map_sum ae_message (\<lambda>k. \<lparr>db_version = 1, db_signing_key = k, db_subscriptions = fmempty\<rparr>) new_key) of
        Inl e \<Rightarrow> Inl e
      | Inr db \<Rightarrow> (case database_to_vec C db of
          None \<Rightarrow> Inl ''subscription state cannot be written''
        | Some bs \<Rightarrow> Inr (save_subscription_state s bs, db)))"

definition service_tails :: "env \<Rightarrow> string list \<Rightarrow> mem \<Rightarrow> tails" where
  "service_tails E ord s = fmap_of_list (map (\<lambda>(n, m). (n, as_str (md_next_offset m)))
     (filter (\<lambda>(n, _). strip_prefix ''__ds/'' n = None) (list_streams E s ord)))"

section \<open>Completing a wake\<close>

text \<open>The batch of acknowledgements is validated as a whole before any is applied.\<close>

fun check_acks :: "links \<Rightarrow> tails \<Rightarrow> (string \<times> string) list \<Rightarrow> unit api" where
  "check_acks ls tails [] = Inr ()"
| "check_acks ls tails ((stream, off) # acks) =
     (case fmlookup ls stream of
        None \<Rightarrow> Inl (ae_bad ''INVALID_ACK'' ''stream is not linked'')
      | Some l \<Rightarrow>
     (case offset_from_str off of
        Inl _ \<Rightarrow> Inl (ae_bad ''INVALID_ACK'' ''invalid offset'')
      | Inr x \<Rightarrow>
        if offset_is_start x \<or> offset_is_now x \<or> off < lk_acked_offset l \<or>
           (case fmlookup tails stream of Some tail \<Rightarrow> off > tail | None \<Rightarrow> True)
        then Inl (ae_bad ''INVALID_ACK'' ''acknowledgement must not regress or exceed the stream tail'')
        else check_acks ls tails acks))"

definition raise_ack :: "string \<Rightarrow> string \<Rightarrow> links \<Rightarrow> links" where
  "raise_ack stream off ls = (case fmlookup ls stream of
     Some l \<Rightarrow> fmupd stream (l\<lparr>lk_acked_offset := max (lk_acked_offset l) off\<rparr>) ls
   | None \<Rightarrow> ls)"

definition apply_acks :: "(string \<times> string) list \<Rightarrow> links \<Rightarrow> links" where
  "apply_acks acks ls = foldl (\<lambda>ls (stream, off). raise_ack stream off ls) ls acks"

definition bearer :: "header_map \<Rightarrow> string api" where
  "bearer hs = (case Option.bind (header_str hs ''authorization'') (strip_prefix ''Bearer '') of
     Some t \<Rightarrow> Inr t | None \<Rightarrow> Inl ae_fenced)"

text \<open>The conditions under which a completion is answered with the fencing error.\<close>

definition completion_fenced ::
  "subscription \<Rightarrow> wake \<Rightarrow> string \<Rightarrow> claims \<Rightarrow> completion \<Rightarrow> string \<Rightarrow> string \<Rightarrow> int \<Rightarrow> bool" where
  "completion_fenced sub w sid cl cm token action now \<longleftrightarrow>
     cl_subscription cl \<noteq> sid \<or> cl_generation cl \<noteq> wk_generation w \<or> cl_wake_id cl \<noteq> wk_id w \<or>
     cm_wake_id cm \<noteq> wk_id w \<or> cm_generation cm \<noteq> wk_generation w \<or>
     (case wk_lease_until w of Some t \<Rightarrow> t \<le> now | None \<Rightarrow> True) \<or>
     wk_token w \<noteq> Some token \<or> (action = ''callback'') \<noteq> (cf_kind (sb_config sub) = Webhook)"

definition complete ::
  "crypto_env \<Rightarrow> subscription \<Rightarrow> string \<Rightarrow> bytes \<Rightarrow> header_map \<Rightarrow> bytes \<Rightarrow> string \<Rightarrow> tails \<Rightarrow> int \<Rightarrow>
   (subscription \<times> api_response) api" where
  "complete C sub sid key hs body action tails now =
     (case completion_from_slice C body of
        None \<Rightarrow> Inl ae_json
      | Some cm \<Rightarrow>
     (case bearer hs of
        Inl e \<Rightarrow> Inl e
      | Inr token \<Rightarrow>
     (case crypto_verify C key token of
        Inl e \<Rightarrow> Inl e
      | Inr cl \<Rightarrow>
     (case sb_wake sub of
        None \<Rightarrow> Inl ae_fenced
      | Some w \<Rightarrow>
        if completion_fenced sub w sid cl cm token action now then Inl ae_fenced
        else (case check_acks (sb_links sub) tails (cm_acks cm) of
            Inl e \<Rightarrow> Inl e
          | Inr _ \<Rightarrow>
            let sub1 = (if action \<noteq> ''release'' then sub\<lparr>sb_links := apply_acks (cm_acks cm) (sb_links sub)\<rparr> else sub);
                sub2 = (if cm_done cm \<or> action = ''release'' then
                          sub1\<lparr>sb_wake := None, sb_failed := False, sb_next_attempt_at := now\<rparr>
                        else sub1\<lparr>sb_wake := Some (w\<lparr>wk_lease_until := Some (now + cf_lease_ttl_ms (sb_config sub))\<rparr>)\<rparr>) in
            Inr (sub2,
              if action = ''release'' then (204, None)
              else (200, Some (JObject [(''ok'', JBool True),
                (''next_wake'', JBool (cm_done cm \<and> pending sub2 tails))]))))))))"

section \<open>Claims, links and creation\<close>

definition snapshot_json :: "snapshot \<Rightarrow> json" where
  "snapshot_json s = JObject [(''path'', JString (sn_path s)), (''link_type'', JString (sn_link_type s)),
     (''acked_offset'', JString (sn_acked_offset s)), (''tail_offset'', JString (sn_tail_offset s)),
     (''has_pending'', JBool (sn_has_pending s))]"

definition claim_subscription ::
  "crypto_env \<Rightarrow> subscription \<Rightarrow> string \<Rightarrow> bytes \<Rightarrow> bytes \<Rightarrow> tails \<Rightarrow> int \<Rightarrow> (subscription \<times> api_response) api" where
  "claim_subscription C sub sid key body tails now =
     (case claim_from_slice C body of
        None \<Rightarrow> Inl ae_json
      | Some worker \<Rightarrow>
        if trim worker = [] \<or> length worker > 256 then
          Inl (ae_bad ''INVALID_WORKER'' ''worker must be a non-empty name'')
        else (case Option.bind (sb_wake sub) (\<lambda>w. map_option (Pair w) (wk_holder w)) of
            Some (w, holder) \<Rightarrow> Inl ((ae_conflict ''ALREADY_CLAIMED'' ''another worker holds this subscription'')
              \<lparr>ae_extra := JObject [(''current_holder'', JString holder),
                 (''generation'', JNumber (u64_to_string (wk_generation w)))]\<rparr>)
          | None \<Rightarrow>
        (case (if sb_wake sub = None then
                 (if \<not> pending sub tails then
                    Inl (ae_conflict ''NO_PENDING_WORK'' ''subscription has no pending work'')
                  else issue_wake C sub sid key tails now)
               else Inr sub) of
            Inl e \<Rightarrow> Inl e
          | Inr sub1 \<Rightarrow>
            let sub2 = sub1\<lparr>sb_failed := False\<rparr>; streams = snapshots sub2 tails in
            (case sb_wake sub2 of
               None \<Rightarrow> Inl ae_fenced
             | Some w \<Rightarrow>
            (case crypto_token C key \<lparr>cl_subscription = sid, cl_generation = wk_generation w, cl_wake_id = wk_id w\<rparr> of
               Inl e \<Rightarrow> Inl e
             | Inr token \<Rightarrow>
               Inr (sub2\<lparr>sb_wake := Some (w\<lparr>wk_token := Some token, wk_holder := Some worker,
                      wk_lease_until := Some (now + cf_lease_ttl_ms (sb_config sub)), wk_delivered := True\<rparr>)\<rparr>,
                 200, Some (JObject [(''wake_id'', JString (wk_id w)),
                   (''generation'', JNumber (u64_to_string (wk_generation w))), (''token'', JString token),
                   (''streams'', JArray (map snapshot_json streams)),
                   (''lease_ttl_ms'', JNumber (nat_to_string (nat (cf_lease_ttl_ms (sb_config sub)))))])))))))"

definition tail_or_zero :: "tails \<Rightarrow> string \<Rightarrow> string" where
  "tail_or_zero tails path = (case fmlookup tails path of Some t \<Rightarrow> t | None \<Rightarrow> as_str (offset_new 0 0))"

fun add_links :: "configuration \<Rightarrow> tails \<Rightarrow> string list \<Rightarrow> links \<Rightarrow> links api" where
  "add_links c tails [] ls = Inr ls"
| "add_links c tails (path # paths) ls =
     (case validate_path path of
        Inl e \<Rightarrow> Inl e
      | Inr _ \<Rightarrow>
        if cf_wake_stream c = Some path then Inl (ae_bad ''INVALID_PATH'' ''cannot link the wake stream'')
        else add_links c tails paths
          (case fmlookup ls path of
             Some l \<Rightarrow> fmupd path (l\<lparr>lk_explicit := True\<rparr>) ls
           | None \<Rightarrow> fmupd path \<lparr>lk_explicit = True, lk_acked_offset = tail_or_zero tails path\<rparr> ls))"

definition add_streams ::
  "crypto_env \<Rightarrow> subscription \<Rightarrow> bytes \<Rightarrow> tails \<Rightarrow> (subscription \<times> api_response) api" where
  "add_streams C sub body tails =
     (case membership_from_slice C body of
        None \<Rightarrow> Inl ae_json
      | Some paths \<Rightarrow>
     (case add_links (sb_config sub) tails paths (sb_links sub) of
        Inl e \<Rightarrow> Inl e
      | Inr ls \<Rightarrow> Inr (sub\<lparr>sb_links := ls\<rparr>, 204, None)))"

text \<open>The links a new subscription starts with: at the tails, so only later appends are pending.\<close>

definition initial_links :: "configuration \<Rightarrow> tails \<Rightarrow> links" where
  "initial_links c tails =
     foldl (\<lambda>ls path. fmupd path \<lparr>lk_explicit = True, lk_acked_offset = tail_or_zero tails path\<rparr> ls)
       (foldl (\<lambda>ls (path, tail). if cf_matches c path
            then fmupd path \<lparr>lk_explicit = False, lk_acked_offset = tail\<rparr> ls else ls)
          fmempty (sorted_list_of_fmap tails))
       (cf_streams c)"

definition check_wake_stream :: "env \<Rightarrow> mem \<Rightarrow> configuration \<Rightarrow> unit api" where
  "check_wake_stream E s c = (case cf_wake_stream c of
     None \<Rightarrow> Inr ()
   | Some ws \<Rightarrow> (case mem_head E s ws of
       Inl _ \<Rightarrow> Inl (ae_bad ''INVALID_WAKE_STREAM'' ''wake stream must be created explicitly'')
     | Inr m \<Rightarrow>
       if content_type (md_config m) \<noteq> ''application/json'' \<or> md_closed m then
         Inl (ae_bad ''INVALID_WAKE_STREAM'' ''wake stream must be open application/json'')
       else Inr ()))"

definition create_subscription ::
  "env \<Rightarrow> crypto_env \<Rightarrow> moment \<Rightarrow> service \<Rightarrow> database \<Rightarrow> string \<Rightarrow> configuration \<Rightarrow> request_origin \<Rightarrow> tails \<Rightarrow>
   (database \<times> api_response) api" where
  "create_subscription E C t sv db sid c origin tails =
     (case crypto_jwk C (db_signing_key db) of
        Inl e \<Rightarrow> Inl e
      | Inr (kid, _) \<Rightarrow>
     (case config_to_vec C c of
        None \<Rightarrow> Inl ae_json
      | Some bs \<Rightarrow>
        let h = crypto_hash C bs in
     (case fmlookup (db_subscriptions db) sid of
        Some existing \<Rightarrow>
          if sb_deleted existing \<or> sb_config_hash existing \<noteq> h then
            Inl (ae_conflict ''CONFIG_MISMATCH'' ''subscription ID already has a different configuration'')
          else Inr (db, 200, Some (sub_response existing sid kid (sv_base_path sv)))
      | None \<Rightarrow>
     (case check_wake_stream E (sv_storage sv) c of
        Inl e \<Rightarrow> Inl e
      | Inr _ \<Rightarrow>
     (case authority origin of
        None \<Rightarrow> Inl (ae_bad ''INVALID_ORIGIN'' ''request host required'')
      | Some auth \<Rightarrow>
        let sub = \<lparr>sb_config = c, sb_config_hash = h, sb_links = initial_links c tails, sb_created_at = stamp t,
              sb_origin = scheme origin @ ''://'' @ auth, sb_generation = 0, sb_wake = None, sb_deleted = False,
              sb_next_attempt_at = ms t 1, sb_attempts = 0, sb_failed = False\<rparr> in
        Inr (db\<lparr>db_subscriptions := fmupd sid sub (db_subscriptions db)\<rparr>, 201,
             Some (sub_response sub sid kid (sv_base_path sv))))))))"

section \<open>The control transaction\<close>

datatype http_method = HGet | HPut | HPost | HDelete | HOther

definition split3 :: "string \<Rightarrow> string \<times> string option \<times> string option" where
  "split3 s = (case split_once (CHR ''/'') s of
     None \<Rightarrow> (s, None, None)
   | Some (a, r) \<Rightarrow> (case split_once (CHR ''/'') r of
       None \<Rightarrow> (a, Some r, None)
     | Some (b, c) \<Rightarrow> (a, Some b, Some c)))"

definition is_ascii_alphanumeric :: "char \<Rightarrow> bool" where
  "is_ascii_alphanumeric c \<longleftrightarrow> is_ascii_digit c \<or> is_ascii_uppercase c \<or> of_char c \<in> {97..122 :: nat}"

definition valid_id :: "string \<Rightarrow> bool" where
  "valid_id i \<longleftrightarrow> i \<noteq> [] \<and> length i \<le> 128 \<and> list_all (\<lambda>b. is_ascii_alphanumeric b \<or> b \<in> set ''-_.'') i"

definition unlink :: "string \<Rightarrow> subscription \<Rightarrow> subscription" where
  "unlink path sub =
     (if cf_matches (sb_config sub) path then
        (case fmlookup (sb_links sub) path of
           Some l \<Rightarrow> sub\<lparr>sb_links := fmupd path (l\<lparr>lk_explicit := False\<rparr>) (sb_links sub)\<rparr>
         | None \<Rightarrow> sub)
      else sub\<lparr>sb_links := fmdrop path (sb_links sub)\<rparr>)"

text \<open>The requests on an existing subscription.\<close>

definition control_existing ::
  "crypto_env \<Rightarrow> string \<Rightarrow> bytes \<Rightarrow> string \<Rightarrow> string \<Rightarrow> http_method \<Rightarrow> string \<Rightarrow> header_map \<Rightarrow> bytes \<Rightarrow> tails \<Rightarrow> int \<Rightarrow>
   subscription \<Rightarrow> (subscription \<times> api_response) api" where
  "control_existing C kid key base sid meth action hs body tails now sub =
     (if meth = HGet \<and> action = [] then Inr (sub, 200, Some (sub_response sub sid kid base))
      else if meth = HDelete \<and> action = [] then Inr (sub\<lparr>sb_deleted := True, sb_wake := None\<rparr>, 204, None)
      else if meth = HPost \<and> action = ''streams'' then add_streams C sub body tails
      else if meth = HDelete \<and> strip_prefix ''streams/'' action \<noteq> None then
        (let path = drop 8 action in
         case validate_path path of Inl e \<Rightarrow> Inl e | Inr _ \<Rightarrow> Inr (unlink path sub, 204, None))
      else if meth = HPost \<and> action = ''claim'' \<and> cf_kind (sb_config sub) = PullWake then
        claim_subscription C sub sid key body tails now
      else if meth = HPost \<and> action \<in> {''callback'', ''ack'', ''release''} then
        complete C sub sid key hs body action tails now
      else Inl ae_missing)"

text \<open>The subscription and the action a control path names.\<close>

definition control_target :: "string \<Rightarrow> (string \<times> string) option" where
  "control_target control = (case split3 control of (first, second, third) \<Rightarrow>
     if first \<noteq> ''subscriptions'' then None
     else (case second of
         None \<Rightarrow> None
       | Some sid \<Rightarrow> if valid_id sid then Some (sid, case third of Some a \<Rightarrow> a | None \<Rightarrow> []) else None))"

text \<open>The change a request makes to the refreshed copy of the database.\<close>

definition control_change ::
  "env \<Rightarrow> crypto_env \<Rightarrow> moment \<Rightarrow> string list \<Rightarrow> string \<Rightarrow> request_origin \<Rightarrow> http_method \<Rightarrow> header_map \<Rightarrow> bytes \<Rightarrow>
   configuration option \<Rightarrow> service \<Rightarrow> string \<Rightarrow> string \<Rightarrow> (database \<times> api_response) api" where
  "control_change E C t ord kid origin meth hs body conf sv sid action =
     (let tails = service_tails E ord (sv_storage sv);
          now = ms t 0;
          db = refresh tails now (sv_database sv) in
      if meth = HPut \<and> action = [] then
        (case conf of
           Some c \<Rightarrow> create_subscription E C t sv db sid c origin tails
         | None \<Rightarrow> Inl ae_json)
      else (case fmlookup (db_subscriptions db) sid of
          None \<Rightarrow> Inl ae_missing
        | Some sub \<Rightarrow>
          if sb_deleted sub then Inl ae_missing
          else map_sum id (\<lambda>(sub', r). (db\<lparr>db_subscriptions := fmupd sid sub' (db_subscriptions db)\<rparr>, r))
            (control_existing C kid (db_signing_key db) (sv_base_path sv) sid meth action hs body tails now sub)))"

definition control_transaction ::
  "env \<Rightarrow> crypto_env \<Rightarrow> moment \<Rightarrow> string list \<Rightarrow> error option \<Rightarrow> string \<Rightarrow> request_origin \<Rightarrow> http_method \<Rightarrow>
   header_map \<Rightarrow> bytes \<Rightarrow> configuration option \<Rightarrow> service \<Rightarrow> service \<times> api_response api" where
  "control_transaction E C t ord fault control origin meth hs body conf sv =
     (case crypto_jwk C (db_signing_key (sv_database sv)) of
        Inl e \<Rightarrow> (sv, Inl e)
      | Inr (kid, jwk) \<Rightarrow>
        if control = ''jwks.json'' \<and> meth = HGet then (sv, Inr (200, Some (JObject [(''keys'', JArray [jwk])])))
        else (case control_target control of
            None \<Rightarrow> (sv, Inl ae_missing)
          | Some (sid, action) \<Rightarrow>
            (case control_change E C t ord kid origin meth hs body conf sv sid action of
               Inl e \<Rightarrow> (sv, Inl e)
             | Inr (db', r) \<Rightarrow>
               (case service_save C fault sv db' of
                  (sv', Inl e) \<Rightarrow> (sv', Inl e)
                | (sv', Inr _) \<Rightarrow> (sv', Inr r)))))"

section \<open>Reconciliation\<close>

definition MAX_DELIVERIES :: nat where
  "MAX_DELIVERIES = 16"

record job =
  jb_id :: string
  jb_generation :: u64
  jb_url :: string
  jb_body :: bytes
  jb_signature :: string

type_synonym pull = "string \<times> u64 \<times> string \<times> json"

definition webhook_body :: "env \<Rightarrow> string \<Rightarrow> string \<Rightarrow> subscription \<Rightarrow> wake \<Rightarrow> bytes" where
  "webhook_body E base sid sub w = to_vec E (JObject
     [(''subscription_id'', JString sid), (''wake_id'', JString (wk_id w)),
      (''generation'', JNumber (u64_to_string (wk_generation w))),
      (''streams'', JArray (map snapshot_json (wk_streams w))),
      (''callback_url'', JString (sb_origin sub @ base @ ''/__ds/subscriptions/'' @ sid @ ''/callback'')),
      (''callback_token'', opt_json (wk_token w))])"

definition wake_event :: "string \<Rightarrow> string \<Rightarrow> u64 \<Rightarrow> int \<Rightarrow> json" where
  "wake_event sid path gen now = JObject
     [(''type'', JString ''wake''), (''subscription_id'', JString sid), (''stream'', JString path),
      (''generation'', JNumber (u64_to_string gen)), (''ts'', JNumber (int_to_string now))]"

text \<open>One subscription of the reconciliation loop; \<open>njobs\<close> is the number of deliveries collected so far.\<close>

definition tick_sub ::
  "env \<Rightarrow> crypto_env \<Rightarrow> moment \<Rightarrow> string \<Rightarrow> bytes \<Rightarrow> string \<Rightarrow> (string \<times> u64) list \<Rightarrow> tails \<Rightarrow> int \<Rightarrow> nat \<Rightarrow>
   string \<times> subscription \<Rightarrow> (subscription \<times> job list \<times> pull list) api" where
  "tick_sub E C t base key kid active tails now njobs ss = (case ss of (sid, sub0) \<Rightarrow>
     if sb_deleted sub0 then Inr (sub0, [], [])
     else (case (if sb_wake sub0 = None \<and> pending sub0 tails then issue_wake C sub0 sid key tails now else Inr sub0) of
         Inl e \<Rightarrow> Inl e
       | Inr sub \<Rightarrow> (case sb_wake sub of
           None \<Rightarrow> Inr (sub, [], [])
         | Some w \<Rightarrow>
           if wk_delivered w \<or> sb_next_attempt_at sub > now \<or> (sid, wk_generation w) \<in> set active then Inr (sub, [], [])
           else if cf_kind (sb_config sub) = PullWake then
             (case find sn_has_pending (wk_streams w) of
                Some s \<Rightarrow> Inr (sub, [], [(sid, wk_generation w,
                  (case cf_wake_stream (sb_config sub) of Some ws \<Rightarrow> ws | None \<Rightarrow> []),
                  wake_event sid (sn_path s) (wk_generation w) now)])
              | None \<Rightarrow> Inr (sub, [], []))
           else if length active + njobs < MAX_DELIVERIES then
             let w' = w\<lparr>wk_lease_until := Some (now + cf_lease_ttl_ms (sb_config sub))\<rparr>;
                 body = webhook_body E base sid sub w';
                 signed = int_to_string (secs t) @ ''.'' @ body in
             (case crypto_signature C key signed of
                Inl e \<Rightarrow> Inl e
              | Inr sig \<Rightarrow> Inr (sub\<lparr>sb_wake := Some w', sb_failed := False, sb_next_attempt_at := now + 6000\<rparr>,
                  [\<lparr>jb_id = sid, jb_generation = wk_generation w,
                    jb_url = (case cf_webhook (sb_config sub) of Some u \<Rightarrow> u | None \<Rightarrow> []), jb_body = body,
                    jb_signature = ''t='' @ int_to_string (secs t) @ '',kid='' @ kid @ '',ed25519='' @ sig\<rparr>], []))
           else Inr (sub, [], []))))"

fun tick_subs ::
  "env \<Rightarrow> crypto_env \<Rightarrow> moment \<Rightarrow> string \<Rightarrow> bytes \<Rightarrow> string \<Rightarrow> (string \<times> u64) list \<Rightarrow> tails \<Rightarrow> int \<Rightarrow> nat \<Rightarrow>
   (string \<times> subscription) list \<Rightarrow> ((string \<times> subscription) list \<times> job list \<times> pull list) api" where
  "tick_subs E C t base key kid active tails now njobs [] = Inr ([], [], [])"
| "tick_subs E C t base key kid active tails now njobs (ss # rest) =
     (case tick_sub E C t base key kid active tails now njobs ss of
        Inl e \<Rightarrow> Inl e
      | Inr (sub, jobs, pulls) \<Rightarrow>
     (case tick_subs E C t base key kid active tails now (njobs + length jobs) rest of
        Inl e \<Rightarrow> Inl e
      | Inr (subs, jobs', pulls') \<Rightarrow> Inr ((fst ss, sub) # subs, jobs @ jobs', pulls @ pulls')))"

text \<open>The wake publication of one pull subscription and its record in the database.\<close>

definition publish ::
  "env \<Rightarrow> int \<Rightarrow> mem \<times> database \<Rightarrow> pull \<Rightarrow> mem \<times> database" where
  "publish E now sd p = (case (sd, p) of ((s, db), (sid, gen, stream, event)) \<Rightarrow>
     (case append_message E s stream (to_vec E event) ''application/json'' of (s', r) \<Rightarrow>
       (s', case fmlookup (db_subscriptions db) sid of
          None \<Rightarrow> db
        | Some sub \<Rightarrow>
          let sub' = (case r of
              Inr _ \<Rightarrow> (case sb_wake sub of
                  Some w \<Rightarrow> if wk_generation w = gen then sub\<lparr>sb_wake := Some (w\<lparr>wk_delivered := True\<rparr>), sb_failed := False\<rparr>
                            else sub\<lparr>sb_failed := False\<rparr>
                | None \<Rightarrow> sub\<lparr>sb_failed := False\<rparr>)
            | Inl _ \<Rightarrow> sub\<lparr>sb_failed := True, sb_next_attempt_at := now + 1000\<rparr>) in
          db\<lparr>db_subscriptions := fmupd sid sub' (db_subscriptions db)\<rparr>)))"

definition tick ::
  "env \<Rightarrow> crypto_env \<Rightarrow> moment \<Rightarrow> string list \<Rightarrow> error option \<Rightarrow> error option \<Rightarrow> (string \<times> u64) list \<Rightarrow> service \<Rightarrow>
   service \<times> job list api" where
  "tick E C t ord fault1 fault2 active sv =
     (let db0 = sv_database sv in
      if list_all (\<lambda>(_, s). sb_deleted s) (sorted_list_of_fmap (db_subscriptions db0)) then (sv, Inr [])
      else
        let tails = service_tails E ord (sv_storage sv); now = ms t 0; db1 = refresh tails now db0 in
        (case crypto_jwk C (db_signing_key db1) of
           Inl e \<Rightarrow> (sv, Inl e)
         | Inr (kid, _) \<Rightarrow>
        (case tick_subs E C t (sv_base_path sv) (db_signing_key db1) kid active tails now 0
                (sorted_list_of_fmap (db_subscriptions db1)) of
           Inl e \<Rightarrow> (sv, Inl e)
         | Inr (subs, jobs, pulls) \<Rightarrow>
           let db2 = db1\<lparr>db_subscriptions := fmap_of_list subs\<rparr> in
        (case service_save C fault1 sv db2 of
           (sv1, Inl e) \<Rightarrow> (sv1, Inl e)
         | (sv1, Inr _) \<Rightarrow>
           (case foldl (publish E now) (sv_storage sv1, db2) pulls of (s', db3) \<Rightarrow>
        (case service_save C fault2 (sv1\<lparr>sv_storage := s'\<rparr>) db3 of
           (sv2, Inl e) \<Rightarrow> (sv2, Inl e)
         | (sv2, Inr _) \<Rightarrow> (sv2, Inr jobs)))))))"

text \<open>The record of a webhook delivery's outcome: \<open>Inr\<close> done, or its failure.\<close>

definition backoff :: "u32 \<Rightarrow> int" where
  "backoff attempts = min (1000 * 2 ^ min (unat attempts) 6) 60000"

definition saturating_suc :: "u32 \<Rightarrow> u32" where
  "saturating_suc n = (if n = - 1 then n else n + 1)"

definition finish_sub ::
  "crypto_env \<Rightarrow> int \<Rightarrow> string \<Rightarrow> api_error + bool \<Rightarrow> wake \<Rightarrow> subscription \<Rightarrow> subscription api" where
  "finish_sub C now sid result w sub = (case result of
     Inr done \<Rightarrow>
       if done then Inr (sub\<lparr>sb_failed := False, sb_attempts := 0,
         sb_links := apply_acks (map (\<lambda>s. (sn_path s, sn_tail_offset s)) (wk_streams w)) (sb_links sub),
         sb_wake := None, sb_next_attempt_at := now\<rparr>)
       else Inr (sub\<lparr>sb_wake := Some (w\<lparr>wk_delivered := True\<rparr>), sb_failed := False, sb_attempts := 0\<rparr>)
   | Inl _ \<Rightarrow>
     (case crypto_retry_jitter C sid of
        Inl e \<Rightarrow> Inl e
      | Inr jitter \<Rightarrow>
        let delay = backoff (sb_attempts sub) in
        Inr (sub\<lparr>sb_failed := True, sb_attempts := saturating_suc (sb_attempts sub),
          sb_next_attempt_at := now + delay + tdiv (delay * jitter) 1000\<rparr>)))"

definition finish ::
  "crypto_env \<Rightarrow> moment \<Rightarrow> error option \<Rightarrow> string \<Rightarrow> u64 \<Rightarrow> api_error + bool \<Rightarrow> service \<Rightarrow> service \<times> unit api" where
  "finish C t fault sid gen result sv =
     (let db = sv_database sv in
      case fmlookup (db_subscriptions db) sid of
        None \<Rightarrow> (sv, Inr ())
      | Some sub \<Rightarrow>
        if sb_deleted sub then (sv, Inr ())
        else (case sb_wake sub of
            None \<Rightarrow> (sv, Inr ())
          | Some w \<Rightarrow>
            if wk_generation w \<noteq> gen \<or> (case wk_lease_until w of Some u \<Rightarrow> u \<le> ms t 0 | None \<Rightarrow> False)
            then (sv, Inr ())
            else (case finish_sub C (ms t 1) sid result w sub of
                Inl e \<Rightarrow> (sv, Inl e)
              | Inr sub' \<Rightarrow>
                service_save C fault sv (db\<lparr>db_subscriptions := fmupd sid sub' (db_subscriptions db)\<rparr>))))"

end
