(* ===== verification/DS_Sub_Life.thy ===== *)
theory DS_Sub_Life
  imports DS_Sub_Api DS_Step
begin

text \<open>
  The life of a subscription: how one operation of the service may change it.
  \<open>evolves\<close> is transitive and speaks of identity, generations and wakes;
  \<open>acks_keep\<close> and \<open>acks_rise\<close> speak of the acknowledged offsets.
\<close>

section \<open>Only the service writes its state\<close>

lemma subscription_state_simps [simp]:
  "mem_subscription_state (set_stream n e s) = mem_subscription_state s"
  "mem_subscription_state (drop_stream n s) = mem_subscription_state s"
  "mem_subscription_state (save_subscription_state s bs) = Some bs"
  by (simp_all add: set_stream_def drop_stream_def save_subscription_state_def)

lemma cascade_delete_subscription_state [simp]:
  "mem_subscription_state (cascade_delete s n) = mem_subscription_state s"
proof (induction s n rule: cascade_delete.induct)
  case (1 s n)
  then show ?case
    by (subst cascade_delete.simps) (auto simp: Let_def split: option.splits)
qed

lemma hard_remove_subscription_state:
  "hard_remove_stream s n = (s', x) \<Longrightarrow> mem_subscription_state s' = mem_subscription_state s"
  by (auto simp: hard_remove_stream_def split: option.splits)

lemma remove_for_recreate_subscription_state [simp]:
  "mem_subscription_state (remove_for_recreate s n) = mem_subscription_state s"
  by (auto simp: remove_for_recreate_def hard_remove_subscription_state split: prod.splits option.splits)

lemma commit_messages_subscription_state:
  "commit_messages s e msgs = (s', r) \<Longrightarrow> mem_subscription_state s' = mem_subscription_state s"
  by (auto simp: commit_messages_def Let_def split: sum.splits if_splits)

lemma append_batch_subscription_state:
  "append_batch E s n msgs ct sq cl = (s', r) \<Longrightarrow> mem_subscription_state s' = mem_subscription_state s"
  by (auto simp: append_batch_def Let_def split: sum.splits option.splits prod.splits
      dest: commit_messages_subscription_state)

lemma append_with_producer_subscription_state:
  "append_with_producer E s n msgs ct p cl sq = (s', r) \<Longrightarrow> mem_subscription_state s' = mem_subscription_state s"
  by (auto simp: append_with_producer_def Let_def split: sum.splits option.splits prod.splits producer_append_precheck.splits
      dest!: commit_messages_subscription_state)

lemma create_stream_subscription_state:
  "create_stream_with_data E s n opts msgs cl = (s', r) \<Longrightarrow> mem_subscription_state s' = mem_subscription_state s"
  by (auto simp: create_stream_with_data_def Let_def
      split: sum.splits option.splits prod.splits existing_create_disposition.splits if_splits
      dest!: commit_messages_subscription_state)

lemma replace_stream_subscription_state:
  "replace_stream E s n opts msgs cl = (s', r) \<Longrightarrow> mem_subscription_state s' = mem_subscription_state s"
  by (auto simp: replace_stream_def Let_def split: sum.splits option.splits prod.splits
      dest!: commit_messages_subscription_state)

lemma mem_delete_subscription_state:
  "mem_delete s n = (s', r) \<Longrightarrow> mem_subscription_state s' = mem_subscription_state s"
  by (auto simp: mem_delete_def split: sum.splits option.splits prod.splits delete_disposition.splits
      dest!: hard_remove_subscription_state)

lemma cleanup_one_subscription_state [simp]:
  "mem_subscription_state (cleanup_one s x) = mem_subscription_state s"
  by (auto simp: cleanup_one_def split: prod.splits option.splits delete_disposition.splits)

lemma cleanup_subscription_state [simp]:
  "mem_subscription_state (foldl cleanup_one s xs) = mem_subscription_state s"
  by (induction xs arbitrary: s) simp_all

lemma incr_ref_count_subscription_state [simp]:
  "mem_subscription_state (incr_ref_count n s) = mem_subscription_state s"
  by (simp add: incr_ref_count_def split: option.splits)

lemma create_fork_subscription_state:
  "create_fork_with_options E s n src req sopts opts = Some (s', r) \<Longrightarrow>
    mem_subscription_state s' = mem_subscription_state s"
  by (auto simp: create_fork_with_options_def Let_def
      split: sum.splits option.splits prod.splits existing_create_disposition.splits if_splits
      dest!: commit_messages_subscription_state)

lemma mem_read_subscription_state:
  "mem_read E s n off = Some (s', r) \<Longrightarrow> mem_subscription_state s' = mem_subscription_state s"
  by (auto simp: mem_read_def split: option.splits sum.splits if_splits)

lemma exec_subscription_state:
  assumes "exec E s op = Some s'" "\<And>st. op \<noteq> OpSaveState st"
  shows "mem_subscription_state s' = mem_subscription_state s"
  using assms
  by (cases op)
    (auto simp: cleanup_expired_streams_def Let_def
        create_stream_subscription_state [OF surjective_pairing] append_batch_subscription_state [OF surjective_pairing]
        append_with_producer_subscription_state [OF surjective_pairing]
        replace_stream_subscription_state [OF surjective_pairing] mem_delete_subscription_state [OF surjective_pairing]
      dest: create_fork_subscription_state mem_read_subscription_state)

section \<open>The relations\<close>

text \<open>
  A wake that is current after the change was current before, under the same
  identity and still with its holder if it had one, or it has a generation
  the subscription has never had.
\<close>

definition same_wake :: "wake \<Rightarrow> wake \<Rightarrow> bool" where
  "same_wake w w' \<longleftrightarrow> wk_id w' = wk_id w \<and> wk_generation w' = wk_generation w \<and> wk_streams w' = wk_streams w \<and>
     (wk_holder w \<noteq> None \<longrightarrow> wk_holder w' = wk_holder w \<and> wk_token w' = wk_token w)"

definition evolves :: "subscription \<Rightarrow> subscription \<Rightarrow> bool" where
  "evolves sub sub' \<longleftrightarrow>
     sb_config sub' = sb_config sub \<and> sb_config_hash sub' = sb_config_hash sub \<and>
     sb_created_at sub' = sb_created_at sub \<and> sb_origin sub' = sb_origin sub \<and>
     (sb_deleted sub \<longrightarrow> sb_deleted sub') \<and> sb_generation sub \<le> sb_generation sub' \<and>
     (\<forall>w'. sb_wake sub' = Some w' \<longrightarrow>
        (\<exists>w. sb_wake sub = Some w \<and> same_wake w w' \<and> sb_generation sub' = sb_generation sub) \<or>
        sb_generation sub < wk_generation w')"

definition sub_inv :: "subscription \<Rightarrow> bool" where
  "sub_inv sub \<longleftrightarrow> (sb_deleted sub \<longrightarrow> sb_wake sub = None) \<and>
     (\<forall>w. sb_wake sub = Some w \<longrightarrow> wk_generation w = sb_generation sub \<and>
        (wk_holder w \<noteq> None \<longrightarrow> wk_token w \<noteq> None \<and> wk_lease_until w \<noteq> None \<and> wk_delivered w))"

definition acks_keep :: "subscription \<Rightarrow> subscription \<Rightarrow> bool" where
  "acks_keep sub sub' \<longleftrightarrow> (\<forall>p l. fmlookup (sb_links sub) p = Some l \<longrightarrow>
     (\<exists>l'. fmlookup (sb_links sub') p = Some l' \<and> lk_acked_offset l \<le> lk_acked_offset l'))"

definition acks_rise :: "subscription \<Rightarrow> subscription \<Rightarrow> bool" where
  "acks_rise sub sub' \<longleftrightarrow> (\<forall>p l l'. fmlookup (sb_links sub) p = Some l \<longrightarrow> fmlookup (sb_links sub') p = Some l' \<longrightarrow>
     lk_acked_offset l \<le> lk_acked_offset l')"

text \<open>One operation: the subscription evolves, keeps its invariant, and no acknowledged offset falls.\<close>

definition sub_next :: "subscription \<Rightarrow> subscription \<Rightarrow> bool" where
  "sub_next sub sub' \<longleftrightarrow> evolves sub sub' \<and> (sub_inv sub \<longrightarrow> sub_inv sub') \<and> acks_rise sub sub'"

definition sub_keep :: "subscription \<Rightarrow> subscription \<Rightarrow> bool" where
  "sub_keep sub sub' \<longleftrightarrow> evolves sub sub' \<and> (sub_inv sub \<longrightarrow> sub_inv sub') \<and> acks_keep sub sub'"

lemmas sub_rel_defs = sub_next_def sub_keep_def evolves_def sub_inv_def acks_keep_def acks_rise_def same_wake_def

lemma same_wake_refl [simp]: "same_wake w w"
  by (simp add: same_wake_def)

lemma same_wake_trans: "same_wake a b \<Longrightarrow> same_wake b c \<Longrightarrow> same_wake a c"
  by (simp add: same_wake_def)

lemma evolves_refl [simp]: "evolves sub sub"
  by (simp add: evolves_def)

lemma evolves_trans:
  assumes "evolves a b" "evolves b c"
  shows "evolves a c"
proof -
  have "(\<exists>w. sb_wake a = Some w \<and> same_wake w w' \<and> sb_generation c = sb_generation a) \<or>
      sb_generation a < wk_generation w'" if w': "sb_wake c = Some w'" for w'
  proof -
    consider (same) v where "sb_wake b = Some v" "same_wake v w'" "sb_generation c = sb_generation b"
      | (new) "sb_generation b < wk_generation w'"
      using assms(2) w' unfolding evolves_def by blast
    then show ?thesis
    proof cases
      case same
      then have "(\<exists>w. sb_wake a = Some w \<and> same_wake w v \<and> sb_generation b = sb_generation a) \<or>
          sb_generation a < wk_generation v"
        using assms(1) unfolding evolves_def by blast
      with same show ?thesis using same_wake_trans by (metis same_wake_def)
    next
      case new
      moreover have "sb_generation a \<le> sb_generation b" using assms(1) by (simp add: evolves_def)
      ultimately show ?thesis by (metis order.strict_trans1)
    qed
  qed
  with assms show ?thesis unfolding evolves_def by (auto intro: order_trans)
qed

lemma acks_keep_refl [simp]: "acks_keep sub sub"
  by (simp add: acks_keep_def)

lemma acks_keep_trans: "acks_keep a b \<Longrightarrow> acks_keep b c \<Longrightarrow> acks_keep a c"
  unfolding acks_keep_def by (meson order_trans)

lemma acks_keep_rise: "acks_keep a b \<Longrightarrow> acks_rise b c \<Longrightarrow> acks_rise a c"
  unfolding acks_keep_def acks_rise_def by (meson order_trans)

lemma acks_keep_imp_rise: "acks_keep a b \<Longrightarrow> acks_rise a b"
  unfolding acks_keep_def acks_rise_def by (metis option.inject)

lemma sub_keep_refl [simp]: "sub_keep sub sub"
  by (simp add: sub_keep_def)

lemma sub_keep_trans: "sub_keep a b \<Longrightarrow> sub_keep b c \<Longrightarrow> sub_keep a c"
  unfolding sub_keep_def by (blast intro: evolves_trans acks_keep_trans)

lemma sub_keep_next: "sub_keep a b \<Longrightarrow> sub_next b c \<Longrightarrow> sub_next a c"
  unfolding sub_keep_def sub_next_def by (blast intro: evolves_trans acks_keep_rise)

lemma sub_keep_imp_next: "sub_keep a b \<Longrightarrow> sub_next a b"
  unfolding sub_keep_def sub_next_def by (blast intro: acks_keep_imp_rise)

section \<open>The operations on one subscription\<close>

lemma or_insert_keeps: "fmlookup ls p = Some l \<Longrightarrow> fmlookup (or_insert q x ls) p = Some l"
  by (auto simp: or_insert_def split: option.splits)

lemma or_inserts_keep:
  "fmlookup ls p = Some l \<Longrightarrow>
    fmlookup (foldl (\<lambda>ls path. if P path then or_insert path x ls else ls) ls paths) p = Some l"
  by (induction paths arbitrary: ls) (auto intro: or_insert_keeps)

lemma refresh_sub_keep: "sub_keep sub (refresh_sub tails now sub)"
  by (auto simp: refresh_sub_def Let_def sub_rel_defs split: option.splits intro: or_inserts_keep)

lemma refresh_sub_fields [simp]:
  "sb_deleted (refresh_sub tails now sub) = sb_deleted sub"
  "sb_config (refresh_sub tails now sub) = sb_config sub"
  "sb_generation (refresh_sub tails now sub) = sb_generation sub"
  by (auto simp: refresh_sub_def Let_def split: option.splits)

lemma checked_suc_gt: "checked_suc n = Some g \<Longrightarrow> n < g"
  by (auto simp: checked_suc_def checked_add_def word_less_nat_alt unat_word_ariths split: if_splits)

lemma issue_wake_Inr:
  assumes "issue_wake C sub sid key tails now = Inr sub'"
  obtains g w where "sb_generation sub < g" "sb_generation sub' = g" "sb_wake sub' = Some w" "wk_generation w = g"
    "wk_holder w = None" "wk_streams w = snapshots sub tails" "sb_links sub' = sb_links sub"
    "sb_config sub' = sb_config sub" "sb_config_hash sub' = sb_config_hash sub"
    "sb_created_at sub' = sb_created_at sub" "sb_origin sub' = sb_origin sub" "sb_deleted sub' = sb_deleted sub"
  using assms checked_suc_gt
  by (fastforce simp: issue_wake_def Let_def split: option.splits sum.splits)

lemma issue_wake_keep:
  assumes "issue_wake C sub sid key tails now = Inr sub'" "\<not> sb_deleted sub"
  shows "sub_keep sub sub'"
  using assms(1)
  by (rule issue_wake_Inr) (use assms(2) in \<open>auto simp: sub_rel_defs intro: less_imp_le\<close>)

lemma raise_ack_keeps:
  "fmlookup ls p = Some l \<Longrightarrow> \<exists>l'. fmlookup (raise_ack q off ls) p = Some l' \<and> lk_acked_offset l \<le> lk_acked_offset l'"
  by (auto simp: raise_ack_def split: option.splits)

lemma apply_acks_keeps:
  "fmlookup ls p = Some l \<Longrightarrow> \<exists>l'. fmlookup (apply_acks acks ls) p = Some l' \<and> lk_acked_offset l \<le> lk_acked_offset l'"
proof (induction acks arbitrary: ls l)
  case (Cons a acks)
  obtain q off where a: "a = (q, off)" by fastforce
  obtain l1 where l1: "fmlookup (raise_ack q off ls) p = Some l1" "lk_acked_offset l \<le> lk_acked_offset l1"
    using raise_ack_keeps [OF Cons.prems] by blast
  from Cons.IH [OF l1(1)] l1(2) a show ?case
    by (auto simp: apply_acks_def intro: order_trans)
qed (simp add: apply_acks_def)

text \<open>An accepted completion.\<close>

lemma complete_Inr:
  assumes "complete C sub sid key hs body action tails now = Inr (sub', r)"
  obtains cm token cl w where "completion_from_slice C body = Some cm" "bearer hs = Inr token"
    "crypto_verify C key token = Inr cl" "sb_wake sub = Some w"
    "\<not> completion_fenced sub w sid cl cm token action now"
    "check_acks (sb_links sub) tails (cm_acks cm) = Inr ()"
    "sb_links sub' = (if action = ''release'' then sb_links sub else apply_acks (cm_acks cm) (sb_links sub))"
    "sb_wake sub' = (if cm_done cm \<or> action = ''release'' then None
       else Some (w\<lparr>wk_lease_until := Some (now + cf_lease_ttl_ms (sb_config sub))\<rparr>))"
    "sb_generation sub' = sb_generation sub" "sb_deleted sub' = sb_deleted sub"
    "sb_config sub' = sb_config sub" "sb_config_hash sub' = sb_config_hash sub"
    "sb_created_at sub' = sb_created_at sub" "sb_origin sub' = sb_origin sub"
proof -
  from assms obtain cm where cm: "completion_from_slice C body = Some cm"
    by (auto simp: complete_def split: option.splits)
  from assms cm obtain token where tok: "bearer hs = Inr token"
    by (auto simp: complete_def split: sum.splits)
  from assms cm tok obtain cl where cl: "crypto_verify C key token = Inr cl"
    by (auto simp: complete_def split: sum.splits)
  from assms cm tok cl obtain w where w: "sb_wake sub = Some w"
      "\<not> completion_fenced sub w sid cl cm token action now"
    by (auto simp: complete_def split: option.splits if_splits)
  from assms cm tok cl w have acks: "check_acks (sb_links sub) tails (cm_acks cm) = Inr ()"
    by (auto simp: complete_def split: sum.splits)
  from assms cm tok cl w acks show ?thesis
    by (intro that [OF cm tok cl w acks]) (auto simp: complete_def Let_def split: if_splits)
qed

lemma complete_keep:
  assumes "complete C sub sid key hs body action tails now = Inr (sub', r)"
  shows "sub_keep sub sub'"
  using assms
  by (rule complete_Inr) (auto simp: sub_rel_defs dest: apply_acks_keeps split: if_splits)

lemma claim_subscription_Inr:
  assumes "claim_subscription C sub sid key body tails now = Inr (sub', r)"
  obtains sub1 w worker token where
    "if sb_wake sub = None then issue_wake C sub sid key tails now = Inr sub1 else sub1 = sub"
    "sb_wake sub1 = Some w" "wk_holder w = None"
    "sub' = sub1\<lparr>sb_failed := False, sb_wake := Some (w\<lparr>wk_token := Some token, wk_holder := Some worker,
       wk_lease_until := Some (now + cf_lease_ttl_ms (sb_config sub)), wk_delivered := True\<rparr>)\<rparr>"
proof -
  from assms obtain worker where worker: "claim_from_slice C body = Some worker"
      "\<not> (trim worker = [] \<or> length worker > 256)"
    by (auto simp: claim_subscription_def split: option.splits if_splits)
  from assms worker have free: "Option.bind (sb_wake sub) (\<lambda>w. map_option (Pair w) (wk_holder w)) = None"
    by (auto simp: claim_subscription_def split: option.splits)
  from assms worker free obtain sub1 where
      sub1: "(if sb_wake sub = None then (if \<not> pending sub tails then
          Inl (ae_conflict ''NO_PENDING_WORK'' ''subscription has no pending work'')
        else issue_wake C sub sid key tails now) else Inr sub) = Inr sub1"
    by (auto simp: claim_subscription_def split: sum.splits)
  from assms worker free sub1 obtain w token where w: "sb_wake sub1 = Some w" and
      sub': "sub' = sub1\<lparr>sb_failed := False, sb_wake := Some (w\<lparr>wk_token := Some token, wk_holder := Some worker,
       wk_lease_until := Some (now + cf_lease_ttl_ms (sb_config sub)), wk_delivered := True\<rparr>)\<rparr>"
    by (auto simp: claim_subscription_def Let_def split: sum.splits option.splits)
  have "wk_holder w = None"
    using sub1 w free by (auto split: if_splits option.splits elim!: issue_wake_Inr)
  with sub1 w sub' that show ?thesis by (auto split: if_splits)
qed

lemma claim_subscription_keep:
  assumes "claim_subscription C sub sid key body tails now = Inr (sub', r)" "\<not> sb_deleted sub"
  shows "sub_keep sub sub'"
  using assms(1)
proof (rule claim_subscription_Inr)
  fix sub1 w worker token
  assume sub1: "if sb_wake sub = None then issue_wake C sub sid key tails now = Inr sub1 else sub1 = sub"
    and w: "sb_wake sub1 = Some w" "wk_holder w = None"
    and sub': "sub' = sub1\<lparr>sb_failed := False, sb_wake := Some (w\<lparr>wk_token := Some token, wk_holder := Some worker,
       wk_lease_until := Some (now + cf_lease_ttl_ms (sb_config sub)), wk_delivered := True\<rparr>)\<rparr>"
  from sub1 assms(2) have "sub_keep sub sub1" by (auto split: if_splits intro: issue_wake_keep)
  moreover have "sub_keep sub1 sub'" using w sub' by (auto simp: sub_rel_defs)
  ultimately show ?thesis by (rule sub_keep_trans)
qed

lemma add_links_keep:
  "add_links c tails paths ls = Inr ls' \<Longrightarrow> fmlookup ls p = Some l \<Longrightarrow>
    \<exists>l'. fmlookup ls' p = Some l' \<and> lk_acked_offset l' = lk_acked_offset l"
proof (induction paths arbitrary: ls l)
  case (Cons q paths)
  let ?ls = "case fmlookup ls q of Some l \<Rightarrow> fmupd q (l\<lparr>lk_explicit := True\<rparr>) ls
      | None \<Rightarrow> fmupd q \<lparr>lk_explicit = True, lk_acked_offset = tail_or_zero tails q\<rparr> ls"
  obtain l1 where l1: "fmlookup ?ls p = Some l1" "lk_acked_offset l1 = lk_acked_offset l"
    using Cons.prems(2) by (cases "q = p"; cases "fmlookup ls q") auto
  from Cons.prems(1) have "add_links c tails paths ?ls = Inr ls'" by (auto split: sum.splits if_splits)
  from Cons.IH [OF this l1(1)] l1(2) show ?case by simp
qed simp

lemma add_streams_keep: "add_streams C sub body tails = Inr (sub', r) \<Longrightarrow> sub_keep sub sub'"
  by (auto simp: add_streams_def sub_rel_defs split: option.splits sum.splits)
    (metis add_links_keep order_refl)

lemma unlink_next: "sub_next sub (unlink path sub)"
  by (auto simp: unlink_def sub_rel_defs split: option.splits if_splits)

lemma control_existing_next:
  assumes "control_existing C kid key base sid meth action hs body tails now sub = Inr (sub', r)" "\<not> sb_deleted sub"
  shows "sub_next sub sub'"
proof -
  consider "sub' = sub" | "sub' = sub\<lparr>sb_deleted := True, sb_wake := None\<rparr>" | "add_streams C sub body tails = Inr (sub', r)"
    | path where "sub' = unlink path sub" | "claim_subscription C sub sid key body tails now = Inr (sub', r)"
    | "complete C sub sid key hs body action tails now = Inr (sub', r)"
    using assms(1) unfolding control_existing_def Let_def by (auto split: if_splits sum.splits)
  then show ?thesis
  proof cases
    case 2
    then show ?thesis by (auto simp: sub_rel_defs)
  qed (use assms(2) in \<open>auto intro: sub_keep_imp_next add_streams_keep unlink_next claim_subscription_keep complete_keep\<close>)
qed

text \<open>One subscription of a reconciliation: a wake when there is work, then at most one delivery.\<close>

lemma tick_sub_Inr:
  assumes "tick_sub E C t base key kid active tails now njobs (sid, sub) = Inr (sub', jobs, pulls)" "\<not> sb_deleted sub"
  obtains sub1 where
    "if sb_wake sub = None \<and> pending sub tails then issue_wake C sub sid key tails now = Inr sub1 else sub1 = sub"
    "sub' = sub1 \<and> jobs = [] \<or> (\<exists>w j. sb_wake sub1 = Some w \<and> cf_kind (sb_config sub1) = Webhook \<and>
       sub' = sub1\<lparr>sb_wake := Some (w\<lparr>wk_lease_until := Some (now + cf_lease_ttl_ms (sb_config sub1))\<rparr>),
         sb_failed := False, sb_next_attempt_at := now + 6000\<rparr> \<and> jobs = [j] \<and> jb_id j = sid \<and>
       jb_generation j = wk_generation w \<and> (sid, wk_generation w) \<notin> set active \<and>
       length active + njobs < MAX_DELIVERIES)"
proof -
  let ?first = "if sb_wake sub = None \<and> pending sub tails then issue_wake C sub sid key tails now else Inr sub"
  from assms obtain sub1 where sub1: "?first = Inr sub1"
    by (cases ?first) (simp_all add: tick_sub_def split: if_splits)
  show ?thesis
  proof (rule that)
    show "if sb_wake sub = None \<and> pending sub tails then issue_wake C sub sid key tails now = Inr sub1 else sub1 = sub"
      using sub1 by (auto split: if_splits)
    show "sub' = sub1 \<and> jobs = [] \<or> (\<exists>w j. sb_wake sub1 = Some w \<and> cf_kind (sb_config sub1) = Webhook \<and>
       sub' = sub1\<lparr>sb_wake := Some (w\<lparr>wk_lease_until := Some (now + cf_lease_ttl_ms (sb_config sub1))\<rparr>),
         sb_failed := False, sb_next_attempt_at := now + 6000\<rparr> \<and> jobs = [j] \<and> jb_id j = sid \<and>
       jb_generation j = wk_generation w \<and> (sid, wk_generation w) \<notin> set active \<and>
       length active + njobs < MAX_DELIVERIES)"
      using assms unfolding tick_sub_def prod.case if_not_P [OF assms(2)] sub1 sum.case
      by (cases "sb_wake sub1"; cases "cf_kind (sb_config sub1)")
        (auto simp: Let_def split: if_splits option.splits sum.splits)
  qed
qed

lemma tick_sub_keep:
  assumes "tick_sub E C t base key kid active tails now njobs (sid, sub) = Inr (sub', jobs, pulls)"
  shows "sub_keep sub sub'" "sb_deleted sub' = sb_deleted sub" "sb_links sub' = sb_links sub"
    "\<not> sb_deleted sub \<Longrightarrow> sb_wake sub' = None \<Longrightarrow> \<not> pending sub tails"
proof -
  have "sub_keep sub sub' \<and> sb_deleted sub' = sb_deleted sub \<and> sb_links sub' = sb_links sub \<and>
    (\<not> sb_deleted sub \<longrightarrow> sb_wake sub' = None \<longrightarrow> \<not> pending sub tails)"
  proof (cases "sb_deleted sub")
    case False
    with assms obtain sub1 where sub1:
        "if sb_wake sub = None \<and> pending sub tails then issue_wake C sub sid key tails now = Inr sub1 else sub1 = sub"
      and sub': "sub' = sub1 \<or> (\<exists>w. sb_wake sub1 = Some w \<and>
         sub' = sub1\<lparr>sb_wake := Some (w\<lparr>wk_lease_until := Some (now + cf_lease_ttl_ms (sb_config sub1))\<rparr>),
         sb_failed := False, sb_next_attempt_at := now + 6000\<rparr>)"
      by (rule tick_sub_Inr) blast
    have "sub_keep sub sub1" using sub1 False by (auto split: if_splits intro: issue_wake_keep)
    moreover have "sb_deleted sub1 = sb_deleted sub \<and> sb_links sub1 = sb_links sub \<and>
        (sb_wake sub1 = None \<longrightarrow> \<not> pending sub tails)"
      using sub1 by (auto split: if_splits elim!: issue_wake_Inr)
    moreover have "sub_keep sub1 sub'" using sub' by (auto simp: sub_rel_defs)
    ultimately show ?thesis using sub' sub_keep_trans by auto
  qed (use assms in \<open>auto simp: tick_sub_def\<close>)
  then show "sub_keep sub sub'" "sb_deleted sub' = sb_deleted sub" "sb_links sub' = sb_links sub"
    "\<not> sb_deleted sub \<Longrightarrow> sb_wake sub' = None \<Longrightarrow> \<not> pending sub tails" by simp_all
qed

lemma finish_sub_keep:
  assumes "finish_sub C now sid result w sub = Inr sub'" "sb_wake sub = Some w"
  shows "sub_keep sub sub'"
proof -
  consider (acked) "sub' = sub\<lparr>sb_failed := False, sb_attempts := 0,
         sb_links := apply_acks (map (\<lambda>s. (sn_path s, sn_tail_offset s)) (wk_streams w)) (sb_links sub),
         sb_wake := None, sb_next_attempt_at := now\<rparr>"
    | (delivered) "sub' = sub\<lparr>sb_wake := Some (w\<lparr>wk_delivered := True\<rparr>), sb_failed := False, sb_attempts := 0\<rparr>"
    | (failed) d where "sub' = sub\<lparr>sb_failed := True, sb_attempts := saturating_suc (sb_attempts sub),
         sb_next_attempt_at := d\<rparr>"
    using assms(1) by (auto simp: finish_sub_def Let_def split: sum.splits if_splits)
  then show ?thesis
    by cases (use assms(2) in \<open>auto simp: sub_rel_defs dest: apply_acks_keeps\<close>)
qed

end
