(* ===== verification/DS_Sub_Service.thy ===== *)
theory DS_Sub_Service
  imports DS_Sub_Life
begin

text \<open>
  The subscription service as a transition system: control requests,
  reconciliations, delivery outcomes and arbitrary storage operations in any
  order, under any clock and random source and with any failing saves. The
  stored bytes always decode to the database, and every subscription evolves.
\<close>

section \<open>Databases\<close>

definition db_rel :: "(subscription \<Rightarrow> subscription \<Rightarrow> bool) \<Rightarrow> database \<Rightarrow> database \<Rightarrow> bool" where
  "db_rel R db db' \<longleftrightarrow> db_version db' = db_version db \<and> db_signing_key db' = db_signing_key db \<and>
     (\<forall>sid sub. fmlookup (db_subscriptions db) sid = Some sub \<longrightarrow>
        (\<exists>sub'. fmlookup (db_subscriptions db') sid = Some sub' \<and> R sub sub')) \<and>
     (\<forall>sid sub'. fmlookup (db_subscriptions db) sid = None \<longrightarrow>
        fmlookup (db_subscriptions db') sid = Some sub' \<longrightarrow> sub_inv sub')"

definition db_inv :: "database \<Rightarrow> bool" where
  "db_inv db \<longleftrightarrow> (\<forall>sid sub. fmlookup (db_subscriptions db) sid = Some sub \<longrightarrow> sub_inv sub)"

lemma db_rel_refl: "(\<And>x. R x x) \<Longrightarrow> db_rel R db db"
  by (simp add: db_rel_def)

lemma db_rel_mono: "db_rel R db db' \<Longrightarrow> (\<And>x y. R x y \<Longrightarrow> S x y) \<Longrightarrow> db_rel S db db'"
  unfolding db_rel_def by blast

lemma db_rel_trans:
  assumes "db_rel R a b" "db_rel S b c" "\<And>x y z. R x y \<Longrightarrow> S y z \<Longrightarrow> T x z"
    "\<And>y z. S y z \<Longrightarrow> sub_inv y \<Longrightarrow> sub_inv z"
  shows "db_rel T a c"
proof -
  have "\<exists>z. fmlookup (db_subscriptions c) sid = Some z \<and> T x z" if "fmlookup (db_subscriptions a) sid = Some x" for sid x
    using that assms(1,2,3) unfolding db_rel_def by meson
  moreover have "sub_inv z" if "fmlookup (db_subscriptions a) sid = None" "fmlookup (db_subscriptions c) sid = Some z" for sid z
  proof (cases "fmlookup (db_subscriptions b) sid")
    case None
    with that assms(2) show ?thesis unfolding db_rel_def by blast
  next
    case (Some y)
    with that assms(1) have "sub_inv y" unfolding db_rel_def by blast
    moreover have "S y z" using Some that assms(2) unfolding db_rel_def by (metis option.inject)
    ultimately show ?thesis using assms(4) by blast
  qed
  ultimately show ?thesis using assms(1,2) unfolding db_rel_def by metis
qed

lemma db_rel_upd:
  assumes "fmlookup (db_subscriptions db) sid = Some sub" "R sub sub'" "\<And>x. R x x"
  shows "db_rel R db (db\<lparr>db_subscriptions := fmupd sid sub' (db_subscriptions db)\<rparr>)"
  using assms by (auto simp: db_rel_def)

lemma db_rel_inv: "db_rel sub_next a b \<Longrightarrow> db_inv a \<Longrightarrow> db_inv b"
  unfolding db_rel_def db_inv_def sub_next_def by (metis not_Some_eq option.inject)

lemma sub_next_refl [simp]: "sub_next sub sub"
  by (simp add: sub_keep_imp_next)

lemma sub_keep_inv: "sub_keep x y \<Longrightarrow> sub_inv x \<Longrightarrow> sub_inv y"
  by (simp add: sub_keep_def)

lemma sub_next_inv: "sub_next x y \<Longrightarrow> sub_inv x \<Longrightarrow> sub_inv y"
  by (simp add: sub_next_def)

lemma refresh_rel: "db_rel sub_keep db (refresh tails now db)"
  by (auto simp: db_rel_def refresh_def refresh_sub_keep)

lemma lookup_refresh:
  "fmlookup (db_subscriptions (refresh tails now db)) sid = map_option
     (\<lambda>s. if sb_deleted s then s else refresh_sub tails now s) (fmlookup (db_subscriptions db) sid)"
  by (simp add: refresh_def)

lemma refresh_fields [simp]:
  "db_signing_key (refresh tails now db) = db_signing_key db" "db_version (refresh tails now db) = db_version db"
  by (simp_all add: refresh_def)

lemma publish_db_rel:
  assumes "publish E now (s, db) p = (s', db')"
  shows "db_rel sub_keep db db'" "mem_subscription_state s' = mem_subscription_state s"
proof -
  obtain sid gen stream event where p: "p = (sid, gen, stream, event)" by (metis prod_cases4)
  obtain s1 r where r: "append_message E s stream (to_vec E event) ''application/json'' = (s1, r)" by fastforce
  from append_batch_subscription_state r assms p show "mem_subscription_state s' = mem_subscription_state s"
    by (auto simp: publish_def append_message_def split: option.splits)
  show "db_rel sub_keep db db'"
  proof (cases "fmlookup (db_subscriptions db) sid")
    case None
    with assms p r show ?thesis by (auto simp: publish_def db_rel_refl)
  next
    case (Some sub)
    with assms p r show ?thesis
      by (auto simp: publish_def Let_def sub_rel_defs split: sum.splits option.splits if_splits intro!: db_rel_upd)
  qed
qed

lemma publishes_db_rel:
  assumes "foldl (publish E now) (s, db) pulls = (s', db')"
  shows "db_rel sub_keep db db' \<and> mem_subscription_state s' = mem_subscription_state s"
  using assms
proof (induction pulls arbitrary: s db)
  case (Cons p pulls)
  obtain s1 db1 where p: "publish E now (s, db) p = (s1, db1)" by fastforce
  with Cons.prems have "foldl (publish E now) (s1, db1) pulls = (s', db')" by simp
  from Cons.IH [OF this] publish_db_rel [OF p] show ?case
    using db_rel_trans [of sub_keep db db1 sub_keep db' sub_keep] sub_keep_trans sub_keep_inv by metis
qed (simp add: db_rel_refl)

text \<open>Publishing touches neither links nor the presence of a wake.\<close>

definition same_work :: "subscription \<Rightarrow> subscription \<Rightarrow> bool" where
  "same_work x y \<longleftrightarrow> sb_links y = sb_links x \<and> sb_deleted y = sb_deleted x \<and>
     map_option wk_generation (sb_wake y) = map_option wk_generation (sb_wake x)"

lemma publish_same_work:
  assumes "publish E now (s, db) p = (s', db')"
  shows "rel_option same_work (fmlookup (db_subscriptions db) sid) (fmlookup (db_subscriptions db') sid)"
proof -
  obtain i gen stream event where p: "p = (i, gen, stream, event)" by (metis prod_cases4)
  obtain s1 r where r: "append_message E s stream (to_vec E event) ''application/json'' = (s1, r)" by fastforce
  have refl: "rel_option same_work x x" for x by (cases x) (simp_all add: same_work_def)
  show ?thesis
  proof (cases "fmlookup (db_subscriptions db) i")
    case None
    with assms p r refl show ?thesis by (auto simp: publish_def)
  next
    case (Some sub)
    with assms p r refl show ?thesis
      by (cases "i = sid")
        (auto simp: publish_def Let_def same_work_def split: sum.splits option.splits if_splits)
  qed
qed

lemma publishes_same_work:
  assumes "foldl (publish E now) (s, db) pulls = (s', db')"
  shows "rel_option same_work (fmlookup (db_subscriptions db) sid) (fmlookup (db_subscriptions db') sid)"
  using assms
proof (induction pulls arbitrary: s db)
  case Nil
  then show ?case by (cases "fmlookup (db_subscriptions db) sid") (simp_all add: same_work_def)
next
  case (Cons p pulls)
  obtain s1 db1 where p: "publish E now (s, db) p = (s1, db1)" by fastforce
  with Cons.prems have "foldl (publish E now) (s1, db1) pulls = (s', db')" by simp
  from Cons.IH [OF this] publish_same_work [OF p, of sid] show ?case
    by (auto simp: same_work_def elim!: option.rel_cases)
qed

section \<open>Reconciliation\<close>

text \<open>What a reconciliation makes of the subscription it visits.\<close>

definition ticked :: "tails \<Rightarrow> string \<times> subscription \<Rightarrow> string \<times> subscription \<Rightarrow> bool" where
  "ticked tails x y \<longleftrightarrow> fst y = fst x \<and> sub_keep (snd x) (snd y) \<and> sb_deleted (snd y) = sb_deleted (snd x) \<and>
     sb_links (snd y) = sb_links (snd x) \<and>
     (\<not> sb_deleted (snd x) \<longrightarrow> sb_wake (snd y) = None \<longrightarrow> \<not> pending (snd x) tails)"

lemma tick_subs_ticked:
  "tick_subs E C t base key kid active tails now njobs xs = Inr (ys, jobs, pulls) \<Longrightarrow> list_all2 (ticked tails) xs ys"
proof (induction xs arbitrary: njobs ys jobs pulls)
  case (Cons x xs)
  obtain sid sub where x: "x = (sid, sub)" by fastforce
  from Cons.prems obtain sub' js ps where
      one: "tick_sub E C t base key kid active tails now njobs (sid, sub) = Inr (sub', js, ps)"
    by (auto simp: x split: sum.splits)
  with Cons.prems obtain ys' js' ps' where
      rest: "tick_subs E C t base key kid active tails now (njobs + length js) xs = Inr (ys', js', ps')"
        and ys: "ys = (sid, sub') # ys'"
    by (auto simp: x split: sum.splits)
  from tick_sub_keep [OF one] Cons.IH [OF rest] ys x show ?case by (simp add: ticked_def)
qed simp

lemma ticked_map_of:
  "list_all2 (ticked tails) xs ys \<Longrightarrow> rel_option (\<lambda>x y. ticked tails (sid, x) (sid, y)) (map_of xs sid) (map_of ys sid)"
  by (induction rule: list_all2_induct) (auto simp: ticked_def)

lemma tick_subs_lookup:
  assumes "tick_subs E C t base key kid active tails now njobs (sorted_list_of_fmap m) = Inr (ys, jobs, pulls)"
  shows "rel_option (\<lambda>x y. ticked tails (sid, x) (sid, y)) (fmlookup m sid) (fmlookup (fmap_of_list ys) sid)"
  using ticked_map_of [OF tick_subs_ticked [OF assms], of sid]
  by (simp add: fmlookup_of_list)

lemma tick_subs_db_rel:
  assumes "tick_subs E C t base key kid active tails now njobs (sorted_list_of_fmap (db_subscriptions db))
    = Inr (ys, jobs, pulls)"
  shows "db_rel sub_keep db (db\<lparr>db_subscriptions := fmap_of_list ys\<rparr>)"
proof -
  note L = tick_subs_lookup [OF assms]
  have "\<exists>y. fmlookup (fmap_of_list ys) sid = Some y \<and> sub_keep x y" if "fmlookup (db_subscriptions db) sid = Some x" for sid x
    using L [of sid] that by (auto simp: option_rel_Some1 ticked_def)
  moreover have "fmlookup (fmap_of_list ys) sid = None" if "fmlookup (db_subscriptions db) sid = None" for sid
    using L [of sid] that by simp
  ultimately show ?thesis by (simp add: db_rel_def)
qed

section \<open>Saving\<close>

definition stored :: "crypto_env \<Rightarrow> service \<Rightarrow> bool" where
  "stored C sv \<longleftrightarrow> (\<exists>bs. load_subscription_state (sv_storage sv) = Some bs \<and> database_to_vec C (sv_database sv) = Some bs)"

lemma service_save_Inl: "service_save C f sv db = (sv', Inl e) \<Longrightarrow> sv' = sv"
  by (auto simp: service_save_def split: option.splits if_splits)

lemma service_save_Inr:
  assumes "service_save C f sv db = (sv', Inr u)" "stored C sv"
  shows "sv_database sv' = db" "stored C sv'" "sv_base_path sv' = sv_base_path sv"
  using assms
  by (auto simp: service_save_def stored_def load_subscription_state_def split: option.splits if_splits)

lemma stored_storage:
  "stored C sv \<Longrightarrow> mem_subscription_state s = mem_subscription_state (sv_storage sv) \<Longrightarrow> stored C (sv\<lparr>sv_storage := s\<rparr>)"
  by (simp add: stored_def load_subscription_state_def)

section \<open>The operations of the service\<close>

text \<open>
  What every operation does: it keeps the stored bytes and the database in
  step, and relates the databases; when it fails before its save, nothing changes.
\<close>

definition svc_rel :: "crypto_env \<Rightarrow> service \<Rightarrow> service \<Rightarrow> bool" where
  "svc_rel C sv sv' \<longleftrightarrow> stored C sv' \<and> db_rel sub_next (sv_database sv) (sv_database sv') \<and>
     sv_base_path sv' = sv_base_path sv"

lemma svc_rel_refl: "stored C sv \<Longrightarrow> svc_rel C sv sv"
  by (simp add: svc_rel_def db_rel_refl)

lemma service_save_rel:
  assumes "service_save C f sv db = (sv', r)" "stored C sv" "db_rel sub_next (sv_database sv) db"
  shows "svc_rel C sv sv'"
proof (cases r)
  case (Inl e)
  with assms show ?thesis by (auto dest: service_save_Inl intro: svc_rel_refl)
next
  case (Inr u)
  with assms service_save_Inr [of C f sv db sv' u] show ?thesis by (auto simp: svc_rel_def)
qed

lemma sub_inv_new:
  "sb_wake sub = None \<Longrightarrow> sub_inv sub"
  by (simp add: sub_inv_def)

lemma create_subscription_rel:
  assumes "create_subscription E C t sv db sid c origin tails = Inr (db', r)"
  shows "db_rel sub_keep db db'"
  using assms
  by (auto simp: create_subscription_def Let_def split: sum.splits option.splits if_splits prod.splits
      intro: db_rel_refl) (auto simp: db_rel_def sub_inv_new)

lemma control_change_rel:
  assumes "control_change E C t ord kid origin meth hs body conf sv sid action = Inr (db', r)"
  shows "db_rel sub_next (sv_database sv) db'"
proof -
  let ?tails = "service_tails E ord (sv_storage sv)"
  let ?db = "refresh ?tails (ms t 0) (sv_database sv)"
  have fresh: "db_rel sub_keep (sv_database sv) ?db" by (rule refresh_rel)
  show ?thesis
  proof (cases "meth = HPut \<and> action = []")
    case True
    with assms obtain c where "create_subscription E C t sv ?db sid c origin ?tails = Inr (db', r)"
      by (auto simp: control_change_def Let_def split: option.splits)
    from db_rel_trans [OF fresh create_subscription_rel [OF this]] show ?thesis
      using sub_keep_trans sub_keep_inv sub_keep_imp_next by blast
  next
    case False
    with assms obtain sub sub' where sub: "fmlookup (db_subscriptions ?db) sid = Some sub" "\<not> sb_deleted sub"
        "control_existing C kid (db_signing_key ?db) (sv_base_path sv) sid meth action hs body ?tails (ms t 0) sub
          = Inr (sub', r)"
        and db': "db' = ?db\<lparr>db_subscriptions := fmupd sid sub' (db_subscriptions ?db)\<rparr>"
      by (auto simp: control_change_def Let_def map_sum_def split: option.splits if_splits sum.splits)
    from db_rel_upd [OF sub(1) control_existing_next [OF sub(3,2)] sub_next_refl] db'
    have "db_rel sub_next ?db db'" by simp
    from db_rel_trans [OF fresh this] show ?thesis using sub_keep_next sub_next_inv by blast
  qed
qed

lemma control_transaction_rel:
  assumes "control_transaction E C t ord f control origin meth hs body conf sv = (sv', r)" "stored C sv"
  shows "svc_rel C sv sv'"
  using assms
  by (auto simp: control_transaction_def svc_rel_refl split: sum.splits option.splits prod.splits if_splits
      dest: control_change_rel intro: service_save_rel)

lemma tick_cases:
  assumes "tick E C t ord f1 f2 active sv = (sv', r)"
  obtains (idle) "sv' = sv" "r = Inr []"
      "list_all (\<lambda>(_, s). sb_deleted s) (sorted_list_of_fmap (db_subscriptions (sv_database sv)))"
    | (failed) e where "sv' = sv" "r = Inl e"
    | (worked) tails db1 db2 kid subs jobs pulls sv1 s3 db3 y where
        "tails = service_tails E ord (sv_storage sv)" "db1 = refresh tails (ms t 0) (sv_database sv)"
        "tick_subs E C t (sv_base_path sv) (db_signing_key db1) kid active tails (ms t 0) 0
           (sorted_list_of_fmap (db_subscriptions db1)) = Inr (subs, jobs, pulls)"
        "db2 = db1\<lparr>db_subscriptions := fmap_of_list subs\<rparr>" "service_save C f1 sv db2 = (sv1, Inr ())"
        "foldl (publish E (ms t 0)) (sv_storage sv1, db2) pulls = (s3, db3)"
        "service_save C f2 (sv1\<lparr>sv_storage := s3\<rparr>) db3 = (sv', y)" "r = map_sum id (\<lambda>_. jobs) y"
proof (cases "list_all (\<lambda>(_, s). sb_deleted s) (sorted_list_of_fmap (db_subscriptions (sv_database sv)))")
  case True
  with assms idle show ?thesis unfolding tick_def by simp
next
  case False
  define tails where "tails = service_tails E ord (sv_storage sv)"
  define db1 where "db1 = refresh tails (ms t 0) (sv_database sv)"
  note tick = assms [unfolded tick_def Let_def if_not_P [OF False], folded tails_def, folded db1_def]
  show ?thesis
  proof (cases "crypto_jwk C (db_signing_key db1)")
    case (Inl e)
    with tick failed show ?thesis by auto
  next
    case (Inr kj)
    obtain kid jwk where kid: "kj = (kid, jwk)" by fastforce
    let ?subs = "tick_subs E C t (sv_base_path sv) (db_signing_key db1) kid active tails (ms t 0) 0
           (sorted_list_of_fmap (db_subscriptions db1))"
    show ?thesis
    proof (cases ?subs)
      case (Inl e)
      with tick Inr kid failed show ?thesis by auto
    next
      case res: (Inr x)
      obtain subs jobs pulls where x: "x = (subs, jobs, pulls)" by (metis prod_cases3)
      obtain sv1 y1 where save1: "service_save C f1 sv (db1\<lparr>db_subscriptions := fmap_of_list subs\<rparr>) = (sv1, y1)"
        by fastforce
      show ?thesis
      proof (cases y1)
        case (Inl e)
        with tick Inr kid res x save1 failed show ?thesis
          by (auto simp: service_save_Inl [OF save1 [unfolded Inl]])
      next
        case y1: (Inr u)
        then have saved: "y1 = Inr ()" by simp
        obtain s3 db3 where pub: "foldl (publish E (ms t 0)) (sv_storage sv1,
            db1\<lparr>db_subscriptions := fmap_of_list subs\<rparr>) pulls = (s3, db3)" by fastforce
        obtain sv2 y where save2: "service_save C f2 (sv1\<lparr>sv_storage := s3\<rparr>) db3 = (sv2, y)" by fastforce
        from tick Inr kid res x save1 saved pub save2 have "sv' = sv2" "r = map_sum id (\<lambda>_. jobs) y"
          by (auto split: sum.splits)
        with worked [OF tails_def db1_def res [unfolded x] _ save1 [unfolded saved] pub] save2 show ?thesis by simp
      qed
    qed
  qed
qed

lemma tick_rel:
  assumes "tick E C t ord f1 f2 active sv = (sv', r)" and st: "stored C sv"
  shows "svc_rel C sv sv'"
  using assms(1)
proof (cases rule: tick_cases)
  case (worked tails db1 db2 kid subs jobs pulls sv1 s3 db3 y)
  have sv1: "sv_database sv1 = db2" "stored C sv1" "sv_base_path sv1 = sv_base_path sv"
    using service_save_Inr [OF worked(5) st] by simp_all
  have pub: "db_rel sub_keep db2 db3" "mem_subscription_state s3 = mem_subscription_state (sv_storage sv1)"
    using publishes_db_rel [OF worked(6)] by simp_all
  have "db_rel sub_keep (sv_database sv) db1" unfolding worked(2) by (rule refresh_rel)
  moreover have "db_rel sub_keep db1 db2" unfolding worked(4) by (rule tick_subs_db_rel [OF worked(3)])
  ultimately have keep: "db_rel sub_keep (sv_database sv) db2"
    by (rule db_rel_trans) (auto intro: sub_keep_trans sub_keep_inv)
  have "svc_rel C (sv1\<lparr>sv_storage := s3\<rparr>) sv'"
    using worked(7) by (rule service_save_rel)
      (use stored_storage [OF sv1(2) pub(2)] sv1(1) db_rel_mono [OF pub(1) sub_keep_imp_next] in auto)
  then have "svc_rel C sv1 sv'" by (simp add: svc_rel_def)
  then have "db_rel sub_next db2 (sv_database sv')" using sv1 by (simp add: svc_rel_def)
  with keep have "db_rel sub_next (sv_database sv) (sv_database sv')"
    by (rule db_rel_trans) (auto intro: sub_keep_next sub_next_inv)
  with \<open>svc_rel C sv1 sv'\<close> sv1 show ?thesis by (simp add: svc_rel_def)
qed (use st in \<open>auto intro: svc_rel_refl\<close>)

lemma finish_rel:
  assumes "finish C t f sid gen result sv = (sv', r)" and st: "stored C sv"
  shows "svc_rel C sv sv'"
proof -
  consider "sv' = sv" | sub w sub' where "fmlookup (db_subscriptions (sv_database sv)) sid = Some sub" "sb_wake sub = Some w"
      "finish_sub C (ms t 1) sid result w sub = Inr sub'"
      "service_save C f sv (sv_database sv\<lparr>db_subscriptions := fmupd sid sub' (db_subscriptions (sv_database sv))\<rparr>) = (sv', r)"
    using assms(1) unfolding finish_def Let_def
    by (auto split: option.splits if_splits sum.splits)
  then show ?thesis
  proof cases
    case 2
    from 2(4) st show ?thesis
      by (rule service_save_rel) (rule db_rel_upd [OF 2(1) sub_keep_imp_next [OF finish_sub_keep [OF 2(3,2)]] sub_next_refl])
  qed (use st in \<open>auto intro: svc_rel_refl\<close>)
qed

section \<open>Histories\<close>

inductive svc_step :: "crypto_env \<Rightarrow> service \<Rightarrow> service \<Rightarrow> bool" for C where
  control: "control_transaction E (C\<lparr>random_bytes := rnd\<rparr>) t ord f control origin meth hs body conf sv = (sv', r) \<Longrightarrow>
    svc_step C sv sv'"
| reconcile: "tick E (C\<lparr>random_bytes := rnd\<rparr>) t ord f1 f2 active sv = (sv', jobs) \<Longrightarrow> svc_step C sv sv'"
| outcome: "finish (C\<lparr>random_bytes := rnd\<rparr>) t f sid gen result sv = (sv', r) \<Longrightarrow> svc_step C sv sv'"
| storage: "exec E (sv_storage sv) op = Some s' \<Longrightarrow> (\<And>st. op \<noteq> OpSaveState st) \<Longrightarrow>
    svc_step C sv (sv\<lparr>sv_storage := s'\<rparr>)"

inductive svc_reachable :: "crypto_env \<Rightarrow> service \<Rightarrow> bool" for C where
  start: "load_database C key s = Inr (s', db) \<Longrightarrow> load_subscription_state s = None \<Longrightarrow> key = Inr k \<Longrightarrow>
    ed25519_public C k \<noteq> None \<Longrightarrow> svc_reachable C \<lparr>sv_storage = s', sv_database = db, sv_base_path = base\<rparr>"
| step: "svc_reachable C sv \<Longrightarrow> svc_step C sv sv' \<Longrightarrow> svc_reachable C sv'"

lemma stored_random [simp]: "stored (C\<lparr>random_bytes := rnd\<rparr>) sv = stored C sv"
  by (simp add: stored_def)

lemma svc_rel_random [simp]: "svc_rel (C\<lparr>random_bytes := rnd\<rparr>) sv sv' = svc_rel C sv sv'"
  by (simp add: svc_rel_def)

lemma svc_step_rel: "svc_step C sv sv' \<Longrightarrow> stored C sv \<Longrightarrow> svc_rel C sv sv'"
proof (induction rule: svc_step.induct)
  case (storage E sv op s')
  then show ?case
    using exec_subscription_state [OF storage(1)] stored_storage
    by (simp add: svc_rel_def db_rel_refl)
qed (metis control_transaction_rel tick_rel finish_rel stored_random svc_rel_random)+

lemma svc_reachable_inv:
  "svc_reachable C sv \<Longrightarrow> stored C sv \<and> db_inv (sv_database sv) \<and> db_version (sv_database sv) = 1 \<and>
    ed25519_public C (db_signing_key (sv_database sv)) \<noteq> None"
proof (induction rule: svc_reachable.induct)
  case (start key s s' db k base)
  then show ?case
    by (auto simp: load_database_def stored_def load_subscription_state_def db_inv_def split: option.splits)
next
  case (step sv sv')
  then have "svc_rel C sv sv'" by (auto intro: svc_step_rel)
  with step.IH show ?case by (auto simp: svc_rel_def db_rel_def intro: db_rel_inv)
qed

section \<open>Whole histories\<close>

text \<open>
  A system whose steps keep an invariant and stay within a preorder stays
  within it over any number of steps.
\<close>

locale history =
  fixes inv :: "'s \<Rightarrow> bool" and step :: "'s \<Rightarrow> 's \<Rightarrow> bool" and rel :: "'s \<Rightarrow> 's \<Rightarrow> bool"
  assumes rel_refl: "rel s s"
    and rel_trans: "rel a b \<Longrightarrow> rel b c \<Longrightarrow> rel a c"
    and step_inv: "inv s \<Longrightarrow> step s s' \<Longrightarrow> inv s'"
    and step_rel: "inv s \<Longrightarrow> step s s' \<Longrightarrow> rel s s'"
begin

lemma steps: "step\<^sup>*\<^sup>* s s' \<Longrightarrow> inv s \<Longrightarrow> inv s' \<and> rel s s'"
  by (induction rule: rtranclp_induct) (auto intro: rel_refl rel_trans step_inv step_rel)

end

definition sub_later :: "subscription \<Rightarrow> subscription \<Rightarrow> bool" where
  "sub_later sub sub' \<longleftrightarrow> evolves sub sub' \<and> (sub_inv sub \<longrightarrow> sub_inv sub')"

lemma sub_next_later: "sub_next x y \<Longrightarrow> sub_later x y"
  by (simp add: sub_next_def sub_later_def)

interpretation svc_history: history "stored C" "svc_step C"
  "\<lambda>sv sv'. db_rel sub_later (sv_database sv) (sv_database sv')" for C
proof unfold_locales
  show "db_rel sub_later (sv_database sv) (sv_database sv)" for sv
    by (rule db_rel_refl) (simp add: sub_later_def)
  show "db_rel sub_later (sv_database a) (sv_database c)"
    if "db_rel sub_later (sv_database a) (sv_database b)" "db_rel sub_later (sv_database b) (sv_database c)" for a b c
    using that by (rule db_rel_trans) (auto simp: sub_later_def intro: evolves_trans)
  show "stored C sv'" if "stored C sv" "svc_step C sv sv'" for sv sv'
    using svc_step_rel [OF that(2,1)] by (simp add: svc_rel_def)
  show "db_rel sub_later (sv_database sv) (sv_database sv')" if "stored C sv" "svc_step C sv sv'" for sv sv'
    using svc_step_rel [OF that(2,1)] sub_next_later db_rel_mono by (auto simp: svc_rel_def)
qed

lemma svc_later_evolves:
  assumes "(svc_step C)\<^sup>*\<^sup>* sv sv'" "stored C sv" "fmlookup (db_subscriptions (sv_database sv)) sid = Some sub"
  obtains sub' where "fmlookup (db_subscriptions (sv_database sv')) sid = Some sub'" "evolves sub sub'" "stored C sv'"
    "db_signing_key (sv_database sv') = db_signing_key (sv_database sv)"
  using svc_history.steps [OF assms(1,2)] assms(3) unfolding db_rel_def sub_later_def by blast

end
