(* ===== verification/DS_Sub_Sample.thy ===== *)
theory DS_Sub_Sample
  imports DS_Sub_Service DS_Sample
begin

text \<open>
  A concrete subscription service over the in-memory backend and a history of
  its own operations, at which the properties are instantiated.
\<close>

section \<open>A sample service\<close>

text \<open>
  A signature scheme that appends the key, an encoding without full stops
  (\<open>.\<close> and \<open>~\<close> are escaped), and line-based serializers.
\<close>

fun sample_encode :: "bytes \<Rightarrow> string" where
  "sample_encode [] = []"
| "sample_encode (c # cs) =
     (if c = CHR ''.'' then ''~d'' @ sample_encode cs else if c = CHR ''~'' then ''~t'' @ sample_encode cs
      else c # sample_encode cs)"

fun sample_decode :: "string \<Rightarrow> bytes option" where
  "sample_decode [] = Some []"
| "sample_decode (c # cs) =
     (if c = CHR ''~'' then (case cs of
          [] \<Rightarrow> None
        | d # ds \<Rightarrow> if d = CHR ''d'' then map_option ((#) (CHR ''.'')) (sample_decode ds)
                   else if d = CHR ''t'' then map_option ((#) (CHR ''~'')) (sample_decode ds) else None)
      else map_option ((#) c) (sample_decode cs))"

lemma sample_decode_encode: "sample_decode (sample_encode bs) = Some bs"
  by (induction bs) simp_all

lemma sample_encode_dot: "CHR ''.'' \<notin> set (sample_encode bs)"
  by (induction bs) auto

definition sample_claims_to_vec :: "claims \<Rightarrow> bytes option" where
  "sample_claims_to_vec c = Some (u64_to_string (cl_generation c) @ ''/'' @ cl_wake_id c @ ''/'' @ cl_subscription c)"

definition sample_claims_from_slice :: "bytes \<Rightarrow> claims option" where
  "sample_claims_from_slice bs = (case split3 bs of
     (g, Some w, Some sid) \<Rightarrow> (case parse_u64 g of
       Inr n \<Rightarrow> Some \<lparr>cl_subscription = sid, cl_generation = n, cl_wake_id = w\<rparr> | Inl _ \<Rightarrow> None)
   | _ \<Rightarrow> None)"

definition sample_crypto :: crypto_env where
  "sample_crypto = \<lparr>ed25519_public = (\<lambda>k. if k = [] then None else Some k), ed25519_sign = (\<lambda>k d. d @ k),
     ed25519_verify = (\<lambda>p d sg. sg = d @ p), sha256 = rev, random_bytes = (\<lambda>_. Some ''id''),
     url_encode = sample_encode, url_decode = sample_decode, claims_to_vec = sample_claims_to_vec,
     claims_from_slice = sample_claims_from_slice,
     completion_from_slice = (\<lambda>_. Some \<lparr>cm_wake_id = ''w_id'', cm_generation = 1, cm_acks = [], cm_done = True\<rparr>),
     claim_from_slice = Some, membership_from_slice = (\<lambda>b. Some [b]), config_from_slice = (\<lambda>_. None),
     config_to_vec = (\<lambda>c. Some (concat (cf_streams c))),
     database_to_vec = (\<lambda>db. Some (concat (map_keys (db_subscriptions db)))),
     database_from_slice = (\<lambda>_. None)\<rparr>"

definition sample_database :: database where
  "sample_database = \<lparr>db_version = 1, db_signing_key = ''k'', db_subscriptions = fmempty\<rparr>"

definition sample_moment :: moment where
  "sample_moment = \<lparr>ms = (\<lambda>k. 5000), secs = 5, stamp = ''1970''\<rparr>"

definition sample_config :: configuration where
  "sample_config = \<lparr>cf_kind = Webhook, cf_pattern = None, cf_streams = [''a''], cf_webhook = Some ''https://h/'',
     cf_wake_stream = None, cf_lease_ttl_ms = 30000, cf_description = None\<rparr>"

text \<open>
  The history of the sample: the service starts (\<open>svc0\<close>), a webhook subscription
  on the stream \<open>a\<close> is put (\<open>svc1\<close>), the stream is created with two messages
  (\<open>svc2\<close>), a reconciliation wakes the subscription (\<open>svc3\<close>), and the endpoint
  answers that it is done (\<open>svc4\<close>).
\<close>

abbreviation offset_zero :: string where "offset_zero \<equiv> ''0000000000000000_0000000000000000''"
abbreviation offset_two :: string where "offset_two \<equiv> ''0000000000000002_0000000000000006''"

definition sample_sub :: subscription where
  "sample_sub = \<lparr>sb_config = sample_config, sb_config_hash = ''a'',
     sb_links = fmupd ''a'' \<lparr>lk_explicit = True, lk_acked_offset = offset_zero\<rparr> fmempty,
     sb_created_at = ''1970'', sb_origin = ''http://h'', sb_generation = 0, sb_wake = None, sb_deleted = False,
     sb_next_attempt_at = 5000, sb_attempts = 0, sb_failed = False\<rparr>"

definition sample_token :: string where
  "sample_token = ''1/w_id/s.1/w_id/sk''"

definition sample_wake :: wake where
  "sample_wake = \<lparr>wk_id = ''w_id'', wk_generation = 1, wk_streams = [\<lparr>sn_path = ''a'', sn_link_type = ''explicit'',
       sn_acked_offset = offset_zero, sn_tail_offset = offset_two, sn_has_pending = True\<rparr>],
     wk_token = Some sample_token, wk_holder = None, wk_lease_until = Some 35000, wk_delivered = False\<rparr>"

definition woken_sub :: subscription where
  "woken_sub = sample_sub\<lparr>sb_generation := 1, sb_wake := Some sample_wake, sb_next_attempt_at := 11000\<rparr>"

definition done_sub :: subscription where
  "done_sub = sample_sub\<lparr>sb_generation := 1,
     sb_links := fmupd ''a'' \<lparr>lk_explicit = True, lk_acked_offset = offset_two\<rparr> (sb_links sample_sub)\<rparr>"

definition sample_svc :: "mem \<Rightarrow> subscription \<Rightarrow> service" where
  "sample_svc s sub = \<lparr>sv_storage = s, sv_database = sample_database\<lparr>db_subscriptions := fmupd ''s'' sub fmempty\<rparr>,
     sv_base_path = []\<rparr>"

definition svc0 :: service where
  "svc0 = \<lparr>sv_storage = save_subscription_state sample_empty [], sv_database = sample_database, sv_base_path = []\<rparr>"

definition svc1 :: service where
  "svc1 = sample_svc (save_subscription_state sample_empty ''s'') sample_sub"

definition svc2 :: service where
  "svc2 = sample_svc (fst (create_stream_with_data sample_env (save_subscription_state sample_empty ''s'') ''a''
     (stream_options_new ''text/plain'') [''hello'', ''x''] False)) sample_sub"

definition svc3 :: service where
  "svc3 = sample_svc (sv_storage svc2) woken_sub"

definition svc4 :: service where
  "svc4 = sample_svc (sv_storage svc2) done_sub"

lemma svc0_reachable: "svc_reachable sample_crypto svc0"
  unfolding svc0_def
  by (rule svc_reachable.start [where key = "Inr ''k''" and k = "''k''" and s = sample_empty])
    (simp_all add: load_database_def load_subscription_state_def sample_empty_def mem_new_def sample_crypto_def
      sample_database_def map_keys_def sorted_list_of_fmap_def)

lemma sorted_list_of_single [simp]: "sorted_list_of_fmap (fmupd k v fmempty) = [(k, v)]"
  by (simp add: sorted_list_of_fmap_def sorted_list_of_fset.rep_eq)

lemma sorted_list_of_fmempty [simp]: "sorted_list_of_fmap fmempty = []"
  by (simp add: sorted_list_of_fmap_def sorted_list_of_fset.rep_eq)

lemma crypto_sample [simp]:
  "\<exists>jwk. crypto_jwk sample_crypto ''k'' = Inr (crypto_kid sample_crypto ''k'', jwk)"
  "database_to_vec sample_crypto db = Some (concat (map_keys (db_subscriptions db)))"
  "config_to_vec sample_crypto sample_config = Some ''a''"
  "random_bytes sample_crypto sid = Some ''id''"
  "crypto_random_id sample_crypto sid = Inr ''w_id''"
  "crypto_hash sample_crypto ''a'' = ''a''"
  by (simp_all add: sample_crypto_def crypto_jwk_def crypto_key_def crypto_random_id_def crypto_hash_def sample_config_def
      Let_def)

lemma sample_no_random [simp]: "sample_crypto\<lparr>random_bytes := \<lambda>_. Some ''id''\<rparr> = sample_crypto"
  by (simp add: sample_crypto_def)

lemma tails_empty: "service_tails sample_env [] s = fmempty"
  by (simp add: service_tails_def list_streams_def)

lemma control_target_s: "control_target ''subscriptions/s'' = Some (''s'', [])"
  by code_simp

lemma zero_offset: "encode_offset 0 0 = offset_zero"
  by code_simp

lemma sample_links: "initial_links sample_config fmempty = sb_links sample_sub"
  by (simp add: initial_links_def sample_config_def sample_sub_def tail_or_zero_def zero_offset)

lemma svc1_step: "svc_step sample_crypto svc0 svc1"
proof -
  let ?origin = "\<lparr>scheme = ''http'', authority = Some ''h''\<rparr>" and ?kid = "crypto_kid sample_crypto ''k''"
  obtain jwk where jwk: "crypto_jwk sample_crypto ''k'' = Inr (?kid, jwk)" using crypto_sample(1) by blast
  have ws: "check_wake_stream sample_env s sample_config = Inr ()" for s
    by (simp add: check_wake_stream_def sample_config_def)
  have db: "refresh tails now sample_database = sample_database" "db_signing_key sample_database = ''k''"
      "db_subscriptions sample_database = fmempty" for tails now
    by (simp_all add: sample_database_def refresh_def)
  have sub: "\<lparr>sb_config = sample_config, sb_config_hash = ''a'', sb_links = sb_links sample_sub, sb_created_at = ''1970'',
      sb_origin = ''http://h'', sb_generation = 0, sb_wake = None, sb_deleted = False, sb_next_attempt_at = 5000,
      sb_attempts = 0, sb_failed = False\<rparr> = sample_sub"
    by (simp add: sample_sub_def)
  have "\<exists>r. create_subscription sample_env sample_crypto sample_moment svc0 sample_database ''s'' sample_config ?origin fmempty
      = Inr (sv_database svc1, r)"
    by (simp add: create_subscription_def db jwk ws sample_links sample_moment_def sub svc1_def sample_svc_def)
  then obtain r where "create_subscription sample_env sample_crypto sample_moment svc0 sample_database ''s'' sample_config
      ?origin fmempty = Inr (sv_database svc1, r)" by blast
  moreover have "sv_database svc0 = sample_database" "sv_storage svc0 = save_subscription_state sample_empty []"
    by (simp_all add: svc0_def)
  ultimately have "control_change sample_env sample_crypto sample_moment [] ?kid ?origin HPut (\<lambda>_. None) []
      (Some sample_config) svc0 ''s'' [] = Inr (sv_database svc1, r)"
    by (simp add: control_change_def tails_empty db)
  moreover have "service_save sample_crypto None svc0 (sv_database svc1) = (svc1, Inr ())"
    by (simp add: service_save_def svc0_def svc1_def sample_svc_def db map_keys_def
        save_subscription_state_def)
  ultimately have "control_transaction sample_env sample_crypto sample_moment [] None ''subscriptions/s''
      ?origin HPut (\<lambda>_. None) [] (Some sample_config) svc0 = (svc1, Inr r)"
    by (simp add: control_transaction_def control_target_s svc0_def db jwk)
  then show ?thesis
    using svc_step.control [where C = sample_crypto and rnd = "\<lambda>_. Some ''id''"] by simp
qed

lemma svc2_step: "svc_step sample_crypto svc1 svc2"
proof -
  have "svc2 = svc1\<lparr>sv_storage := sv_storage svc2\<rparr>" by (simp add: svc1_def svc2_def sample_svc_def)
  moreover have "exec sample_env (sv_storage svc1) op_create = Some (sv_storage svc2)"
    by (simp add: op_create_def svc1_def svc2_def sample_svc_def)
  ultimately show ?thesis
    using svc_step.storage [of sample_env svc1 op_create "sv_storage svc2" sample_crypto] by (simp add: op_create_def)
qed

lemma tails_two: "service_tails sample_env [''a''] (sv_storage svc2) = fmupd ''a'' offset_two fmempty"
proof -
  have "map (\<lambda>(n, m). (n, as_str (md_next_offset m))) (filter (\<lambda>(n, _). strip_prefix ''__ds/'' n = None)
      (list_streams sample_env (sv_storage svc2) [''a''])) = [(''a'', offset_two)]"
    by code_simp
  then show ?thesis by (simp add: service_tails_def)
qed

lemma sample_token_minted:
  "crypto_token sample_crypto ''k'' \<lparr>cl_subscription = ''s'', cl_generation = 1, cl_wake_id = ''w_id''\<rparr> = Inr sample_token"
  by code_simp

lemma sample_pending: "snapshots sample_sub (fmupd ''a'' offset_two fmempty) = wk_streams sample_wake"
  by code_simp

lemma sample_issue: "issue_wake sample_crypto sample_sub ''s'' ''k'' (fmupd ''a'' offset_two fmempty) 5000
    = Inr (woken_sub\<lparr>sb_next_attempt_at := 5000\<rparr>)"
proof -
  have "checked_suc 0 = Some 1" by code_simp
  moreover have "cf_kind (sb_config sample_sub) = Webhook" "sb_generation sample_sub = 0"
      "cf_lease_ttl_ms (sb_config sample_sub) = 30000"
    by (simp_all add: sample_sub_def sample_config_def)
  ultimately show ?thesis
    by (simp add: issue_wake_def Let_def sample_token_minted sample_pending woken_sub_def sample_wake_def)
      (simp add: sample_sub_def)
qed

lemma sample_signed: "\<exists>sig. crypto_signature sample_crypto ''k'' d = Inr sig"
  by (simp add: crypto_signature_def crypto_key_def sample_crypto_def)

lemma sample_refresh: "refresh_sub tails 5000 sample_sub = sample_sub"
proof -
  have "foldl (\<lambda>ls path. if cf_matches (sb_config sample_sub) path then or_insert path fresh_link ls else ls) ls ps = ls" for ls ps
    by (induction ps arbitrary: ls) (simp_all add: cf_matches_def sample_sub_def sample_config_def)
  then show ?thesis by (simp add: refresh_sub_def) (simp add: sample_sub_def)
qed

lemma sample_tick_sub:
  "\<exists>j. tick_sub sample_env sample_crypto sample_moment [] ''k'' kid [] (fmupd ''a'' offset_two fmempty) 5000 0 (''s'', sample_sub)
    = Inr (woken_sub, [j], [])"
proof -
  obtain sig where "crypto_signature sample_crypto ''k'' (int_to_string (secs sample_moment) @ ''.'' @
      webhook_body sample_env [] ''s'' (woken_sub\<lparr>sb_next_attempt_at := 5000\<rparr>) sample_wake) = Inr sig"
    using sample_signed by blast
  moreover have "pending sample_sub (fmupd ''a'' offset_two fmempty)"
    by (simp add: pending_def sample_pending sample_wake_def)
  moreover have "\<not> sb_deleted sample_sub" "sb_wake sample_sub = None" by (simp_all add: sample_sub_def)
  moreover have "cf_kind (sb_config woken_sub) = Webhook" "cf_lease_ttl_ms (sb_config woken_sub) = 30000"
      "sb_wake woken_sub = Some sample_wake" "\<not> sb_failed woken_sub"
    by (simp_all add: woken_sub_def sample_sub_def sample_config_def)
  moreover have "sample_wake\<lparr>wk_lease_until := Some 35000\<rparr> = sample_wake" "\<not> wk_delivered sample_wake"
    by (simp_all add: sample_wake_def)
  moreover have "woken_sub\<lparr>sb_next_attempt_at := 5000, sb_wake := Some sample_wake, sb_failed := False,
      sb_next_attempt_at := 11000\<rparr> = woken_sub"
    by (simp add: woken_sub_def sample_sub_def)
  ultimately show ?thesis
    by (simp add: tick_sub_def sample_issue Let_def MAX_DELIVERIES_def)
qed

lemma svc3_tick: "\<exists>j. tick sample_env sample_crypto sample_moment [''a''] None None [] svc2 = (svc3, Inr [j])"
proof -
  obtain jwk where jwk: "crypto_jwk sample_crypto ''k'' = Inr (crypto_kid sample_crypto ''k'', jwk)"
    using crypto_sample(1) by blast
  obtain j where j: "tick_sub sample_env sample_crypto sample_moment [] ''k'' (crypto_kid sample_crypto ''k'') []
      (fmupd ''a'' offset_two fmempty) 5000 0 (''s'', sample_sub) = Inr (woken_sub, [j], [])"
    using sample_tick_sub by blast
  have db: "refresh tails 5000 (sv_database svc2) = sv_database svc2" "sv_base_path svc2 = []"
      "db_signing_key (sv_database svc2) = ''k''" "db_subscriptions (sv_database svc2) = fmupd ''s'' sample_sub fmempty"
      "\<not> sb_deleted sample_sub" "ms sample_moment 0 = 5000" for tails
    by (simp_all add: refresh_def svc2_def sample_svc_def sample_database_def sample_refresh sample_moment_def
        fmmap_fmupd) (simp_all add: sample_sub_def)
  moreover from this(5) have "\<not> fmpred (\<lambda>_. sb_deleted) (fmupd ''s'' sample_sub fmempty)" by (auto simp: fmpred_iff)
  ultimately show ?thesis
    by (simp add: tick_def tails_two jwk j Let_def service_save_def map_keys_def)
      (simp add: svc3_def svc2_def sample_svc_def)
qed

lemma svc3_step: "svc_step sample_crypto svc2 svc3"
  using svc3_tick svc_step.reconcile [where C = sample_crypto and rnd = "\<lambda>_. Some ''id''"] by auto

lemma sample_acks: "apply_acks [(''a'', offset_two)] (sb_links sample_sub) = sb_links done_sub"
  by (simp add: apply_acks_def raise_ack_def sample_sub_def done_sub_def max_def)

lemma svc4_step: "svc_step sample_crypto svc3 svc4"
proof -
  have "finish_sub sample_crypto 5000 ''s'' (Inr True) sample_wake woken_sub = Inr done_sub"
  proof -
    have "map (\<lambda>s. (sn_path s, sn_tail_offset s)) (wk_streams sample_wake) = [(''a'', offset_two)]"
        "sb_links woken_sub = sb_links sample_sub"
      by (simp_all add: sample_wake_def woken_sub_def)
    then show ?thesis
      by (simp add: finish_sub_def sample_acks) (simp add: woken_sub_def done_sub_def sample_sub_def)
  qed
  moreover have "fmlookup (db_subscriptions (sv_database svc3)) ''s'' = Some woken_sub" "\<not> sb_deleted woken_sub"
      "sb_wake woken_sub = Some sample_wake" "wk_generation sample_wake = 1" "wk_lease_until sample_wake = Some 35000"
      "ms sample_moment k = 5000" for k
    by (simp_all add: svc3_def sample_svc_def woken_sub_def sample_sub_def sample_wake_def sample_moment_def)
  ultimately have "finish sample_crypto sample_moment None ''s'' 1 (Inr True) svc3 = (svc4, Inr ())"
    by (simp add: finish_def service_save_def map_keys_def) (simp add: svc3_def svc4_def sample_svc_def)
  then show ?thesis
    using svc_step.outcome [where C = sample_crypto and rnd = "\<lambda>_. Some ''id''"] by simp
qed

lemma svc_all_reachable:
  "svc_reachable sample_crypto svc2" "svc_reachable sample_crypto svc3" "svc_reachable sample_crypto svc4"
  using svc0_reachable svc1_step svc2_step svc3_step svc4_step svc_reachable.step by metis+

end
