(* ===== verification/DS_Sub_Glob.thy ===== *)
theory DS_Sub_Glob
  imports DS_Sub_Model
begin

text \<open>
  What a path pattern means. \<open>glob_ref\<close> reads pattern and path segment by
  segment; the table of \<open>glob_matches\<close> holds, after a prefix of the pattern has
  been processed, the answer of \<open>glob_ref\<close> for every prefix of the path.
\<close>

fun glob_ref :: "string list \<Rightarrow> string list \<Rightarrow> bool" where
  "glob_ref [] ps \<longleftrightarrow> ps = []"
| "glob_ref (g # gs) [] \<longleftrightarrow> g = ''**'' \<and> glob_ref gs []"
| "glob_ref (g # gs) (p # ps) \<longleftrightarrow>
     (if g = ''**'' then glob_ref gs (p # ps) \<or> glob_ref (g # gs) ps
      else (g = ''*'' \<or> g = p) \<and> glob_ref gs ps)"

lemma ex_le_Suc_split: "(\<exists>k\<le>Suc n. P k) \<longleftrightarrow> P 0 \<or> (\<exists>k\<le>n. P (Suc k))"
  by (metis Suc_le_mono le0 not0_implies_Suc)

lemma glob_ref_append:
  "glob_ref (gs @ hs) ps \<longleftrightarrow> (\<exists>k\<le>length ps. glob_ref gs (take k ps) \<and> glob_ref hs (drop k ps))"
proof (induction gs ps rule: glob_ref.induct)
  case (1 ps)
  then show ?case by (auto simp: take_eq_Nil)
next
  case (2 g gs)
  then show ?case by auto
next
  case (3 g gs p ps)
  then show ?case
    by (cases "g = ''**''") (auto simp: ex_le_Suc_split)
qed

lemma glob_ref_stars: "glob_ref [''**''] ps"
  by (induction ps) auto

lemma glob_ref_one: "g \<noteq> ''**'' \<Longrightarrow> glob_ref [g] ps \<longleftrightarrow> length ps = 1 \<and> (g = ''*'' \<or> g = hd ps)"
  by (cases ps; cases "tl ps") auto

lemma glob_ref_snoc_stars: "glob_ref (gs @ [''**'']) ps \<longleftrightarrow> (\<exists>k\<le>length ps. glob_ref gs (take k ps))"
  by (simp add: glob_ref_append glob_ref_stars)

lemma glob_ref_snoc:
  assumes "g \<noteq> ''**''"
  shows "glob_ref (gs @ [g]) ps \<longleftrightarrow> ps \<noteq> [] \<and> glob_ref gs (butlast ps) \<and> (g = ''*'' \<or> g = last ps)"
proof (cases ps rule: rev_cases)
  case (snoc qs q)
  have "k \<le> length ps \<and> length (drop k ps) = 1 \<longleftrightarrow> k = length qs" for k
    using snoc by auto
  then have "(\<exists>k\<le>length ps. A k \<and> length (drop k ps) = 1 \<and> B k) \<longleftrightarrow> A (length qs) \<and> B (length qs)" for A B
    by metis
  then show ?thesis
    unfolding glob_ref_append glob_ref_one[OF assms] using snoc by simp
qed (simp add: glob_ref_append assms)

section \<open>The table\<close>

definition glob_spread :: "bool list \<Rightarrow> nat \<Rightarrow> bool list" where
  "glob_spread m n = foldl (\<lambda>m i. m[i := (m ! i \<or> m ! (i - 1))]) m [1..<Suc n]"

lemma glob_spread_Suc:
  "glob_spread m (Suc n) = (let r = glob_spread m n in r[Suc n := (r ! Suc n \<or> r ! n)])"
  by (simp add: glob_spread_def Let_def)

lemma length_glob_spread [simp]: "length (glob_spread m n) = length m"
  by (induction n) (simp add: glob_spread_def, simp add: glob_spread_Suc Let_def)

lemma glob_spread_nth:
  "n < length m \<Longrightarrow> i < length m \<Longrightarrow> glob_spread m n ! i \<longleftrightarrow> (if i \<le> n then \<exists>k\<le>i. m ! k else m ! i)"
proof (induction n arbitrary: i)
  case (Suc n)
  then have "glob_spread m n ! Suc n = m ! Suc n" "glob_spread m n ! n \<longleftrightarrow> (\<exists>k\<le>n. m ! k)" "n < length m"
    by simp_all
  then show ?case
    using Suc.IH[of i] Suc.prems
    by (cases "i = Suc n") (auto simp: glob_spread_Suc Let_def le_Suc_eq)
qed (auto simp: glob_spread_def)

definition glob_shift :: "(nat \<Rightarrow> bool) \<Rightarrow> bool list \<Rightarrow> nat \<Rightarrow> bool list" where
  "glob_shift P m n = foldl (\<lambda>m i. m[i := (m ! (i - 1) \<and> P i)]) m (rev [1..<Suc n])"

lemma glob_shift_Suc: "glob_shift P m (Suc n) = glob_shift P (m[Suc n := (m ! n \<and> P (Suc n))]) n"
  by (simp add: glob_shift_def)

lemma length_glob_shift [simp]: "length (glob_shift P m n) = length m"
  by (induction n arbitrary: m) (simp add: glob_shift_def, simp add: glob_shift_Suc)

lemma glob_shift_nth:
  "i < length m \<Longrightarrow> glob_shift P m n ! i \<longleftrightarrow> (if 1 \<le> i \<and> i \<le> n then m ! (i - 1) \<and> P i else m ! i)"
proof (induction n arbitrary: m)
  case (Suc n)
  show ?case
    using Suc.IH[of "m[Suc n := (m ! n \<and> P (Suc n))]"] Suc.prems
    by (cases "i = Suc n") (auto simp: glob_shift_Suc)
qed (auto simp: glob_shift_def)

definition glob_table :: "string list \<Rightarrow> string list \<Rightarrow> bool list" where
  "glob_table gs path = map (\<lambda>i. glob_ref gs (take i path)) [0..<Suc (length path)]"

lemma glob_table_nth: "i \<le> length path \<Longrightarrow> glob_table gs path ! i \<longleftrightarrow> glob_ref gs (take i path)"
  unfolding glob_table_def by (simp del: upt_Suc)

lemma length_glob_table [simp]: "length (glob_table gs path) = Suc (length path)"
  by (simp add: glob_table_def)

lemma glob_segment_other:
  "seg \<noteq> ''**'' \<Longrightarrow> glob_segment path m seg
     = (glob_shift (\<lambda>i. seg = ''*'' \<or> seg = path ! (i - 1)) m (length path))[0 := False]"
  by (simp add: glob_segment_def glob_shift_def del: upt_Suc)

lemma take_Suc_parts:
  assumes "j < length path"
  shows "path \<noteq> []" "butlast (take (Suc j) path) = take j path" "last (take (Suc j) path) = path ! j"
  using assms by (auto simp: take_Suc_conv_app_nth)

lemma glob_segment_table: "glob_segment path (glob_table gs path) seg = glob_table (gs @ [seg]) path"
proof (cases "seg = ''**''")
  case True
  have "(\<exists>k\<le>i. glob_table gs path ! k) \<longleftrightarrow> glob_table (gs @ [seg]) path ! i" if "i \<le> length path" for i
    using that True by (auto simp: glob_table_nth glob_ref_snoc_stars min_def intro: exI)
  then show ?thesis
    unfolding glob_segment_def if_P[OF True] glob_spread_def[symmetric]
    by (intro nth_equalityI) (simp_all add: glob_spread_nth less_Suc_eq_le)
next
  case False
  let ?m = "(glob_shift (\<lambda>i. seg = ''*'' \<or> seg = path ! (i - 1)) (glob_table gs path) (length path))[0 := False]"
  have "?m ! i \<longleftrightarrow> glob_table (gs @ [seg]) path ! i" if "i \<le> length path" for i
    using that by (cases i) (auto simp: glob_shift_nth glob_table_nth glob_ref_snoc[OF False] take_Suc_parts)
  then show ?thesis
    unfolding glob_segment_other[OF False] by (intro nth_equalityI) (simp_all add: less_Suc_eq_le)
qed

lemma glob_segments_table: "foldl (glob_segment path) (glob_table gs path) segs = glob_table (gs @ segs) path"
  by (induction segs arbitrary: gs) (simp_all add: glob_segment_table)

lemma glob_table_start: "(replicate (length path + 1) False)[0 := True] = glob_table [] path"
  by (rule nth_equalityI) (auto simp: glob_table_nth nth_Cons' less_Suc_eq_le)

lemma glob_matches_ref:
  "glob_matches pattern path = glob_ref (split_on (CHR ''/'') pattern) (split_on (CHR ''/'') path)"
  unfolding glob_matches_def Let_def glob_table_start glob_segments_table
  by (simp add: glob_table_nth)

end
