(* ===== verification/DS_Sub_Run.thy ===== *)
theory DS_Sub_Run
  imports DS_Sub_Api "HOL-Library.Product_Lexorder"
begin

text \<open>
  The edges of the subscription service: the webhook targets it accepts and
  the outcome of a delivery (\<open>subscriptions/delivery.rs\<close>), the entry point of the
  control API, and the delivery loop (\<open>run\<close> and \<open>persist_completions\<close> of
  \<open>subscriptions/worker.rs\<close>) as the sequence of events its \<open>select!\<close> receives.
\<close>

section \<open>Webhook targets\<close>

datatype ip_addr = V4 "8 word" "8 word" "8 word" "8 word" | V6 "16 word list"

text \<open>The predicates of \<open>std::net::Ipv4Addr\<close>.\<close>

fun v4_is_private :: "ip_addr \<Rightarrow> bool" where
  "v4_is_private (V4 a b c d) \<longleftrightarrow> a = 10 \<or> (a = 172 \<and> 16 \<le> b \<and> b \<le> 31) \<or> (a = 192 \<and> b = 168)"
| "v4_is_private (V6 _) = False"

fun v4_is_documentation :: "ip_addr \<Rightarrow> bool" where
  "v4_is_documentation (V4 a b c d) \<longleftrightarrow>
     (a = 192 \<and> b = 0 \<and> c = 2) \<or> (a = 198 \<and> b = 51 \<and> c = 100) \<or> (a = 203 \<and> b = 0 \<and> c = 113)"
| "v4_is_documentation (V6 _) = False"

fun is_loopback :: "ip_addr \<Rightarrow> bool" where
  "is_loopback (V4 a b c d) \<longleftrightarrow> a = 127"
| "is_loopback (V6 seg) \<longleftrightarrow> seg = [0, 0, 0, 0, 0, 0, 0, 1]"

fun public_ip :: "ip_addr \<Rightarrow> bool" where
  "public_ip (V4 a b c d) \<longleftrightarrow>
     \<not> v4_is_private (V4 a b c d) \<and> a \<noteq> 127 \<and> \<not> (a = 169 \<and> b = 254) \<and>
     \<not> (a = 255 \<and> b = 255 \<and> c = 255 \<and> d = 255) \<and> \<not> v4_is_documentation (V4 a b c d) \<and>
     \<not> (224 \<le> a \<and> a \<le> 239) \<and> a \<noteq> 0 \<and> a < 240 \<and> \<not> (a = 100 \<and> 64 \<le> b \<and> b \<le> 127) \<and>
     \<not> (a = 198 \<and> (b = 18 \<or> b = 19)) \<and> \<not> (a = 192 \<and> b = 0)"
| "public_ip (V6 seg) \<longleftrightarrow>
     and (seg ! 0) 0xe000 = 0x2000 \<and> \<not> (seg ! 0 = 0x2001 \<and> seg ! 1 < 0x200) \<and>
     \<not> (seg ! 0 = 0x2001 \<and> seg ! 1 = 0xdb8) \<and> seg ! 0 \<noteq> 0x2002"

text \<open>\<open>Ipv4Addr::from_str\<close>: four decimal octets of one to three digits without leading zeros.\<close>

definition parse_octet :: "string \<Rightarrow> 8 word option" where
  "parse_octet s =
     (if s = [] \<or> length s > 3 \<or> \<not> list_all is_ascii_digit s \<or> (length s > 1 \<and> hd s = CHR ''0'') then None
      else (case parse_u64 s of Inr n \<Rightarrow> if n \<le> 255 then Some (ucast n) else None | Inl _ \<Rightarrow> None))"

definition parse_ipv4 :: "string \<Rightarrow> ip_addr option" where
  "parse_ipv4 s = (case map parse_octet (split_on (CHR ''.'') s) of
     [Some a, Some b, Some c, Some d] \<Rightarrow> Some (V4 a b c d) | _ \<Rightarrow> None)"

record url =
  url_scheme :: string
  url_username :: string
  url_password :: "string option"
  url_fragment :: "string option"
  url_host :: "string option"
  url_port :: "nat option"
  url_text :: string

text \<open>
  The URL parser of \<open>reqwest\<close>, the resolver (\<open>None\<close>: it fails or takes longer
  than three seconds) and whether the HTTP client can be built.
\<close>

record net_env =
  url_parse :: "string \<Rightarrow> url option"
  lookup_host :: "string \<Rightarrow> nat \<Rightarrow> ip_addr list option"
  client_builds :: bool

definition webhook_rejected :: api_error where
  "webhook_rejected = ae_bad ''WEBHOOK_URL_REJECTED'' ''webhook URL must resolve to an allowed HTTPS target''"

definition trim_brackets :: "string \<Rightarrow> string" where
  "trim_brackets s = (let p = (\<lambda>c. c = CHR ''['' \<or> c = CHR '']'') in rev (dropWhile p (rev (dropWhile p s))))"

definition local_name :: "string \<Rightarrow> bool" where
  "local_name host \<longleftrightarrow> host = ''localhost'' \<or>
     (case parse_ipv4 host of Some (V4 a b c d) \<Rightarrow> a = 127 \<and> b = 0 \<and> c = 0 | _ \<Rightarrow> False)"

text \<open>The result: the addresses the client is pinned to, and the parsed URL.\<close>

definition webhook_client :: "net_env \<Rightarrow> string \<Rightarrow> bool \<Rightarrow> (ip_addr list \<times> url) api" where
  "webhook_client N raw0 allow_local =
     (case url_parse N raw0 of
        None \<Rightarrow> Inl webhook_rejected
      | Some u \<Rightarrow>
        if url_username u \<noteq> [] \<or> url_password u \<noteq> None \<or> url_fragment u \<noteq> None then Inl webhook_rejected
        else (case url_host u of
            None \<Rightarrow> Inl webhook_rejected
          | Some h \<Rightarrow>
            let host = trim_brackets h; development = (allow_local \<and> local_name host) in
            if url_scheme u \<noteq> ''https'' \<and> \<not> (development \<and> url_scheme u = ''http'') then Inl webhook_rejected
            else (case url_port u of
                None \<Rightarrow> Inl webhook_rejected
              | Some port \<Rightarrow>
            (case lookup_host N host port of
                None \<Rightarrow> Inl webhook_rejected
              | Some addresses \<Rightarrow>
                if addresses = [] \<or> (\<exists>a\<in>set addresses. \<not> (public_ip a \<or> development \<and> is_loopback a)) then
                  Inl webhook_rejected
                else if \<not> client_builds N then Inl (ae_internal ''could not create webhook client'')
                else Inr (addresses, u)))))"

section \<open>Delivery\<close>

text \<open>What the endpoint answers: nothing, or a status and the chunks of its body (\<open>None\<close>: a broken read).\<close>

datatype delivery_answer = SendFailed | Answered nat "bytes option list"

fun read_chunks :: "bytes \<Rightarrow> bytes option list \<Rightarrow> bytes api" where
  "read_chunks bs [] = Inr bs"
| "read_chunks bs (None # cs) = Inl (ae_internal ''webhook response failed'')"
| "read_chunks bs (Some c # cs) =
     (if length bs + length c > 65536 then Inl (ae_internal ''webhook response too large'')
      else read_chunks (bs @ c) cs)"

definition deliver :: "env \<Rightarrow> net_env \<Rightarrow> string \<Rightarrow> bool \<Rightarrow> delivery_answer \<Rightarrow> bool api" where
  "deliver E N u local ans =
     (case webhook_client N u local of
        Inl e \<Rightarrow> Inl e
      | Inr _ \<Rightarrow> (case ans of
          SendFailed \<Rightarrow> Inl (ae_internal ''webhook delivery failed'')
        | Answered st chunks \<Rightarrow>
          if \<not> (200 \<le> st \<and> st \<le> 299) then Inl (ae_internal ''webhook returned an unsuccessful status'')
          else (case read_chunks [] chunks of
              Inl e \<Rightarrow> Inl e
            | Inr bs \<Rightarrow> Inr (case from_slice E bs of
                Inr (JObject kvs) \<Rightarrow> map_of (rev kvs) ''done'' = Some (JBool True)
              | _ \<Rightarrow> False))))"

section \<open>The control entry point\<close>

definition validated_configuration ::
  "crypto_env \<Rightarrow> net_env \<Rightarrow> http_method \<Rightarrow> bytes \<Rightarrow> bool \<Rightarrow> configuration option api" where
  "validated_configuration C N meth body allow_local =
     (if meth \<noteq> HPut then Inr None
      else (case config_from_slice C body of
          None \<Rightarrow> Inl ae_json
        | Some c \<Rightarrow> (case cf_validate c of
            Inl e \<Rightarrow> Inl e
          | Inr _ \<Rightarrow> (case cf_webhook c of
              None \<Rightarrow> Inr (Some c)
            | Some u \<Rightarrow> (case webhook_client N u allow_local of
                Inl e \<Rightarrow> Inl e
              | Inr (_, parsed) \<Rightarrow> Inr (Some (c\<lparr>cf_webhook := Some (url_text parsed)\<rparr>)))))))"

text \<open>\<open>x\<close>: why the execution boundary did not run the transaction, if it did not.\<close>

definition control ::
  "env \<Rightarrow> crypto_env \<Rightarrow> net_env \<Rightarrow> moment \<Rightarrow> string list \<Rightarrow> error option \<Rightarrow> execution_error option \<Rightarrow> bool \<Rightarrow>
   string \<Rightarrow> request_origin \<Rightarrow> http_method \<Rightarrow> header_map \<Rightarrow> bytes \<Rightarrow> service \<Rightarrow> service \<times> api_response api" where
  "control E C N t ord fault x allow_local path origin meth hs body sv =
     (case validated_configuration C N meth body allow_local of
        Inl e \<Rightarrow> (sv, Inl e)
      | Inr conf \<Rightarrow> (case x of
          Some er \<Rightarrow> (sv, Inl (ae_from_execution er))
        | None \<Rightarrow> control_transaction E C t ord fault path origin meth hs body conf sv))"

section \<open>The delivery loop\<close>

type_synonym delivery_key = "string \<times> u64"

record runner =
  rn_service :: service
  rn_active :: "delivery_key list"
  rn_completions :: "(delivery_key, bool api) fmap"
  rn_jobs :: "job list"

text \<open>
  The circumstances of one attempt to record an outcome: whether the execution
  boundary runs it, its clock, its random source and the answer of the save.
\<close>

record attempt =
  at_boundary :: "execution_error option"
  at_crypto :: crypto_env
  at_moment :: moment
  at_fault :: "error option"

text \<open>\<open>persist_completions\<close> over the keys collected up front; \<open>Inl\<close>: the boundary refused.\<close>

fun persist_completions ::
  "(delivery_key \<Rightarrow> attempt) \<Rightarrow> delivery_key list \<Rightarrow> runner \<Rightarrow> runner \<times> (execution_error + unit)" where
  "persist_completions at [] r = (r, Inr ())"
| "persist_completions at (k # ks) r =
     (case fmlookup (rn_completions r) k of
        None \<Rightarrow> persist_completions at ks r
      | Some result \<Rightarrow>
     (case at_boundary (at k) of
        Some er \<Rightarrow> (r, Inl er)
      | None \<Rightarrow>
     (case finish (at_crypto (at k)) (at_moment (at k)) (at_fault (at k)) (fst k) (snd k) result (rn_service r) of
        (sv, Inl _) \<Rightarrow> (r\<lparr>rn_service := sv\<rparr>, Inr ())
      | (sv, Inr _) \<Rightarrow> persist_completions at ks (r\<lparr>rn_service := sv,
          rn_completions := fmdrop k (rn_completions r), rn_active := removeAll k (rn_active r)\<rparr>))))"

definition job_key :: "job \<Rightarrow> delivery_key" where
  "job_key j = (jb_id j, jb_generation j)"

text \<open>
  The events of the \<open>select!\<close>: the shutdown signal, the end of a delivery task
  (with its outcome, or its panic), and a beat of the interval with the
  circumstances of the work it starts. \<open>None\<close>: the loop is left.
\<close>

datatype run_event =
    Shutdown
  | Joined job "bool api"
  | JoinFailed
  | Beat "delivery_key \<Rightarrow> attempt" env crypto_env moment "string list" "error option" "error option"
      "execution_error option" bool

fun run_step :: "run_event \<Rightarrow> runner \<Rightarrow> runner option" where
  "run_step Shutdown r = None"
| "run_step (Joined j result) r = Some (r\<lparr>rn_jobs := remove1 j (rn_jobs r),
     rn_completions := fmupd (job_key j) result (rn_completions r)\<rparr>)"
| "run_step JoinFailed r = None"
| "run_step (Beat at E C t ord f1 f2 x cancelled) r =
     (case persist_completions at (map_keys (rn_completions r)) r of
        (r1, Inl ExecBusy) \<Rightarrow> Some r1
      | (r1, Inl _) \<Rightarrow> None
      | (r1, Inr _) \<Rightarrow>
     (case x of
        Some ExecBusy \<Rightarrow> Some r1
      | Some _ \<Rightarrow> None
      | None \<Rightarrow>
     (case tick E C t ord f1 f2 (rn_active r1) (rn_service r1) of
        (sv, Inl _) \<Rightarrow> Some (r1\<lparr>rn_service := sv\<rparr>)
      | (sv, Inr work) \<Rightarrow>
        if cancelled then None
        else Some (r1\<lparr>rn_service := sv,
          rn_active := rn_active r1 @ filter (\<lambda>k. k \<notin> set (rn_active r1)) (map job_key work),
          rn_jobs := rn_jobs r1 @ work\<rparr>))))"

end
