(* ===== verification/DS_Sub_Deliver.thy ===== *)
theory DS_Sub_Deliver
  imports DS_Sub_Service DS_Sub_Run
begin

text \<open>
  The deliveries: what a reconciliation hands out, and what the delivery loop
  keeps of its three collections (the keys under way, the outcomes not yet
  recorded, the tasks still running) whatever events it receives.
\<close>

section \<open>The deliveries of a reconciliation\<close>

text \<open>
  A delivery a reconciliation asks for is not under way already, and its wake
  is in the saved subscriptions with its lease and retry deadline.
\<close>

definition job_saved :: "(string \<times> u64) list \<Rightarrow> int \<Rightarrow> (string \<times> subscription) list \<Rightarrow> job \<Rightarrow> bool" where
  "job_saved active now ys j \<longleftrightarrow> (jb_id j, jb_generation j) \<notin> set active \<and>
     (\<exists>sub w. (jb_id j, sub) \<in> set ys \<and> sb_wake sub = Some w \<and> wk_generation w = jb_generation j \<and>
        wk_lease_until w = Some (now + cf_lease_ttl_ms (sb_config sub)) \<and> sb_next_attempt_at sub = now + 6000)"

lemma job_saved_Cons: "job_saved active now ys j \<Longrightarrow> job_saved active now (y # ys) j"
  by (auto simp: job_saved_def)

lemma tick_sub_job:
  assumes "tick_sub E C t base key kid active tails now njobs (sid, sub) = Inr (sub', js, ps)"
  obtains "js = []" | j where "js = [j]" "jb_id j = sid" "job_saved active now [(sid, sub')] j"
    "length active + njobs < MAX_DELIVERIES"
proof (cases "sb_deleted sub")
  case True
  with assms that(1) show ?thesis by (auto simp: tick_sub_def)
next
  case False
  from assms this show ?thesis
  proof (rule tick_sub_Inr, elim disjE exE conjE)
    assume "js = []"
    then show ?thesis by (rule that(1))
  next
    fix sub1 w j
    assume "js = [j]" "jb_id j = sid" "jb_generation j = wk_generation w" "(sid, wk_generation w) \<notin> set active"
        "length active + njobs < MAX_DELIVERIES"
        "sub' = sub1\<lparr>sb_wake := Some (w\<lparr>wk_lease_until := Some (now + cf_lease_ttl_ms (sb_config sub1))\<rparr>),
         sb_failed := False, sb_next_attempt_at := now + 6000\<rparr>"
    then show ?thesis by (intro that(2) [of j]) (simp_all add: job_saved_def)
  qed
qed

lemma tick_subs_jobs:
  assumes "tick_subs E C t base key kid active tails now njobs xs = Inr (ys, jobs, pulls)"
  shows "jobs = [] \<or> length active + njobs + length jobs \<le> MAX_DELIVERIES" (is "?few")
    and "\<forall>j\<in>set jobs. job_saved active now ys j" (is "?saved")
    and "set (map jb_id jobs) \<subseteq> set (map fst xs) \<and> (distinct (map fst xs) \<longrightarrow> distinct (map jb_id jobs))" (is "?once")
proof -
  have "?few \<and> ?saved \<and> ?once"
    using assms
  proof (induction xs arbitrary: njobs ys jobs pulls)
    case (Cons x xs)
    obtain sid sub where x: "x = (sid, sub)" by fastforce
    from Cons.prems obtain sub' js ps where
        one: "tick_sub E C t base key kid active tails now njobs (sid, sub) = Inr (sub', js, ps)"
      by (auto simp: x split: sum.splits)
    with Cons.prems obtain ys' js' ps' where
        rest: "tick_subs E C t base key kid active tails now (njobs + length js) xs = Inr (ys', js', ps')"
          and ys: "ys = (sid, sub') # ys'" "jobs = js @ js'"
      by (auto simp: x split: sum.splits)
    note IH = Cons.IH [OF rest]
    show ?case
      using one
    proof (rule tick_sub_job)
      assume "js = []"
      with IH ys x show ?thesis by (auto intro: job_saved_Cons)
    next
      fix j assume j: "js = [j]" "jb_id j = sid" "job_saved active now [(sid, sub')] j" "length active + njobs < MAX_DELIVERIES"
      then have "job_saved active now ys j" using ys(1) by (auto simp: job_saved_def)
      with IH ys x j show ?thesis by (auto intro: job_saved_Cons)
    qed
  qed simp
  then show ?few ?saved ?once by simp_all
qed

lemma map_fst_sorted_list: "distinct (map fst (sorted_list_of_fmap m))"
  by (simp add: sorted_list_of_fmap_def comp_def sorted_list_of_fset.rep_eq)

lemma ticked_keys: "list_all2 (ticked tails) xs ys \<Longrightarrow> map fst ys = map fst xs"
  by (induction rule: list_all2_induct) (simp_all add: ticked_def)

lemma tick_jobs:
  assumes "tick E C t ord f1 f2 active sv = (sv', Inr jobs)"
  shows "jobs = [] \<or> length active + length jobs \<le> MAX_DELIVERIES" "distinct (map job_key jobs)"
    "set (map job_key jobs) \<inter> set active = {}"
proof -
  have "(jobs = [] \<or> length active + length jobs \<le> MAX_DELIVERIES) \<and> distinct (map job_key jobs) \<and>
      set (map job_key jobs) \<inter> set active = {}"
    using assms
  proof (cases rule: tick_cases)
    case (worked tails db1 db2 kid subs jobs' pulls sv1 s3 db3 y)
    then have jobs': "jobs' = jobs" by (cases y) auto
    note jobs = tick_subs_jobs [OF worked(3), unfolded jobs']
    have "distinct (map jb_id jobs)" using jobs(3) map_fst_sorted_list by blast
    then have "distinct (map fst (map job_key jobs))" by (simp add: job_key_def comp_def)
    then have "distinct (map job_key jobs)" by (metis distinct_map)
    moreover have "set (map job_key jobs) \<inter> set active = {}" using jobs(2) by (auto simp: job_saved_def job_key_def)
    ultimately show ?thesis using jobs(1) by simp
  qed auto
  then show "jobs = [] \<or> length active + length jobs \<le> MAX_DELIVERIES" "distinct (map job_key jobs)"
    "set (map job_key jobs) \<inter> set active = {}" by simp_all
qed

section \<open>The delivery loop\<close>

definition runner_inv :: "runner \<Rightarrow> bool" where
  "runner_inv r \<longleftrightarrow> distinct (rn_active r) \<and> length (rn_active r) \<le> MAX_DELIVERIES \<and> distinct (map job_key (rn_jobs r)) \<and>
     set (map job_key (rn_jobs r)) \<union> fmdom' (rn_completions r) = set (rn_active r) \<and>
     set (map job_key (rn_jobs r)) \<inter> fmdom' (rn_completions r) = {}"

text \<open>
  The states of the loop. Control requests change the service between any two
  events; a task that ends is one that was started.
\<close>

inductive run_reachable :: "runner \<Rightarrow> bool" where
  begin_run: "run_reachable \<lparr>rn_service = sv, rn_active = [], rn_completions = fmempty, rn_jobs = []\<rparr>"
| event: "run_reachable r \<Longrightarrow> run_step ev r = Some r' \<Longrightarrow> (\<And>j res. ev = Joined j res \<Longrightarrow> j \<in> set (rn_jobs r)) \<Longrightarrow>
    run_reachable r'"
| request: "run_reachable r \<Longrightarrow> run_reachable (r\<lparr>rn_service := sv\<rparr>)"

lemma runner_inv_service [simp]: "runner_inv (r\<lparr>rn_service := sv\<rparr>) = runner_inv r"
  by (simp add: runner_inv_def)

lemma runner_inv_recorded:
  assumes "runner_inv r" "k \<in> fmdom' (rn_completions r)"
  shows "runner_inv (r\<lparr>rn_service := sv, rn_completions := fmdrop k (rn_completions r),
    rn_active := removeAll k (rn_active r)\<rparr>)"
proof -
  have "k \<notin> set (map job_key (rn_jobs r))" using assms by (auto simp: runner_inv_def)
  moreover have "length (removeAll k (rn_active r)) \<le> MAX_DELIVERIES"
    using length_removeAll_less_eq [of k "rn_active r"] assms(1) unfolding runner_inv_def by linarith
  ultimately show ?thesis using assms unfolding runner_inv_def by (auto simp: distinct_removeAll)
qed

lemma persist_completions_inv:
  "persist_completions at ks r = (r', x) \<Longrightarrow> runner_inv r \<Longrightarrow> runner_inv r'"
proof (induction at ks r arbitrary: r' rule: persist_completions.induct)
  case (2 at k ks r)
  show ?case
  proof (cases "fmlookup (rn_completions r) k")
    case None
    with 2 show ?thesis by simp
  next
    case (Some result)
    then have k: "k \<in> fmdom' (rn_completions r)" by (rule fmdom'I)
    obtain sv y where fin: "finish (at_crypto (at k)) (at_moment (at k)) (at_fault (at k)) (fst k) (snd k) result (rn_service r) = (sv, y)"
      by fastforce
    show ?thesis
      using 2 Some fin runner_inv_recorded [OF 2(4) k]
      by (cases "at_boundary (at k)"; cases y) auto
  qed
qed simp

lemma runner_inv_joined:
  assumes "runner_inv r" "j \<in> set (rn_jobs r)"
  shows "runner_inv (r\<lparr>rn_jobs := remove1 j (rn_jobs r), rn_completions := fmupd (job_key j) res (rn_completions r)\<rparr>)"
proof -
  have d: "distinct (map job_key (rn_jobs r))" "distinct (rn_jobs r)"
    using assms(1) by (auto simp: runner_inv_def distinct_map)
  have "set (map job_key (remove1 j (rn_jobs r))) = set (map job_key (rn_jobs r)) - {job_key j}"
    using d assms(2) by (auto simp: distinct_map dest: inj_onD)
  moreover have "distinct (map job_key (remove1 j (rn_jobs r)))"
    using d by (auto simp: distinct_map intro: inj_on_subset)
  moreover have "job_key j \<in> set (map job_key (rn_jobs r))" using assms(2) by simp
  ultimately show ?thesis using assms(1) unfolding runner_inv_def by auto
qed

lemma runner_inv_started:
  assumes "runner_inv r" "tick E C t ord f1 f2 (rn_active r) (rn_service r) = (sv, Inr work)"
  shows "runner_inv (r\<lparr>rn_service := sv,
    rn_active := rn_active r @ filter (\<lambda>k. k \<notin> set (rn_active r)) (map job_key work), rn_jobs := rn_jobs r @ work\<rparr>)"
proof -
  note jobs = tick_jobs [OF assms(2)]
  have "filter (\<lambda>k. k \<notin> set (rn_active r)) (map job_key work) = map job_key work"
    using jobs(3) by (auto simp: filter_id_conv)
  moreover have "length (rn_active r) + length work \<le> MAX_DELIVERIES"
    using jobs(1) assms(1) by (auto simp: runner_inv_def)
  ultimately show ?thesis
    using jobs(2,3) assms(1) unfolding runner_inv_def by auto
qed

lemma run_step_inv:
  assumes "run_step ev r = Some r'" "runner_inv r" "\<And>j res. ev = Joined j res \<Longrightarrow> j \<in> set (rn_jobs r)"
  shows "runner_inv r'"
proof (cases ev)
  case (Joined j res)
  with assms runner_inv_joined show ?thesis by auto
next
  case (Beat at E C t ord f1 f2 x cancelled)
  obtain r1 y where p: "persist_completions at (map_keys (rn_completions r)) r = (r1, y)" by fastforce
  then have r1: "runner_inv r1" using persist_completions_inv assms(2) by blast
  obtain sv work where tick: "tick E C t ord f1 f2 (rn_active r1) (rn_service r1) = (sv, work)" by fastforce
  have "r' = r1 \<or> r' = r1\<lparr>rn_service := sv\<rparr> \<or> (\<exists>w. work = Inr w \<and> r' = r1\<lparr>rn_service := sv,
      rn_active := rn_active r1 @ filter (\<lambda>k. k \<notin> set (rn_active r1)) (map job_key w), rn_jobs := rn_jobs r1 @ w\<rparr>)"
    using assms(1) Beat p tick
    by (auto split: sum.splits execution_error.splits option.splits if_splits)
  with r1 tick runner_inv_started [OF r1] show ?thesis by auto
qed (use assms in auto)

lemma run_reachable_inv: "run_reachable r \<Longrightarrow> runner_inv r"
proof (induction rule: run_reachable.induct)
  case (begin_run sv)
  show ?case by (simp add: runner_inv_def)
next
  case (event r ev r')
  then show ?case by (blast intro: run_step_inv)
qed simp

end
