(* ===== verification/DS_Prop_Sub.thy ===== *)
theory DS_Prop_Sub
  imports DS_Sub_Sample DS_Sub_Glob DS_Sub_Deliver
begin

text \<open>
  Properties of the subscription service, with their instances at the sample
  service.
\<close>

section \<open>Path patterns\<close>

text \<open>
  C36. The table of \<open>glob_matches\<close> decides the same relation as reading pattern
  and path segment by segment: \<open>**\<close> takes any number of segments, \<open>*\<close> exactly
  one, and every other segment itself.
\<close>

theorem glob_is_segmentwise_match:
  "glob_matches pattern path \<longleftrightarrow> glob_ref (split_on (CHR ''/'') pattern) (split_on (CHR ''/'') path)"
  by (rule glob_matches_ref)

section \<open>Restart\<close>







section \<open>One step\<close>



section \<open>Fencing\<close>

lemma dead_generation:
  assumes "evolves sub sub'" "g \<le> sb_generation sub" "\<And>w. sb_wake sub = Some w \<Longrightarrow> wk_generation w \<noteq> g"
    "sb_wake sub' = Some w'"
  shows "wk_generation w' \<noteq> g"
  using assms unfolding evolves_def same_wake_def by (metis leD)

text \<open>
  C39. Once a generation is over (its wake has been completed, released,
  taken back or superseded), its token is dead: in every later state of the
  service, a callback, acknowledgement or release that presents a token of
  that generation is refused and changes nothing.
\<close>

theorem old_tokens_are_fenced:
  assumes "svc_reachable C sv" "(svc_step C)\<^sup>*\<^sup>* sv sv'"
    and sub: "fmlookup (db_subscriptions (sv_database sv)) sid = Some sub"
    and over: "g \<le> sb_generation sub" "map_option wk_generation (sb_wake sub) \<noteq> Some g"
    and tok: "bearer hs = Inr token" "crypto_verify C (db_signing_key (sv_database sv)) token = Inr cl" "cl_generation cl = g"
    and path: "control_target cpath = Some (sid, action)" "action \<in> {''callback'', ''ack'', ''release''}"
  shows "\<exists>e. control_transaction E C t ord f cpath origin HPost hs body conf sv' = (sv', Inl e) \<and>
    e \<in> {ae_missing, ae_json, ae_fenced}"
proof -
  note inv = svc_reachable_inv [OF assms(1)]
  obtain sub1 where sub1: "fmlookup (db_subscriptions (sv_database sv')) sid = Some sub1" "evolves sub sub1"
      "db_signing_key (sv_database sv') = db_signing_key (sv_database sv)"
    using inv sub by (auto intro: svc_later_evolves [OF assms(2)])
  let ?tails = "service_tails E ord (sv_storage sv')"
  let ?sub = "if sb_deleted sub1 then sub1 else refresh_sub ?tails (ms t 0) sub1"
  have "evolves sub ?sub"
    using sub1(2) evolves_trans refresh_sub_keep [unfolded sub_keep_def] by auto
  then have dead: "wk_generation w \<noteq> g" if "sb_wake ?sub = Some w" for w
    using dead_generation over that by (metis option.simps(9))
  have refused: "\<exists>e. complete C s sid (db_signing_key (sv_database sv)) hs body action ?tails (ms t 0) = Inl e \<and>
      e \<in> {ae_json, ae_fenced}" if "\<And>w. sb_wake s = Some w \<Longrightarrow> wk_generation w \<noteq> g" for s
    using tok that by (auto simp: complete_def completion_fenced_def split: option.splits)
  have change: "\<exists>e. control_change E C t ord kid origin HPost hs body conf sv' sid action = Inl e \<and>
      e \<in> {ae_missing, ae_json, ae_fenced}" for kid
  proof (cases "sb_deleted sub1")
    case True
    with sub1(1) show ?thesis by (simp add: control_change_def lookup_refresh Let_def)
  next
    case False
    with refused [of "refresh_sub ?tails (ms t 0) sub1"] dead
    obtain e where "complete C (refresh_sub ?tails (ms t 0) sub1) sid (db_signing_key (sv_database sv)) hs body action
        ?tails (ms t 0) = Inl e" "e \<in> {ae_json, ae_fenced}" by auto
    with False sub1(1,3) path(2) show ?thesis
      by (auto simp: control_change_def control_existing_def lookup_refresh Let_def)
  qed
  obtain kid jwk where "crypto_jwk C (db_signing_key (sv_database sv')) = Inr (kid, jwk)"
    using inv sub1(3) by (auto simp: crypto_jwk_def crypto_key_def Let_def)
  with path(1) change [of kid] show ?thesis by (auto simp: control_transaction_def)
qed

definition sample_headers :: header_map where
  "sample_headers = (\<lambda>n. if n = ''authorization'' then Some (Some (''Bearer '' @ sample_token)) else None)"

theorem old_tokens_are_fenced_witness:
  "\<exists>e. control_transaction sample_env sample_crypto sample_moment [''a''] None ''subscriptions/s/callback''
      \<lparr>scheme = ''http'', authority = Some ''h''\<rparr> HPost sample_headers [] None svc4 = (svc4, Inl e) \<and>
    e \<in> {ae_missing, ae_json, ae_fenced}"
proof (rule old_tokens_are_fenced [where C = sample_crypto and sv = svc4 and sid = "''s''" and sub = done_sub and g = 1
      and token = sample_token and cl = "\<lparr>cl_subscription = ''s'', cl_generation = 1, cl_wake_id = ''w_id''\<rparr>"
      and action = "''callback''"])
  show "bearer sample_headers = Inr sample_token" by code_simp
  have "map_sum (\<lambda>_. ()) id (crypto_verify sample_crypto ''k'' sample_token)
      = Inr \<lparr>cl_subscription = ''s'', cl_generation = 1, cl_wake_id = ''w_id''\<rparr>"
    by code_simp
  then show "crypto_verify sample_crypto (db_signing_key (sv_database svc4)) sample_token
      = Inr \<lparr>cl_subscription = ''s'', cl_generation = 1, cl_wake_id = ''w_id''\<rparr>"
    by (cases "crypto_verify sample_crypto ''k'' sample_token") (simp_all add: svc4_def sample_svc_def sample_database_def)
  show "control_target ''subscriptions/s/callback'' = Some (''s'', ''callback'')" by code_simp
  show "svc_reachable sample_crypto svc4" by (rule svc_all_reachable)
qed (simp_all add: svc4_def sample_svc_def done_sub_def sample_sub_def)

section \<open>Reconciliation\<close>

lemma pending_links: "sb_links x = sb_links y \<Longrightarrow> pending x tails = pending y tails"
  by (simp add: pending_def snapshots_def)

lemma tick_leaves_work_woken:
  assumes "tick E C t ord f1 f2 active sv = (sv', Inr jobs)" "stored C sv"
    "fmlookup (db_subscriptions (sv_database sv')) sid = Some sub" "\<not> sb_deleted sub" "sb_wake sub = None"
  shows "\<not> pending sub (service_tails E ord (sv_storage sv))"
  using assms(1)
proof (cases rule: tick_cases)
  case idle
  with assms(3,4) show ?thesis by (auto simp: fmpred_iff)
next
  case (worked tails db1 db2 kid subs jobs' pulls sv1 s3 db3 y)
  then obtain u where y: "y = Inr u" by (cases y) auto
  have st: "stored C sv1" using service_save_Inr [OF worked(5) assms(2)] by simp
  have "mem_subscription_state s3 = mem_subscription_state (sv_storage sv1)"
    using publishes_db_rel [OF worked(6)] by simp
  with service_save_Inr [OF worked(7) [unfolded y]] stored_storage [OF st] have "sv_database sv' = db3" by blast
  with assms(3) publishes_same_work [OF worked(6), of sid]
  obtain sub2 where "fmlookup (fmap_of_list subs) sid = Some sub2" "same_work sub2 sub"
    by (auto simp: worked(4) option_rel_Some2)
  with tick_subs_lookup [OF worked(3), of sid] obtain sub1 where sub1: "ticked tails (sid, sub1) (sid, sub2)"
    by (auto simp: option_rel_Some2)
  with \<open>same_work sub2 sub\<close> assms(4,5) have "\<not> pending sub1 tails" "sb_links sub = sb_links sub1"
    by (auto simp: ticked_def same_work_def)
  then show ?thesis using worked(1) pending_links by metis
qed auto

text \<open>
  C40. A reconciliation that succeeds leaves no work without a wake: every
  subscription that is not deleted either has a current wake or has
  acknowledged everything up to the tails the reconciliation read.
\<close>

theorem reconciliation_wakes_pending_work:
  assumes "svc_reachable C sv" "tick E C t ord f1 f2 active sv = (sv', Inr jobs)"
    "fmlookup (db_subscriptions (sv_database sv')) sid = Some sub" "\<not> sb_deleted sub"
  shows "sb_wake sub \<noteq> None \<or> \<not> pending sub (service_tails E ord (sv_storage sv))"
  using tick_leaves_work_woken [OF assms(2) _ assms(3,4)] svc_reachable_inv [OF assms(1)] by blast

theorem reconciliation_wakes_pending_work_witness:
  "\<exists>j. tick sample_env sample_crypto sample_moment [''a''] None None [] svc2 = (svc3, Inr [j]) \<and>
    (sb_wake woken_sub \<noteq> None \<or> \<not> pending woken_sub (service_tails sample_env [''a''] (sv_storage svc2)))"
proof -
  obtain j where "tick sample_env sample_crypto sample_moment [''a''] None None [] svc2 = (svc3, Inr [j])"
    using svc3_tick by blast
  with reconciliation_wakes_pending_work [OF svc_all_reachable(1) this, of "''s''" woken_sub] show ?thesis
    by (auto simp: svc3_def sample_svc_def woken_sub_def sample_sub_def)
qed

text \<open>
  The deliveries a successful reconciliation hands out are bounded and
  recorded: together with those under way they are at most sixteen, no
  subscription gets two, none repeats a delivery under way, and the wake each
  one carries is the current wake of its subscription in the saved database.
\<close>

theorem deliveries_are_bounded_and_saved:
  assumes "svc_reachable C sv" "tick E C t ord f1 f2 active sv = (sv', Inr jobs)" "length active \<le> MAX_DELIVERIES"
  shows "length active + length jobs \<le> MAX_DELIVERIES \<and> distinct (map jb_id jobs) \<and>
    (\<forall>j\<in>set jobs. (jb_id j, jb_generation j) \<notin> set active \<and>
      (\<exists>sub w. fmlookup (db_subscriptions (sv_database sv')) (jb_id j) = Some sub \<and> sb_wake sub = Some w \<and>
         wk_generation w = jb_generation j))"
  using assms(2)
proof (cases rule: tick_cases)
  case (worked tails db1 db2 kid subs jobs' pulls sv1 s3 db3 y)
  then obtain u where y: "y = Inr u" and jobs': "jobs' = jobs" by (cases y) auto
  note jobs = tick_subs_jobs [OF worked(3), unfolded jobs']
  have st: "stored C sv" using svc_reachable_inv [OF assms(1)] by simp
  have "mem_subscription_state s3 = mem_subscription_state (sv_storage sv1)"
    using publishes_db_rel [OF worked(6)] by simp
  with service_save_Inr [OF worked(7) [unfolded y]] service_save_Inr [OF worked(5) st] stored_storage
  have db3: "sv_database sv' = db3" by blast
  have "distinct (map fst subs)"
    using ticked_keys [OF tick_subs_ticked [OF worked(3)]] map_fst_sorted_list by metis
  then have "fmlookup (db_subscriptions db2) sid = Some sub" if "(sid, sub) \<in> set subs" for sid sub
    using that by (simp add: worked(4) fmlookup_of_list)
  moreover have "\<exists>sub' w'. fmlookup (db_subscriptions db3) sid = Some sub' \<and> sb_wake sub' = Some w' \<and>
      wk_generation w' = wk_generation w"
    if "fmlookup (db_subscriptions db2) sid = Some sub" "sb_wake sub = Some w" for sid sub w
    using publishes_same_work [OF worked(6), of sid] that by (auto simp: option_rel_Some1 same_work_def)
  ultimately have "\<exists>sub w. fmlookup (db_subscriptions (sv_database sv')) (jb_id j) = Some sub \<and> sb_wake sub = Some w \<and>
      wk_generation w = jb_generation j \<and> (jb_id j, jb_generation j) \<notin> set active" if "j \<in> set jobs" for j
    using jobs(2) that unfolding job_saved_def db3 by metis
  then have "\<forall>j\<in>set jobs. (jb_id j, jb_generation j) \<notin> set active \<and>
      (\<exists>sub w. fmlookup (db_subscriptions (sv_database sv')) (jb_id j) = Some sub \<and> sb_wake sub = Some w \<and>
         wk_generation w = jb_generation j)" by blast
  moreover have "length active + length jobs \<le> MAX_DELIVERIES" using jobs(1) assms(3) by auto
  moreover have "distinct (map jb_id jobs)" using jobs(3) map_fst_sorted_list by blast
  ultimately show ?thesis by blast
qed (use assms(3) in auto)

theorem deliveries_are_bounded_and_saved_witness:
  "\<exists>j. tick sample_env sample_crypto sample_moment [''a''] None None [] svc2 = (svc3, Inr [j]) \<and>
    0 + length [j] \<le> MAX_DELIVERIES \<and> jb_generation j = 1"
proof -
  obtain j where "tick sample_env sample_crypto sample_moment [''a''] None None [] svc2 = (svc3, Inr [j])"
    using svc3_tick by blast
  with deliveries_are_bounded_and_saved [OF svc_all_reachable(1) this] show ?thesis
    by (auto simp: svc3_def sample_svc_def woken_sub_def sample_wake_def split: if_splits)
qed

section \<open>Tokens\<close>

lemma split_once_append: "c \<notin> set xs \<Longrightarrow> split_once c (xs @ c # ys) = Some (xs, ys)"
  by (induction xs) auto

text \<open>
  A token that the service mints is accepted by its own check under the
  same key and yields the claims it was minted for, given that base64 decodes
  what it encodes and uses no full stop, that a signature made with a key
  verifies under its public key, and that claims survive serialization.
\<close>

theorem minted_tokens_verify:
  assumes minted: "crypto_token C k cl = Inr tok"
    and base64: "\<And>bs. url_decode C (url_encode C bs) = Some bs" "\<And>bs. CHR ''.'' \<notin> set (url_encode C bs)"
    and ed25519: "\<And>p d. ed25519_public C k = Some p \<Longrightarrow> ed25519_verify C p d (ed25519_sign C k d)"
    and serde: "\<And>bs. claims_to_vec C cl = Some bs \<Longrightarrow> claims_from_slice C bs = Some cl"
  shows "crypto_verify C k tok = Inr cl"
proof -
  from minted obtain bs p where bs: "claims_to_vec C cl = Some bs" "ed25519_public C k = Some p"
      "tok = url_encode C bs @ CHR ''.'' # url_encode C (ed25519_sign C k (url_encode C bs))"
    by (auto simp: crypto_token_def crypto_signature_def crypto_key_def Let_def split: option.splits)
  with base64 ed25519 serde show ?thesis
    by (simp add: crypto_verify_def split_once_append crypto_key_def)
qed

theorem minted_tokens_verify_witness:
  "crypto_token sample_crypto ''k'' \<lparr>cl_subscription = ''s'', cl_generation = 1, cl_wake_id = ''w_id''\<rparr> = Inr sample_token \<and>
   crypto_verify sample_crypto ''k'' sample_token = Inr \<lparr>cl_subscription = ''s'', cl_generation = 1, cl_wake_id = ''w_id''\<rparr>"
proof
  show "crypto_token sample_crypto ''k'' \<lparr>cl_subscription = ''s'', cl_generation = 1, cl_wake_id = ''w_id''\<rparr> = Inr sample_token"
    by (rule sample_token_minted)
  have "sample_claims_from_slice (the (sample_claims_to_vec \<lparr>cl_subscription = ''s'', cl_generation = 1, cl_wake_id = ''w_id''\<rparr>))
      = Some \<lparr>cl_subscription = ''s'', cl_generation = 1, cl_wake_id = ''w_id''\<rparr>" by code_simp
  then show "crypto_verify sample_crypto ''k'' sample_token = Inr \<lparr>cl_subscription = ''s'', cl_generation = 1, cl_wake_id = ''w_id''\<rparr>"
    by (intro minted_tokens_verify [OF sample_token_minted])
      (auto simp: sample_crypto_def sample_decode_encode sample_encode_dot)
qed

end
