(* ===== verification/DS_File_Io.thy ===== *)
theory DS_File_Io
  imports DS_Memory
begin

text \<open>
  The filesystem under the file backend. A world is a storage root with its
  directories and a schedule of faults: every call of the operating system is
  numbered, and the schedule says whether it works, fails (a failed write may
  have left a prefix) or is the point where the process dies. What a call has
  changed stays changed when the process dies; \<open>sync\<close> calls change nothing but
  may fail. A call that the code retries on \<open>EINTR\<close> is one call, with the result
  of its last attempt.
\<close>

section \<open>Actions with errors and crashes\<close>

text \<open>An action may raise an error or never return (\<open>None\<close>); its effects stay in either case.\<close>

type_synonym ('s, 'e, 'a) act = "'s \<Rightarrow> 's \<times> ('e + 'a) option"

definition ret :: "'a \<Rightarrow> ('s, 'e, 'a) act" where
  "ret x s = (s, Some (Inr x))"

definition raise :: "'e \<Rightarrow> ('s, 'e, 'a) act" where
  "raise e s = (s, Some (Inl e))"

definition seq :: "('s, 'e, 'a) act \<Rightarrow> ('a \<Rightarrow> ('s, 'e, 'b) act) \<Rightarrow> ('s, 'e, 'b) act" where
  "seq m f s = (case m s of
     (s', Some (Inr x)) \<Rightarrow> f x s'
   | (s', Some (Inl e)) \<Rightarrow> (s', Some (Inl e))
   | (s', None) \<Rightarrow> (s', None))"

definition map_err :: "('e \<Rightarrow> 'd) \<Rightarrow> ('s, 'e, 'a) act \<Rightarrow> ('s, 'd, 'a) act" where
  "map_err f m s = (case m s of (s', r) \<Rightarrow> (s', map_option (map_sum f id) r))"

text \<open>The result as a value: the caller looks at the error itself.\<close>

definition attempt_act :: "('s, 'e, 'a) act \<Rightarrow> ('s, 'd, 'e + 'a) act" where
  "attempt_act m s = (case m s of (s', r) \<Rightarrow> (s', map_option Inr r))"

definition get_state :: "('s, 'e, 's) act" where
  "get_state s = (s, Some (Inr s))"

definition modify_state :: "('s \<Rightarrow> 's) \<Rightarrow> ('s, 'e, unit) act" where
  "modify_state f s = (f s, Some (Inr ()))"

definition of_res :: "'e + 'a \<Rightarrow> ('s, 'e, 'a) act" where
  "of_res r s = (s, Some r)"

section \<open>The world\<close>

record io_error =
  io_kind :: io_error_kind
  io_text :: string
  io_not_found :: bool

datatype fault = Works | Fails io_error "nat option" | Dies "nat option"

type_synonym files = "(string, bytes) fmap"

datatype node = NDir files | NFile bytes | NLink

record world =
  w_root :: "(string, node) fmap"
  w_calls :: nat
  w_faults :: "nat \<Rightarrow> fault"

type_synonym 'a io = "(world, io_error, 'a) act"

text \<open>
  One call: what it does when it works, and what is left behind when it fails
  and when the process dies in it.
\<close>

definition io_call :: "(nat option \<Rightarrow> world \<Rightarrow> world) \<Rightarrow> (nat option \<Rightarrow> world \<Rightarrow> world) \<Rightarrow> (world \<Rightarrow> world \<times> (io_error + 'a)) \<Rightarrow> 'a io" where
  "io_call failing dying perform w =
     (let w1 = w\<lparr>w_calls := Suc (w_calls w)\<rparr> in
      case w_faults w (w_calls w) of
        Works \<Rightarrow> (case perform w1 of (w2, r) \<Rightarrow> (w2, Some r))
      | Fails e p \<Rightarrow> (failing p w1, Some (Inl e))
      | Dies p \<Rightarrow> (dying p w1, None))"

text \<open>A call without intermediate states: it happens or it does not.\<close>

definition io_atomic :: "(world \<Rightarrow> world \<times> (io_error + 'a)) \<Rightarrow> 'a io" where
  "io_atomic perform = io_call (\<lambda>_ w. w) (\<lambda>p w. if p = None then w else fst (perform w)) perform"

text \<open>A call that writes bytes: a prefix may have reached the file.\<close>

definition io_writing :: "(bytes \<Rightarrow> world \<Rightarrow> world \<times> (io_error + 'a)) \<Rightarrow> bytes \<Rightarrow> 'a io" where
  "io_writing put bs =
     (let part = (\<lambda>p w. case p of None \<Rightarrow> w | Some n \<Rightarrow> fst (put (take n bs) w)) in
      io_call part part (put bs))"

definition not_found :: io_error where
  "not_found = \<lparr>io_kind = OtherIo, io_text = ''No such file or directory (os error 2)'', io_not_found = True\<rparr>"

definition dir_files :: "world \<Rightarrow> string \<Rightarrow> files option" where
  "dir_files w d = (case fmlookup (w_root w) d of Some (NDir fs) \<Rightarrow> Some fs | _ \<Rightarrow> None)"

definition file_content :: "world \<Rightarrow> string \<Rightarrow> string \<Rightarrow> bytes option" where
  "file_content w d f = Option.bind (dir_files w d) (\<lambda>fs. fmlookup fs f)"

definition set_dir :: "string \<Rightarrow> files \<Rightarrow> world \<Rightarrow> world" where
  "set_dir d fs w = w\<lparr>w_root := fmupd d (NDir fs) (w_root w)\<rparr>"

definition put_file :: "string \<Rightarrow> string \<Rightarrow> bytes \<Rightarrow> world \<Rightarrow> world \<times> (io_error + unit)" where
  "put_file d f bs w = (case dir_files w d of
     None \<Rightarrow> (w, Inl not_found)
   | Some fs \<Rightarrow> (set_dir d (fmupd f bs fs) w, Inr ()))"

section \<open>Calls\<close>

definition io_read :: "string \<Rightarrow> string \<Rightarrow> bytes io" where
  "io_read d f = io_atomic (\<lambda>w. (w, case file_content w d f of Some bs \<Rightarrow> Inr bs | None \<Rightarrow> Inl not_found))"

text \<open>A call that changes nothing: \<open>sync\<close>, \<open>seek\<close>, \<open>canonicalize\<close>.\<close>

definition io_plain :: "unit io" where
  "io_plain = io_atomic (\<lambda>w. (w, Inr ()))"

text \<open>\<open>fs::write\<close> creates or truncates the file.\<close>

definition io_write :: "string \<Rightarrow> string \<Rightarrow> bytes \<Rightarrow> unit io" where
  "io_write d f bs = io_writing (put_file d f) bs"

text \<open>\<open>write_all\<close> on a handle opened for appending.\<close>

definition io_append :: "string \<Rightarrow> string \<Rightarrow> bytes \<Rightarrow> unit io" where
  "io_append d f bs = io_writing (\<lambda>bs w. case file_content w d f of
     None \<Rightarrow> (w, Inl not_found)
   | Some old \<Rightarrow> put_file d f (old @ bs) w) bs"

definition io_rename :: "string \<Rightarrow> string \<Rightarrow> string \<Rightarrow> unit io" where
  "io_rename d a b = io_atomic (\<lambda>w. case dir_files w d of
     None \<Rightarrow> (w, Inl not_found)
   | Some fs \<Rightarrow> (case fmlookup fs a of
       None \<Rightarrow> (w, Inl not_found)
     | Some bs \<Rightarrow> (set_dir d (fmupd b bs (fmdrop a fs)) w, Inr ())))"

definition io_remove :: "string \<Rightarrow> string \<Rightarrow> unit io" where
  "io_remove d f = io_atomic (\<lambda>w. case dir_files w d of
     None \<Rightarrow> (w, Inl not_found)
   | Some fs \<Rightarrow> if fmlookup fs f = None then (w, Inl not_found) else (set_dir d (fmdrop f fs) w, Inr ()))"

text \<open>\<open>fs::copy\<close> truncates the target and copies; the source is read when it starts.\<close>

definition io_copy :: "string \<Rightarrow> string \<Rightarrow> string \<Rightarrow> unit io" where
  "io_copy d a b w = io_writing (\<lambda>bs w'. if file_content w d a = None then (w', Inl not_found) else put_file d b bs w')
     (case file_content w d a of Some bs \<Rightarrow> bs | None \<Rightarrow> []) w"

definition io_len :: "string \<Rightarrow> string \<Rightarrow> u64 io" where
  "io_len d f = io_atomic (\<lambda>w. (w, case file_content w d f of
     Some bs \<Rightarrow> Inr (u64_of_usize (length bs)) | None \<Rightarrow> Inl not_found))"

text \<open>\<open>read_exact_at\<close>: the bytes of a range, or an error when the file is shorter.\<close>

definition io_read_at :: "string \<Rightarrow> string \<Rightarrow> u64 \<Rightarrow> u64 \<Rightarrow> bytes io" where
  "io_read_at d f pos n = io_atomic (\<lambda>w. (w, case file_content w d f of
     None \<Rightarrow> Inl not_found
   | Some bs \<Rightarrow> if unat pos + unat n \<le> length bs then Inr (take (unat n) (drop (unat pos) bs))
       else Inl \<lparr>io_kind = OtherIo, io_text = ''failed to fill whole buffer'', io_not_found = False\<rparr>))"

text \<open>\<open>File::set_len\<close> cuts, or extends with zeros.\<close>

definition io_set_len :: "string \<Rightarrow> string \<Rightarrow> u64 \<Rightarrow> unit io" where
  "io_set_len d f n = io_atomic (\<lambda>w. case file_content w d f of
     None \<Rightarrow> (w, Inl not_found)
   | Some bs \<Rightarrow> put_file d f (take (unat n) bs @ replicate (unat n - length bs) (CHR 0x00)) w)"

text \<open>Opening for appending creates an empty file when there is none.\<close>

definition io_open_append :: "string \<Rightarrow> string \<Rightarrow> unit io" where
  "io_open_append d f = io_atomic (\<lambda>w. case file_content w d f of
     None \<Rightarrow> put_file d f [] w
   | Some _ \<Rightarrow> (w, Inr ()))"

definition io_create_dir :: "string \<Rightarrow> unit io" where
  "io_create_dir d = io_atomic (\<lambda>w. case fmlookup (w_root w) d of
     None \<Rightarrow> (set_dir d fmempty w, Inr ())
   | Some (NDir _) \<Rightarrow> (w, Inr ())
   | Some _ \<Rightarrow> (w, Inl \<lparr>io_kind = OtherIo, io_text = ''File exists (os error 17)'', io_not_found = False\<rparr>))"

text \<open>\<open>remove_dir_all\<close> removes the files one by one, in an order of the filesystem, then the directory.\<close>

definition io_remove_dir :: "(string \<Rightarrow> string list) \<Rightarrow> string \<Rightarrow> unit io" where
  "io_remove_dir ord d =
     (let part = (\<lambda>p w. case (p, dir_files w d) of
            (Some n, Some fs) \<Rightarrow> set_dir d (fmdrop_set (set (take n (ord d))) fs) w
          | _ \<Rightarrow> w) in
      io_call part part (\<lambda>w. case dir_files w d of
          None \<Rightarrow> (w, Inl not_found)
        | Some _ \<Rightarrow> (w\<lparr>w_root := fmdrop d (w_root w)\<rparr>, Inr ())))"

definition io_stat :: "string \<Rightarrow> node option io" where
  "io_stat d = io_atomic (\<lambda>w. (w, Inr (fmlookup (w_root w) d)))"

text \<open>\<open>Path::exists\<close> answers false when it cannot look.\<close>

definition path_exists :: "string \<Rightarrow> string \<Rightarrow> (world, 'e, bool) act" where
  "path_exists d f = seq (attempt_act (io_atomic (\<lambda>w. (w, Inr (file_content w d f \<noteq> None)))))
     (\<lambda>r. ret (case r of Inr b \<Rightarrow> b | Inl _ \<Rightarrow> False))"

text \<open>\<open>read\<close> into a buffer of \<open>n\<close> bytes: a regular file yields fewer only at its end.\<close>

definition io_read_upto :: "string \<Rightarrow> string \<Rightarrow> u64 \<Rightarrow> nat \<Rightarrow> bytes io" where
  "io_read_upto d f pos n = io_atomic (\<lambda>w. (w, case file_content w d f of
     None \<Rightarrow> Inl not_found
   | Some bs \<Rightarrow> Inr (take n (drop (unat pos) bs))))"

section \<open>Files of the root\<close>

definition root_file :: "world \<Rightarrow> string \<Rightarrow> bytes option" where
  "root_file w f = (case fmlookup (w_root w) f of Some (NFile bs) \<Rightarrow> Some bs | _ \<Rightarrow> None)"

definition set_root :: "string \<Rightarrow> node \<Rightarrow> world \<Rightarrow> world" where
  "set_root f n w = w\<lparr>w_root := fmupd f n (w_root w)\<rparr>"

definition io_root_read :: "string \<Rightarrow> bytes io" where
  "io_root_read f = io_atomic (\<lambda>w. (w, case root_file w f of Some bs \<Rightarrow> Inr bs | None \<Rightarrow> Inl not_found))"

definition io_root_remove :: "string \<Rightarrow> unit io" where
  "io_root_remove f = io_atomic (\<lambda>w. case root_file w f of
     Some _ \<Rightarrow> (w\<lparr>w_root := fmdrop f (w_root w)\<rparr>, Inr ())
   | None \<Rightarrow> (w, Inl not_found))"

text \<open>Opening with \<open>create_new\<close> fails when the name is taken.\<close>

definition io_root_create :: "string \<Rightarrow> unit io" where
  "io_root_create f = io_atomic (\<lambda>w. case fmlookup (w_root w) f of
     None \<Rightarrow> (set_root f (NFile []) w, Inr ())
   | Some _ \<Rightarrow> (w, Inl \<lparr>io_kind = OtherIo, io_text = ''File exists (os error 17)'', io_not_found = False\<rparr>))"

text \<open>\<open>write_all\<close> on the new, empty file.\<close>

definition io_root_write :: "string \<Rightarrow> bytes \<Rightarrow> unit io" where
  "io_root_write f bs = io_writing (\<lambda>bs w. (set_root f (NFile bs) w, Inr ())) bs"

definition io_root_rename :: "string \<Rightarrow> string \<Rightarrow> unit io" where
  "io_root_rename a b = io_atomic (\<lambda>w. case fmlookup (w_root w) a of
     None \<Rightarrow> (w, Inl not_found)
   | Some n \<Rightarrow> (set_root b n (w\<lparr>w_root := fmdrop a (w_root w)\<rparr>), Inr ()))"

end
