(* ===== verification/DS_File.thy ===== *)
theory DS_File
  imports DS_File_Io
begin

text \<open>
  The file backend, \<open>storage/file.rs\<close> and \<open>storage/file/\<close>: an append-only log of
  length-prefixed records and a metadata file per stream, an in-memory index,
  and an undo journal around every append. The serializers of the metadata
  and of the journal and the URL-safe base64 encoding are fields of \<open>file_env\<close>.
\<close>

section \<open>State\<close>

definition RECORD_HEADER_BYTES :: nat where
  "RECORD_HEADER_BYTES = 4"

record message_index =
  mi_offset :: offset
  mi_file_pos :: u64
  mi_byte_len :: u64

record stream_meta =
  sm_name :: string
  sm_config :: stream_config
  sm_closed :: bool
  sm_created_at :: time
  sm_updated_at :: "time option"
  sm_last_seq :: "string option"
  sm_producers :: producers
  sm_fork_info :: "fork_info option"
  sm_ref_count :: u32
  sm_state :: stream_state

record undo =
  un_log_len :: u64
  un_metadata :: bytes
  un_restore_log :: bool

text \<open>The open log file of an entry is the file \<open>data.log\<close> of its directory.\<close>

record file_entry =
  fe_unavailable :: bool
  fe_config :: stream_config
  fe_index :: "message_index list"
  fe_closed :: bool
  fe_next_read_seq :: u64
  fe_next_byte_offset :: u64
  fe_total_bytes :: u64
  fe_created_at :: time
  fe_updated_at :: "time option"
  fe_producers :: producers
  fe_notify :: nat
  fe_last_seq :: "string option"
  fe_file_len :: u64
  fe_dir :: string
  fe_fork_info :: "fork_info option"
  fe_ref_count :: u32
  fe_state :: stream_state

record file_env =
  base64url :: "string \<Rightarrow> string"
  meta_to_vec :: "stream_meta \<Rightarrow> string + bytes"
  meta_from_slice :: "bytes \<Rightarrow> string + stream_meta"
  undo_to_vec :: "undo \<Rightarrow> string + bytes"
  undo_from_slice :: "bytes \<Rightarrow> string + undo"
  dir_order :: "string \<Rightarrow> string list"

text \<open>What a mutation of one stream works on: the global counter, the entry and the disk.\<close>

record ctx =
  cx_total :: u64
  cx_entry :: file_entry
  cx_world :: world

record fstore =
  fs_streams :: "(string, file_entry) fmap"
  fs_total_bytes :: u64
  fs_max_total_bytes :: u64
  fs_max_stream_bytes :: u64
  fs_root_dir :: string
  fs_world :: world

type_synonym 'a disk_act = "(world, error, 'a) act"
type_synonym 'a ctx_act = "(ctx, error, 'a) act"
type_synonym 'a fs_act = "(fstore, error, 'a) act"

definition ctx_disk :: "(world, 'e, 'a) act \<Rightarrow> (ctx, 'e, 'a) act" where
  "ctx_disk m c = (case m (cx_world c) of (w, r) \<Rightarrow> (c\<lparr>cx_world := w\<rparr>, r))"

definition fs_disk :: "(world, 'e, 'a) act \<Rightarrow> (fstore, 'e, 'a) act" where
  "fs_disk m s = (case m (fs_world s) of (w, r) \<Rightarrow> (s\<lparr>fs_world := w\<rparr>, r))"

text \<open>Under the write lock of a stream.\<close>

definition with_entry :: "string \<Rightarrow> file_entry \<Rightarrow> (ctx, 'e, 'a) act \<Rightarrow> (fstore, 'e, 'a) act" where
  "with_entry name e m s = (case m \<lparr>cx_total = fs_total_bytes s, cx_entry = e, cx_world = fs_world s\<rparr> of
     (c, r) \<Rightarrow> (s\<lparr>fs_total_bytes := cx_total c, fs_streams := fmupd name (cx_entry c) (fs_streams s), fs_world := cx_world c\<rparr>, r))"

definition set_entry :: "(file_entry \<Rightarrow> file_entry) \<Rightarrow> (ctx, 'e, unit) act" where
  "set_entry f = modify_state (\<lambda>c. c\<lparr>cx_entry := f (cx_entry c)\<rparr>)"

definition file_next_offset :: "file_entry \<Rightarrow> offset" where
  "file_next_offset e = offset_new (fe_next_read_seq e) (fe_next_byte_offset e)"

definition ensure_available :: "file_entry \<Rightarrow> unit res" where
  "ensure_available e =
     (if fe_unavailable e then Inl (storage_unavailable ''file'' ''access stream''
        ''previous commit or rollback failed; reopen storage to recover'') else Inr ())"

definition file_metadata :: "file_entry \<Rightarrow> stream_metadata" where
  "file_metadata e = build_stream_metadata (fe_config e) (fe_next_read_seq e) (fe_next_byte_offset e)
     (fe_closed e) (fe_total_bytes e) (u64_of_usize (length (fe_index e))) (fe_created_at e) (fe_updated_at e)"

definition file_entry_new :: "stream_config \<Rightarrow> u64 \<Rightarrow> string \<Rightarrow> time \<Rightarrow> file_entry" where
  "file_entry_new c len d now = \<lparr>fe_unavailable = False, fe_config = c, fe_index = [], fe_closed = False,
     fe_next_read_seq = 0, fe_next_byte_offset = 0, fe_total_bytes = 0, fe_created_at = now, fe_updated_at = None,
     fe_producers = Map.empty, fe_notify = 0, fe_last_seq = None, fe_file_len = len, fe_dir = d,
     fe_fork_info = None, fe_ref_count = 0, fe_state = Active\<rparr>"

section \<open>Directories and metadata\<close>

definition dir_char :: "char \<Rightarrow> bool" where
  "dir_char c \<longleftrightarrow> is_ascii_digit c \<or> is_ascii_uppercase c \<or> of_char c \<in> {97..122 :: nat} \<or> c = CHR ''-'' \<or> c = CHR ''_''"

definition is_valid_stream_dir_component :: "string \<Rightarrow> bool" where
  "is_valid_stream_dir_component d \<longleftrightarrow> d \<noteq> [] \<and> list_all dir_char d"

definition stream_dir_component :: "file_env \<Rightarrow> string \<Rightarrow> string res" where
  "stream_dir_component F name =
     (let encoded = base64url F name in
      if \<not> is_valid_stream_dir_component encoded then
        Inl (Storage ''encoded stream directory contains invalid characters'')
      else Inr encoded)"

definition dir_display :: "string \<Rightarrow> string \<Rightarrow> string" where
  "dir_display root d = root @ ''/'' @ d"

text \<open>A directory of the model is a direct child of the root, and canonical unless it is a link.\<close>

definition validate_stream_dir :: "string \<Rightarrow> string \<Rightarrow> unit disk_act" where
  "validate_stream_dir root d =
     (if \<not> is_valid_stream_dir_component d then
        raise (Storage (''stream directory contains invalid characters: '' @ dir_display root d))
      else seq (attempt_act (io_stat d)) (\<lambda>r. case r of
           Inl e \<Rightarrow> if io_not_found e then ret ()
             else raise (Storage (''failed to stat stream directory '' @ dir_display root d @ '': '' @ io_text e))
         | Inr None \<Rightarrow> ret ()
         | Inr (Some NLink) \<Rightarrow> raise (Storage (''stream directory cannot be a symlink: '' @ dir_display root d))
         | Inr (Some (NFile _)) \<Rightarrow> raise (Storage (''stream path is not a directory: '' @ dir_display root d))
         | Inr (Some (NDir _)) \<Rightarrow>
             map_err (\<lambda>e. Storage (''failed to canonicalize stream directory '' @ dir_display root d @ '': '' @ io_text e)) io_plain))"

definition io_fail :: "string \<Rightarrow> string \<Rightarrow> io_error \<Rightarrow> error" where
  "io_fail operation what e = classify_io_failure ''file'' operation (what @ '': '' @ io_text e) (io_kind e)"

definition meta_of :: "string \<Rightarrow> file_entry \<Rightarrow> stream_meta" where
  "meta_of name e = \<lparr>sm_name = name, sm_config = fe_config e, sm_closed = fe_closed e, sm_created_at = fe_created_at e,
     sm_updated_at = fe_updated_at e, sm_last_seq = fe_last_seq e, sm_producers = fe_producers e,
     sm_fork_info = fe_fork_info e, sm_ref_count = fe_ref_count e, sm_state = fe_state e\<rparr>"

definition write_metadata_for :: "file_env \<Rightarrow> string \<Rightarrow> string \<Rightarrow> file_entry \<Rightarrow> unit disk_act" where
  "write_metadata_for F root name e =
     seq (validate_stream_dir root (fe_dir e)) (\<lambda>_.
     case meta_to_vec F (meta_of name e) of
       Inl t \<Rightarrow> raise (Storage (''failed to serialize stream metadata: '' @ t))
     | Inr payload \<Rightarrow>
     seq (map_err (io_fail ''write stream metadata temp file''
            (''failed to write metadata temp file '' @ dir_display root (fe_dir e) @ ''/meta.json.tmp''))
          (io_write (fe_dir e) ''meta.json.tmp'' payload)) (\<lambda>_.
     map_err (io_fail ''replace stream metadata''
            (''failed to atomically replace metadata '' @ dir_display root (fe_dir e) @ ''/meta.json''))
          (io_rename (fe_dir e) ''meta.json.tmp'' ''meta.json'')))"

definition open_stream_file :: "string \<Rightarrow> string \<Rightarrow> unit disk_act" where
  "open_stream_file root d =
     seq (validate_stream_dir root d) (\<lambda>_.
     map_err (io_fail ''open stream log'' (''failed to open stream log '' @ dir_display root d @ ''/data.log''))
       (io_open_append d ''data.log''))"

definition remove_stream_dir :: "file_env \<Rightarrow> string \<Rightarrow> string \<Rightarrow> unit disk_act" where
  "remove_stream_dir F root d =
     seq (validate_stream_dir root d) (\<lambda>_.
     map_err (io_fail ''remove stream directory'' (''failed to remove stream directory '' @ dir_display root d))
       (io_remove_dir (dir_order F) d))"

section \<open>Records\<close>

text \<open>\<open>u32::to_le_bytes\<close> and \<open>u32::from_le_bytes\<close>.\<close>

definition le32 :: "nat \<Rightarrow> bytes" where
  "le32 n = [char_of (n mod 256), char_of (n div 256 mod 256), char_of (n div 65536 mod 256), char_of (n div 16777216 mod 256)]"

definition from_le32 :: "bytes \<Rightarrow> nat" where
  "from_le32 bs = of_char (bs ! 0) + 256 * of_char (bs ! 1) + 65536 * of_char (bs ! 2) + 16777216 * of_char (bs ! 3)"

definition encode_record :: "bytes \<Rightarrow> bytes" where
  "encode_record m = le32 (min (length m) (2 ^ 32 - 1)) @ m"

definition encode_records :: "bytes list \<Rightarrow> bytes" where
  "encode_records msgs = concat (map encode_record msgs)"

text \<open>The index entries of a batch, from a position of the log on.\<close>

fun push_index :: "u64 \<Rightarrow> u64 list \<Rightarrow> file_entry \<Rightarrow> file_entry" where
  "push_index cursor [] e = e\<lparr>fe_file_len := cursor\<rparr>"
| "push_index cursor (len # lens) e =
     push_index (cursor + (of_nat RECORD_HEADER_BYTES + len)) lens
       (e\<lparr>fe_index := fe_index e @ [\<lparr>mi_offset = file_next_offset e,
            mi_file_pos = cursor + of_nat RECORD_HEADER_BYTES, mi_byte_len = len\<rparr>],
          fe_next_read_seq := fe_next_read_seq e + 1,
          fe_next_byte_offset := fe_next_byte_offset e + len,
          fe_total_bytes := fe_total_bytes e + len\<rparr>)"

definition release_ctx :: "u64 \<Rightarrow> (ctx, 'e, unit) act" where
  "release_ctx n = modify_state (\<lambda>c. c\<lparr>cx_total := release_bytes (cx_total c) n\<rparr>)"

text \<open>The write itself and, when it worked, the index entries; when it failed, the batch is given back.\<close>

definition write_records :: "string \<Rightarrow> string \<Rightarrow> bytes list \<Rightarrow> unit ctx_act" where
  "write_records d name msgs =
     seq (attempt_act (ctx_disk (io_append d ''data.log'' (encode_records msgs)))) (\<lambda>r. case r of
       Inl er \<Rightarrow>
         seq (attempt_act (ctx_disk (io_len d ''data.log''))) (\<lambda>l.
         seq (set_entry (\<lambda>e. case l of Inr n \<Rightarrow> e\<lparr>fe_file_len := n\<rparr> | Inl _ \<Rightarrow> e)) (\<lambda>_.
         seq (release_ctx (payload_bytes msgs)) (\<lambda>_.
         raise (Storage (''failed to append stream log for '' @ name @ '': '' @ io_text er)))))
     | Inr _ \<Rightarrow>
         set_entry (\<lambda>e. let e' = push_index (fe_file_len e) (map (\<lambda>m. u64_of_usize (length m)) msgs) e in
           e'\<lparr>fe_notify := Suc (fe_notify e')\<rparr>))"

definition append_records :: "u64 \<Rightarrow> u64 \<Rightarrow> string \<Rightarrow> bytes list \<Rightarrow> unit ctx_act" where
  "append_records max_total max_stream name msgs c =
     (let e = cx_entry c; batch = payload_bytes msgs in
      if msgs = [] then ret () c
      else if \<exists>m\<in>set msgs. length m > 2 ^ 32 - 1 then
        raise (InvalidHeader ''Content-Length'' ''message too large for file record format'') c
      else (case reserve_bytes (cx_total c) max_total batch of
          Inl er \<Rightarrow> raise er c
        | Inr t \<Rightarrow>
          let c1 = c\<lparr>cx_total := t\<rparr> in
          if fe_total_bytes e + batch > max_stream then
            seq (release_ctx batch) (\<lambda>_. raise StreamSizeLimitExceeded) c1
          else write_records (fe_dir e) name msgs c1))"

definition append_initial_records :: "u64 \<Rightarrow> u64 \<Rightarrow> string \<Rightarrow> bytes list \<Rightarrow> unit ctx_act" where
  "append_initial_records max_total max_stream name msgs =
     seq (append_records max_total max_stream name msgs) (\<lambda>_.
     if msgs = [] then ret ()
     else seq (attempt_act (ctx_disk io_plain)) (\<lambda>r. case r of
         Inr _ \<Rightarrow> ret ()
       | Inl er \<Rightarrow> (\<lambda>c. seq (release_ctx (fe_total_bytes (cx_entry c))) (\<lambda>_.
           raise (io_fail ''sync initial stream log'' (''failed to sync initial stream log for '' @ name) er)) c)))"

section \<open>The undo journal\<close>

definition txn_error :: "io_error \<Rightarrow> error" where
  "txn_error e = classify_io_failure ''file'' ''append transaction'' (io_text e) (io_kind e)"

abbreviation txn_io :: "'a io \<Rightarrow> 'a disk_act" where
  "txn_io \<equiv> map_err txn_error"

text \<open>The log is cut back to the length of the journal.\<close>

definition cut_log :: "string \<Rightarrow> string \<Rightarrow> u64 \<Rightarrow> unit disk_act" where
  "cut_log root d n =
     seq (open_stream_file root d) (\<lambda>_.
     seq (txn_io (io_len d ''data.log'')) (\<lambda>len.
     if len < n then raise (Storage ''undo journal refers beyond the stream log'')
     else seq (txn_io (io_set_len d ''data.log'' n)) (\<lambda>_. txn_io io_plain)))"

text \<open>The metadata of the journal replaces the current one, and the journal goes.\<close>

definition restore_metadata :: "string \<Rightarrow> bytes \<Rightarrow> unit disk_act" where
  "restore_metadata d m =
     seq (txn_io (io_write d ''meta.restore.tmp'' m)) (\<lambda>_.
     seq (txn_io io_plain) (\<lambda>_.
     seq (txn_io (io_rename d ''meta.restore.tmp'' ''meta.json'')) (\<lambda>_.
     seq (txn_io io_plain) (\<lambda>_.
     seq (txn_io (io_remove d ''append.undo'')) (\<lambda>_.
     txn_io io_plain)))))"

definition recover_append :: "file_env \<Rightarrow> string \<Rightarrow> string \<Rightarrow> unit disk_act" where
  "recover_append F root d =
     seq (validate_stream_dir root d) (\<lambda>_.
     seq (attempt_act (io_read d ''append.undo'')) (\<lambda>r. case r of
       Inl e \<Rightarrow> if io_not_found e then ret () else raise (txn_error e)
     | Inr bs \<Rightarrow> (case undo_from_slice F bs of
         Inl t \<Rightarrow> raise (Storage t)
       | Inr u \<Rightarrow> (case meta_from_slice F (un_metadata u) of
           Inl t \<Rightarrow> raise (Storage t)
         | Inr _ \<Rightarrow>
           seq (if un_restore_log u then txn_io (io_copy d ''replace.backup'' ''data.log'') else ret ()) (\<lambda>_.
           seq (cut_log root d (un_log_len u)) (\<lambda>_.
           restore_metadata d (un_metadata u)))))))"

text \<open>Writing the journal: after the rename it is in force.\<close>

definition write_journal :: "file_env \<Rightarrow> string \<Rightarrow> undo \<Rightarrow> unit disk_act" where
  "write_journal F d u =
     seq (if un_restore_log u then
            seq (txn_io (io_copy d ''data.log'' ''replace.backup'')) (\<lambda>_. txn_io io_plain)
          else ret ()) (\<lambda>_.
     (case undo_to_vec F u of
        Inl t \<Rightarrow> raise (Storage t)
      | Inr bs \<Rightarrow>
        seq (txn_io (io_write d ''append.undo.tmp'' bs)) (\<lambda>_.
        seq (txn_io io_plain) (\<lambda>_.
        seq (txn_io (io_rename d ''append.undo.tmp'' ''append.undo'')) (\<lambda>_.
        txn_io io_plain)))))"

text \<open>The commit: both files are synced, then the journal is removed.\<close>

definition commit_journal :: "string \<Rightarrow> unit disk_act" where
  "commit_journal d =
     seq (txn_io io_plain) (\<lambda>_.
     seq (txn_io io_plain) (\<lambda>_.
     seq (txn_io io_plain) (\<lambda>_.
     seq (txn_io (io_remove d ''append.undo'')) (\<lambda>_.
     txn_io io_plain))))"

text \<open>The entry after a successful rollback on disk.\<close>

definition rolled_back :: "file_entry \<Rightarrow> undo \<Rightarrow> stream_meta \<Rightarrow> file_entry \<Rightarrow> file_entry" where
  "rolled_back old u m e = e\<lparr>fe_config := sm_config m, fe_closed := sm_closed m, fe_updated_at := sm_updated_at m,
     fe_last_seq := sm_last_seq m, fe_producers := sm_producers m,
     fe_index := (if un_restore_log u then fe_index old else take (length (fe_index old)) (fe_index e)),
     fe_total_bytes := fe_total_bytes old, fe_next_read_seq := fe_next_read_seq old,
     fe_next_byte_offset := fe_next_byte_offset old, fe_file_len := un_log_len u\<rparr>"

definition set_unavailable :: "(ctx, 'e, unit) act" where
  "set_unavailable = set_entry (\<lambda>e. e\<lparr>fe_unavailable := True\<rparr>)"

text \<open>What happens when the operation or its commit fails with \<open>er\<close>.\<close>

definition rollback :: "file_env \<Rightarrow> string \<Rightarrow> file_entry \<Rightarrow> undo \<Rightarrow> error \<Rightarrow> 'a ctx_act" where
  "rollback F root old u er =
     seq (ctx_disk (path_exists (fe_dir old) ''append.undo'')) (\<lambda>there.
     if \<not> there then seq set_unavailable (\<lambda>_. raise er)
     else
        seq (attempt_act (ctx_disk (recover_append F root (fe_dir old)))) (\<lambda>r. case r of
          Inl rec \<Rightarrow> seq set_unavailable (\<lambda>_. raise (storage_unavailable ''file'' ''rollback append''
            (error_display er @ ''; rollback failed: '' @ error_display rec)))
        | Inr _ \<Rightarrow> (case meta_from_slice F (un_metadata u) of
            Inl t \<Rightarrow> raise (Storage t)
          | Inr m \<Rightarrow> (\<lambda>c.
            let tot = fe_total_bytes (cx_entry c) in
            seq (release_ctx (if un_restore_log u then tot else saturating_sub tot (fe_total_bytes old))) (\<lambda>_.
            seq (set_entry (rolled_back old u m)) (\<lambda>_.
            raise er)) c))))"

definition append_transaction :: "file_env \<Rightarrow> string \<Rightarrow> bool \<Rightarrow> 'a ctx_act \<Rightarrow> 'a ctx_act" where
  "append_transaction F root restore_log operation = (\<lambda>c.
     let old = cx_entry c; d = fe_dir old in
     seq (ctx_disk (validate_stream_dir root d)) (\<lambda>_.
     if fe_unavailable old then
       raise (storage_unavailable ''file'' ''append'' ''previous rollback failed; reopen storage to recover'')
     else
     seq (ctx_disk (txn_io (io_read d ''meta.json''))) (\<lambda>m.
     let u = \<lparr>un_log_len = fe_file_len old, un_metadata = m, un_restore_log = restore_log\<rparr> in
     seq (ctx_disk (write_journal F d u)) (\<lambda>_.
     seq (attempt_act (seq operation (\<lambda>x. seq (ctx_disk (commit_journal d)) (\<lambda>_. ret x)))) (\<lambda>r. case r of
       Inl er \<Rightarrow> rollback F root old u er
     | Inr x \<Rightarrow>
         seq (if restore_log then seq (attempt_act (ctx_disk (io_remove d ''replace.backup''))) (\<lambda>_. ret ()) else ret ())
           (\<lambda>_. ret x))))) c)"

end
