(* ===== verification/DS_File_Logic.thy ===== *)
theory DS_File_Logic
  imports DS_File
begin

text \<open>
  A small program logic for actions with errors and crashes. A specification
  has three postconditions: for the value, for the error, and for the disk a
  crash leaves behind. The calls of the operating system get their rules
  once; they hold under every schedule of faults.
\<close>

section \<open>Specifications\<close>

fun outcome :: "('a \<Rightarrow> 's \<Rightarrow> bool) \<Rightarrow> ('e \<Rightarrow> 's \<Rightarrow> bool) \<Rightarrow> ('s \<Rightarrow> bool) \<Rightarrow> 's \<times> ('e + 'a) option \<Rightarrow> bool" where
  "outcome Q X D (s, Some (Inr x)) = Q x s"
| "outcome Q X D (s, Some (Inl e)) = X e s"
| "outcome Q X D (s, None) = D s"

definition spec :: "('s \<Rightarrow> bool) \<Rightarrow> ('s, 'e, 'a) act \<Rightarrow> ('a \<Rightarrow> 's \<Rightarrow> bool) \<Rightarrow> ('e \<Rightarrow> 's \<Rightarrow> bool) \<Rightarrow> ('s \<Rightarrow> bool) \<Rightarrow> bool" where
  "spec P m Q X D \<longleftrightarrow> (\<forall>s. P s \<longrightarrow> outcome Q X D (m s))"

lemma act_cases [case_names result failure crash]:
  obtains s' x where "(r :: 's \<times> ('e + 'a) option) = (s', Some (Inr x))" | s' e where "r = (s', Some (Inl e))" | s' where "r = (s', None)"
  by (cases r) (metis option.exhaust sum.exhaust)

lemma specD: "spec P m Q X D \<Longrightarrow> P s \<Longrightarrow> outcome Q X D (m s)"
  by (simp add: spec_def)

lemma spec_weaken:
  assumes "spec P m Q X D" "\<And>s. P' s \<Longrightarrow> P s" "\<And>x s. Q x s \<Longrightarrow> Q' x s" "\<And>e s. X e s \<Longrightarrow> X' e s" "\<And>s. D s \<Longrightarrow> D' s"
  shows "spec P' m Q' X' D'"
proof -
  have "outcome Q' X' D' (m s)" if "P' s" for s
    using specD [OF assms(1) assms(2) [OF that]] assms(3-5) by (cases "m s" rule: act_cases) simp_all
  then show ?thesis by (simp add: spec_def)
qed

lemma spec_ret: "(\<And>s. P s \<Longrightarrow> Q x s) \<Longrightarrow> spec P (ret x) Q X D"
  by (simp add: spec_def ret_def)

lemma spec_raise: "(\<And>s. P s \<Longrightarrow> X e s) \<Longrightarrow> spec P (raise e) Q X D"
  by (simp add: spec_def raise_def)

lemma spec_of_res:
  "(\<And>x s. r = Inr x \<Longrightarrow> P s \<Longrightarrow> Q x s) \<Longrightarrow> (\<And>e s. r = Inl e \<Longrightarrow> P s \<Longrightarrow> X e s) \<Longrightarrow> spec P (of_res r) Q X D"
  by (cases r) (auto simp: spec_def of_res_def)

lemma spec_modify: "(\<And>s. P s \<Longrightarrow> Q () (f s)) \<Longrightarrow> spec P (modify_state f) Q X D"
  by (simp add: spec_def modify_state_def)

lemma spec_seq:
  assumes "spec P m R X D" "\<And>x. spec (R x) (f x) Q X D"
  shows "spec P (seq m f) Q X D"
proof -
  have "outcome Q X D (seq m f s)" if "P s" for s
    using specD [OF assms(1) that] specD [OF assms(2)] by (cases "m s" rule: act_cases) (simp_all add: seq_def)
  then show ?thesis by (simp add: spec_def)
qed

lemma spec_map_err: 
  assumes "spec P m Q (\<lambda>e. X (f e)) D"
  shows "spec P (map_err f m) Q X D"
proof -
  have "outcome Q X D (map_err f m s)" if "P s" for s
    using specD [OF assms that] by (cases "m s" rule: act_cases) (simp_all add: map_err_def)
  then show ?thesis by (simp add: spec_def)
qed

lemma spec_attempt:
  assumes "spec P m (\<lambda>x. Q (Inr x)) (\<lambda>e. Q (Inl e)) D"
  shows "spec P (attempt_act m) Q X D"
proof -
  have "outcome Q X D (attempt_act m s)" if "P s" for s
    using specD [OF assms that] by (cases "m s" rule: act_cases) (simp_all add: attempt_act_def)
  then show ?thesis by (simp add: spec_def)
qed

lemma spec_if: "(b \<Longrightarrow> spec P m Q X D) \<Longrightarrow> (\<not> b \<Longrightarrow> spec P n Q X D) \<Longrightarrow> spec P (if b then m else n) Q X D"
  by simp

lemma spec_pre: "(\<And>s. P s \<Longrightarrow> spec (\<lambda>t. t = s) m Q X D) \<Longrightarrow> spec P m Q X D"
  by (simp add: spec_def)

lemma spec_fun: "(\<And>s. P s \<Longrightarrow> spec (\<lambda>t. t = s) (m s) Q X D) \<Longrightarrow> spec P (\<lambda>s. m s s) Q X D"
  by (simp add: spec_def)

section \<open>Directories\<close>

text \<open>
  The files of a directory under a fixed schedule, and the same after a fault:
  without faults in the schedule there is no such state.
\<close>

definition has :: "(nat \<Rightarrow> fault) \<Rightarrow> string \<Rightarrow> (files \<Rightarrow> bool) \<Rightarrow> world \<Rightarrow> bool" where
  "has \<phi> d P w \<longleftrightarrow> w_faults w = \<phi> \<and> (\<exists>fs. dir_files w d = Some fs \<and> P fs)"

definition broken :: "(nat \<Rightarrow> fault) \<Rightarrow> string \<Rightarrow> (files \<Rightarrow> bool) \<Rightarrow> world \<Rightarrow> bool" where
  "broken \<phi> d P w \<longleftrightarrow> (\<exists>k. \<phi> k \<noteq> Works) \<and> has \<phi> d P w"

lemma dir_files_calls [simp]: "dir_files (w\<lparr>w_calls := k\<rparr>) d = dir_files w d"
  by (simp add: dir_files_def)

lemma dir_files_set_dir [simp]: "dir_files (set_dir d fs w) d' = (if d = d' then Some fs else dir_files w d')"
  by (simp add: dir_files_def set_dir_def)

lemma set_dir_faults [simp]: "w_faults (set_dir d fs w) = w_faults w"
  by (simp add: set_dir_def)

lemma has_mono: "has \<phi> d P w \<Longrightarrow> (\<And>fs. P fs \<Longrightarrow> Q fs) \<Longrightarrow> has \<phi> d Q w"
  by (auto simp: has_def)

lemma broken_mono: "broken \<phi> d P w \<Longrightarrow> (\<And>fs. P fs \<Longrightarrow> Q fs) \<Longrightarrow> broken \<phi> d Q w"
  by (auto simp: broken_def has_def)

lemma spec_io_call:
  assumes "\<And>w w' x. P w \<Longrightarrow> perform (w\<lparr>w_calls := Suc (w_calls w)\<rparr>) = (w', Inr x) \<Longrightarrow> Q x w'"
    "\<And>w w' e. P w \<Longrightarrow> perform (w\<lparr>w_calls := Suc (w_calls w)\<rparr>) = (w', Inl e) \<Longrightarrow> X e w'"
    "\<And>w e p. P w \<Longrightarrow> w_faults w (w_calls w) = Fails e p \<Longrightarrow> X e (failing p (w\<lparr>w_calls := Suc (w_calls w)\<rparr>))"
    "\<And>w p. P w \<Longrightarrow> w_faults w (w_calls w) = Dies p \<Longrightarrow> D (dying p (w\<lparr>w_calls := Suc (w_calls w)\<rparr>))"
  shows "spec P (io_call failing dying perform) Q X D"
proof -
  have "outcome Q X D (io_call failing dying perform w)" if "P w" for w
  proof (cases "w_faults w (w_calls w)")
    case Works
    obtain w' r where "perform (w\<lparr>w_calls := Suc (w_calls w)\<rparr>) = (w', r)" by fastforce
    with Works assms(1,2) [OF that] show ?thesis by (cases r) (simp_all add: io_call_def)
  qed (use assms(3,4) [OF that] in \<open>simp_all add: io_call_def Let_def\<close>)
  then show ?thesis by (simp add: spec_def)
qed

lemma has_calls [simp]: "has \<phi> d P (w\<lparr>w_calls := k\<rparr>) = has \<phi> d P w"
  by (simp add: has_def)

text \<open>A call on a directory: what it does, what a failure leaves, what a crash leaves.\<close>

lemma spec_dir_call:
  assumes "\<And>w w' x. has \<phi> d P w \<Longrightarrow> perform w = (w', Inr x) \<Longrightarrow> Q x w'"
    "\<And>w w' e. has \<phi> d P w \<Longrightarrow> perform w = (w', Inl e) \<Longrightarrow> X e w'"
    "\<And>w p. has \<phi> d P w \<Longrightarrow> has \<phi> d R (failing p w)" "\<And>k e p w. \<phi> k = Fails e p \<Longrightarrow> broken \<phi> d R w \<Longrightarrow> X e w"
    "\<And>w p. has \<phi> d P w \<Longrightarrow> has \<phi> d D (dying p w)"
  shows "spec (has \<phi> d P) (io_call failing dying perform) Q X (broken \<phi> d D)"
proof (rule spec_io_call)
  fix w assume w: "has \<phi> d P w"
  let ?w = "w\<lparr>w_calls := Suc (w_calls w)\<rparr>"
  have w1: "has \<phi> d P ?w" "w_faults w = \<phi>" using w by (simp_all add: has_def)
  show "perform ?w = (w', Inr x) \<Longrightarrow> Q x w'" "perform ?w = (w', Inl e) \<Longrightarrow> X e w'" for w' x e
    using assms(1,2) [OF w1(1)] by blast+
  have bad: "broken \<phi> d T w'" if "has \<phi> d T w'" "w_faults w (w_calls w) \<noteq> Works" for T w'
    using that w1(2) by (auto simp: broken_def)
  show "X e (failing p ?w)" if "w_faults w (w_calls w) = Fails e p" for e p
    using that w1(2) by (intro assms(4) bad [OF assms(3) [OF w1(1)]]) auto
  show "broken \<phi> d D (dying p ?w)" if "w_faults w (w_calls w) = Dies p" for p
    by (rule bad [OF assms(5) [OF w1(1)]]) (simp add: that)
qed

lemma hasE: "has \<phi> d P w \<Longrightarrow> (\<And>fs. w_faults w = \<phi> \<Longrightarrow> dir_files w d = Some fs \<Longrightarrow> P fs \<Longrightarrow> thesis) \<Longrightarrow> thesis"
  by (auto simp: has_def)

lemma hasI: "w_faults w = \<phi> \<Longrightarrow> dir_files w d = Some fs \<Longrightarrow> P fs \<Longrightarrow> has \<phi> d P w"
  by (auto simp: has_def)

lemma has_set_dir [simp]: "has \<phi> d P (set_dir d fs w) \<longleftrightarrow> w_faults w = \<phi> \<and> P fs"
  by (simp add: has_def)

lemma spec_io_plain:
  "(\<And>fs. P fs \<Longrightarrow> D fs) \<Longrightarrow> spec (has \<phi> d P) io_plain (\<lambda>_. has \<phi> d P) (\<lambda>_. broken \<phi> d P) (broken \<phi> d D)"
  unfolding io_plain_def io_atomic_def by (rule spec_dir_call [where R = P]) (auto intro: has_mono)

lemma spec_io_stat:
  assumes "\<And>fs. P fs \<Longrightarrow> D fs"
  shows "spec (has \<phi> d P) (io_stat d) (\<lambda>n w. (\<exists>fs. n = Some (NDir fs)) \<and> has \<phi> d P w) (\<lambda>_. broken \<phi> d P) (broken \<phi> d D)"
  unfolding io_stat_def io_atomic_def
  by (rule spec_dir_call [where R = P])
    (use assms in \<open>auto simp: dir_files_def elim!: hasE intro: hasI split: option.splits node.splits\<close>)

lemma spec_io_read:
  assumes "\<And>fs. P fs \<Longrightarrow> D fs"
  shows "spec (has \<phi> d P) (io_read d f) (\<lambda>bs. has \<phi> d (\<lambda>fs. P fs \<and> fmlookup fs f = Some bs))
    (\<lambda>e w. (\<exists>k p. \<phi> k = Fails e p) \<and> broken \<phi> d P w \<or> e = not_found \<and> has \<phi> d (\<lambda>fs. P fs \<and> fmlookup fs f = None) w) (broken \<phi> d D)"
  unfolding io_read_def io_atomic_def
  by (rule spec_dir_call [where R = P])
    (use assms in \<open>auto simp: file_content_def elim!: hasE intro: hasI split: option.splits\<close>)

lemma spec_io_len:
  assumes "\<And>fs. P fs \<Longrightarrow> D fs" "\<And>fs. P fs \<Longrightarrow> fmlookup fs f \<noteq> None"
  shows "spec (has \<phi> d P) (io_len d f)
    (\<lambda>n. has \<phi> d (\<lambda>fs. P fs \<and> (\<exists>bs. fmlookup fs f = Some bs \<and> n = u64_of_usize (length bs)))) (\<lambda>_. broken \<phi> d P) (broken \<phi> d D)"
  unfolding io_len_def io_atomic_def
  by (rule spec_dir_call [where R = P])
    (use assms in \<open>fastforce simp: file_content_def elim!: hasE intro: hasI split: option.splits\<close>)+

text \<open>A schedule in which no fault claims that an existing file is missing.\<close>

definition honest :: "(nat \<Rightarrow> fault) \<Rightarrow> bool" where
  "honest \<phi> \<longleftrightarrow> (\<forall>k e p. \<phi> k = Fails e p \<longrightarrow> \<not> io_not_found e)"

text \<open>A writing call replaces the file by \<open>g\<close> of the bytes that arrived.\<close>

lemma spec_io_writing:
  assumes put: "\<And>w fs bs. w_faults w = \<phi> \<Longrightarrow> dir_files w d = Some fs \<Longrightarrow> P fs \<Longrightarrow>
      put bs w = (set_dir d (fmupd f (g fs bs) fs) w, Inr ())"
    and "\<And>fs. P fs \<Longrightarrow> Q (fmupd f (g fs bs) fs)" "\<And>fs. P fs \<Longrightarrow> D fs" "\<And>fs n. P fs \<Longrightarrow> D (fmupd f (g fs (take n bs)) fs)"
  shows "spec (has \<phi> d P) (io_writing put bs) (\<lambda>_. has \<phi> d Q) (\<lambda>_. broken \<phi> d D) (broken \<phi> d D)"
proof -
  have part: "has \<phi> d D (case p of None \<Rightarrow> w | Some n \<Rightarrow> fst (put (take n bs) w))" if "has \<phi> d P w" for p w
    using that assms(3,4) by (cases p) (auto simp: put elim!: hasE intro: hasI)
  have ok: "\<exists>fs. put bs w = (set_dir d (fmupd f (g fs bs) fs) w, Inr ()) \<and> P fs \<and> w_faults w = \<phi>" if "has \<phi> d P w" for w
    using that put by (auto elim!: hasE)
  show ?thesis
    unfolding io_writing_def Let_def
  proof (rule spec_dir_call [where R = D])
    show "has \<phi> d Q w'" if "has \<phi> d P w" "put bs w = (w', Inr x)" for w w' x
      using ok [OF that(1)] that(2) assms(2) by (auto intro: hasI)
    show "broken \<phi> d D w'" if "has \<phi> d P w" "put bs w = (w', Inl e)" for w w' e
      using ok [OF that(1)] that(2) by auto
  qed (use part in auto)
qed

lemma spec_io_write:
  assumes "\<And>fs. P fs \<Longrightarrow> Q (fmupd f bs fs)" "\<And>fs. P fs \<Longrightarrow> D fs" "\<And>fs n. P fs \<Longrightarrow> D (fmupd f (take n bs) fs)"
  shows "spec (has \<phi> d P) (io_write d f bs) (\<lambda>_. has \<phi> d Q) (\<lambda>_. broken \<phi> d D) (broken \<phi> d D)"
  unfolding io_write_def
  by (rule spec_io_writing [where g = "\<lambda>_ bs. bs"]) (use assms in \<open>simp_all add: put_file_def\<close>)

lemma spec_io_append:
  assumes "\<And>fs. P fs \<Longrightarrow> \<exists>old. fmlookup fs f = Some old" "\<And>fs. P fs \<Longrightarrow> Q (fmupd f (the (fmlookup fs f) @ bs) fs)"
    "\<And>fs. P fs \<Longrightarrow> D fs" "\<And>fs n. P fs \<Longrightarrow> D (fmupd f (the (fmlookup fs f) @ take n bs) fs)"
  shows "spec (has \<phi> d P) (io_append d f bs) (\<lambda>_. has \<phi> d Q) (\<lambda>_. broken \<phi> d D) (broken \<phi> d D)"
  unfolding io_append_def
  by (rule spec_io_writing [where g = "\<lambda>fs bs. the (fmlookup fs f) @ bs"])
    (use assms in \<open>force simp: put_file_def file_content_def\<close>)+

lemma spec_io_copy:
  assumes "\<And>fs. P fs \<Longrightarrow> fmlookup fs a = Some bs" "\<And>fs. P fs \<Longrightarrow> Q (fmupd b bs fs)"
    "\<And>fs. P fs \<Longrightarrow> D fs" "\<And>fs n. P fs \<Longrightarrow> D (fmupd b (take n bs) fs)"
  shows "spec (has \<phi> d P) (io_copy d a b) (\<lambda>_. has \<phi> d Q) (\<lambda>_. broken \<phi> d D) (broken \<phi> d D)"
proof -
  have "io_copy d a b w = io_write d b bs w" if "has \<phi> d P w" for w
  proof -
    have "file_content w d a = Some bs" using that assms(1) by (auto simp: file_content_def elim!: hasE)
    then show ?thesis by (simp add: io_copy_def io_write_def)
  qed
  with spec_io_write [of P Q b bs D \<phi> d] assms(2-4) show ?thesis by (simp add: spec_def)
qed

lemma spec_io_rename:
  assumes "\<And>fs. P fs \<Longrightarrow> fmlookup fs a = Some bs" "\<And>fs. P fs \<Longrightarrow> Q (fmupd b bs (fmdrop a fs))"
    "\<And>fs. P fs \<Longrightarrow> D fs" "\<And>fs. P fs \<Longrightarrow> D (fmupd b bs (fmdrop a fs))"
  shows "spec (has \<phi> d P) (io_rename d a b) (\<lambda>_. has \<phi> d Q) (\<lambda>_. broken \<phi> d P) (broken \<phi> d D)"
  unfolding io_rename_def io_atomic_def
  by (rule spec_dir_call [where R = P]) (use assms in \<open>auto elim!: hasE intro: hasI\<close>)

lemma spec_io_remove:
  assumes "\<And>fs. P fs \<Longrightarrow> fmlookup fs f \<noteq> None" "\<And>fs. P fs \<Longrightarrow> Q (fmdrop f fs)" "\<And>fs. P fs \<Longrightarrow> D fs"
    "\<And>fs. P fs \<Longrightarrow> D (fmdrop f fs)"
  shows "spec (has \<phi> d P) (io_remove d f) (\<lambda>_. has \<phi> d Q) (\<lambda>_. broken \<phi> d P) (broken \<phi> d D)"
  unfolding io_remove_def io_atomic_def
  by (rule spec_dir_call [where R = P]) (use assms in \<open>fastforce elim!: hasE intro: hasI split: if_splits\<close>)+

lemma spec_io_cut:
  assumes "\<And>fs. P fs \<Longrightarrow> \<exists>bs. fmlookup fs f = Some bs \<and> unat n \<le> length bs"
    "\<And>fs. P fs \<Longrightarrow> Q (fmupd f (take (unat n) (the (fmlookup fs f))) fs)" "\<And>fs. P fs \<Longrightarrow> D fs"
    "\<And>fs. P fs \<Longrightarrow> D (fmupd f (take (unat n) (the (fmlookup fs f))) fs)"
  shows "spec (has \<phi> d P) (io_set_len d f n) (\<lambda>_. has \<phi> d Q) (\<lambda>_. broken \<phi> d P) (broken \<phi> d D)"
proof -
  let ?perform = "\<lambda>w. case file_content w d f of None \<Rightarrow> (w, Inl not_found)
     | Some bs \<Rightarrow> put_file d f (take (unat n) bs @ replicate (unat n - length bs) (CHR 0x00)) w"
  have "\<exists>fs. ?perform w = (set_dir d (fmupd f (take (unat n) (the (fmlookup fs f))) fs) w, Inr ()) \<and> P fs \<and> w_faults w = \<phi>"
    if "has \<phi> d P w" for w
    using that assms(1) by (force simp: file_content_def put_file_def elim!: hasE)
  then show ?thesis
    unfolding io_set_len_def io_atomic_def
    by (intro spec_dir_call [where R = P]) (use assms(2-4) in \<open>fastforce intro: hasI elim: has_mono\<close>)+
qed

lemma spec_io_open_append:
  assumes "\<And>fs. P fs \<Longrightarrow> fmlookup fs f \<noteq> None" "\<And>fs. P fs \<Longrightarrow> D fs"
  shows "spec (has \<phi> d P) (io_open_append d f) (\<lambda>_. has \<phi> d P) (\<lambda>_. broken \<phi> d P) (broken \<phi> d D)"
  unfolding io_open_append_def io_atomic_def
  by (rule spec_dir_call [where R = P])
    (use assms in \<open>fastforce simp: file_content_def elim!: hasE intro: hasI split: option.splits if_splits\<close>)+

end
