(* ===== verification/DS_File_Txn.thy ===== *)
theory DS_File_Txn
  imports DS_File_Logic
begin

text \<open>
  The undo journal of the file backend is crash-atomic. A stream directory is
  at rest (no journal) or its journal is in force: the log still begins with
  the bytes the journal names, or the backup holds them, and the journal
  holds the old metadata. Recovery takes every such state back to rest, and
  may itself be interrupted any number of times.
\<close>

section \<open>The states of a stream directory\<close>

definition at_rest :: "bytes \<Rightarrow> bytes \<Rightarrow> files \<Rightarrow> bool" where
  "at_rest L M fs \<longleftrightarrow> fmlookup fs ''data.log'' = Some L \<and> fmlookup fs ''meta.json'' = Some M \<and>
     fmlookup fs ''append.undo'' = None"

definition in_force :: "file_env \<Rightarrow> bool \<Rightarrow> bytes \<Rightarrow> bytes \<Rightarrow> files \<Rightarrow> bool" where
  "in_force F restore L M fs \<longleftrightarrow>
     (\<exists>J. fmlookup fs ''append.undo'' = Some J \<and> undo_from_slice F J =
        Inr \<lparr>un_log_len = of_nat (length L), un_metadata = M, un_restore_log = restore\<rparr>) \<and>
     (\<exists>log. fmlookup fs ''data.log'' = Some log \<and> (\<not> restore \<longrightarrow> take (length L) log = L)) \<and>
     (restore \<longrightarrow> fmlookup fs ''replace.backup'' = Some L)"

text \<open>What a directory may look like while a change from \<open>(L, M)\<close> is under way.\<close>

definition undoable :: "file_env \<Rightarrow> bool \<Rightarrow> bytes \<Rightarrow> bytes \<Rightarrow> files \<Rightarrow> bool" where
  "undoable F restore L M fs \<longleftrightarrow> at_rest L M fs \<or> in_force F restore L M fs"

lemma spec_validate:
  assumes "is_valid_stream_dir_component d" "\<And>fs. P fs \<Longrightarrow> D fs"
  shows "spec (has \<phi> d P) (validate_stream_dir root d) (\<lambda>_. has \<phi> d P) (\<lambda>_. broken \<phi> d P) (broken \<phi> d D)"
proof -
  let ?R = "\<lambda>r w. case r of Inl e \<Rightarrow> broken \<phi> d P w | Inr n \<Rightarrow> (\<exists>fs. n = Some (NDir fs)) \<and> has \<phi> d P w"
  have stat: "spec (has \<phi> d P) (attempt_act (io_stat d)) ?R (\<lambda>_. broken \<phi> d P) (broken \<phi> d D)"
    by (rule spec_attempt, rule spec_weaken [OF spec_io_stat [OF assms(2)]]) simp_all
  have plain: "spec (has \<phi> d P) (map_err f io_plain) (\<lambda>_. has \<phi> d P) (\<lambda>_. broken \<phi> d P) (broken \<phi> d D)"
    for f :: "io_error \<Rightarrow> error"
    by (rule spec_map_err) (rule spec_io_plain [OF assms(2)])
  have valid: "(\<not> is_valid_stream_dir_component d) = False" using assms(1) by simp
  show ?thesis
    unfolding validate_stream_dir_def valid if_False
  proof (rule spec_seq [OF stat])
    fix r
    show "spec (?R r) (case r of
           Inl e \<Rightarrow> if io_not_found e then ret ()
             else raise (Storage (''failed to stat stream directory '' @ dir_display root d @ '': '' @ io_text e))
         | Inr None \<Rightarrow> ret ()
         | Inr (Some NLink) \<Rightarrow> raise (Storage (''stream directory cannot be a symlink: '' @ dir_display root d))
         | Inr (Some (NFile _)) \<Rightarrow> raise (Storage (''stream path is not a directory: '' @ dir_display root d))
         | Inr (Some (NDir _)) \<Rightarrow>
             map_err (\<lambda>e. Storage (''failed to canonicalize stream directory '' @ dir_display root d @ '': '' @ io_text e)) io_plain)
        (\<lambda>_. has \<phi> d P) (\<lambda>_. broken \<phi> d P) (broken \<phi> d D)"
    proof (cases r)
      case (Inl e)
      then show ?thesis by (auto intro!: spec_ret spec_raise simp: broken_def)
    next
      case (Inr n)
      show ?thesis
      proof (cases "\<exists>fs. n = Some (NDir fs)")
        case True
        with Inr plain show ?thesis by auto
      qed (use Inr in \<open>simp add: spec_def\<close>)
    qed
  qed
qed

text \<open>Each call, with one condition \<open>D\<close> for everything that may be left behind.\<close>

lemma step_plain:
  "(\<And>fs. P fs \<Longrightarrow> D fs) \<Longrightarrow> spec (has \<phi> d P) (map_err f io_plain) (\<lambda>_. has \<phi> d P) (\<lambda>_. broken \<phi> d D) (broken \<phi> d D)"
  by (rule spec_map_err, rule spec_weaken [OF spec_io_plain [of P D]]) (auto elim: broken_mono)

lemma step_validate:
  assumes "is_valid_stream_dir_component d" "\<And>fs. P fs \<Longrightarrow> D fs"
  shows "spec (has \<phi> d P) (validate_stream_dir root d) (\<lambda>_. has \<phi> d P) (\<lambda>_. broken \<phi> d D) (broken \<phi> d D)"
  by (rule spec_weaken [OF spec_validate [where P = P and D = D]]) (use assms in \<open>auto elim: broken_mono\<close>)

lemma step_write:
  assumes "\<And>fs. P fs \<Longrightarrow> Q (fmupd f bs fs)" "\<And>fs. P fs \<Longrightarrow> D fs" "\<And>fs n. P fs \<Longrightarrow> D (fmupd f (take n bs) fs)"
  shows "spec (has \<phi> d P) (map_err g (io_write d f bs)) (\<lambda>_. has \<phi> d Q) (\<lambda>_. broken \<phi> d D) (broken \<phi> d D)"
  by (rule spec_map_err, rule spec_io_write [where P = P and Q = Q and D = D]) (use assms in auto)

lemma step_rename:
  assumes "\<And>fs. P fs \<Longrightarrow> fmlookup fs a = Some bs" "\<And>fs. P fs \<Longrightarrow> Q (fmupd b bs (fmdrop a fs))"
    "\<And>fs. P fs \<Longrightarrow> D fs" "\<And>fs. P fs \<Longrightarrow> D (fmupd b bs (fmdrop a fs))"
  shows "spec (has \<phi> d P) (map_err g (io_rename d a b)) (\<lambda>_. has \<phi> d Q) (\<lambda>_. broken \<phi> d D) (broken \<phi> d D)"
  by (rule spec_map_err, rule spec_weaken [OF spec_io_rename [of P a bs Q b D]]) (use assms in \<open>auto elim: broken_mono\<close>)

lemma step_remove:
  assumes "\<And>fs. P fs \<Longrightarrow> fmlookup fs f \<noteq> None" "\<And>fs. P fs \<Longrightarrow> Q (fmdrop f fs)" "\<And>fs. P fs \<Longrightarrow> D fs"
    "\<And>fs. P fs \<Longrightarrow> D (fmdrop f fs)"
  shows "spec (has \<phi> d P) (map_err g (io_remove d f)) (\<lambda>_. has \<phi> d Q) (\<lambda>_. broken \<phi> d D) (broken \<phi> d D)"
  by (rule spec_map_err, rule spec_weaken [OF spec_io_remove [of P f Q D]]) (use assms in \<open>auto elim: broken_mono\<close>)

section \<open>Recovery\<close>

text \<open>The assertions between the calls of \<open>recover_append\<close>.\<close>

abbreviation log_begins :: "bytes \<Rightarrow> files \<Rightarrow> bool" where
  "log_begins L fs \<equiv> \<exists>log. fmlookup fs ''data.log'' = Some log \<and> take (length L) log = L"

lemma take_eq_length: "take (length L) log = L \<Longrightarrow> length L \<le> length log"
  by (metis length_take min.cobounded1)

lemma in_force_upd:
  "in_force F r L M fs \<Longrightarrow> f \<notin> {''append.undo'', ''data.log'', ''replace.backup''} \<Longrightarrow> in_force F r L M (fmupd f bs fs)"
  by (auto simp: in_force_def)

lemma in_force_drop:
  "in_force F r L M fs \<Longrightarrow> f \<notin> {''append.undo'', ''data.log'', ''replace.backup''} \<Longrightarrow> in_force F r L M (fmdrop f fs)"
  by (auto simp: in_force_def)

lemma in_force_log:
  "in_force F r L M fs \<Longrightarrow> (\<not> r \<Longrightarrow> take (length L) log = L) \<Longrightarrow> in_force F r L M (fmupd ''data.log'' log fs)"
  by (auto simp: in_force_def)

lemma u64_len_ge:
  assumes "length L \<le> n" "length L < 2 ^ 64"
  shows "\<not> u64_of_usize n < (of_nat (length L) :: u64)"
proof (cases "n < 2 ^ 64")
  case True
  with assms show ?thesis by (simp add: word_less_nat_alt unat_u64_of_usize unat_of_nat not_less)
qed (simp add: u64_of_usize_def not_less)

lemma recover_restore_step:
  "spec (has \<phi> d (in_force F r L M)) (if r then map_err g (io_copy d ''replace.backup'' ''data.log'') else ret ())
     (\<lambda>_. has \<phi> d (\<lambda>fs. in_force F r L M fs \<and> log_begins L fs)) (\<lambda>_. broken \<phi> d (in_force F r L M)) (broken \<phi> d (in_force F r L M))"
proof (cases r)
  case True
  have "spec (has \<phi> d (in_force F r L M)) (io_copy d ''replace.backup'' ''data.log'')
     (\<lambda>_. has \<phi> d (\<lambda>fs. in_force F r L M fs \<and> log_begins L fs)) (\<lambda>_. broken \<phi> d (in_force F r L M)) (broken \<phi> d (in_force F r L M))"
    by (rule spec_io_copy [where bs = L]) (use True in \<open>auto simp: in_force_def\<close>)
  with True show ?thesis by (auto intro: spec_map_err)
qed (auto intro!: spec_ret simp: in_force_def elim!: has_mono)

text \<open>Opening the log, reading its length and cutting it to the length of the journal.\<close>

lemma recover_cut_step:
  assumes "is_valid_stream_dir_component d" "length L < 2 ^ 64"
  shows "spec (has \<phi> d (\<lambda>fs. in_force F r L M fs \<and> log_begins L fs)) (cut_log root d (of_nat (length L)))
    (\<lambda>_. has \<phi> d (\<lambda>fs. in_force F r L M fs \<and> fmlookup fs ''data.log'' = Some L))
    (\<lambda>_. broken \<phi> d (in_force F r L M)) (broken \<phi> d (in_force F r L M))"
proof -
  let ?P = "\<lambda>fs. in_force F r L M fs \<and> log_begins L fs"
  let ?D = "in_force F r L M"
  let ?Q = "\<lambda>fs. in_force F r L M fs \<and> fmlookup fs ''data.log'' = Some L"
  have len: "unat (of_nat (length L) :: u64) = length L" using assms(2) by (simp add: unat_of_nat)
  have opened: "spec (has \<phi> d ?P) (open_stream_file root d) (\<lambda>_. has \<phi> d ?P) (\<lambda>_. broken \<phi> d ?D) (broken \<phi> d ?D)"
    unfolding open_stream_file_def
    by (rule spec_seq [OF step_validate [where P = ?P]], use assms(1) in simp, simp, rule spec_map_err,
        rule spec_weaken [OF spec_io_open_append [where P = ?P and D = ?D]]) (auto elim: broken_mono)
  have measured: "spec (has \<phi> d ?P) (txn_io (io_len d ''data.log''))
      (\<lambda>n. has \<phi> d (\<lambda>fs. ?P fs \<and> (\<exists>bs. fmlookup fs ''data.log'' = Some bs \<and> n = u64_of_usize (length bs))))
      (\<lambda>_. broken \<phi> d ?D) (broken \<phi> d ?D)"
    by (rule spec_map_err, rule spec_weaken [OF spec_io_len [where P = ?P and D = ?D]]) (auto elim: broken_mono)
  have cut: "spec (has \<phi> d ?P) (seq (txn_io (io_set_len d ''data.log'' (of_nat (length L)))) (\<lambda>_. txn_io io_plain))
      (\<lambda>_. has \<phi> d ?Q) (\<lambda>_. broken \<phi> d ?D) (broken \<phi> d ?D)"
    by (rule spec_seq [OF _ step_plain [where P = ?Q]], rule spec_map_err,
        rule spec_weaken [OF spec_io_cut [where P = ?P and D = ?D and Q = ?Q]])
      (auto simp: len in_force_log dest: take_eq_length elim: broken_mono)
  have long: "\<not> len < of_nat (length L)"
    if "has \<phi> d (\<lambda>fs. ?P fs \<and> (\<exists>bs. fmlookup fs ''data.log'' = Some bs \<and> len = u64_of_usize (length bs))) w" for len w
    using that u64_len_ge [OF take_eq_length assms(2)] by (auto elim!: hasE)
  show ?thesis
    unfolding cut_log_def
  proof (rule spec_seq [OF opened], rule spec_seq [OF measured], rule spec_pre)
    fix n w assume w: "has \<phi> d (\<lambda>fs. ?P fs \<and> (\<exists>bs. fmlookup fs ''data.log'' = Some bs \<and> n = u64_of_usize (length bs))) w"
    then have "has \<phi> d ?P w" by (auto elim: has_mono)
    with long [OF w] show "spec (\<lambda>t. t = w) (if n < of_nat (length L) then raise (Storage ''undo journal refers beyond the stream log'')
        else seq (txn_io (io_set_len d ''data.log'' (of_nat (length L)))) (\<lambda>_. txn_io io_plain))
        (\<lambda>_. has \<phi> d ?Q) (\<lambda>_. broken \<phi> d ?D) (broken \<phi> d ?D)"
      by (auto intro!: spec_weaken [OF cut])
  qed
qed

text \<open>Putting the old metadata back and removing the journal.\<close>

lemma recover_meta_step:
  "spec (has \<phi> d (\<lambda>fs. in_force F r L M fs \<and> fmlookup fs ''data.log'' = Some L)) (restore_metadata d M)
    (\<lambda>_. has \<phi> d (at_rest L M)) (\<lambda>_. broken \<phi> d (undoable F r L M)) (broken \<phi> d (undoable F r L M))"
proof -
  let ?A = "\<lambda>fs. in_force F r L M fs \<and> fmlookup fs ''data.log'' = Some L"
  let ?B = "\<lambda>fs. ?A fs \<and> fmlookup fs ''meta.restore.tmp'' = Some M"
  let ?C = "\<lambda>fs. ?A fs \<and> fmlookup fs ''meta.json'' = Some M"
  let ?D = "undoable F r L M"
  have keep: "\<And>fs. ?A fs \<Longrightarrow> ?D fs" by (simp add: undoable_def)
  have plain: "\<And>P. (\<And>fs. P fs \<Longrightarrow> ?D fs) \<Longrightarrow>
      spec (has \<phi> d P) (txn_io io_plain) (\<lambda>_. has \<phi> d P) (\<lambda>_. broken \<phi> d ?D) (broken \<phi> d ?D)"
    by (rule step_plain)
  have W: "spec (has \<phi> d ?A) (txn_io (io_write d ''meta.restore.tmp'' M)) (\<lambda>_. has \<phi> d ?B) (\<lambda>_. broken \<phi> d ?D) (broken \<phi> d ?D)"
    by (rule step_write) (auto simp: undoable_def in_force_upd)
  have N: "spec (has \<phi> d ?B) (txn_io (io_rename d ''meta.restore.tmp'' ''meta.json'')) (\<lambda>_. has \<phi> d ?C)
      (\<lambda>_. broken \<phi> d ?D) (broken \<phi> d ?D)"
    by (rule step_rename [where bs = M]) (auto simp: undoable_def intro!: in_force_upd in_force_drop)
  have K: "spec (has \<phi> d ?C) (txn_io (io_remove d ''append.undo'')) (\<lambda>_. has \<phi> d (at_rest L M))
      (\<lambda>_. broken \<phi> d ?D) (broken \<phi> d ?D)"
    by (rule step_remove) (auto simp: undoable_def at_rest_def in_force_def)
  have "spec (has \<phi> d (at_rest L M)) (txn_io io_plain) (\<lambda>_. has \<phi> d (at_rest L M)) (\<lambda>_. broken \<phi> d ?D) (broken \<phi> d ?D)"
    by (rule plain) (simp add: undoable_def)
  with keep show ?thesis
    unfolding restore_metadata_def
    by (intro spec_seq [OF W] spec_seq [OF plain [of ?B]] spec_seq [OF N] spec_seq [OF plain [of ?C]] spec_seq [OF K]) simp_all
qed

text \<open>
  Recovery as a whole: from rest or from a journal in force it comes to rest
  with the old log and the old metadata; interrupted, it can start again.
\<close>

lemma recover_spec:
  assumes d: "is_valid_stream_dir_component d" and m: "meta_from_slice F M = Inr m" and len: "length L < 2 ^ 64"
    and h: "honest \<phi>"
  shows "spec (has \<phi> d (undoable F r L M)) (recover_append F root d)
    (\<lambda>_. has \<phi> d (at_rest L M)) (\<lambda>_. broken \<phi> d (undoable F r L M)) (broken \<phi> d (undoable F r L M))"
proof -
  let ?D = "undoable F r L M"
  let ?u = "\<lparr>un_log_len = of_nat (length L), un_metadata = M, un_restore_log = r\<rparr>"
  let ?R = "\<lambda>v w. case v of
      Inl e \<Rightarrow> \<not> io_not_found e \<and> broken \<phi> d ?D w \<or> io_not_found e \<and> has \<phi> d (at_rest L M) w
    | Inr bs \<Rightarrow> undo_from_slice F bs = Inr ?u \<and> has \<phi> d (in_force F r L M) w"
  have read: "spec (has \<phi> d ?D) (attempt_act (io_read d ''append.undo'')) ?R (\<lambda>_. broken \<phi> d ?D) (broken \<phi> d ?D)"
    by (rule spec_attempt, rule spec_weaken [OF spec_io_read [where P = ?D and D = ?D]])
      (use h in \<open>auto simp: honest_def not_found_def undoable_def at_rest_def in_force_def elim!: hasE intro!: hasI\<close>)
  have weak: "broken \<phi> d (in_force F r L M) w \<Longrightarrow> broken \<phi> d ?D w" for w
    by (auto elim!: broken_mono simp: undoable_def)
  have body: "spec (has \<phi> d (in_force F r L M))
      (seq (if r then txn_io (io_copy d ''replace.backup'' ''data.log'') else ret ()) (\<lambda>_.
       seq (cut_log root d (of_nat (length L))) (\<lambda>_. restore_metadata d M)))
      (\<lambda>_. has \<phi> d (at_rest L M)) (\<lambda>_. broken \<phi> d ?D) (broken \<phi> d ?D)"
    by (rule spec_seq [OF spec_weaken [OF recover_restore_step] spec_seq [OF spec_weaken [OF recover_cut_step] recover_meta_step]])
      (use d len weak in auto)
  show ?thesis
    unfolding recover_append_def
    by (rule spec_seq [OF step_validate [OF d, where P = ?D]], simp, rule spec_seq [OF read])
      (use specD [OF body] in \<open>auto simp: m spec_def ret_def raise_def split: sum.splits simp del: if_split\<close>)
qed

section \<open>Writing the journal\<close>

text \<open>Both files as they were, whether or not a journal is there.\<close>

definition quiet :: "file_env \<Rightarrow> bool \<Rightarrow> bytes \<Rightarrow> bytes \<Rightarrow> files \<Rightarrow> bool" where
  "quiet F r L M fs \<longleftrightarrow> undoable F r L M fs \<and> fmlookup fs ''data.log'' = Some L \<and> fmlookup fs ''meta.json'' = Some M"

text \<open>What a transaction starts from: a replacement needs a directory at rest, its backup would spoil an older one.\<close>

definition ready :: "file_env \<Rightarrow> bool \<Rightarrow> bytes \<Rightarrow> bytes \<Rightarrow> files \<Rightarrow> bool" where
  "ready F r L M fs \<longleftrightarrow> quiet F r L M fs \<and> (r \<longrightarrow> at_rest L M fs)"

text \<open>The journal is written in a form that reads back: what \<open>serde_json\<close> does for a struct of numbers and bytes.\<close>

definition journal_codec :: "file_env \<Rightarrow> bool" where
  "journal_codec F \<longleftrightarrow> (\<forall>u. \<exists>J. undo_to_vec F u = Inr J \<and> undo_from_slice F J = Inr u)"

lemma ready_upd:
  "ready F r L M fs \<Longrightarrow> f \<notin> {''append.undo'', ''data.log'', ''replace.backup'', ''meta.json''} \<Longrightarrow> ready F r L M (fmupd f bs fs)"
  by (auto simp: ready_def quiet_def undoable_def at_rest_def in_force_upd)

lemma ready_quiet: "ready F r L M fs \<Longrightarrow> quiet F r L M fs"
  by (simp add: ready_def)

lemma at_rest_ready: "at_rest L M fs \<Longrightarrow> ready F r L M fs"
  by (simp add: ready_def quiet_def undoable_def at_rest_def)

lemma write_journal_spec:
  assumes j: "journal_codec F" and u: "u = \<lparr>un_log_len = of_nat (length L), un_metadata = M, un_restore_log = r\<rparr>"
  shows "spec (has \<phi> d (ready F r L M)) (write_journal F d u)
    (\<lambda>_. has \<phi> d (\<lambda>fs. in_force F r L M fs \<and> quiet F r L M fs)) (\<lambda>_. broken \<phi> d (quiet F r L M)) (broken \<phi> d (quiet F r L M))"
proof -
  obtain J where J: "undo_to_vec F u = Inr J" "undo_from_slice F J = Inr u" using j by (auto simp: journal_codec_def)
  let ?A = "ready F r L M" and ?D = "quiet F r L M"
  let ?B = "\<lambda>fs. ?A fs \<and> (r \<longrightarrow> fmlookup fs ''replace.backup'' = Some L)"
  let ?C = "\<lambda>fs. ?B fs \<and> fmlookup fs ''append.undo.tmp'' = Some J"
  let ?Q = "\<lambda>fs. in_force F r L M fs \<and> quiet F r L M fs"
  have plain: "\<And>P. (\<And>fs. P fs \<Longrightarrow> ?D fs) \<Longrightarrow>
      spec (has \<phi> d P) (txn_io io_plain) (\<lambda>_. has \<phi> d P) (\<lambda>_. broken \<phi> d ?D) (broken \<phi> d ?D)"
    by (rule step_plain)
  have copied: "spec (has \<phi> d ?A) (if r then seq (txn_io (io_copy d ''data.log'' ''replace.backup'')) (\<lambda>_. txn_io io_plain) else ret ())
      (\<lambda>_. has \<phi> d ?B) (\<lambda>_. broken \<phi> d ?D) (broken \<phi> d ?D)"
  proof (cases r)
    case True
    have "spec (has \<phi> d ?A) (io_copy d ''data.log'' ''replace.backup'') (\<lambda>_. has \<phi> d ?B) (\<lambda>_. broken \<phi> d ?D) (broken \<phi> d ?D)"
      by (rule spec_io_copy [where bs = L]) (auto simp: True ready_def quiet_def undoable_def at_rest_def)
    then have "spec (has \<phi> d ?A) (seq (txn_io (io_copy d ''data.log'' ''replace.backup'')) (\<lambda>_. txn_io io_plain)) (\<lambda>_. has \<phi> d ?B)
        (\<lambda>_. broken \<phi> d ?D) (broken \<phi> d ?D)"
      by (intro spec_seq [OF spec_map_err plain [of ?B]]) (auto dest: ready_quiet)
    with True show ?thesis by simp
  qed (auto intro!: spec_ret)
  have W: "spec (has \<phi> d ?B) (txn_io (io_write d ''append.undo.tmp'' J)) (\<lambda>_. has \<phi> d ?C) (\<lambda>_. broken \<phi> d ?D) (broken \<phi> d ?D)"
    by (rule step_write) (auto intro: ready_quiet ready_upd)
  have made: "?Q (fmupd ''append.undo'' J (fmdrop ''append.undo.tmp'' fs))" if "?C fs" for fs
    using that J u by (auto simp: ready_def quiet_def undoable_def in_force_def)
  have N: "spec (has \<phi> d ?C) (txn_io (io_rename d ''append.undo.tmp'' ''append.undo'')) (\<lambda>_. has \<phi> d ?Q)
      (\<lambda>_. broken \<phi> d ?D) (broken \<phi> d ?D)"
    by (rule step_rename [where bs = J]) (use made in \<open>auto intro: ready_quiet\<close>)
  have "spec (has \<phi> d ?Q) (txn_io io_plain) (\<lambda>_. has \<phi> d ?Q) (\<lambda>_. broken \<phi> d ?D) (broken \<phi> d ?D)"
    by (rule plain) simp
  moreover have r: "un_restore_log u = r" by (simp add: u)
  ultimately show ?thesis
    unfolding write_journal_def J(1) sum.case r
    by (intro spec_seq [OF copied] spec_seq [OF W] spec_seq [OF plain [of ?C]] spec_seq [OF N]) (auto intro: ready_quiet)
qed

text \<open>The commit: once the journal is removed the new files are in place.\<close>

lemma commit_journal_spec:
  fixes L M F r
  defines "old \<equiv> in_force F r L M"
  defines "P \<equiv> \<lambda>L1 M1 fs. old fs \<and> fmlookup fs ''data.log'' = Some L1 \<and> fmlookup fs ''meta.json'' = Some M1"
  defines "D \<equiv> \<lambda>L1 M1 fs. old fs \<or> at_rest L1 M1 fs"
  shows "spec (has \<phi> d (P L1 M1)) (commit_journal d) (\<lambda>_. has \<phi> d (at_rest L1 M1)) (\<lambda>_. broken \<phi> d (D L1 M1)) (broken \<phi> d (D L1 M1))"
proof -
  have plain: "\<And>P. (\<And>fs. P fs \<Longrightarrow> D L1 M1 fs) \<Longrightarrow>
      spec (has \<phi> d P) (txn_io io_plain) (\<lambda>_. has \<phi> d P) (\<lambda>_. broken \<phi> d (D L1 M1)) (broken \<phi> d (D L1 M1))"
    by (rule step_plain)
  have K: "spec (has \<phi> d (P L1 M1)) (txn_io (io_remove d ''append.undo'')) (\<lambda>_. has \<phi> d (at_rest L1 M1))
      (\<lambda>_. broken \<phi> d (D L1 M1)) (broken \<phi> d (D L1 M1))"
    by (rule step_remove) (auto simp: P_def D_def old_def at_rest_def in_force_def)
  have "spec (has \<phi> d (at_rest L1 M1)) (txn_io io_plain) (\<lambda>_. has \<phi> d (at_rest L1 M1)) (\<lambda>_. broken \<phi> d (D L1 M1)) (broken \<phi> d (D L1 M1))"
    by (rule plain) (simp add: D_def)
  then show ?thesis
    unfolding commit_journal_def
    by (intro spec_seq [OF plain [of "P L1 M1"]] spec_seq [OF K]) (auto simp: P_def D_def)
qed

section \<open>The transaction\<close>

text \<open>Actions on one entry, seen from the disk.\<close>

abbreviation at_ctx :: "file_entry \<Rightarrow> u64 \<Rightarrow> (world \<Rightarrow> bool) \<Rightarrow> ctx \<Rightarrow> bool" where
  "at_ctx e t P c \<equiv> cx_entry c = e \<and> cx_total c = t \<and> P (cx_world c)"

lemma spec_ctx_disk:
  assumes "spec P m Q X D"
  shows "spec (at_ctx e t P) (ctx_disk m) (\<lambda>x. at_ctx e t (Q x)) (\<lambda>er. at_ctx e t (X er)) (at_ctx e t D)"
proof -
  have "outcome (\<lambda>x. at_ctx e t (Q x)) (\<lambda>er. at_ctx e t (X er)) (at_ctx e t D) (ctx_disk m c)" if "at_ctx e t P c" for c
    using specD [OF assms, of "cx_world c"] that by (cases "m (cx_world c)" rule: act_cases) (simp_all add: ctx_disk_def)
  then show ?thesis by (simp add: spec_def)
qed

lemma spec_path_exists:
  assumes "\<And>fs. P fs \<Longrightarrow> D fs"
  shows "spec (has \<phi> d P) (path_exists d f)
    (\<lambda>b w. b \<and> has \<phi> d (\<lambda>fs. P fs \<and> fmlookup fs f \<noteq> None) w \<or>
       \<not> b \<and> (broken \<phi> d P w \<or> has \<phi> d (\<lambda>fs. P fs \<and> fmlookup fs f = None) w)) X (broken \<phi> d D)"
proof -
  have "spec (has \<phi> d P) (io_atomic (\<lambda>w. (w, Inr (file_content w d f \<noteq> None))))
    (\<lambda>b w. b \<and> has \<phi> d (\<lambda>fs. P fs \<and> fmlookup fs f \<noteq> None) w \<or> \<not> b \<and> has \<phi> d (\<lambda>fs. P fs \<and> fmlookup fs f = None) w)
    (\<lambda>_. broken \<phi> d P) (broken \<phi> d D)"
    unfolding io_atomic_def
    by (rule spec_dir_call [where R = P]) (use assms in \<open>fastforce simp: file_content_def elim!: hasE intro: hasI\<close>)+
  then show ?thesis
    unfolding path_exists_def
    by (intro spec_seq [OF spec_attempt [where Q = "\<lambda>r w. case r of
          Inl _ \<Rightarrow> broken \<phi> d P w
        | Inr b \<Rightarrow> b \<and> has \<phi> d (\<lambda>fs. P fs \<and> fmlookup fs f \<noteq> None) w \<or> \<not> b \<and> has \<phi> d (\<lambda>fs. P fs \<and> fmlookup fs f = None) w"]])
      (auto intro!: spec_ret split: sum.splits)
qed

text \<open>
  What is known after a failed transaction, for an entry \<open>old\<close> and counter \<open>t\<close>:
  either the stream is out of use until a restart, and the disk leads back to
  the old state or has the new one, or entry, counter and files are as before.
\<close>

definition undone :: "(nat \<Rightarrow> fault) \<Rightarrow> string \<Rightarrow> file_env \<Rightarrow> bool \<Rightarrow> bytes \<Rightarrow> bytes \<Rightarrow> bytes \<Rightarrow> bytes \<Rightarrow> file_entry \<Rightarrow> u64 \<Rightarrow> bool \<Rightarrow> ctx \<Rightarrow> bool" where
  "undone \<phi> d F r L M L1 M1 old t refused c \<longleftrightarrow>
     fe_unavailable (cx_entry c) \<and> broken \<phi> d (\<lambda>fs. undoable F r L M fs \<or> at_rest L1 M1 fs) (cx_world c) \<or>
     (\<exists>n. cx_entry c = old\<lparr>fe_notify := n\<rparr>) \<and> cx_total c = t \<and>
       (refused \<and> has \<phi> d (at_rest L M) (cx_world c) \<or> broken \<phi> d (quiet F r L M) (cx_world c))"

text \<open>Entries an operation may leave behind: rolling back gives the old one.\<close>

definition revertible :: "file_entry \<Rightarrow> u64 \<Rightarrow> undo \<Rightarrow> stream_meta \<Rightarrow> file_entry \<Rightarrow> u64 \<Rightarrow> bool" where
  "revertible old t u m e' t' \<longleftrightarrow> rolled_back old u m e' = old\<lparr>fe_notify := fe_notify e'\<rparr> \<and>
     release_bytes t' (if un_restore_log u then fe_total_bytes e' else saturating_sub (fe_total_bytes e') (fe_total_bytes old)) = t"

lemma in_force_there: "in_force F r L M fs \<Longrightarrow> fmlookup fs ''append.undo'' \<noteq> None"
  by (auto simp: in_force_def)

lemma at_rest_gone: "at_rest L M fs \<Longrightarrow> fmlookup fs ''append.undo'' = None"
  by (simp add: at_rest_def)

lemma at_rest_quiet: "at_rest L M fs \<Longrightarrow> quiet F r L M fs"
  by (simp add: quiet_def undoable_def at_rest_def)

lemma rollback_spec:
  assumes d: "is_valid_stream_dir_component d" "fe_dir old = d" and m: "meta_from_slice F M = Inr m" and len: "length L < 2 ^ 64"
    and h: "honest \<phi>" and u: "un_metadata u = M" and e: "revertible old t u m e t'"
  shows "spec (at_ctx e t' (has \<phi> d (\<lambda>fs. (refused \<or> (\<exists>k. \<phi> k \<noteq> Works)) \<and> in_force F r L M fs \<or> (\<exists>k. \<phi> k \<noteq> Works) \<and> at_rest L1 M1 fs)))
    (rollback F root old u er) (\<lambda>_ _. False) (\<lambda>_. undone \<phi> d F r L M L1 M1 old t refused)
    (\<lambda>c. broken \<phi> d (\<lambda>fs. undoable F r L M fs \<or> at_rest L1 M1 fs) (cx_world c))"
  (is "spec (at_ctx e t' (has \<phi> d ?P)) _ _ ?X ?D")
proof -
  let ?G = "\<lambda>fs. undoable F r L M fs \<or> at_rest L1 M1 fs"
  let ?I = "in_force F r L M"
  have sub: "?P fs \<Longrightarrow> ?G fs" for fs by (auto simp: undoable_def)
  have look: "spec (at_ctx e t' (has \<phi> d ?P)) (ctx_disk (path_exists d ''append.undo''))
      (\<lambda>b. at_ctx e t' (\<lambda>w. if b then (refused \<or> (\<exists>k. \<phi> k \<noteq> Works)) \<and> has \<phi> d ?I w else broken \<phi> d ?G w)) ?X ?D"
  proof -
    have there: "?P fs \<Longrightarrow> fmlookup fs ''append.undo'' \<noteq> None \<Longrightarrow> (refused \<or> (\<exists>k. \<phi> k \<noteq> Works)) \<and> ?I fs" for fs
      using at_rest_gone [of L1 M1 fs] by (elim disjE conjE) simp_all
    have gone: "?P fs \<Longrightarrow> fmlookup fs ''append.undo'' = None \<Longrightarrow> (\<exists>k. \<phi> k \<noteq> Works) \<and> ?G fs" for fs
      using in_force_there [of F r L M fs] by (elim disjE conjE) simp_all
    have yes: "(refused \<or> (\<exists>k. \<phi> k \<noteq> Works)) \<and> has \<phi> d ?I w"
      if "has \<phi> d (\<lambda>fs. ?P fs \<and> fmlookup fs ''append.undo'' \<noteq> None) w" for w
      using that there unfolding has_def by meson
    have no: "broken \<phi> d ?G w" if "has \<phi> d (\<lambda>fs. ?P fs \<and> fmlookup fs ''append.undo'' = None) w" for w
      using that gone unfolding has_def broken_def by meson
    have lost: "broken \<phi> d ?G w" if "broken \<phi> d ?P w" for w
      using that by (rule broken_mono) (rule sub)
    show ?thesis
      by (rule spec_weaken [OF spec_ctx_disk [OF spec_path_exists [where P = ?P and D = ?G and X = "\<lambda>_ _. False"]]])
        (use sub yes no lost in \<open>simp_all split: if_splits, blast+\<close>)
  qed
  have recover: "spec (at_ctx e t' (has \<phi> d ?I)) (attempt_act (ctx_disk (recover_append F root d)))
      (\<lambda>v. at_ctx e t' (case v of Inl _ \<Rightarrow> broken \<phi> d ?G | Inr _ \<Rightarrow> has \<phi> d (at_rest L M))) ?X ?D"
    by (rule spec_attempt, rule spec_weaken [OF spec_ctx_disk [OF recover_spec [OF d(1) m len h, where r = r]]])
      (auto simp: undoable_def elim!: has_mono broken_mono)
  have fail: "spec (at_ctx e t' (broken \<phi> d ?G)) (seq set_unavailable (\<lambda>_. raise x)) (\<lambda>_ _. False) ?X ?D" for x
    by (auto simp: spec_def seq_def set_unavailable_def set_entry_def modify_state_def raise_def undone_def)
  have q: "has \<phi> d (at_rest L M) w \<Longrightarrow> has \<phi> d (quiet F r L M) w" for w
    by (erule has_mono) (rule at_rest_quiet)
  have ok: "spec (\<lambda>c. (refused \<or> (\<exists>k. \<phi> k \<noteq> Works)) \<and> at_ctx e t' (has \<phi> d (at_rest L M)) c)
      (\<lambda>c. let tot = fe_total_bytes (cx_entry c) in
         seq (release_ctx (if un_restore_log u then tot else saturating_sub tot (fe_total_bytes old))) (\<lambda>_.
         seq (set_entry (rolled_back old u m)) (\<lambda>_. raise er)) c) (\<lambda>_ _. False) ?X ?D"
    using e q
    by (auto simp: spec_def seq_def set_entry_def release_ctx_def modify_state_def raise_def undone_def
        revertible_def broken_def Let_def)
  show ?thesis
    unfolding rollback_def d(2) u m sum.case
  proof (rule spec_seq [OF look])
    fix b
    show "spec (at_ctx e t' (\<lambda>w. if b then (refused \<or> (\<exists>k. \<phi> k \<noteq> Works)) \<and> has \<phi> d ?I w else broken \<phi> d ?G w))
      (if \<not> b then seq set_unavailable (\<lambda>_. raise er)
       else seq (attempt_act (ctx_disk (recover_append F root d))) (\<lambda>r. case r of
          Inl rec \<Rightarrow> seq set_unavailable (\<lambda>_. raise (storage_unavailable ''file'' ''rollback append''
            (error_display er @ ''; rollback failed: '' @ error_display rec)))
        | Inr _ \<Rightarrow> (\<lambda>c. let tot = fe_total_bytes (cx_entry c) in
            seq (release_ctx (if un_restore_log u then tot else saturating_sub tot (fe_total_bytes old))) (\<lambda>_.
            seq (set_entry (rolled_back old u m)) (\<lambda>_. raise er)) c))) (\<lambda>_ _. False) ?X ?D"
    proof (cases "b \<and> (refused \<or> (\<exists>k. \<phi> k \<noteq> Works))")
      case True
      have "spec (at_ctx e t' (case v of Inl _ \<Rightarrow> broken \<phi> d ?G | Inr _ \<Rightarrow> has \<phi> d (at_rest L M))) (case v of
          Inl rec \<Rightarrow> seq set_unavailable (\<lambda>_. raise (storage_unavailable ''file'' ''rollback append''
            (error_display er @ ''; rollback failed: '' @ error_display rec)))
        | Inr _ \<Rightarrow> (\<lambda>c. let tot = fe_total_bytes (cx_entry c) in
            seq (release_ctx (if un_restore_log u then tot else saturating_sub tot (fe_total_bytes old))) (\<lambda>_.
            seq (set_entry (rolled_back old u m)) (\<lambda>_. raise er)) c)) (\<lambda>_ _. False) ?X ?D" for v :: "error + unit"
        using fail spec_weaken [OF ok, where P' = "at_ctx e t' (has \<phi> d (at_rest L M))"] True by (cases v) auto
      from spec_weaken [OF spec_seq [OF recover this]] True show ?thesis by auto
    next
      case False
      show ?thesis
      proof (cases b)
        case True
        with False show ?thesis by (auto simp: spec_def)
      qed (use fail in simp)
    qed
  qed
qed

text \<open>
  The transaction around an operation that keeps the journal in force: its
  value means that both new files are in place and the journal is gone; its
  failure leaves \<open>undone\<close>; a crash leaves a directory that recovery takes back,
  or the committed one.
\<close>

lemma discard_backup_spec:
  "spec (\<lambda>c. S (cx_entry c) (cx_total c) \<and> has \<phi> d (at_rest L M) (cx_world c))
    (if r then seq (attempt_act (ctx_disk (io_remove d ''replace.backup''))) (\<lambda>_. ret ()) else ret ())
    (\<lambda>_ c. S (cx_entry c) (cx_total c) \<and> has \<phi> d (at_rest L M) (cx_world c)) X
    (\<lambda>c. broken \<phi> d (at_rest L M) (cx_world c))"
proof (rule spec_pre)
  fix c :: ctx assume c: "S (cx_entry c) (cx_total c) \<and> has \<phi> d (at_rest L M) (cx_world c)"
  let ?P = "\<lambda>c'. cx_entry c' = cx_entry c \<and> cx_total c' = cx_total c \<and> has \<phi> d (at_rest L M) (cx_world c')"
  have "spec (has \<phi> d (at_rest L M)) (io_remove d ''replace.backup'') (\<lambda>_. has \<phi> d (at_rest L M))
      (\<lambda>_. has \<phi> d (at_rest L M)) (broken \<phi> d (at_rest L M))"
    unfolding io_remove_def io_atomic_def
    by (rule spec_dir_call [where R = "at_rest L M"])
      (auto simp: at_rest_def broken_def has_def split: if_splits)
  then have "spec ?P (if r then seq (attempt_act (ctx_disk (io_remove d ''replace.backup''))) (\<lambda>_. ret ()) else ret ())
      (\<lambda>_. ?P) X (\<lambda>c. broken \<phi> d (at_rest L M) (cx_world c))"
    by (cases r) (auto intro!: spec_ret spec_seq [where R = "\<lambda>_. ?P"] spec_attempt spec_weaken [OF spec_ctx_disk])
  with c show "spec (\<lambda>c'. c' = c) (if r then seq (attempt_act (ctx_disk (io_remove d ''replace.backup''))) (\<lambda>_. ret ()) else ret ())
      (\<lambda>_ c. S (cx_entry c) (cx_total c) \<and> has \<phi> d (at_rest L M) (cx_world c)) X (\<lambda>c. broken \<phi> d (at_rest L M) (cx_world c))"
    by (auto elim!: spec_weaken)
qed

text \<open>
  The transaction around an operation that keeps the journal in force: its
  value means that both new files are in place and the journal is gone; its
  failure leaves \<open>undone\<close>; a crash leaves a directory that recovery takes back,
  or the committed one.
\<close>

lemma append_transaction_spec:
  assumes d: "is_valid_stream_dir_component d" "fe_dir old = d" and m: "meta_from_slice F M = Inr m" and len: "length L < 2 ^ 64"
    and h: "honest \<phi>" and j: "journal_codec F" and old: "\<not> fe_unavailable old" "fe_file_len old = of_nat (length L)"
    and u: "u = \<lparr>un_log_len = of_nat (length L), un_metadata = M, un_restore_log = r\<rparr>"
    and op: "spec (at_ctx old t (has \<phi> d (\<lambda>fs. in_force F r L M fs \<and> quiet F r L M fs))) operation
      (\<lambda>x c. (R x (cx_entry c) (cx_total c) \<and> revertible old t u m (cx_entry c) (cx_total c)) \<and> has \<phi> d (\<lambda>fs. in_force F r L M fs \<and>
         fmlookup fs ''data.log'' = Some L1 \<and> fmlookup fs ''meta.json'' = Some M1) (cx_world c))
      (\<lambda>er c. revertible old t u m (cx_entry c) (cx_total c) \<and>
         has \<phi> d (\<lambda>fs. (refused \<or> (\<exists>k. \<phi> k \<noteq> Works)) \<and> in_force F r L M fs) (cx_world c))
      (\<lambda>c. broken \<phi> d (in_force F r L M) (cx_world c))"
  shows "spec (at_ctx old t (has \<phi> d (ready F r L M))) (append_transaction F root r operation)
      (\<lambda>x c. R x (cx_entry c) (cx_total c) \<and> has \<phi> d (at_rest L1 M1) (cx_world c))
      (\<lambda>_. undone \<phi> d F r L M L1 M1 old t refused)
      (\<lambda>c. broken \<phi> d (\<lambda>fs. undoable F r L M fs \<or> at_rest L1 M1 fs) (cx_world c))"
  (is "spec _ _ ?Q ?X ?D")
proof -
  let ?bad = "\<exists>k. \<phi> k \<noteq> Works"
  let ?I = "in_force F r L M" and ?A = "ready F r L M"
  let ?G = "\<lambda>fs. undoable F r L M fs \<or> at_rest L1 M1 fs"
  let ?E = "\<lambda>fs. (refused \<or> ?bad) \<and> ?I fs \<or> ?bad \<and> at_rest L1 M1 fs"
  let ?V = "\<lambda>v c. case v of
      Inl _ \<Rightarrow> revertible old t u m (cx_entry c) (cx_total c) \<and> has \<phi> d ?E (cx_world c)
    | Inr x \<Rightarrow> R x (cx_entry c) (cx_total c) \<and> has \<phi> d (at_rest L1 M1) (cx_world c)"
  have early: "undone \<phi> d F r L M L1 M1 old t refused c" if "at_ctx old t (broken \<phi> d (quiet F r L M)) c" for c
  proof -
    have "old = old\<lparr>fe_notify := fe_notify old\<rparr>" by simp
    with that show ?thesis unfolding undone_def by metis
  qed
  have crash: "broken \<phi> d ?G w" if "broken \<phi> d (quiet F r L M) w" for w
    using that by (auto elim!: broken_mono simp: quiet_def)
  note start = spec_weaken [where X' = ?X and D' = ?D, OF spec_ctx_disk]
  have valid: "spec (at_ctx old t (has \<phi> d ?A)) (ctx_disk (validate_stream_dir root d)) (\<lambda>_. at_ctx old t (has \<phi> d ?A)) ?X ?D"
    by (rule start [OF step_validate [where P = ?A and D = "quiet F r L M"]])
      (use d early crash in \<open>auto intro: ready_quiet\<close>)
  have read: "spec (at_ctx old t (has \<phi> d ?A)) (ctx_disk (txn_io (io_read d ''meta.json'')))
      (\<lambda>bs c. bs = M \<and> at_ctx old t (has \<phi> d ?A) c) ?X ?D"
  proof -
    have present: "fmlookup fs ''meta.json'' = Some M" if "?A fs" for fs using that by (simp add: ready_def quiet_def)
    have "spec (has \<phi> d ?A) (io_read d ''meta.json'') (\<lambda>bs w. bs = M \<and> has \<phi> d ?A w)
        (\<lambda>_. broken \<phi> d (quiet F r L M)) (broken \<phi> d (quiet F r L M))"
      by (rule spec_weaken [OF spec_io_read [where P = ?A and D = "quiet F r L M"]])
        (auto simp: present has_def broken_def intro: ready_quiet)
    from start [OF spec_map_err [where X = "\<lambda>_. broken \<phi> d (quiet F r L M)", OF this]] early crash show ?thesis by auto
  qed
  have journal: "spec (at_ctx old t (has \<phi> d ?A)) (ctx_disk (write_journal F d u))
      (\<lambda>_. at_ctx old t (has \<phi> d (\<lambda>fs. ?I fs \<and> quiet F r L M fs))) ?X ?D"
    by (rule start [OF write_journal_spec [OF j u]]) (use early crash in auto)
  have commit: "spec (\<lambda>c. (R x (cx_entry c) (cx_total c) \<and> revertible old t u m (cx_entry c) (cx_total c)) \<and> has \<phi> d (\<lambda>fs. ?I fs \<and>
        fmlookup fs ''data.log'' = Some L1 \<and> fmlookup fs ''meta.json'' = Some M1) (cx_world c))
      (seq (ctx_disk (commit_journal d)) (\<lambda>_. ret x)) (\<lambda>x. ?V (Inr x)) (\<lambda>er. ?V (Inl er)) ?D" for x
  proof (rule spec_pre)
    fix c :: ctx assume c: "(R x (cx_entry c) (cx_total c) \<and> revertible old t u m (cx_entry c) (cx_total c)) \<and> has \<phi> d (\<lambda>fs. ?I fs \<and>
        fmlookup fs ''data.log'' = Some L1 \<and> fmlookup fs ''meta.json'' = Some M1) (cx_world c)"
    have lift: "broken \<phi> d (\<lambda>fs. ?I fs \<or> at_rest L1 M1 fs) w \<Longrightarrow> has \<phi> d ?E w \<and> broken \<phi> d ?G w" for w
      by (auto simp: broken_def has_def undoable_def)
    have "spec (at_ctx (cx_entry c) (cx_total c) (\<lambda>w. w = cx_world c)) (ctx_disk (commit_journal d))
        (\<lambda>_. ?V (Inr x)) (\<lambda>er. ?V (Inl er)) ?D"
      by (rule spec_weaken [OF spec_ctx_disk [OF commit_journal_spec [where F = F and r = r and L = L and M = M]]])
        (use c lift in auto)
    then show "spec (\<lambda>c'. c' = c) (seq (ctx_disk (commit_journal d)) (\<lambda>_. ret x)) (\<lambda>x. ?V (Inr x)) (\<lambda>er. ?V (Inl er)) ?D"
      by (intro spec_seq [where R = "\<lambda>_. ?V (Inr x)"]) (auto elim!: spec_weaken intro!: spec_ret)
  qed
  have work: "spec (at_ctx old t (has \<phi> d (\<lambda>fs. ?I fs \<and> quiet F r L M fs)))
      (attempt_act (seq operation (\<lambda>x. seq (ctx_disk (commit_journal d)) (\<lambda>_. ret x)))) ?V ?X ?D"
  proof (rule spec_attempt, rule spec_seq [OF _ commit], rule spec_weaken [OF op])
    show "?V (Inl e) c" if "revertible old t u m (cx_entry c) (cx_total c) \<and>
        has \<phi> d (\<lambda>fs. (refused \<or> ?bad) \<and> ?I fs) (cx_world c)" for e c
      using that by (auto elim!: has_mono)
    show "?D c" if "broken \<phi> d ?I (cx_world c)" for c
      using that by (auto elim!: broken_mono simp: undoable_def)
  qed auto
  have undo: "spec (?V (Inl er)) (rollback F root old u er) ?Q ?X ?D" for er
  proof (rule spec_pre)
    fix c :: ctx assume c: "?V (Inl er) c"
    then have "revertible old t u m (cx_entry c) (cx_total c)" by simp
    from rollback_spec [OF d m len h _ this, where refused = refused and r = r and er = er and root = root and ?L1.0 = L1 and ?M1.0 = M1] u c
    show "spec (\<lambda>c'. c' = c) (rollback F root old u er) ?Q ?X ?D" by (auto elim!: spec_weaken)
  qed
  have finish: "spec (?V (Inr x)) (seq (if r then seq (attempt_act (ctx_disk (io_remove d ''replace.backup''))) (\<lambda>_. ret ()) else ret ())
      (\<lambda>_. ret x)) ?Q ?X ?D" for x
    by (rule spec_seq [where R = "\<lambda>_. ?V (Inr x)"],
        rule spec_weaken [OF discard_backup_spec [where S = "R x" and \<phi> = \<phi> and d = d and L = L1 and M = M1 and X = ?X]])
      (auto intro!: spec_ret elim!: broken_mono)
  let ?body = "seq (ctx_disk (validate_stream_dir root d)) (\<lambda>_.
     seq (ctx_disk (txn_io (io_read d ''meta.json''))) (\<lambda>bs.
     seq (ctx_disk (write_journal F d (u\<lparr>un_metadata := bs\<rparr>))) (\<lambda>_.
     seq (attempt_act (seq operation (\<lambda>x. seq (ctx_disk (commit_journal d)) (\<lambda>_. ret x)))) (\<lambda>v. case v of
       Inl er \<Rightarrow> rollback F root old (u\<lparr>un_metadata := bs\<rparr>) er
     | Inr x \<Rightarrow>
         seq (if r then seq (attempt_act (ctx_disk (io_remove d ''replace.backup''))) (\<lambda>_. ret ()) else ret ()) (\<lambda>_. ret x)))))"
  have "spec (at_ctx old t (has \<phi> d ?A)) ?body ?Q ?X ?D"
  proof (rule spec_seq [OF valid], rule spec_seq [OF read])
    fix bs
    have last: "spec (?V v) (case v of Inl er \<Rightarrow> rollback F root old u er | Inr x \<Rightarrow>
        seq (if r then seq (attempt_act (ctx_disk (io_remove d ''replace.backup''))) (\<lambda>_. ret ()) else ret ()) (\<lambda>_. ret x)) ?Q ?X ?D" for v
      using undo finish by (cases v) auto
    have "u\<lparr>un_metadata := M\<rparr> = u" by (simp add: u)
    with spec_seq [OF journal spec_seq [OF work last]]
    show "spec (\<lambda>c. bs = M \<and> at_ctx old t (has \<phi> d ?A) c) (seq (ctx_disk (write_journal F d (u\<lparr>un_metadata := bs\<rparr>))) (\<lambda>_.
     seq (attempt_act (seq operation (\<lambda>x. seq (ctx_disk (commit_journal d)) (\<lambda>_. ret x)))) (\<lambda>v. case v of
       Inl er \<Rightarrow> rollback F root old (u\<lparr>un_metadata := bs\<rparr>) er
     | Inr x \<Rightarrow>
         seq (if r then seq (attempt_act (ctx_disk (io_remove d ''replace.backup''))) (\<lambda>_. ret ()) else ret ()) (\<lambda>_. ret x)))) ?Q ?X ?D"
      by (cases "bs = M") (simp_all add: spec_def)
  qed
  moreover have "append_transaction F root r operation c = ?body c" if "cx_entry c = old" for c
    unfolding append_transaction_def Let_def u undo.update_convs that old(2) d(2) if_not_P [OF old(1)] by (rule refl)
  ultimately show ?thesis by (simp add: spec_def)
qed

end
