(* ===== verification/DS_File_Ops.thy ===== *)
theory DS_File_Ops
  imports DS_File
begin

text \<open>
  The operations of the file backend: reading through the index, removal and
  the delete cascade, loading a root at startup, and every operation of the
  \<open>Storage\<close> trait (\<open>storage/file/reads.rs\<close>, \<open>writes.rs\<close>, \<open>recovery.rs\<close>,
  \<open>storage_impl.rs\<close>). A panic and a walk that does not return are results \<open>None\<close>.
\<close>

section \<open>Reading\<close>

definition never_returns :: "('s, 'e, 'a) act" where
  "never_returns s = (s, None)"

definition of_run :: "('e + 'a) option \<Rightarrow> ('s, 'e, 'a) act" where
  "of_run r s = (s, r)"

text \<open>One positional read for the whole range, then a slice per message; a slice out of range panics.\<close>

definition read_messages :: "string \<Rightarrow> message_index list \<Rightarrow> bytes list disk_act" where
  "read_messages d idx =
     (if idx = [] then ret []
      else
        let first = mi_file_pos (hd idx);
            read_end = mi_file_pos (List.last idx) + mi_byte_len (List.last idx);
            start = (\<lambda>i. unat (saturating_sub (mi_file_pos i) first)) in
        seq (map_err (\<lambda>e. Storage (''failed to read message data: '' @ io_text e))
              (io_read_at d ''data.log'' first (saturating_sub read_end first))) (\<lambda>bs.
        if list_all (\<lambda>i. start i + unat (mi_byte_len i) \<le> length bs) idx
        then ret (map (\<lambda>i. slice (start i) (start i + unat (mi_byte_len i)) bs) idx)
        else never_returns))"

definition read_local_file_messages :: "file_entry \<Rightarrow> offset \<Rightarrow> offset \<Rightarrow> read_result disk_act" where
  "read_local_file_messages e from nxt =
     (case message_range mi_offset (fe_index e) from None of (a, b) \<Rightarrow>
      seq (read_messages (fe_dir e) (slice a b (fe_index e))) (\<lambda>msgs.
      ret \<lparr>rr_messages = msgs, rr_next_offset = nxt, rr_at_tail = True, rr_closed = fe_closed e\<rparr>))"

definition file_prepare_read :: "file_entry \<Rightarrow> offset \<Rightarrow> pending_read disk_act" where
  "file_prepare_read e from =
     seq (of_res (ensure_available e)) (\<lambda>_.
     let nxt = file_next_offset e in
     if offset_is_now from then
       ret (Complete \<lparr>rr_messages = [], rr_next_offset = nxt, rr_at_tail = True, rr_closed = fe_closed e\<rparr>)
     else case fe_fork_info e of
       None \<Rightarrow> seq (read_local_file_messages e from nxt) (\<lambda>r. ret (Complete r))
     | Some info \<Rightarrow> seq (read_local_file_messages e from nxt) (\<lambda>r. ret (Fork info r)))"

definition file_fork_lookup :: "(string, file_entry) fmap \<Rightarrow> string \<Rightarrow> fork_info option res" where
  "file_fork_lookup streams n = Inr (Option.bind (fmlookup streams n) fe_fork_info)"

fun file_read_segments :: "(string, file_entry) fmap \<Rightarrow> offset \<Rightarrow> offset \<Rightarrow> read_segment list \<Rightarrow> bytes list disk_act" where
  "file_read_segments streams from up_to [] = ret []"
| "file_read_segments streams from up_to (seg # segs) =
     (case fmlookup streams (seg_name seg) of
        None \<Rightarrow> file_read_segments streams from up_to segs
      | Some e \<Rightarrow>
        seq (of_res (ensure_available e)) (\<lambda>_.
        let bound = (case read_up_to seg of None \<Rightarrow> up_to | Some b \<Rightarrow> offset_min b up_to) in
        (case message_range mi_offset (fe_index e) from (Some bound) of (a, b) \<Rightarrow>
        seq (read_messages (fe_dir e) (slice a b (fe_index e))) (\<lambda>msgs.
        seq (file_read_segments streams from up_to segs) (\<lambda>rest.
        ret (msgs @ rest))))))"

definition file_read_source_chain :: "(string, file_entry) fmap \<Rightarrow> string \<Rightarrow> offset \<Rightarrow> offset \<Rightarrow> bytes list disk_act" where
  "file_read_source_chain streams source from up_to =
     seq (of_run (build_read_plan source (file_fork_lookup streams))) (\<lambda>plan.
     file_read_segments streams from up_to plan)"

definition file_finish_read :: "(string, file_entry) fmap \<Rightarrow> offset \<Rightarrow> pending_read \<Rightarrow> read_result disk_act" where
  "file_finish_read streams from pending = (case pending of
     Complete r \<Rightarrow> ret r
   | Fork info local \<Rightarrow>
       if offset_is_start from \<or> offset_lt from (fork_offset info) then
         seq (file_read_source_chain streams (source_name info) from (fork_offset info)) (\<lambda>msgs.
         ret (local\<lparr>rr_messages := msgs @ rr_messages local\<rparr>))
       else ret local)"

section \<open>The store\<close>

definition lookup_stream :: "string \<Rightarrow> file_entry fs_act" where
  "lookup_stream name s = (case fmlookup (fs_streams s) name of
     None \<Rightarrow> raise (NotFound name) s
   | Some e \<Rightarrow> ret e s)"

text \<open>\<open>get_stream\<close>, the lock, and \<open>ensure_available\<close>.\<close>

definition available_stream :: "string \<Rightarrow> file_entry fs_act" where
  "available_stream name = seq (lookup_stream name) (\<lambda>e. seq (of_res (ensure_available e)) (\<lambda>_. ret e))"

definition put_entry :: "string \<Rightarrow> file_entry \<Rightarrow> unit fs_act" where
  "put_entry name e = modify_state (\<lambda>s. s\<lparr>fs_streams := fmupd name e (fs_streams s)\<rparr>)"

definition save_metadata :: "file_env \<Rightarrow> string \<Rightarrow> file_entry \<Rightarrow> unit fs_act" where
  "save_metadata F name e = (\<lambda>s. fs_disk (write_metadata_for F (fs_root_dir s) name e) s)"

text \<open>A failure that is only logged.\<close>

definition warn_only :: "('s, 'e, 'a) act \<Rightarrow> ('s, 'd, unit) act" where
  "warn_only m = seq (attempt_act m) (\<lambda>_. ret ())"

definition release_total :: "u64 \<Rightarrow> (fstore, 'e, unit) act" where
  "release_total n = modify_state (\<lambda>s. s\<lparr>fs_total_bytes := release_bytes (fs_total_bytes s) n\<rparr>)"

definition file_hard_remove_stream :: "file_env \<Rightarrow> string \<Rightarrow> fork_info option fs_act" where
  "file_hard_remove_stream F name s = (case fmlookup (fs_streams s) name of
     None \<Rightarrow> ret None s
   | Some e \<Rightarrow>
       seq (modify_state (\<lambda>s. s\<lparr>fs_streams := fmdrop name (fs_streams s)\<rparr>)) (\<lambda>_.
       seq (fs_disk (remove_stream_dir F (fs_root_dir s) (fe_dir e))) (\<lambda>_.
       seq (release_total (fe_total_bytes e)) (\<lambda>_.
       ret (fe_fork_info e)))) s)"

lemma fs_disk_streams [simp]: "fs_streams (fst (fs_disk m s)) = fs_streams s"
  by (simp add: fs_disk_def split: prod.splits)

text \<open>The cascade of \<open>cascade_delete\<close>; failures are logged and the walk goes on.\<close>

function file_cascade_delete :: "file_env \<Rightarrow> fstore \<Rightarrow> string \<Rightarrow> fstore \<times> (error + unit) option" where
  "file_cascade_delete F s cur = (case fmlookup (fs_streams s) cur of
     None \<Rightarrow> ret () s
   | Some p \<Rightarrow>
       let p' = p\<lparr>fe_ref_count := saturating_sub (fe_ref_count p) 1\<rparr> in
       if fe_state p' = Tombstone \<and> fe_ref_count p' = 0 then
         (let removed = fs_disk (remove_stream_dir F (fs_root_dir s) (fe_dir p'))
                (s\<lparr>fs_streams := fmdrop cur (fs_streams s)\<rparr>);
              s' = (case snd removed of
                      Some (Inr _) \<Rightarrow> fst (release_total (fe_total_bytes p') (fst removed) :: fstore \<times> (error + unit) option)
                    | _ \<Rightarrow> fst removed) in
          if snd removed = None then (s', None)
          else case fe_fork_info p' of
            Some fi \<Rightarrow> file_cascade_delete F s' (source_name fi)
          | None \<Rightarrow> ret () s')
       else warn_only (save_metadata F cur p') (s\<lparr>fs_streams := fmupd cur p' (fs_streams s)\<rparr>))"
  by pat_completeness auto
termination
proof (relation "measure (\<lambda>(_, s, _). card (fmdom' (fs_streams s)))", simp)
  fix F s cur p fi p' and removed :: "fstore \<times> (error + unit) option" and s'
  assume a: "fmlookup (fs_streams s) cur = Some p"
    and r: "removed = fs_disk (remove_stream_dir F (fs_root_dir s) (fe_dir p')) (s\<lparr>fs_streams := fmdrop cur (fs_streams s)\<rparr>)"
    and s': "s' = (case snd removed of
        Some (Inr _) \<Rightarrow> fst (release_total (fe_total_bytes p') (fst removed) :: fstore \<times> (error + unit) option)
      | _ \<Rightarrow> fst removed)"
  have "fs_streams s' = fmdrop cur (fs_streams s)"
    by (simp add: s' r release_total_def modify_state_def split: option.splits sum.splits)
  moreover from a have "cur \<in> fmdom' (fs_streams s)" by (simp add: fmdom'I)
  then have "card (fmdom' (fs_streams s) - {cur}) < card (fmdom' (fs_streams s))"
    by (intro psubset_card_mono) auto
  ultimately show "((F, s', source_name fi), F, s, cur) \<in> measure (\<lambda>(_, s, _). card (fmdom' (fs_streams s)))"
    by simp
qed

declare file_cascade_delete.simps [simp del]

definition cascade_from :: "file_env \<Rightarrow> fork_info option \<Rightarrow> unit fs_act" where
  "cascade_from F fi = (\<lambda>s. case fi of Some i \<Rightarrow> file_cascade_delete F s (source_name i) | None \<Rightarrow> ret () s)"

definition file_remove_for_recreate :: "file_env \<Rightarrow> string \<Rightarrow> unit fs_act" where
  "file_remove_for_recreate F name = seq (file_hard_remove_stream F name) (cascade_from F)"

section \<open>Startup\<close>

text \<open>
  The loop of \<open>rebuild_index\<close>. Each round moves the cursor by at least a record
  header, so a bound of one round per byte of the log is enough.
\<close>

fun rebuild_loop :: "nat \<Rightarrow> string \<Rightarrow> u64 \<Rightarrow> u64 \<Rightarrow> message_index list \<Rightarrow> u64 \<Rightarrow> u64 \<Rightarrow> (message_index list \<times> u64 \<times> u64) disk_act" where
  "rebuild_loop 0 d file_len cursor idx sq bo = never_returns"
| "rebuild_loop (Suc k) d file_len cursor idx sq bo =
     (if \<not> cursor < file_len then ret (idx, sq, bo)
      else
      seq (map_err (\<lambda>e. Storage (''failed to seek stream log: '' @ io_text e)) io_plain) (\<lambda>_.
      seq (map_err (\<lambda>e. Storage (''failed to read stream log header: '' @ io_text e))
            (io_read_upto d ''data.log'' cursor RECORD_HEADER_BYTES)) (\<lambda>header.
      let cut = seq (map_err (\<lambda>e. Storage (''failed to truncate partial record: '' @ io_text e))
                  (io_set_len d ''data.log'' cursor)) (\<lambda>_. ret (idx, sq, bo)) in
      if header = [] then ret (idx, sq, bo)
      else if length header < RECORD_HEADER_BYTES then cut
      else
        let record_len = of_nat (from_le32 header);
            record_end = cursor + of_nat RECORD_HEADER_BYTES + record_len in
        if record_end > file_len then cut
        else rebuild_loop k d file_len record_end
               (idx @ [\<lparr>mi_offset = offset_new sq bo, mi_file_pos = cursor + of_nat RECORD_HEADER_BYTES, mi_byte_len = record_len\<rparr>])
               (sq + 1) (bo + record_len))))"

definition log_len :: "string \<Rightarrow> u64 disk_act" where
  "log_len d = map_err (\<lambda>e. Storage (''failed to stat stream log: '' @ io_text e)) (io_len d ''data.log'')"

definition rebuild_index :: "string \<Rightarrow> (message_index list \<times> u64 \<times> u64) disk_act" where
  "rebuild_index d =
     seq (log_len d) (\<lambda>file_len.
     seq (rebuild_loop (Suc (unat file_len)) d file_len 0 [] 0 0) (\<lambda>r.
     seq (map_err (\<lambda>e. Storage (''failed to seek end of stream log: '' @ io_text e)) io_plain) (\<lambda>_.
     ret r)))"

text \<open>A rebuilt offset always parses.\<close>

definition restore_fork_offsets :: "message_index list \<Rightarrow> fork_info \<Rightarrow> message_index list \<times> u64 \<times> u64" where
  "restore_fork_offsets idx fork =
     (let (sq, bo) = (case parse_components (fork_offset fork) of Some rb \<Rightarrow> rb | None \<Rightarrow> (0, 0)) in
      (map (\<lambda>m. case parse_components (mi_offset m) of
          Some (ls, lb) \<Rightarrow> m\<lparr>mi_offset := offset_new (sq + ls) (bo + lb)\<rparr>
        | None \<Rightarrow> m) idx, sq, bo))"

text \<open>The entry of a directory from its metadata and its log.\<close>

definition loaded_entry :: "string \<Rightarrow> stream_meta \<Rightarrow> message_index list \<times> u64 \<times> u64 \<Rightarrow> u64 \<Rightarrow> file_entry" where
  "loaded_entry d m = (\<lambda>(idx0, sq0, bo0) len.
     let (idx, sq, bo) = (case sm_fork_info m of
            Some fork \<Rightarrow> (case restore_fork_offsets idx0 fork of (i, s, b) \<Rightarrow> (i, sq0 + s, bo0 + b))
          | None \<Rightarrow> (idx0, sq0, bo0)) in
     \<lparr>fe_unavailable = False, fe_config = sm_config m, fe_index = idx, fe_closed = sm_closed m,
      fe_next_read_seq = sq, fe_next_byte_offset = bo, fe_total_bytes = bo0, fe_created_at = sm_created_at m,
      fe_updated_at = sm_updated_at m, fe_producers = sm_producers m, fe_notify = 0, fe_last_seq = sm_last_seq m,
      fe_file_len = len, fe_dir = d, fe_fork_info = sm_fork_info m, fe_ref_count = sm_ref_count m,
      fe_state = sm_state m\<rparr>)"

text \<open>
  A stream directory from its metadata on; the clock is read for the expiry
  check and for the cutoff of stale producers. \<open>None\<close>: nothing was loaded.
\<close>

definition load_entry :: "env \<Rightarrow> file_env \<Rightarrow> time \<Rightarrow> time \<Rightarrow> string \<Rightarrow> string \<Rightarrow> stream_meta \<Rightarrow> (string \<times> file_entry) option disk_act" where
  "load_entry E F now now' root d m =
     seq (open_stream_file root d) (\<lambda>_.
     seq (rebuild_index d) (\<lambda>built.
     seq (log_len d) (\<lambda>len.
     let e0 = loaded_entry d m built len;
         expired = is_stream_expired now (fe_config e0) in
     if expired \<and> fe_ref_count e0 = 0 then
       seq (remove_stream_dir F root d) (\<lambda>_. ret None)
     else
       let e1 = (if expired then e0\<lparr>fe_state := Tombstone\<rparr> else e0);
           e2 = e1\<lparr>fe_producers := cleanup_stale_producers E now' (fe_producers e1)\<rparr> in
       seq (warn_only (write_metadata_for F root (sm_name m) e2)) (\<lambda>_.
       ret (Some (sm_name m, e2))))))"

definition load_recovered :: "env \<Rightarrow> file_env \<Rightarrow> time \<Rightarrow> time \<Rightarrow> string \<Rightarrow> string \<Rightarrow> (string \<times> file_entry) option disk_act" where
  "load_recovered E F now now' root d =
     seq (recover_append F root d) (\<lambda>_.
     seq (path_exists d ''meta.json'') (\<lambda>there.
     if \<not> there then ret None
     else
     seq (map_err (\<lambda>e. Storage (''failed to read stream metadata '' @ dir_display root d @ ''/meta.json: '' @ io_text e))
           (io_read d ''meta.json'')) (\<lambda>bs. case meta_from_slice F bs of
       Inl t \<Rightarrow> raise (Storage (''failed to parse stream metadata '' @ dir_display root d @ ''/meta.json: '' @ t))
     | Inr m \<Rightarrow> load_entry E F now now' root d m)))"

definition is_dir :: "'e + node option \<Rightarrow> bool" where
  "is_dir st = (case st of Inr (Some (NDir _)) \<Rightarrow> True | _ \<Rightarrow> False)"

lemma is_dir_iff [simp]: "is_dir st \<longleftrightarrow> (\<exists>fs. st = Inr (Some (NDir fs)))"
  by (simp add: is_dir_def split: sum.splits option.splits node.splits)

text \<open>One directory entry of the root.\<close>

definition load_stream :: "env \<Rightarrow> file_env \<Rightarrow> time \<Rightarrow> time \<Rightarrow> string \<Rightarrow> string \<Rightarrow> (string \<times> file_entry) option disk_act" where
  "load_stream E F now now' root d =
     seq (map_err (\<lambda>e. Storage (''failed to inspect storage entry: '' @ io_text e)) io_plain) (\<lambda>_.
     seq (attempt_act (io_stat d)) (\<lambda>st.
     if \<not> is_dir st then ret None
     else
     seq (attempt_act (validate_stream_dir root d)) (\<lambda>v. case v of
       Inl _ \<Rightarrow> ret None
     | Inr _ \<Rightarrow> load_recovered E F now now' root d)))"

definition add_saturating :: "u64 \<Rightarrow> u64 \<Rightarrow> u64" where
  "add_saturating a b = (case checked_add a b of Some n \<Rightarrow> n | None \<Rightarrow> - 1)"

fun load_streams :: "env \<Rightarrow> file_env \<Rightarrow> nat \<Rightarrow> string list \<Rightarrow> (fstore, error, unit) act" where
  "load_streams E F i [] = ret ()"
| "load_streams E F i (d # ds) =
     seq (\<lambda>s. fs_disk (load_stream E F (now_at E i) (now_at E (i + 1)) (fs_root_dir s) d) s) (\<lambda>r.
     seq (modify_state (\<lambda>s. case r of None \<Rightarrow> s
            | Some (name, e) \<Rightarrow> s\<lparr>fs_total_bytes := add_saturating (fs_total_bytes s) (fe_total_bytes e),
                                   fs_streams := fmupd name e (fs_streams s)\<rparr>)) (\<lambda>_.
     load_streams E F (i + 2) ds))"

text \<open>\<open>FileStorage::new\<close>; \<open>listing\<close> is what \<open>read_dir\<close> yields.\<close>

definition file_storage_new :: "env \<Rightarrow> file_env \<Rightarrow> string \<Rightarrow> u64 \<Rightarrow> u64 \<Rightarrow> string list \<Rightarrow> world \<Rightarrow> fstore \<times> (error + unit) option" where
  "file_storage_new E F root max_total max_stream listing w =
     seq (fs_disk (map_err (io_fail ''create storage directory'' (''failed to create storage directory '' @ root)) io_plain)) (\<lambda>_.
     seq (fs_disk (map_err (\<lambda>e. Storage (''failed to canonicalize storage directory '' @ root @ '': '' @ io_text e)) io_plain)) (\<lambda>_.
     seq (fs_disk (map_err (\<lambda>e. Storage (''failed to read storage directory '' @ root @ '': '' @ io_text e)) io_plain)) (\<lambda>_.
     load_streams E F 0 listing)))
     \<lparr>fs_streams = fmempty, fs_total_bytes = 0, fs_max_total_bytes = max_total, fs_max_stream_bytes = max_stream,
      fs_root_dir = root, fs_world = w\<rparr>"

section \<open>Appending\<close>

definition apply_metadata_ctx :: "env \<Rightarrow> time \<Rightarrow> time \<Rightarrow> string option \<Rightarrow> unit ctx_act" where
  "apply_metadata_ctx E now ttl_now pending =
     seq (set_entry (\<lambda>e. e\<lparr>fe_updated_at := Some now,
            fe_last_seq := (case pending of Some n \<Rightarrow> Some n | None \<Rightarrow> fe_last_seq e)\<rparr>)) (\<lambda>_.
     (\<lambda>c. case renew_ttl E ttl_now (fe_config (cx_entry c)) of
        Inl er \<Rightarrow> raise er c
      | Inr (cfg, _) \<Rightarrow> set_entry (\<lambda>e. e\<lparr>fe_config := cfg\<rparr>) c))"

definition write_metadata_ctx :: "file_env \<Rightarrow> string \<Rightarrow> string \<Rightarrow> unit ctx_act" where
  "write_metadata_ctx F root name = (\<lambda>c. ctx_disk (write_metadata_for F root name (cx_entry c)) c)"

definition notify_ctx :: "(ctx, 'e, unit) act" where
  "notify_ctx = set_entry (\<lambda>e. e\<lparr>fe_notify := Suc (fe_notify e)\<rparr>)"

definition append_operation ::
  "env \<Rightarrow> file_env \<Rightarrow> u64 \<Rightarrow> u64 \<Rightarrow> string \<Rightarrow> string \<Rightarrow> bytes list \<Rightarrow> string option \<Rightarrow> bool \<Rightarrow> offset \<Rightarrow> append_result ctx_act" where
  "append_operation E F max_total max_stream root name msgs pending close start =
     seq (append_records max_total max_stream name msgs) (\<lambda>_.
     seq (apply_metadata_ctx E (now_at E 1) (now_at E 2) pending) (\<lambda>_.
     seq (set_entry (\<lambda>e. e\<lparr>fe_closed := fe_closed e \<or> close\<rparr>)) (\<lambda>_.
     seq (write_metadata_ctx F root name) (\<lambda>_.
     seq notify_ctx (\<lambda>_.
     (\<lambda>c. ret \<lparr>ar_start_offset = start, ar_next_offset = file_next_offset (cx_entry c), ar_closed = fe_closed (cx_entry c)\<rparr> c))))))"

definition file_append_batch ::
  "env \<Rightarrow> file_env \<Rightarrow> string \<Rightarrow> bytes list \<Rightarrow> string \<Rightarrow> string option \<Rightarrow> bool \<Rightarrow> append_result fs_act" where
  "file_append_batch E F name msgs ct sq close =
     seq (of_res (validate_batch_shape msgs close)) (\<lambda>_.
     seq (available_stream name) (\<lambda>e.
     seq (of_res (precheck_batch_append (now_at E 0) (fe_config e) (fe_state e) (fe_closed e) (fe_last_seq e)
             name (if msgs \<noteq> [] then Some ct else None) sq)) (\<lambda>pending.
     (\<lambda>s. with_entry name e (append_transaction F (fs_root_dir s) False
        (append_operation E F (fs_max_total_bytes s) (fs_max_stream_bytes s) (fs_root_dir s) name msgs pending close
           (file_next_offset e))) s))))"

definition producer_operation ::
  "env \<Rightarrow> file_env \<Rightarrow> u64 \<Rightarrow> u64 \<Rightarrow> string \<Rightarrow> string \<Rightarrow> bytes list \<Rightarrow> string option \<Rightarrow> producer_headers \<Rightarrow> bool \<Rightarrow> producer_append_result ctx_act" where
  "producer_operation E F max_total max_stream root name msgs pending p should_close =
     (let now = now_at E 2 in
     seq (append_records max_total max_stream name msgs) (\<lambda>_.
     seq (set_entry (\<lambda>e. if should_close then e\<lparr>fe_closed := True\<rparr> else e)) (\<lambda>_.
     seq (apply_metadata_ctx E now (now_at E 3) pending) (\<lambda>_.
     seq (set_entry (\<lambda>e. e\<lparr>fe_producers := (fe_producers e)(prod_id p \<mapsto>
            \<lparr>ps_epoch = prod_epoch p, ps_last_seq = prod_seq p, ps_updated_at = now\<rparr>)\<rparr>)) (\<lambda>_.
     seq (write_metadata_ctx F root name) (\<lambda>_.
     (\<lambda>c. ret (Accepted (prod_epoch p) (prod_seq p) (file_next_offset (cx_entry c)) (fe_closed (cx_entry c))) c)))))))"

definition file_append_with_producer ::
  "env \<Rightarrow> file_env \<Rightarrow> string \<Rightarrow> bytes list \<Rightarrow> string \<Rightarrow> producer_headers \<Rightarrow> bool \<Rightarrow> string option \<Rightarrow> producer_append_result fs_act" where
  "file_append_with_producer E F name msgs ct p should_close sq =
     seq (available_stream name) (\<lambda>e0.
     (case precheck_producer_append E (now_at E 0) (now_at E 1) (fe_config e0) (fe_state e0) (fe_closed e0)
             (fe_last_seq e0) (fe_producers e0) name ct p msgs sq of
        (ps, checked) \<Rightarrow>
        let e = e0\<lparr>fe_producers := ps\<rparr> in
        seq (put_entry name e) (\<lambda>_.
        (case checked of
           Inl er \<Rightarrow> raise er
         | Inr (PrecheckDuplicate ep sq') \<Rightarrow> ret (Duplicate ep sq' (file_next_offset e) (fe_closed e))
         | Inr (PrecheckAccept pending) \<Rightarrow>
           (\<lambda>s. with_entry name e (append_transaction F (fs_root_dir s) False
              (producer_operation E F (fs_max_total_bytes s) (fs_max_stream_bytes s) (fs_root_dir s) name msgs pending p should_close)) s)))))"

section \<open>Reading, deleting, creating, replacing\<close>

definition file_read :: "env \<Rightarrow> file_env \<Rightarrow> string \<Rightarrow> offset \<Rightarrow> read_result fs_act" where
  "file_read E F name from =
     seq (available_stream name) (\<lambda>e.
     seq (of_res (check_stream_access (now_at E 0) (fe_config e) (fe_state e) name)) (\<lambda>_.
     seq (if ttl_seconds (fe_config e) \<noteq> None then
            seq (of_res (check_stream_access (now_at E 1) (fe_config e) (fe_state e) name)) (\<lambda>_.
            seq (fs_disk (file_prepare_read e from)) (\<lambda>pending.
            seq (of_res (renew_ttl E (now_at E 2) (fe_config e))) (\<lambda>(cfg, _).
            let e' = e\<lparr>fe_config := cfg\<rparr> in
            seq (put_entry name e') (\<lambda>_.
            seq (save_metadata F name e') (\<lambda>_. ret pending)))))
          else fs_disk (file_prepare_read e from)) (\<lambda>pending.
     (\<lambda>s. fs_disk (file_finish_read (fs_streams s) from pending) s))))"

definition file_delete :: "file_env \<Rightarrow> string \<Rightarrow> unit fs_act" where
  "file_delete F name =
     seq (available_stream name) (\<lambda>e.
     seq (of_res (evaluate_delete name (fe_state e) (fe_ref_count e))) (\<lambda>disp. case disp of
       DispTombstone \<Rightarrow>
         let e' = e\<lparr>fe_state := Tombstone\<rparr> in
         seq (put_entry name e') (\<lambda>_. save_metadata F name e')
     | HardDelete \<Rightarrow> seq (file_hard_remove_stream F name) (cascade_from F)))"

definition file_head :: "env \<Rightarrow> string \<Rightarrow> stream_metadata fs_act" where
  "file_head E name =
     seq (available_stream name) (\<lambda>e.
     seq (of_res (check_stream_access (now_at E 0) (fe_config e) (fe_state e) name)) (\<lambda>_.
     ret (file_metadata e)))"

text \<open>The directory, the log and the metadata of a new stream; what fails is undone as far as it can be.\<close>

definition new_stream_log :: "file_env \<Rightarrow> string \<Rightarrow> string \<Rightarrow> string \<Rightarrow> u64 disk_act" where
  "new_stream_log F what root d =
     seq (map_err (io_fail (''create '' @ what @ '' directory'') (''failed to create '' @ what @ '' directory '' @ dir_display root d))
            (io_create_dir d)) (\<lambda>_.
     seq (validate_stream_dir root d) (\<lambda>_.
     seq (open_stream_file root d) (\<lambda>_.
     seq (attempt_act (io_len d ''data.log'')) (\<lambda>l. ret (case l of Inr n \<Rightarrow> n | Inl _ \<Rightarrow> 0)))))"

definition with_new_entry :: "file_entry \<Rightarrow> (ctx, 'e, 'a) act \<Rightarrow> (fstore, 'e, 'a \<times> file_entry) act" where
  "with_new_entry e m s = (case m \<lparr>cx_total = fs_total_bytes s, cx_entry = e, cx_world = fs_world s\<rparr> of
     (c, r) \<Rightarrow> (s\<lparr>fs_total_bytes := cx_total c, fs_world := cx_world c\<rparr>, map_option (map_sum id (\<lambda>x. (x, cx_entry c))) r))"

definition publish_stream :: "file_env \<Rightarrow> string \<Rightarrow> file_entry \<Rightarrow> unit fs_act" where
  "publish_stream F name e =
     seq (attempt_act (save_metadata F name e)) (\<lambda>r. case r of
       Inl er \<Rightarrow>
         seq (release_total (fe_total_bytes e)) (\<lambda>_.
         seq (warn_only (\<lambda>s. fs_disk (remove_stream_dir F (fs_root_dir s) (fe_dir e)) s)) (\<lambda>_. raise er))
     | Inr _ \<Rightarrow> put_entry name e)"

text \<open>The initial records of a new stream; on failure its directory goes.\<close>

definition initial_records :: "file_env \<Rightarrow> string \<Rightarrow> file_entry \<Rightarrow> bytes list \<Rightarrow> file_entry fs_act" where
  "initial_records F name e msgs =
     (\<lambda>s. seq (attempt_act (with_new_entry e
            (append_initial_records (fs_max_total_bytes s) (fs_max_stream_bytes s) name msgs))) (\<lambda>r. case r of
       Inl er \<Rightarrow> seq (warn_only (fs_disk (remove_stream_dir F (fs_root_dir s) (fe_dir e)))) (\<lambda>_. raise er)
     | Inr (_, e') \<Rightarrow> ret e') s)"

definition file_create_stream_with_data ::
  "env \<Rightarrow> file_env \<Rightarrow> string \<Rightarrow> stream_options \<Rightarrow> bytes list \<Rightarrow> bool \<Rightarrow> create_with_data_result fs_act" where
  "file_create_stream_with_data E F name opts msgs should_close0 =
     seq (of_res (resolve E opts (now_at E 0))) (\<lambda>c.
     let should_close = should_close0 \<or> created_closed c;
         create = (\<lambda>_.
           seq (of_res (stream_dir_component F name)) (\<lambda>d.
           seq (\<lambda>s. fs_disk (new_stream_log F ''stream'' (fs_root_dir s) d) s) (\<lambda>len.
           seq (if msgs \<noteq> [] then initial_records F name (file_entry_new c len d (now_at E 2)) msgs
                else ret (file_entry_new c len d (now_at E 2))) (\<lambda>e1.
           let e2 = (if should_close then e1\<lparr>fe_closed := True\<rparr> else e1) in
           seq (publish_stream F name e2) (\<lambda>_.
           ret \<lparr>cw_status = Created, cw_next_offset = file_next_offset e2, cw_closed = fe_closed e2\<rparr>))))) in
     (\<lambda>s. case fmlookup (fs_streams s) name of
        None \<Rightarrow> create () s
      | Some e \<Rightarrow>
        seq (of_res (ensure_available e)) (\<lambda>_.
        (case evaluate_root_create (now_at E 1) name (fe_config e) (fe_state e) (fe_ref_count e) c of
           RemoveExpired \<Rightarrow> seq (file_remove_for_recreate F name) create
         | DispAlreadyExists \<Rightarrow> ret \<lparr>cw_status = AlreadyExists, cw_next_offset = file_next_offset e, cw_closed = fe_closed e\<rparr>
         | Conflict er \<Rightarrow> raise er)) s))"

definition replace_operation ::
  "file_env \<Rightarrow> u64 \<Rightarrow> u64 \<Rightarrow> string \<Rightarrow> string \<Rightarrow> stream_config \<Rightarrow> bytes list \<Rightarrow> bool \<Rightarrow> append_result ctx_act" where
  "replace_operation F max_total max_stream root name cfg msgs closed =
     seq (set_entry (\<lambda>e. e\<lparr>fe_file_len := 0, fe_index := [], fe_next_read_seq := 0, fe_next_byte_offset := 0,
            fe_total_bytes := 0\<rparr>)) (\<lambda>_.
     seq (\<lambda>c. ctx_disk (map_err (\<lambda>e. Storage (io_text e)) (io_set_len (fe_dir (cx_entry c)) ''data.log'' 0)) c) (\<lambda>_.
     seq (set_entry (\<lambda>e. e\<lparr>fe_config := cfg, fe_closed := closed, fe_producers := Map.empty, fe_last_seq := None,
            fe_updated_at := None\<rparr>)) (\<lambda>_.
     seq (append_records max_total max_stream name msgs) (\<lambda>_.
     seq (write_metadata_ctx F root name) (\<lambda>_.
     (\<lambda>c. ret \<lparr>ar_start_offset = offset_new 0 0, ar_next_offset = file_next_offset (cx_entry c), ar_closed = closed\<rparr> c))))))"

definition file_replace_stream ::
  "env \<Rightarrow> file_env \<Rightarrow> string \<Rightarrow> stream_options \<Rightarrow> bytes list \<Rightarrow> bool \<Rightarrow> append_result fs_act" where
  "file_replace_stream E F name opts msgs closed0 =
     seq (of_res (resolve E opts (now_at E 0))) (\<lambda>c.
     let closed = closed0 \<or> created_closed c in
     seq (available_stream name) (\<lambda>cur.
     seq (of_res (check_replace (fe_ref_count cur) (fe_fork_info cur))) (\<lambda>_.
     seq (\<lambda>s. with_entry name cur (append_transaction F (fs_root_dir s) True
        (replace_operation F (fs_max_total_bytes s) (fs_max_stream_bytes s) (fs_root_dir s) name c msgs closed)) s) (\<lambda>r.
     seq (release_total (fe_total_bytes cur)) (\<lambda>_. ret r)))))"

section \<open>Listing, notification, expiry\<close>

definition file_subscribe :: "env \<Rightarrow> string \<Rightarrow> nat option fs_act" where
  "file_subscribe E name s = (case fmlookup (fs_streams s) name of
     None \<Rightarrow> ret None s
   | Some e \<Rightarrow> seq (of_res (ensure_available e)) (\<lambda>_.
       ret (if \<not> is_stream_visible (now_at E 0) (fe_config e) (fe_state e) then None else Some (fe_notify e))) s)"

fun file_visible_streams :: "env \<Rightarrow> (string, file_entry) fmap \<Rightarrow> nat \<Rightarrow> string list \<Rightarrow> (string \<times> stream_metadata) list res" where
  "file_visible_streams E streams i [] = Inr []"
| "file_visible_streams E streams i (n # ns) = (case fmlookup streams n of
     None \<Rightarrow> file_visible_streams E streams (Suc i) ns
   | Some e \<Rightarrow> (case ensure_available e of
       Inl er \<Rightarrow> Inl er
     | Inr _ \<Rightarrow> map_sum id (\<lambda>r. if is_stream_visible (now_at E i) (fe_config e) (fe_state e)
           then (n, file_metadata e) # r else r) (file_visible_streams E streams (Suc i) ns)))"

definition file_list_streams :: "env \<Rightarrow> string list \<Rightarrow> (string \<times> stream_metadata) list fs_act" where
  "file_list_streams E ord = (\<lambda>s. of_res (map_sum id (sort_key fst) (file_visible_streams E (fs_streams s) 0 ord)) s)"

definition file_expired_streams :: "env \<Rightarrow> fstore \<Rightarrow> string list \<Rightarrow> (string \<times> u32) list" where
  "file_expired_streams E s ord =
     List.map_filter (\<lambda>(i, n). case fmlookup (fs_streams s) n of
         Some e \<Rightarrow> if \<not> fe_unavailable e \<and> is_stream_expired (now_at E i) (fe_config e) then Some (n, fe_ref_count e) else None
       | None \<Rightarrow> None) (enumerate 0 ord)"

definition file_cleanup_one :: "file_env \<Rightarrow> string \<times> u32 \<Rightarrow> (fstore, error, unit) act" where
  "file_cleanup_one F = (\<lambda>(name, ref_count).
     case evaluate_expired_cleanup ref_count of
       DispTombstone \<Rightarrow> (\<lambda>s. case fmlookup (fs_streams s) name of
           None \<Rightarrow> ret () s
         | Some e \<Rightarrow> let e' = e\<lparr>fe_state := Tombstone\<rparr> in
             seq (put_entry name e') (\<lambda>_. warn_only (save_metadata F name e')) s)
     | HardDelete \<Rightarrow> warn_only (file_remove_for_recreate F name))"

fun file_cleanup_all :: "file_env \<Rightarrow> (string \<times> u32) list \<Rightarrow> (fstore, error, unit) act" where
  "file_cleanup_all F [] = ret ()"
| "file_cleanup_all F (x # xs) = seq (file_cleanup_one F x) (\<lambda>_. file_cleanup_all F xs)"

definition file_cleanup_expired_streams :: "env \<Rightarrow> file_env \<Rightarrow> string list \<Rightarrow> nat fs_act" where
  "file_cleanup_expired_streams E F ord = (\<lambda>s.
     let expired = file_expired_streams E s ord in
     seq (file_cleanup_all F expired) (\<lambda>_. ret (length expired)) s)"

section \<open>Subscription state\<close>

definition subscription_error :: "string \<Rightarrow> string \<Rightarrow> io_error \<Rightarrow> error" where
  "subscription_error operation what e = classify_io_failure ''file'' operation what (io_kind e)"

definition file_load_subscription_state :: "bytes option disk_act" where
  "file_load_subscription_state =
     seq (attempt_act (io_root_read ''subscriptions.json'')) (\<lambda>r. case r of
       Inr bs \<Rightarrow> ret (Some bs)
     | Inl e \<Rightarrow> if io_not_found e then ret None
         else raise (subscription_error ''read subscriptions'' ''failed to read subscription state'' e))"

text \<open>The closure of \<open>save_subscription_state\<close>: remove what an interrupted write left, then write, sync and rename.\<close>

definition save_subscriptions_io :: "bytes \<Rightarrow> unit io" where
  "save_subscriptions_io st =
     seq (seq (attempt_act (io_root_remove ''subscriptions.json.tmp'')) (\<lambda>r. case r of
            Inl e \<Rightarrow> if io_not_found e then ret () else raise e
          | Inr _ \<Rightarrow> ret ())) (\<lambda>_.
     seq (io_root_create ''subscriptions.json.tmp'') (\<lambda>_.
     seq (io_root_write ''subscriptions.json.tmp'' st) (\<lambda>_.
     seq io_plain (\<lambda>_.
     seq (io_root_rename ''subscriptions.json.tmp'' ''subscriptions.json'') (\<lambda>_.
     seq io_plain (\<lambda>_. io_plain))))))"

definition file_save_subscription_state :: "bytes \<Rightarrow> unit disk_act" where
  "file_save_subscription_state st =
     map_err (subscription_error ''persist subscriptions'' ''failed to persist subscription state'') (save_subscriptions_io st)"

section \<open>Forking\<close>

fun file_fork_source_messages :: "(string, file_entry) fmap \<Rightarrow> offset \<Rightarrow> read_segment list \<Rightarrow> bytes list disk_act" where
  "file_fork_source_messages streams off [] = ret []"
| "file_fork_source_messages streams off (seg # segs) =
     (case fmlookup streams (seg_name seg) of
        None \<Rightarrow> raise (NotFound (seg_name seg))
      | Some e \<Rightarrow>
        seq (of_res (ensure_available e)) (\<lambda>_.
        (case message_range mi_offset (fe_index e) off (read_up_to seg) of (a, b) \<Rightarrow>
        seq (read_messages (fe_dir e) (slice a b (fe_index e))) (\<lambda>msgs.
        seq (file_fork_source_messages streams off segs) (\<lambda>rest.
        ret (msgs @ rest))))))"

definition file_fork_initial_messages ::
  "env \<Rightarrow> (string, file_entry) fmap \<Rightarrow> string \<Rightarrow> offset \<Rightarrow> stream_config \<Rightarrow> fork_options \<Rightarrow> bytes list disk_act" where
  "file_fork_initial_messages E streams source off c opts =
     seq (if fo_sub_offset opts > 0 then
            seq (of_run (build_read_plan source (file_fork_lookup streams))) (\<lambda>plan.
            file_fork_source_messages streams off plan)
          else ret []) (\<lambda>msgs.
     of_res (initial_fork_messages E c opts msgs))"

text \<open>The entry of a new fork before its initial messages.\<close>

definition new_fork_entry :: "stream_config \<Rightarrow> u64 \<Rightarrow> string \<Rightarrow> time \<Rightarrow> bool \<Rightarrow> string \<Rightarrow> offset \<Rightarrow> u64 \<Rightarrow> file_entry" where
  "new_fork_entry c len d now closed src off sub =
     (let (rs, bo) = (case parse_components off of Some rb \<Rightarrow> rb | None \<Rightarrow> (0, 0)) in
      (file_entry_new c len d now)\<lparr>fe_closed := closed, fe_next_read_seq := rs, fe_next_byte_offset := bo,
        fe_fork_info := Some \<lparr>source_name = src, fork_offset = off, sub_offset = sub\<rparr>\<rparr>)"

text \<open>The source gains a reference; failing to persist it is only logged.\<close>

definition add_reference :: "file_env \<Rightarrow> string \<Rightarrow> unit fs_act" where
  "add_reference F src = (\<lambda>s. case fmlookup (fs_streams s) src of
     None \<Rightarrow> ret () s
   | Some e \<Rightarrow>
       seq (of_res (ensure_available e)) (\<lambda>_.
       let e' = e\<lparr>fe_ref_count := fe_ref_count e + 1\<rparr> in
       seq (put_entry src e') (\<lambda>_. warn_only (save_metadata F src e'))) s)"

definition file_create_fork_with_options ::
  "env \<Rightarrow> file_env \<Rightarrow> string \<Rightarrow> string \<Rightarrow> offset option \<Rightarrow> stream_options \<Rightarrow> fork_options \<Rightarrow> create_stream_result fs_act" where
  "file_create_fork_with_options E F name src_name requested sopts opts =
     seq (of_res (resolve E sopts (now_at E 0))) (\<lambda>c0.
     seq (available_stream src_name) (\<lambda>src.
     let c = (if inherit_content_type opts then c0\<lparr>content_type := content_type (fe_config src)\<rparr> else c0) in
     seq (of_res (prepare_fork_spec E (now_at E 1) (now_at E 2) src_name (fe_config src) (fe_state src)
             (file_next_offset src) requested c)) (\<lambda>(spec0, off).
     let spec = spec0\<lparr>spec_sub_offset := fo_sub_offset opts\<rparr>;
         create = (\<lambda>msgs _.
           seq (of_res (stream_dir_component F name)) (\<lambda>d.
           seq (\<lambda>s. fs_disk (new_stream_log F ''fork'' (fs_root_dir s) d) s) (\<lambda>len.
           seq (initial_records F name (new_fork_entry (spec_config spec) len d (now_at E 4) (created_closed c)
                  (spec_source_name spec) off (fo_sub_offset opts)) msgs) (\<lambda>e.
           seq (publish_stream F name e) (\<lambda>_.
           seq (add_reference F src_name) (\<lambda>_.
           ret Created)))))) in
     seq (\<lambda>s. fs_disk (file_fork_initial_messages E (fs_streams s) src_name off (spec_config spec) opts) s) (\<lambda>msgs.
     (\<lambda>s. case fmlookup (fs_streams s) name of
        None \<Rightarrow> create msgs () s
      | Some e \<Rightarrow>
        seq (of_res (ensure_available e)) (\<lambda>_.
        (case evaluate_fork_create (now_at E 3) name (fe_config e) (fe_fork_info e) (fe_state e) (fe_ref_count e) spec of
           RemoveExpired \<Rightarrow> seq (file_remove_for_recreate F name) (create msgs)
         | DispAlreadyExists \<Rightarrow> ret AlreadyExists
         | Conflict er \<Rightarrow> raise er)) s)))))"

end
