(* ===== verification/DS_File_Log.thy ===== *)
theory DS_File_Log
  imports DS_File_Txn DS_File_Ops DS_Mem_Inv
begin

text \<open>
  What the files of a stream say: the records of the log, the index over them
  and the entry of the in-memory backend that they stand for.
\<close>

section \<open>Records\<close>

lemma length_le32 [simp]: "length (le32 n) = 4"
  by (simp add: le32_def)

lemma from_le32_le32: "n < 2 ^ 32 \<Longrightarrow> from_le32 (le32 n @ rest) = n"
proof -
  assume "n < 2 ^ 32"
  then have top: "n div 16777216 < 256" by simp
  have d: "n div 65536 = n div 256 div 256" "n div 16777216 = n div 65536 div 256"
    by (simp_all flip: div_mult2_eq)
  have "n = n mod 256 + 256 * (n div 256)" "n div 256 = n div 256 mod 256 + 256 * (n div 65536)"
    "n div 65536 = n div 65536 mod 256 + 256 * (n div 16777216)"
    unfolding d by simp_all
  then have "n = n mod 256 + 256 * (n div 256 mod 256) + 65536 * (n div 65536 mod 256) + 16777216 * (n div 16777216)"
    by linarith
  with top show ?thesis by (simp add: from_le32_def le32_def)
qed

definition log_bytes :: "message list \<Rightarrow> bytes" where
  "log_bytes ms = encode_records (map msg_data ms)"

fun index_of :: "nat \<Rightarrow> message list \<Rightarrow> message_index list" where
  "index_of p [] = []"
| "index_of p (m # ms) =
     \<lparr>mi_offset = msg_offset m, mi_file_pos = of_nat (p + 4), mi_byte_len = u64_of_usize (length (msg_data m))\<rparr>
     # index_of (p + 4 + length (msg_data m)) ms"

definition small :: "bytes list \<Rightarrow> bool" where
  "small ds \<longleftrightarrow> list_all (\<lambda>d. length d < 2 ^ 32) ds"

lemma encode_record_small: "length d < 2 ^ 32 \<Longrightarrow> encode_record d = le32 (length d) @ d"
  by (simp add: encode_record_def min_def)

lemma encode_records_simps [simp]:
  "encode_records [] = []" "encode_records (d # ds) = encode_record d @ encode_records ds"
  "encode_records (xs @ ys) = encode_records xs @ encode_records ys"
  by (simp_all add: encode_records_def)

lemma log_bytes_simps [simp]:
  "log_bytes [] = []" "log_bytes (m # ms) = encode_record (msg_data m) @ log_bytes ms" "log_bytes (xs @ ys) = log_bytes xs @ log_bytes ys"
  by (simp_all add: log_bytes_def)

lemma length_encode_record [simp]: "length (encode_record d) = 4 + length d"
  by (simp add: encode_record_def)

lemma length_encode_records: "length (encode_records ds) = sum_list (map (\<lambda>d. 4 + length d) ds)"
  by (induction ds) simp_all

lemma index_of_append: "index_of p (xs @ ys) = index_of p xs @ index_of (p + length (log_bytes xs)) ys"
  by (induction p xs rule: index_of.induct) (simp_all add: add.assoc)

lemma length_index_of [simp]: "length (index_of p ms) = length ms"
  by (induction p ms rule: index_of.induct) simp_all

lemma map_offset_index_of [simp]: "map mi_offset (index_of p ms) = map msg_offset ms"
  by (induction p ms rule: index_of.induct) simp_all

section \<open>The entry an index and a log stand for\<close>

definition mem_entry :: "file_entry \<Rightarrow> message list \<Rightarrow> stream_entry" where
  "mem_entry e ms = \<lparr>se_config = fe_config e, se_messages = ms, se_closed = fe_closed e,
     se_next_read_seq = fe_next_read_seq e, se_next_byte_offset = fe_next_byte_offset e,
     se_total_bytes = fe_total_bytes e, se_created_at = fe_created_at e, se_updated_at = fe_updated_at e,
     se_producers = fe_producers e, se_notify = fe_notify e, se_last_seq = fe_last_seq e,
     se_fork_info = fe_fork_info e, se_ref_count = fe_ref_count e, se_state = fe_state e\<rparr>"

lemma mem_entry_simps [simp]:
  "se_config (mem_entry e ms) = fe_config e" "se_messages (mem_entry e ms) = ms" "se_closed (mem_entry e ms) = fe_closed e"
  "se_next_read_seq (mem_entry e ms) = fe_next_read_seq e" "se_next_byte_offset (mem_entry e ms) = fe_next_byte_offset e"
  "se_total_bytes (mem_entry e ms) = fe_total_bytes e" "se_created_at (mem_entry e ms) = fe_created_at e"
  "se_updated_at (mem_entry e ms) = fe_updated_at e" "se_producers (mem_entry e ms) = fe_producers e"
  "se_notify (mem_entry e ms) = fe_notify e" "se_last_seq (mem_entry e ms) = fe_last_seq e"
  "se_fork_info (mem_entry e ms) = fe_fork_info e" "se_ref_count (mem_entry e ms) = fe_ref_count e"
  "se_state (mem_entry e ms) = fe_state e"
  by (simp_all add: mem_entry_def)

lemma entry_next_offset_mem_entry [simp]: "entry_next_offset (mem_entry e ms) = file_next_offset e"
  by (simp add: entry_next_offset_def file_next_offset_def)

text \<open>The index of an entry describes a log of these messages; its producers are finitely many.\<close>

definition indexed :: "file_entry \<Rightarrow> message list \<Rightarrow> bool" where
  "indexed e ms \<longleftrightarrow> fe_index e = index_of 0 ms \<and> fe_file_len e = of_nat (length (log_bytes ms)) \<and>
     length (log_bytes ms) < 2 ^ 64 \<and> small (map msg_data ms) \<and> finite (dom (fe_producers e))"

text \<open>Appending to the index is appending to the log.\<close>

lemma push_index_eq:
  "push_index (of_nat p) (map (\<lambda>d. u64_of_usize (length d)) ds) e =
    e\<lparr>fe_index := fe_index e @ index_of p (log_from (fe_next_read_seq e) (fe_next_byte_offset e) ds),
      fe_next_read_seq := fe_next_read_seq e + of_nat (length ds),
      fe_next_byte_offset := fe_next_byte_offset e + payload_bytes ds,
      fe_total_bytes := fe_total_bytes e + payload_bytes ds,
      fe_file_len := of_nat (p + length (encode_records ds))\<rparr>" if "small ds"
  using that
proof (induction ds arbitrary: p e)
  case (Cons d ds)
  then have d: "u64_of_usize (length d) = of_nat (length d)" "small ds" by (simp_all add: small_def u64_of_usize_def)
  have pos: "of_nat p + (of_nat RECORD_HEADER_BYTES + u64_of_usize (length d)) = (of_nat (p + 4 + length d) :: u64)"
    using d(1) by (simp add: RECORD_HEADER_BYTES_def)
  show ?case
    unfolding list.map push_index.simps pos
    by (subst Cons.IH) (use d in \<open>simp_all add: payload_bytes_Cons file_next_offset_def RECORD_HEADER_BYTES_def add.assoc ac_simps\<close>)
qed simp

end
