(* ===== verification/DS_File_Append.thy ===== *)
theory DS_File_Append
  imports DS_File_Log
begin

text \<open>
  Appending to a stream of the file backend: the outcome on the disk and in
  the entry under every schedule of faults, and agreement with the in-memory
  backend.
\<close>

section \<open>Writing records\<close>

text \<open>The entry and the counter after a batch was written.\<close>

definition grown :: "bytes list \<Rightarrow> file_entry \<Rightarrow> file_entry" where
  "grown ds e = (if ds = [] then e
     else let e' = push_index (fe_file_len e) (map (\<lambda>d. u64_of_usize (length d)) ds) e in e'\<lparr>fe_notify := Suc (fe_notify e')\<rparr>)"

definition room_for :: "u64 \<Rightarrow> u64 \<Rightarrow> u64 \<Rightarrow> bytes list \<Rightarrow> file_entry \<Rightarrow> bool" where
  "room_for t max_total max_stream ds e \<longleftrightarrow> ds = [] \<or>
     (\<exists>t'. reserve_bytes t max_total (payload_bytes ds) = Inr t') \<and> \<not> fe_total_bytes e + payload_bytes ds > max_stream"

lemma commit_messages_mem_entry:
  assumes "mem_total_bytes \<mu> = t" "mem_max_total_bytes \<mu> = max_total" "mem_max_stream_bytes \<mu> = max_stream"
    and "indexed e ms" "small ds"
  shows "room_for t max_total max_stream ds e \<Longrightarrow> commit_messages \<mu> (mem_entry e ms) ds =
      (\<mu>\<lparr>mem_total_bytes := t + payload_bytes ds\<rparr>,
       Inr (mem_entry (grown ds e) (ms @ log_from (fe_next_read_seq e) (fe_next_byte_offset e) ds)))"
    and "\<not> room_for t max_total max_stream ds e \<Longrightarrow> \<exists>er. commit_messages \<mu> (mem_entry e ms) ds = (\<mu>, Inl er)"
proof -
  have len: "fe_file_len e = of_nat (length (log_bytes ms))" using assms(4) by (simp add: indexed_def)
  show "commit_messages \<mu> (mem_entry e ms) ds =
      (\<mu>\<lparr>mem_total_bytes := t + payload_bytes ds\<rparr>,
       Inr (mem_entry (grown ds e) (ms @ log_from (fe_next_read_seq e) (fe_next_byte_offset e) ds)))"
    if "room_for t max_total max_stream ds e"
  proof (cases "ds = []")
    case True
    with assms(1) show ?thesis by (simp add: commit_messages_def grown_def)
  next
    case False
    with that obtain t' where t': "reserve_bytes t max_total (payload_bytes ds) = Inr t'" "\<not> fe_total_bytes e + payload_bytes ds > max_stream"
      by (auto simp: room_for_def)
    then have "t' = t + payload_bytes ds" by (simp add: reserve_bytes_Inr)
    with t' assms(1-3) False show ?thesis
      by (simp add: commit_messages_def grown_def len push_index_eq [OF assms(5)] push_messages_eq notify_send_def mem_entry_def Let_def)
  qed
  show "\<exists>er. commit_messages \<mu> (mem_entry e ms) ds = (\<mu>, Inl er)" if "\<not> room_for t max_total max_stream ds e"
    using that assms(1-3) by (auto simp: commit_messages_def room_for_def Let_def split: sum.splits)
qed

lemma spec_set_entry: "(\<And>c. P c \<Longrightarrow> Q () (c\<lparr>cx_entry := f (cx_entry c)\<rparr>)) \<Longrightarrow> spec P (set_entry f) Q X D"
  unfolding set_entry_def by (rule spec_modify)

text \<open>
  The journal stays in force while records are written. \<open>wrote\<close>: the state
  after success; \<open>spoiled\<close>: the states a failure may leave.
\<close>

lemma spec_const:
  assumes "spec P m Q X D"
  shows "spec (\<lambda>s. A \<and> P s) m (\<lambda>x s. A \<and> Q x s) (\<lambda>e s. A \<and> X e s) (\<lambda>s. A \<and> D s)"
proof -
  have "outcome (\<lambda>x s. A \<and> Q x s) (\<lambda>e s. A \<and> X e s) (\<lambda>s. A \<and> D s) (m s)" if "A \<and> P s" for s
    using specD [OF assms, of s] that by (cases "m s" rule: act_cases) simp_all
  then show ?thesis by (simp add: spec_def)
qed

lemma same_len: "\<exists>n. e = e\<lparr>fe_file_len := n\<rparr>" for e :: file_entry
  by (rule exI [where x = "fe_file_len e"]) simp

text \<open>After a failed write the length of the file is read, and the batch given back.\<close>

lemma write_failed_spec:
  assumes I: "I = in_force F False L M"
  shows "spec (at_ctx e t2 (broken \<phi> d I))
    (seq (attempt_act (ctx_disk (io_len d ''data.log''))) (\<lambda>l.
     seq (set_entry (\<lambda>e. case l of Inr n \<Rightarrow> e\<lparr>fe_file_len := n\<rparr> | Inl _ \<Rightarrow> e)) (\<lambda>_.
     seq (release_ctx b) (\<lambda>_. raise er))))
    Q (\<lambda>_ c. (\<exists>n. cx_entry c = e\<lparr>fe_file_len := n\<rparr>) \<and> cx_total c = release_bytes t2 b \<and> broken \<phi> d I (cx_world c))
    (\<lambda>c. broken \<phi> d I (cx_world c))" (is "spec _ _ _ ?X ?D")
proof -
  let ?bad = "\<exists>k. \<phi> k \<noteq> Works"
  have step: "spec (has \<phi> d I) (io_len d ''data.log'') (\<lambda>_. has \<phi> d I) (\<lambda>_. has \<phi> d I) (broken \<phi> d I)"
    by (rule spec_weaken [OF spec_io_len [where P = I and D = I]]) (auto simp: I in_force_def broken_def elim!: has_mono)
  have "spec (broken \<phi> d I) (io_len d ''data.log'') (\<lambda>_. broken \<phi> d I) (\<lambda>_. broken \<phi> d I) (broken \<phi> d I)"
    by (rule spec_weaken [OF spec_const [OF step, where A = ?bad]]) (auto simp: broken_def)
  then have len: "spec (at_ctx e t2 (broken \<phi> d I)) (attempt_act (ctx_disk (io_len d ''data.log''))) (\<lambda>_. at_ctx e t2 (broken \<phi> d I)) ?X ?D"
    by (intro spec_attempt) (auto intro!: spec_weaken [OF spec_ctx_disk])
  show ?thesis
  proof (rule spec_seq [OF len])
    fix l
    show "spec (at_ctx e t2 (broken \<phi> d I)) (seq (set_entry (\<lambda>e. case l of Inr n \<Rightarrow> e\<lparr>fe_file_len := n\<rparr> | Inl _ \<Rightarrow> e)) (\<lambda>_.
        seq (release_ctx b) (\<lambda>_. raise er))) Q ?X ?D"
      by (cases l) (auto simp: spec_def seq_def set_entry_def modify_state_def release_ctx_def raise_def same_len)
  qed
qed

lemma append_records_spec:
  assumes e: "indexed e ms" "fe_dir e = d" and ds: "small ds" and L: "L = log_bytes ms" and I: "I = in_force F False L M"
  shows "spec (at_ctx e t (has \<phi> d (\<lambda>fs. I fs \<and> fmlookup fs ''data.log'' = Some L)))
    (append_records max_total max_stream name ds)
    (\<lambda>_ c. room_for t max_total max_stream ds e \<and>
       at_ctx (grown ds e) (t + payload_bytes ds) (has \<phi> d (\<lambda>fs. I fs \<and> fmlookup fs ''data.log'' = Some (L @ encode_records ds))) c)
    (\<lambda>_ c. (\<exists>n. cx_entry c = e\<lparr>fe_file_len := n\<rparr>) \<and> cx_total c = t \<and>
       has \<phi> d (\<lambda>fs. (\<not> room_for t max_total max_stream ds e \<or> (\<exists>k. \<phi> k \<noteq> Works)) \<and> I fs) (cx_world c))
    (\<lambda>c. broken \<phi> d I (cx_world c))"
  (is "spec ?P _ ?Q ?X ?D")
proof -
  let ?A = "\<lambda>fs. I fs \<and> fmlookup fs ''data.log'' = Some L"
  let ?B = "\<lambda>fs. I fs \<and> fmlookup fs ''data.log'' = Some (L @ encode_records ds)"
  let ?fits = "room_for t max_total max_stream ds e"
  let ?bad = "\<exists>k. \<phi> k \<noteq> Works"
  let ?b = "payload_bytes ds"
  have same: "e = e\<lparr>fe_file_len := fe_file_len e\<rparr>" by simp
  have no_large: "\<not> (\<exists>m\<in>set ds. length m > 2 ^ 32 - 1)" using ds by (auto simp: small_def list_all_iff)
  have refuse: "?X er c" if "at_ctx e t (has \<phi> d ?A) c" "\<not> ?fits" for er c
  proof -
    from that have "has \<phi> d (\<lambda>fs. (\<not> ?fits \<or> ?bad) \<and> I fs) (cx_world c)" by (auto elim!: has_mono)
    with that(1) same show ?thesis by metis
  qed
  have "spec (has \<phi> d ?A) (io_append d ''data.log'' (encode_records ds)) (\<lambda>_. has \<phi> d ?B) (\<lambda>_. broken \<phi> d I) (broken \<phi> d I)"
    by (rule spec_io_append) (auto simp: I intro!: in_force_log)
  then have put: "spec (at_ctx e t2 (has \<phi> d ?A)) (attempt_act (ctx_disk (io_append d ''data.log'' (encode_records ds))))
      (\<lambda>v. at_ctx e t2 (case v of Inl _ \<Rightarrow> broken \<phi> d I | Inr _ \<Rightarrow> has \<phi> d ?B)) ?X ?D" for t2
    by (intro spec_attempt) (auto intro!: spec_weaken [OF spec_ctx_disk])
  have written: "spec (at_ctx e t2 (has \<phi> d ?A)) (write_records d name ds) ?Q ?X ?D"
    if "ds \<noteq> []" "?fits" "reserve_bytes t max_total ?b = Inr t2" for t2
    unfolding write_records_def
  proof (rule spec_seq [OF put])
    fix v :: "io_error + unit"
    have t2: "t2 = t + ?b" "release_bytes t2 ?b = t" using that(3) by (auto simp: reserve_bytes_Inr)
    show "spec (at_ctx e t2 (case v of Inl _ \<Rightarrow> broken \<phi> d I | Inr _ \<Rightarrow> has \<phi> d ?B)) (case v of
      Inl er \<Rightarrow>
        seq (attempt_act (ctx_disk (io_len d ''data.log''))) (\<lambda>l.
        seq (set_entry (\<lambda>e. case l of Inr n \<Rightarrow> e\<lparr>fe_file_len := n\<rparr> | Inl _ \<Rightarrow> e)) (\<lambda>_.
        seq (release_ctx ?b) (\<lambda>_.
        raise (Storage (''failed to append stream log for '' @ name @ '': '' @ io_text er)))))
    | Inr _ \<Rightarrow> set_entry (\<lambda>e. let e' = push_index (fe_file_len e) (map (\<lambda>m. u64_of_usize (length m)) ds) e in
          e'\<lparr>fe_notify := Suc (fe_notify e')\<rparr>)) ?Q ?X ?D"
    proof (cases v)
      case (Inl er)
      then show ?thesis
        using t2(2) by (auto intro!: spec_weaken [OF write_failed_spec [OF I, where Q = "\<lambda>_ _. False"]] simp: broken_def)
    next
      case (Inr x)
      then show ?thesis using that by (auto intro!: spec_set_entry simp: grown_def t2 Let_def)
    qed
  qed
  have "outcome ?Q ?X ?D (append_records max_total max_stream name ds c)" if c: "?P c" for c
  proof (cases "ds = []")
    case True
    with c show ?thesis by (simp add: append_records_def ret_def room_for_def grown_def)
  next
    case False
    show ?thesis
    proof (cases "reserve_bytes t max_total ?b")
      case (Inl er)
      then have "\<not> ?fits" using False by (simp add: room_for_def)
      with c Inl False no_large refuse [OF c] show ?thesis by (simp add: append_records_def raise_def)
    next
      case (Inr t2)
      let ?c = "c\<lparr>cx_total := t2\<rparr>"
      have returned: "release_bytes t2 ?b = t" using Inr by simp
      show ?thesis
      proof (cases "fe_total_bytes e + ?b > max_stream")
        case True
        then have "\<not> ?fits" using False by (simp add: room_for_def)
        then have X: "?X StreamSizeLimitExceeded c" by (rule refuse [OF c])
        have "c\<lparr>cx_total := t\<rparr> = c" using c by auto
        then have "append_records max_total max_stream name ds c = (c, Some (Inl StreamSizeLimitExceeded))"
          using c Inr False no_large True returned
          by (simp add: append_records_def Let_def seq_def release_ctx_def modify_state_def raise_def)
        with X show ?thesis by (simp only: outcome.simps)
      next
        case ok: False
        have fit: "?fits" using Inr ok by (auto simp: room_for_def)
        have "outcome ?Q ?X ?D (write_records d name ds ?c)" by (rule specD [OF written [OF False fit Inr]]) (use c in simp)
        moreover have "append_records max_total max_stream name ds c = write_records d name ds ?c"
          using c e(2) Inr False no_large ok by (simp add: append_records_def Let_def)
        ultimately show ?thesis by (simp only:)
      qed
    qed
  qed
  then show ?thesis by (simp add: spec_def)
qed

section \<open>Metadata\<close>

text \<open>The configuration with a renewed deadline, where renewing works.\<close>

definition renewed :: "env \<Rightarrow> time \<Rightarrow> stream_config \<Rightarrow> stream_config" where
  "renewed E now c = (case renew_ttl E now c of Inr (c', _) \<Rightarrow> c' | Inl _ \<Rightarrow> c)"

definition stamped :: "env \<Rightarrow> time \<Rightarrow> time \<Rightarrow> string option \<Rightarrow> file_entry \<Rightarrow> file_entry" where
  "stamped E now ttl_now pending e = e\<lparr>fe_updated_at := Some now,
     fe_last_seq := (case pending of Some n \<Rightarrow> Some n | None \<Rightarrow> fe_last_seq e), fe_config := renewed E ttl_now (fe_config e)\<rparr>"

abbreviation renewable :: "env \<Rightarrow> time \<Rightarrow> file_entry \<Rightarrow> bool" where
  "renewable E now e \<equiv> \<exists>r. renew_ttl E now (fe_config e) = Inr r"

lemma apply_metadata_spec:
  "spec (at_ctx e t W) (apply_metadata_ctx E now ttl_now pending)
    (\<lambda>_ c. renewable E ttl_now e \<and> at_ctx (stamped E now ttl_now pending e) t W c)
    (\<lambda>_ c. \<not> renewable E ttl_now e \<and> at_ctx (stamped E now ttl_now pending e) t W c) D"
  by (cases "renew_ttl E ttl_now (fe_config e)")
    (auto simp: spec_def apply_metadata_ctx_def seq_def set_entry_def modify_state_def raise_def stamped_def renewed_def
      split: prod.splits)

lemma write_metadata_spec:
  assumes d: "is_valid_stream_dir_component d" "fe_dir e = d" and vec: "meta_to_vec F (meta_of name e) = Inr M1"
    and I: "I = in_force F r L M"
  shows "spec (at_ctx e t (has \<phi> d (\<lambda>fs. I fs \<and> fmlookup fs ''data.log'' = Some L1))) (write_metadata_ctx F root name)
    (\<lambda>_. at_ctx e t (has \<phi> d (\<lambda>fs. I fs \<and> fmlookup fs ''data.log'' = Some L1 \<and> fmlookup fs ''meta.json'' = Some M1)))
    (\<lambda>_. at_ctx e t (broken \<phi> d I)) (\<lambda>c. broken \<phi> d I (cx_world c))"
proof -
  let ?A = "\<lambda>fs. I fs \<and> fmlookup fs ''data.log'' = Some L1"
  let ?B = "\<lambda>fs. ?A fs \<and> fmlookup fs ''meta.json.tmp'' = Some M1"
  let ?C = "\<lambda>fs. I fs \<and> fmlookup fs ''data.log'' = Some L1 \<and> fmlookup fs ''meta.json'' = Some M1"
  have W: "spec (has \<phi> d ?A) (map_err f (io_write d ''meta.json.tmp'' M1)) (\<lambda>_. has \<phi> d ?B) (\<lambda>_. broken \<phi> d I) (broken \<phi> d I)"
    for f :: "io_error \<Rightarrow> error"
    by (rule step_write) (auto simp: I intro: in_force_upd)
  have N: "spec (has \<phi> d ?B) (map_err f (io_rename d ''meta.json.tmp'' ''meta.json'')) (\<lambda>_. has \<phi> d ?C)
      (\<lambda>_. broken \<phi> d I) (broken \<phi> d I)" for f :: "io_error \<Rightarrow> error"
    by (rule step_rename [where bs = M1]) (auto simp: I intro!: in_force_upd in_force_drop)
  have "spec (has \<phi> d ?A) (write_metadata_for F root name e) (\<lambda>_. has \<phi> d ?C) (\<lambda>_. broken \<phi> d I) (broken \<phi> d I)"
    unfolding write_metadata_for_def d(2) vec sum.case
    by (rule spec_seq [OF step_validate [OF d(1), where P = ?A] spec_seq [OF W N]]) simp
  then have "spec (at_ctx e t (has \<phi> d ?A)) (ctx_disk (write_metadata_for F root name e)) (\<lambda>_. at_ctx e t (has \<phi> d ?C))
      (\<lambda>_. at_ctx e t (broken \<phi> d I)) (\<lambda>c. broken \<phi> d I (cx_world c))"
    by (rule spec_weaken [OF spec_ctx_disk]) auto
  then show ?thesis by (simp add: spec_def write_metadata_ctx_def)
qed

section \<open>The append operation\<close>

text \<open>What an operation inside the transaction does to the entry can be rolled back.\<close>

definition derived :: "file_entry \<Rightarrow> file_entry \<Rightarrow> bool" where
  "derived old e \<longleftrightarrow> (\<exists>xs. fe_index e = fe_index old @ xs) \<and> fe_unavailable e = fe_unavailable old \<and>
     fe_created_at e = fe_created_at old \<and> fe_dir e = fe_dir old \<and> fe_fork_info e = fe_fork_info old \<and>
     fe_ref_count e = fe_ref_count old \<and> fe_state e = fe_state old"

lemma derived_revertible:
  assumes "derived old e" "m = meta_of name old" "u = \<lparr>un_log_len = fe_file_len old, un_metadata = M, un_restore_log = False\<rparr>"
    and "unat (fe_total_bytes old) + n < 2 ^ 64" "unat t + n < 2 ^ 64"
    and "fe_total_bytes e = fe_total_bytes old + of_nat n" "t' = t + of_nat n"
  shows "revertible old t u m e t'"
proof -
  have n: "unat (of_nat n :: u64) = n" using assms(4) by (simp add: unat_of_nat)
  have "unat (fe_total_bytes old + of_nat n) = unat (fe_total_bytes old) + n" "unat (t + of_nat n) = unat t + n"
    using assms(4,5) n by (simp_all add: unat_word_ariths)
  then have "release_bytes (t + of_nat n) (saturating_sub (fe_total_bytes old + of_nat n) (fe_total_bytes old)) = t"
    by (simp add: word_unat_eq_iff unat_release_bytes unat_saturating_sub)
  moreover have "rolled_back old u m e = old\<lparr>fe_notify := fe_notify e\<rparr>"
    using assms(1-3) by (auto simp: derived_def rolled_back_def meta_of_def intro!: file_entry.equality)
  ultimately show ?thesis using assms(3,6,7) by (simp add: revertible_def)
qed

lemma grown_fields [simp]:
  "fe_config (grown ds e) = fe_config e" "fe_closed (grown ds e) = fe_closed e" "fe_unavailable (grown ds e) = fe_unavailable e"
  "fe_created_at (grown ds e) = fe_created_at e" "fe_dir (grown ds e) = fe_dir e" "fe_fork_info (grown ds e) = fe_fork_info e"
  "fe_ref_count (grown ds e) = fe_ref_count e" "fe_state (grown ds e) = fe_state e" "fe_producers (grown ds e) = fe_producers e"
  "fe_last_seq (grown ds e) = fe_last_seq e" "fe_updated_at (grown ds e) = fe_updated_at e"
proof -
  have "fe_config (push_index p ls e) = fe_config e \<and> fe_closed (push_index p ls e) = fe_closed e \<and>
      fe_unavailable (push_index p ls e) = fe_unavailable e \<and> fe_created_at (push_index p ls e) = fe_created_at e \<and>
      fe_dir (push_index p ls e) = fe_dir e \<and> fe_fork_info (push_index p ls e) = fe_fork_info e \<and>
      fe_ref_count (push_index p ls e) = fe_ref_count e \<and> fe_state (push_index p ls e) = fe_state e \<and>
      fe_producers (push_index p ls e) = fe_producers e \<and> fe_last_seq (push_index p ls e) = fe_last_seq e \<and>
      fe_updated_at (push_index p ls e) = fe_updated_at e" for p ls
    by (induction p ls e rule: push_index.induct) simp_all
  then show "fe_config (grown ds e) = fe_config e" "fe_closed (grown ds e) = fe_closed e" "fe_unavailable (grown ds e) = fe_unavailable e"
    "fe_created_at (grown ds e) = fe_created_at e" "fe_dir (grown ds e) = fe_dir e" "fe_fork_info (grown ds e) = fe_fork_info e"
    "fe_ref_count (grown ds e) = fe_ref_count e" "fe_state (grown ds e) = fe_state e" "fe_producers (grown ds e) = fe_producers e"
    "fe_last_seq (grown ds e) = fe_last_seq e" "fe_updated_at (grown ds e) = fe_updated_at e"
    by (simp_all add: grown_def Let_def)
qed

lemma grown_indexed:
  assumes "indexed e ms" "small ds" "length (log_bytes ms) + length (encode_records ds) < 2 ^ 64"
  shows "indexed (grown ds e) (ms @ log_from (fe_next_read_seq e) (fe_next_byte_offset e) ds)"
    "\<exists>xs. fe_index (grown ds e) = fe_index e @ xs" "fe_total_bytes (grown ds e) = fe_total_bytes e + payload_bytes ds"
    "log_bytes (ms @ log_from (fe_next_read_seq e) (fe_next_byte_offset e) ds) = log_bytes ms @ encode_records ds"
proof -
  have len: "fe_file_len e = of_nat (length (log_bytes ms))" using assms(1) by (simp add: indexed_def)
  show log: "log_bytes (ms @ log_from (fe_next_read_seq e) (fe_next_byte_offset e) ds) = log_bytes ms @ encode_records ds"
    by (simp add: log_bytes_def)
  show "indexed (grown ds e) (ms @ log_from (fe_next_read_seq e) (fe_next_byte_offset e) ds)"
    using assms log by (auto simp: grown_def indexed_def len push_index_eq Let_def index_of_append small_def)
  show "\<exists>xs. fe_index (grown ds e) = fe_index e @ xs" "fe_total_bytes (grown ds e) = fe_total_bytes e + payload_bytes ds"
    by (simp_all add: grown_def len push_index_eq [OF assms(2)] Let_def)
qed

lemma has_const: "has \<phi> d (\<lambda>fs. A \<and> P fs) w \<longleftrightarrow> A \<and> has \<phi> d P w"
  by (auto simp: has_def)

lemma room_for_bound:
  assumes "room_for t max_total max_stream ds e"
  shows "unat t + unat (payload_bytes ds) < 2 ^ 64"
proof (cases "ds = []")
  case True
  then show ?thesis using unat_less_u64 [of t] by simp
next
  case False
  then have "unat t + unat (payload_bytes ds) \<le> unat max_total" using assms by (auto simp: room_for_def reserve_bytes_Inr)
  also have "\<dots> < 2 ^ 64" by (rule unat_less_u64)
  finally show ?thesis .
qed

text \<open>The entry after an append.\<close>

definition appended :: "env \<Rightarrow> string option \<Rightarrow> bool \<Rightarrow> bytes list \<Rightarrow> file_entry \<Rightarrow> file_entry" where
  "appended E pending close ds e =
     (let e' = stamped E (now_at E 1) (now_at E 2) pending (grown ds e) in e'\<lparr>fe_closed := fe_closed e' \<or> close\<rparr>)"

lemma stamped_fields [simp]:
  "fe_index (stamped E a b p e) = fe_index e" "fe_unavailable (stamped E a b p e) = fe_unavailable e"
  "fe_created_at (stamped E a b p e) = fe_created_at e" "fe_dir (stamped E a b p e) = fe_dir e"
  "fe_fork_info (stamped E a b p e) = fe_fork_info e" "fe_ref_count (stamped E a b p e) = fe_ref_count e"
  "fe_state (stamped E a b p e) = fe_state e" "fe_producers (stamped E a b p e) = fe_producers e" "fe_total_bytes (stamped E a b p e) = fe_total_bytes e"
  "fe_closed (stamped E a b p e) = fe_closed e" "fe_file_len (stamped E a b p e) = fe_file_len e"
  by (simp_all add: stamped_def)

lemma append_operation_spec:
  assumes e: "indexed old ms" "fe_dir old = d" "is_valid_stream_dir_component d" and ds: "small ds"
    and fit: "length (log_bytes ms) + length (encode_records ds) < 2 ^ 64" "unat (fe_total_bytes old) \<le> unat t"
    and L: "L = log_bytes ms" and m: "m = meta_of name old" and vec: "meta_to_vec F (meta_of name (appended E pending close ds old)) = Inr M1"
    and u: "u = \<lparr>un_log_len = of_nat (length L), un_metadata = M, un_restore_log = False\<rparr>"
    and ok_def: "ok \<longleftrightarrow> room_for t max_total max_stream ds old \<and> renewable E (now_at E 2) old"
    and final_def: "final = (appended E pending close ds old)\<lparr>fe_notify := Suc (fe_notify (appended E pending close ds old))\<rparr>"
  shows "spec (at_ctx old t (has \<phi> d (\<lambda>fs. in_force F False L M fs \<and> quiet F False L M fs)))
    (append_operation E F max_total max_stream root name ds pending close start)
    (\<lambda>x c. ((ok \<and> cx_entry c = final \<and> cx_total c = t + payload_bytes ds \<and>
          x = \<lparr>ar_start_offset = start, ar_next_offset = file_next_offset final, ar_closed = fe_closed final\<rparr>) \<and>
        revertible old t u m (cx_entry c) (cx_total c)) \<and>
       has \<phi> d (\<lambda>fs. in_force F False L M fs \<and> fmlookup fs ''data.log'' = Some (L @ encode_records ds) \<and>
         fmlookup fs ''meta.json'' = Some M1) (cx_world c))
    (\<lambda>_ c. revertible old t u m (cx_entry c) (cx_total c) \<and>
       has \<phi> d (\<lambda>fs. (\<not> ok \<or> (\<exists>k. \<phi> k \<noteq> Works)) \<and> in_force F False L M fs) (cx_world c))
    (\<lambda>c. broken \<phi> d (in_force F False L M) (cx_world c))"
  (is "spec ?P _ ?Q ?X ?D")
proof -
  define I where "I = in_force F False L M"
  let ?bad = "\<exists>k. \<phi> k \<noteq> Works"
  let ?fits = "room_for t max_total max_stream ds old"
  let ?t = "t + payload_bytes ds" and ?g = "grown ds old" and ?a = "appended E pending close ds old"
  let ?s = "stamped E (now_at E 1) (now_at E 2) pending ?g"
  let ?B = "\<lambda>fs. I fs \<and> fmlookup fs ''data.log'' = Some (L @ encode_records ds)"
  let ?C = "\<lambda>fs. I fs \<and> fmlookup fs ''data.log'' = Some (L @ encode_records ds) \<and> fmlookup fs ''meta.json'' = Some M1"
  have u': "u = \<lparr>un_log_len = fe_file_len old, un_metadata = M, un_restore_log = False\<rparr>"
    using u e(1) L by (simp add: indexed_def)
  have unchanged: "revertible old t u m e t" if "derived old e" "fe_total_bytes e = fe_total_bytes old" for e
    using derived_revertible [OF that(1) m u', of 0 t t] that(2) unat_less_u64 [of t] unat_less_u64 [of "fe_total_bytes old"] by simp
  have changed: "revertible old t u m e ?t" if "?fits" "derived old e" "fe_total_bytes e = fe_total_bytes old + payload_bytes ds" for e
    using derived_revertible [OF that(2) m u', of "unat (payload_bytes ds)" t ?t] that(3) room_for_bound [OF that(1)] fit(2) by simp
  note g = grown_indexed [OF e(1) ds fit(1)]
  have weak: "has \<phi> d ?B w \<Longrightarrow> has \<phi> d I w" for w by (auto elim!: has_mono)
  have der: "derived old ?s" "derived old (?s\<lparr>fe_closed := b\<rparr>)" "derived old (?s\<lparr>fe_closed := b, fe_notify := n\<rparr>)" for b n
    using g(2) by (simp_all add: derived_def)
  have step1: "spec ?P (append_records max_total max_stream name ds) (\<lambda>_ c. ?fits \<and> at_ctx ?g ?t (has \<phi> d ?B) c) ?X ?D"
  proof (rule spec_weaken [OF append_records_spec [OF e(1,2) ds L I_def, where t = t and max_total = max_total and max_stream = max_stream and name = name and \<phi> = \<phi>]])
    show "?X er c" if "(\<exists>n. cx_entry c = old\<lparr>fe_file_len := n\<rparr>) \<and> cx_total c = t \<and>
        has \<phi> d (\<lambda>fs. (\<not> ?fits \<or> ?bad) \<and> I fs) (cx_world c)" for er c
    proof -
      from that have "derived old (cx_entry c)" "fe_total_bytes (cx_entry c) = fe_total_bytes old" by (auto simp: derived_def)
      with unchanged that show ?thesis by (auto simp: ok_def I_def elim!: has_mono)
    qed
  qed (auto simp: I_def quiet_def elim!: has_mono broken_mono)
  have step2: "spec (\<lambda>c. ?fits \<and> at_ctx ?g ?t (has \<phi> d ?B) c) (apply_metadata_ctx E (now_at E 1) (now_at E 2) pending)
      (\<lambda>_ c. ok \<and> at_ctx ?s ?t (has \<phi> d ?B) c) ?X ?D"
    by (rule spec_weaken [OF spec_const [OF apply_metadata_spec [where W = "has \<phi> d ?B" and t = ?t and e = ?g], where A = ?fits]])
      (use changed der(1) g(3) in \<open>auto simp: ok_def I_def has_const dest: weak [unfolded I_def]\<close>)
  have step3: "spec (\<lambda>c. ok \<and> at_ctx ?s ?t (has \<phi> d ?B) c) (set_entry (\<lambda>e. e\<lparr>fe_closed := fe_closed e \<or> close\<rparr>))
      (\<lambda>_ c. ok \<and> at_ctx ?a ?t (has \<phi> d ?B) c) ?X ?D"
    by (rule spec_set_entry) (simp add: appended_def Let_def)
  have ad: "fe_dir ?a = d" using e(2) by (simp add: appended_def Let_def)
  have step4: "spec (\<lambda>c. ok \<and> at_ctx ?a ?t (has \<phi> d ?B) c) (write_metadata_ctx F root name)
      (\<lambda>_ c. ok \<and> at_ctx ?a ?t (has \<phi> d ?C) c) ?X ?D"
    by (rule spec_weaken [OF spec_const [OF write_metadata_spec [OF e(3) ad vec I_def, where ?L1.0 = "L @ encode_records ds"], where A = ok]])
      (use changed der(2) g(3) in \<open>auto simp: ok_def I_def has_const broken_def appended_def Let_def\<close>)
  have rest: "spec (\<lambda>c. ok \<and> at_ctx ?a ?t (has \<phi> d ?C) c) (seq notify_ctx (\<lambda>_.
     (\<lambda>c. ret \<lparr>ar_start_offset = start, ar_next_offset = file_next_offset (cx_entry c), ar_closed = fe_closed (cx_entry c)\<rparr> c)))
     ?Q ?X ?D"
  proof -
    have "revertible old t u m final ?t" if ok
      using changed [of final] that der(3) g(3) by (simp add: ok_def final_def appended_def Let_def)
    then show ?thesis
      by (auto simp: spec_def seq_def notify_ctx_def set_entry_def modify_state_def ret_def final_def I_def)
  qed
  show ?thesis
    unfolding append_operation_def
    by (rule spec_seq [OF step1], rule spec_seq [OF step2], rule spec_seq [OF step3], rule spec_seq [OF step4], rule rest)
qed

end
