(* ===== verification/DS_File_Load.thy ===== *)
theory DS_File_Load
  imports DS_File_Append
begin

text \<open>
  Starting over a storage root: the index is rebuilt from the log, a torn
  record at its end is cut off, and the entry that comes out is the one the
  files stand for.
\<close>

section \<open>Rebuilding the index\<close>

text \<open>The end of a log that is no whole record.\<close>

definition torn_tail :: "bytes \<Rightarrow> bool" where
  "torn_tail bs \<longleftrightarrow> length bs < 4 \<or> length bs < 4 + from_le32 bs"

lemma from_le32_take: "4 \<le> length bs \<Longrightarrow> from_le32 (take 4 bs) = from_le32 bs"
  by (simp add: from_le32_def)

lemma from_le32_bound: "from_le32 bs < 2 ^ 32"
proof -
  have "of_char c \<le> (255 :: nat)" for c :: char using nat_of_char_less_256 [of c] by linarith
  from this [of "bs ! 0"] this [of "bs ! 1"] this [of "bs ! 2"] this [of "bs ! 3"]
  show ?thesis by (simp add: from_le32_def)
qed

lemma spec_io_read_upto:
  assumes "\<And>fs. P fs \<Longrightarrow> fmlookup fs f = Some bs" "\<And>fs. P fs \<Longrightarrow> D fs"
  shows "spec (has \<phi> d P) (io_read_upto d f pos n) (\<lambda>r w. r = take n (drop (unat pos) bs) \<and> has \<phi> d P w)
    (\<lambda>_. broken \<phi> d P) (broken \<phi> d D)"
  unfolding io_read_upto_def io_atomic_def
  by (rule spec_dir_call [where R = P])
    (use assms in \<open>auto simp: file_content_def elim!: hasE intro: hasI\<close>)

lemma at_rest_log: "at_rest L M fs \<Longrightarrow> at_rest L' M (fmupd ''data.log'' L' fs)"
  by (simp add: at_rest_def)

lemma read_header_spec:
  assumes "p < 2 ^ 64" "\<And>fs. at_rest L M fs \<Longrightarrow> D fs"
    and "spec (has \<phi> d (at_rest L M)) (body (take 4 (drop p L))) Q (\<lambda>_. broken \<phi> d D) (broken \<phi> d D)"
  shows "spec (has \<phi> d (at_rest L M))
    (seq (map_err f io_plain) (\<lambda>_. seq (map_err g (io_read_upto d ''data.log'' (of_nat p) RECORD_HEADER_BYTES)) body))
    Q (\<lambda>_. broken \<phi> d D) (broken \<phi> d D)"
proof (rule spec_seq [OF step_plain [OF assms(2)]])
  have p: "unat (of_nat p :: u64) = p" using assms(1) by (simp add: unat_of_nat)
  have hd: "spec (has \<phi> d (at_rest L M)) (map_err g (io_read_upto d ''data.log'' (of_nat p) RECORD_HEADER_BYTES))
      (\<lambda>h w. h = take 4 (drop p L) \<and> has \<phi> d (at_rest L M) w) (\<lambda>_. broken \<phi> d D) (broken \<phi> d D)"
    by (rule spec_map_err, rule spec_weaken [OF spec_io_read_upto [where P = "at_rest L M" and D = D and bs = L]])
      (use assms(2) in \<open>auto simp: p RECORD_HEADER_BYTES_def at_rest_def elim!: broken_mono\<close>)
  show "spec (has \<phi> d (at_rest L M)) (seq (map_err g (io_read_upto d ''data.log'' (of_nat p) RECORD_HEADER_BYTES)) body)
      Q (\<lambda>_. broken \<phi> d D) (broken \<phi> d D)"
  proof (rule spec_seq [OF hd])
    show "spec (\<lambda>w. h = take 4 (drop p L) \<and> has \<phi> d (at_rest L M) w) (body h) Q (\<lambda>_. broken \<phi> d D) (broken \<phi> d D)" for h
      using assms(3) by (cases "h = take 4 (drop p L)") (simp_all add: spec_def)
  qed
qed

lemma cut_tail_spec:
  assumes "p \<le> length L" "p < 2 ^ 64"
  shows "spec (has \<phi> d (at_rest L M)) (seq (map_err f (io_set_len d ''data.log'' (of_nat p))) (\<lambda>_. ret x))
    (\<lambda>r w. r = x \<and> has \<phi> d (at_rest (take p L) M) w)
    (\<lambda>_. broken \<phi> d (\<lambda>fs. at_rest L M fs \<or> at_rest (take p L) M fs)) (broken \<phi> d (\<lambda>fs. at_rest L M fs \<or> at_rest (take p L) M fs))"
proof -
  have p: "unat (of_nat p :: u64) = p" using assms(2) by (simp add: unat_of_nat)
  let ?D = "\<lambda>fs. at_rest L M fs \<or> at_rest (take p L) M fs"
  have "spec (has \<phi> d (at_rest L M)) (map_err f (io_set_len d ''data.log'' (of_nat p))) (\<lambda>_. has \<phi> d (at_rest (take p L) M))
      (\<lambda>_. broken \<phi> d ?D) (broken \<phi> d ?D)"
    by (rule spec_map_err, rule spec_weaken [OF spec_io_cut [where P = "at_rest L M" and Q = "at_rest (take p L) M" and D = ?D]])
      (use assms(1) in \<open>auto simp: p at_rest_def elim!: broken_mono\<close>)
  then show ?thesis by (rule spec_seq) (simp add: spec_ret)
qed

lemma record_end: "of_nat p + of_nat RECORD_HEADER_BYTES + of_nat n = (of_nat (p + 4 + n) :: u64)"
  by (simp add: RECORD_HEADER_BYTES_def)

lemma unat_record_end: "p + 4 + n < 2 ^ 64 \<Longrightarrow> unat (of_nat p + of_nat RECORD_HEADER_BYTES + of_nat n :: u64) = p + 4 + n"
  unfolding record_end by (subst unat_of_nat) simp

text \<open>The end of the log: nothing more, or a torn record that is cut off.\<close>

lemma rebuild_end_spec:
  assumes "torn_tail (drop p L)" "p \<le> length L" "length L < 2 ^ 63"
  shows "spec (has \<phi> d (at_rest L M)) (rebuild_loop (Suc k) d (of_nat (length L)) (of_nat p) idx sq bo)
    (\<lambda>r w. r = (idx, sq, bo) \<and> has \<phi> d (at_rest (take p L) M) w)
    (\<lambda>_. broken \<phi> d (\<lambda>fs. at_rest L M fs \<or> at_rest (take p L) M fs)) (broken \<phi> d (\<lambda>fs. at_rest L M fs \<or> at_rest (take p L) M fs))"
proof (cases "p = length L")
  case True
  then show ?thesis by (simp add: spec_ret)
next
  case False
  have len: "unat (of_nat p :: u64) = p" "unat (of_nat (length L) :: u64) = length L" "p < 2 ^ 64"
    using assms(2,3) by (simp_all add: unat_of_nat)
  have less: "(of_nat p :: u64) < of_nat (length L)" using len assms(2) False by (simp add: word_less_nat_alt)
  let ?h = "take 4 (drop p L)"
  let ?n = "of_nat (from_le32 ?h) :: u64"
  have nonempty: "?h \<noteq> []" using assms(2) False by auto
  have big: "of_nat p + of_nat RECORD_HEADER_BYTES + ?n > (of_nat (length L) :: u64)" if "\<not> length ?h < RECORD_HEADER_BYTES"
  proof -
    have 4: "4 \<le> length (drop p L)" using that by (simp add: RECORD_HEADER_BYTES_def)
    have "from_le32 ?h < 2 ^ 32" by (rule from_le32_bound)
    moreover have more: "length L < p + 4 + from_le32 ?h" using assms(1) 4 from_le32_take [OF 4] by (auto simp: torn_tail_def)
    ultimately have "unat (of_nat p + of_nat RECORD_HEADER_BYTES + ?n) = p + 4 + from_le32 ?h"
      using assms(2,3) by (intro unat_record_end) simp
    with more len(2) show ?thesis by (simp add: word_less_nat_alt)
  qed
  show ?thesis
    using less nonempty big
    by (simp add: Let_def) (rule read_header_spec, rule len(3), simp, use cut_tail_spec [OF assms(2) len(3)] in simp)
qed

text \<open>A whole record adds one entry to the index.\<close>

lemma rebuild_round_spec:
  assumes "drop p L = encode_record dd @ rest" "length dd < 2 ^ 32" "p < length L" "length L < 2 ^ 63"
    and D: "\<And>fs. at_rest L M fs \<Longrightarrow> D fs"
    and "spec (has \<phi> d (at_rest L M)) (rebuild_loop k d (of_nat (length L)) (of_nat (p + 4 + length dd))
      (idx @ [\<lparr>mi_offset = offset_new sq bo, mi_file_pos = of_nat (p + 4), mi_byte_len = u64_of_usize (length dd)\<rparr>])
      (sq + 1) (bo + u64_of_usize (length dd))) Q (\<lambda>_. broken \<phi> d D) (broken \<phi> d D)"
  shows "spec (has \<phi> d (at_rest L M)) (rebuild_loop (Suc k) d (of_nat (length L)) (of_nat p) idx sq bo)
    Q (\<lambda>_. broken \<phi> d D) (broken \<phi> d D)"
proof -
  have len: "unat (of_nat p :: u64) = p" "unat (of_nat (length L) :: u64) = length L" "p < 2 ^ 64"
    using assms(3,4) by (simp_all add: unat_of_nat)
  have less: "(of_nat p :: u64) < of_nat (length L)" using len assms(3) by (simp add: word_less_nat_alt)
  have h: "take 4 (drop p L) = le32 (length dd)" using assms(1,2) by (simp add: encode_record_small)
  have n: "from_le32 (le32 (length dd)) = length dd" using from_le32_le32 [of "length dd" "[]"] assms(2) by simp
  have full: "le32 (length dd) \<noteq> []" by (simp add: le32_def)
  have "length (drop p L) = 4 + length dd + length rest" using assms(1) by simp
  then have end_le: "p + 4 + length dd \<le> length L" by simp
  then have "\<not> of_nat p + of_nat RECORD_HEADER_BYTES + of_nat (length dd) > (of_nat (length L) :: u64)"
    using len(2) assms(4) by (simp add: word_less_nat_alt unat_record_end)
  moreover have "u64_of_usize (length dd) = of_nat (length dd)" using assms(2) by (simp add: u64_of_usize_def)
  ultimately show ?thesis
    using less assms(6) record_end [of p "length dd"]
    by (simp add: Let_def) (rule read_header_spec, rule len(3), rule D, simp, simp add: h n full Let_def RECORD_HEADER_BYTES_def add.assoc)
qed

lemma rebuild_loop_spec:
  assumes "small ds" "torn_tail torn" "length (pre @ encode_records ds @ torn) < 2 ^ 63"
    and "L = pre @ encode_records ds @ torn" "L' = pre @ encode_records ds" "length ds < k"
  shows "spec (has \<phi> d (at_rest L M))
    (rebuild_loop k d (of_nat (length L)) (of_nat (length pre)) idx sq bo)
    (\<lambda>r w. r = (idx @ index_of (length pre) (log_from sq bo ds), sq + of_nat (length ds), bo + payload_bytes ds) \<and>
       has \<phi> d (at_rest L' M) w)
    (\<lambda>_. broken \<phi> d (\<lambda>fs. at_rest L M fs \<or> at_rest L' M fs)) (broken \<phi> d (\<lambda>fs. at_rest L M fs \<or> at_rest L' M fs))"
  using assms
proof (induction ds arbitrary: pre k idx sq bo)
  case Nil
  then obtain k' where k: "k = Suc k'" by (cases k) auto
  from Nil.prems rebuild_end_spec [of "length pre" L \<phi> d M k' idx sq bo] show ?case by (simp add: k)
next
  case (Cons dd ds)
  then obtain k' where k: "k = Suc k'" by (cases k) auto
  let ?pre = "pre @ encode_record dd"
  have small: "length dd < 2 ^ 32" "small ds" using Cons.prems(1) by (simp_all add: small_def)
  have pos: "length pre + 4 + length dd = length ?pre" by simp
  show ?case
    unfolding k
  proof (rule rebuild_round_spec [where dd = dd and rest = "encode_records ds @ torn"])
    let ?m = "\<lparr>mi_offset = offset_new sq bo, mi_file_pos = of_nat (length pre + 4), mi_byte_len = u64_of_usize (length dd)\<rparr>"
    have "spec (has \<phi> d (at_rest L M))
      (rebuild_loop k' d (of_nat (length L)) (of_nat (length ?pre)) (idx @ [?m]) (sq + 1) (bo + u64_of_usize (length dd)))
      (\<lambda>r w. r = ((idx @ [?m]) @ index_of (length ?pre) (log_from (sq + 1) (bo + u64_of_usize (length dd)) ds),
         (sq + 1) + of_nat (length ds), (bo + u64_of_usize (length dd)) + payload_bytes ds) \<and> has \<phi> d (at_rest L' M) w)
      (\<lambda>_. broken \<phi> d (\<lambda>fs. at_rest L M fs \<or> at_rest L' M fs)) (broken \<phi> d (\<lambda>fs. at_rest L M fs \<or> at_rest L' M fs))"
      by (rule Cons.IH) (use Cons.prems small k in \<open>simp_all add: small_def\<close>)
    then show "spec (has \<phi> d (at_rest L M))
      (rebuild_loop k' d (of_nat (length L)) (of_nat (length pre + 4 + length dd)) (idx @ [?m]) (sq + 1) (bo + u64_of_usize (length dd)))
      (\<lambda>r w. r = (idx @ index_of (length pre) (log_from sq bo (dd # ds)), sq + of_nat (length (dd # ds)), bo + payload_bytes (dd # ds)) \<and>
         has \<phi> d (at_rest L' M) w)
      (\<lambda>_. broken \<phi> d (\<lambda>fs. at_rest L M fs \<or> at_rest L' M fs)) (broken \<phi> d (\<lambda>fs. at_rest L M fs \<or> at_rest L' M fs))"
      unfolding pos [symmetric] by (simp add: payload_bytes_Cons add.assoc)
  qed (use Cons.prems small in simp_all)
qed

text \<open>Rebuilding over a whole log, with or without a torn end.\<close>

lemma rebuild_index_spec:
  assumes "small ds" "torn_tail torn" "length L < 2 ^ 63" and L: "L = encode_records ds @ torn" and L': "L' = encode_records ds"
  shows "spec (has \<phi> d (at_rest L M)) (rebuild_index d)
    (\<lambda>r w. r = (index_of 0 (log_from 0 0 ds), of_nat (length ds), payload_bytes ds) \<and> has \<phi> d (at_rest L' M) w)
    (\<lambda>_. broken \<phi> d (\<lambda>fs. at_rest L M fs \<or> at_rest L' M fs)) (broken \<phi> d (\<lambda>fs. at_rest L M fs \<or> at_rest L' M fs))"
proof -
  let ?D = "\<lambda>fs. at_rest L M fs \<or> at_rest L' M fs"
  let ?r = "(index_of 0 (log_from 0 0 ds), of_nat (length ds), payload_bytes ds) :: message_index list \<times> u64 \<times> u64"
  have n: "unat (of_nat (length L) :: u64) = length L" "u64_of_usize (length L) = of_nat (length L)"
    using assms(3) by (simp_all add: unat_of_nat u64_of_usize_def)
  have len: "spec (has \<phi> d (at_rest L M)) (log_len d) (\<lambda>n w. n = of_nat (length L) \<and> has \<phi> d (at_rest L M) w)
      (\<lambda>_. broken \<phi> d ?D) (broken \<phi> d ?D)"
    unfolding log_len_def
    by (rule spec_map_err, rule spec_weaken [OF spec_io_len [where P = "at_rest L M" and D = ?D]])
      (auto simp: n at_rest_def elim!: broken_mono hasE intro!: hasI)
  have "length ds \<le> length (encode_records ds)" by (induction ds) simp_all
  then have "length ds < Suc (length L)" by (simp add: L)
  with rebuild_loop_spec [of ds torn "[]" L L' "Suc (length L)" \<phi> d M "[]" 0 0] assms
  have loop: "spec (has \<phi> d (at_rest L M)) (rebuild_loop (Suc (length L)) d (of_nat (length L)) 0 [] 0 0)
      (\<lambda>r w. r = ?r \<and> has \<phi> d (at_rest L' M) w) (\<lambda>_. broken \<phi> d ?D) (broken \<phi> d ?D)" by simp
  have plain: "spec (has \<phi> d (at_rest L' M)) (map_err f io_plain) (\<lambda>_. has \<phi> d (at_rest L' M)) (\<lambda>_. broken \<phi> d ?D) (broken \<phi> d ?D)"
    for f :: "io_error \<Rightarrow> error"
    by (rule step_plain) simp
  show ?thesis
    unfolding rebuild_index_def
  proof (rule spec_seq [OF len])
    fix k
    have "spec (\<lambda>w. r = ?r \<and> has \<phi> d (at_rest L' M) w)
        (seq (map_err f io_plain) (\<lambda>_. ret r)) (\<lambda>r w. r = ?r \<and> has \<phi> d (at_rest L' M) w) (\<lambda>_. broken \<phi> d ?D) (broken \<phi> d ?D)"
      for r :: "message_index list \<times> u64 \<times> u64" and f :: "io_error \<Rightarrow> error"
      by (rule spec_seq [where R = "\<lambda>_ w. r = ?r \<and> has \<phi> d (at_rest L' M) w"],
          rule spec_weaken [OF spec_const [OF plain [of f], where A = "r = ?r"]]) (auto intro!: spec_ret)
    from spec_seq [OF loop this]
    show "spec (\<lambda>w. k = of_nat (length L) \<and> has \<phi> d (at_rest L M) w)
      (seq (rebuild_loop (Suc (unat k)) d k 0 [] 0 0) (\<lambda>r. seq (map_err (\<lambda>e. Storage (''failed to seek end of stream log: '' @ io_text e)) io_plain) (\<lambda>_. ret r)))
      (\<lambda>r w. r = ?r \<and> has \<phi> d (at_rest L' M) w) (\<lambda>_. broken \<phi> d ?D) (broken \<phi> d ?D)"
      using n(1) by (cases "k = of_nat (length L)") (simp_all add: spec_def)
  qed
qed

section \<open>The loaded entry\<close>

lemma restore_fork_offsets_index:
  assumes "(case parse_components (fork_offset fork) of Some rb \<Rightarrow> rb | None \<Rightarrow> (0, 0)) = (r, b)"
  shows "restore_fork_offsets (index_of p (log_from sq bo ds)) fork = (index_of p (log_from (r + sq) (b + bo) ds), r, b)"
proof -
  let ?f = "\<lambda>m. case parse_components (mi_offset m) of
      Some (ls, lb) \<Rightarrow> m\<lparr>mi_offset := offset_new (r + ls) (b + lb)\<rparr> | None \<Rightarrow> m"
  have "map ?f (index_of p (log_from sq bo ds)) = index_of p (log_from (r + sq) (b + bo) ds)"
    by (induction ds arbitrary: p sq bo) (simp_all add: add.assoc)
  then show ?thesis unfolding restore_fork_offsets_def assms by simp
qed

text \<open>A restart finds the entry that was there, without subscribers and available again.\<close>

lemma loaded_entry_same:
  assumes i: "indexed e ms" and ok: "entry_ok (mem_entry e ms)"
  shows "loaded_entry (fe_dir e) (meta_of name e)
      (index_of 0 (log_from 0 0 (map msg_data ms)), of_nat (length ms), payload_bytes (map msg_data ms))
      (of_nat (length (log_bytes ms))) = e\<lparr>fe_unavailable := False, fe_notify := 0\<rparr>"
proof -
  let ?ds = "map msg_data ms"
  obtain r b where base: "entry_base (mem_entry e ms) = (r, b)" by fastforce
  have c: "ms = log_from r b ?ds" "fe_next_read_seq e = r + of_nat (length ms)" "fe_next_byte_offset e = b + payload_bytes ?ds"
    using ok base by (simp_all add: entry_ok_def chain_ok_iff_log_from)
  have total: "unat (fe_total_bytes e) = sum_list (map length ?ds)" using ok by (simp add: entry_ok_def)
  then have "payload_fits ?ds" using unat_less_u64 [of "fe_total_bytes e"] by (simp add: payload_fits_def)
  then have t: "fe_total_bytes e = payload_bytes ?ds" using total by (simp add: word_unat_eq_iff unat_payload_bytes)
  have idx: "fe_index e = index_of 0 (log_from r b ?ds)" "fe_file_len e = of_nat (length (log_bytes ms))"
    using i c(1) by (simp_all add: indexed_def)
  show ?thesis
  proof (cases "fe_fork_info e")
    case None
    then have "r = 0" "b = 0" using base by (simp_all add: entry_base_def)
    with None idx c(2,3) t show ?thesis by (simp add: loaded_entry_def meta_of_def)
  next
    case (Some fork)
    then have "(case parse_components (fork_offset fork) of Some rb \<Rightarrow> rb | None \<Rightarrow> (0, 0)) = (r, b)"
      using base by (simp add: entry_base_def)
    from restore_fork_offsets_index [OF this, of 0 0 0 ?ds] Some idx c(2,3) t show ?thesis
      by (simp add: loaded_entry_def meta_of_def add.commute)
  qed
qed

definition restarted :: "env \<Rightarrow> time \<Rightarrow> file_entry \<Rightarrow> file_entry" where
  "restarted E now e = e\<lparr>fe_unavailable := False, fe_notify := 0, fe_producers := cleanup_stale_producers E now (fe_producers e)\<rparr>"

text \<open>The serializer of the metadata reads back what it wrote; a producer table is finite.\<close>

definition meta_codec :: "file_env \<Rightarrow> bool" where
  "meta_codec F \<longleftrightarrow> (\<forall>m. finite (dom (sm_producers m)) \<longrightarrow> (\<exists>bs. meta_to_vec F m = Inr bs \<and> meta_from_slice F bs = Inr m))"

lemma meta_codecE:
  assumes "meta_codec F" "finite (dom (fe_producers e))"
  obtains M where "meta_to_vec F (meta_of name e) = Inr M" "meta_from_slice F M = Inr (meta_of name e)"
proof -
  from assms obtain M where "meta_to_vec F (meta_of name e) = Inr M \<and> meta_from_slice F M = Inr (meta_of name e)"
    unfolding meta_codec_def by (elim allE [of _ "meta_of name e"]) (auto simp: meta_of_def)
  then show thesis using that by blast
qed

lemma cleanup_stale_producers_sub: "dom (cleanup_stale_producers E now ps) \<subseteq> dom ps"
  by (auto simp: cleanup_stale_producers_def Let_def split: option.splits if_splits)

lemma save_at_rest_spec:
  assumes d: "is_valid_stream_dir_component d" "fe_dir e = d" and vec: "meta_to_vec F (meta_of name e) = Inr M1"
  shows "spec (has \<phi> d (at_rest L M)) (write_metadata_for F root name e) (\<lambda>_. has \<phi> d (at_rest L M1))
    (\<lambda>_. broken \<phi> d (\<lambda>fs. at_rest L M fs \<or> at_rest L M1 fs)) (broken \<phi> d (\<lambda>fs. at_rest L M fs \<or> at_rest L M1 fs))"
proof -
  let ?D = "\<lambda>fs. at_rest L M fs \<or> at_rest L M1 fs"
  let ?B = "\<lambda>fs. at_rest L M fs \<and> fmlookup fs ''meta.json.tmp'' = Some M1"
  have W: "spec (has \<phi> d (at_rest L M)) (map_err f (io_write d ''meta.json.tmp'' M1)) (\<lambda>_. has \<phi> d ?B) (\<lambda>_. broken \<phi> d ?D) (broken \<phi> d ?D)"
    for f :: "io_error \<Rightarrow> error"
    by (rule step_write) (auto simp: at_rest_def)
  have N: "spec (has \<phi> d ?B) (map_err f (io_rename d ''meta.json.tmp'' ''meta.json'')) (\<lambda>_. has \<phi> d (at_rest L M1))
      (\<lambda>_. broken \<phi> d ?D) (broken \<phi> d ?D)" for f :: "io_error \<Rightarrow> error"
    by (rule step_rename [where bs = M1]) (auto simp: at_rest_def)
  show ?thesis
    unfolding write_metadata_for_def d(2) vec sum.case
    by (rule spec_seq [OF step_validate [OF d(1), where P = "at_rest L M"] spec_seq [OF W N]]) simp
qed

lemma load_stream_spec:
  assumes e: "indexed e ms" "entry_ok (mem_entry e ms)" "fe_dir e = d" and d: "is_valid_stream_dir_component d"
    and L: "L = log_bytes ms" "length L < 2 ^ 63" and M: "meta_from_slice F M = Inr (meta_of name e)"
    and h: "honest \<phi>" and codec: "meta_codec F" and live: "\<not> is_stream_expired now (fe_config e)"
  shows "spec (has \<phi> d (undoable F r L M)) (load_stream E F now now' root d)
    (\<lambda>v w. v = Some (name, restarted E now' e) \<and>
         has \<phi> d (\<lambda>fs. \<exists>M'. (M' = M \<or> meta_from_slice F M' = Inr (meta_of name (restarted E now' e))) \<and> at_rest L M' fs) w \<or>
       v = None \<and> (\<exists>k. \<phi> k \<noteq> Works))
    (\<lambda>_ _. \<exists>k. \<phi> k \<noteq> Works) (\<lambda>_. \<exists>k. \<phi> k \<noteq> Works)"
  (is "spec _ _ ?Q ?X ?D")
proof -
  let ?U = "undoable F r L M" and ?A = "at_rest L M"
  let ?bad = "\<exists>k. \<phi> k \<noteq> Works"
  let ?e2 = "restarted E now' e"
  have bad: "broken \<phi> d P w \<Longrightarrow> ?bad" for P w by (simp add: broken_def)
  have lost: "spec (\<lambda>_. ?bad) (ret None) ?Q ?X ?D" by (rule spec_ret) simp
  have fin: "finite (dom (fe_producers ?e2))"
    using e(1) finite_subset [OF cleanup_stale_producers_sub] by (simp add: restarted_def indexed_def)
  obtain M2 where M2: "meta_to_vec F (meta_of name ?e2) = Inr M2" "meta_from_slice F M2 = Inr (meta_of name ?e2)"
    by (rule meta_codecE [OF codec fin])
  have enter: "spec (has \<phi> d ?U) (map_err f io_plain) (\<lambda>_. has \<phi> d ?U) ?X ?D" for f :: "io_error \<Rightarrow> error"
    by (rule spec_weaken [OF step_plain [where P = ?U and D = ?U]]) (auto intro: bad)
  have stat: "spec (has \<phi> d ?U) (attempt_act (io_stat d))
      (\<lambda>v w. (\<exists>fs. v = Inr (Some (NDir fs))) \<and> has \<phi> d ?U w \<or> ?bad \<and> (\<exists>er. v = Inl er)) ?X ?D"
    by (rule spec_attempt, rule spec_weaken [OF spec_io_stat [where P = ?U and D = ?U]]) (auto intro: bad)
  have valid: "spec (has \<phi> d ?U) (attempt_act (validate_stream_dir root d))
      (\<lambda>v w. v = Inr () \<and> has \<phi> d ?U w \<or> ?bad \<and> (\<exists>er. v = Inl er)) ?X ?D"
    by (rule spec_attempt, rule spec_weaken [OF spec_validate [OF d, where P = ?U and D = ?U]]) (auto intro: bad)
  have recover: "spec (has \<phi> d ?U) (recover_append F root d) (\<lambda>_. has \<phi> d ?A) ?X ?D"
    using L(2) by (intro spec_weaken [OF recover_spec [OF d M _ h]]) (auto intro: bad)
  have exists: "spec (has \<phi> d ?A) (path_exists d ''meta.json'') (\<lambda>b w. b \<and> has \<phi> d ?A w \<or> \<not> b \<and> ?bad) ?X ?D"
    by (rule spec_weaken [OF spec_path_exists [where P = ?A and D = ?A and X = ?X]])
      (auto simp: at_rest_def has_def intro: bad)
  have read: "spec (has \<phi> d ?A) (map_err f (io_read d ''meta.json'')) (\<lambda>bs w. bs = M \<and> has \<phi> d ?A w) ?X ?D" for f :: "io_error \<Rightarrow> error"
    by (rule spec_map_err, rule spec_weaken [OF spec_io_read [where P = ?A and D = ?A]])
      (auto simp: at_rest_def has_def intro: bad)
  have opened: "spec (has \<phi> d ?A) (open_stream_file root d) (\<lambda>_. has \<phi> d ?A) ?X ?D"
    unfolding open_stream_file_def
    by (rule spec_seq [where R = "\<lambda>_. has \<phi> d ?A"], rule spec_weaken [OF step_validate [OF d, where P = ?A and D = ?A]], auto intro: bad)
      (rule spec_map_err, rule spec_weaken [OF spec_io_open_append [where P = ?A and D = ?A]], auto simp: at_rest_def intro: bad)
  let ?built = "(index_of 0 (log_from 0 0 (map msg_data ms)), of_nat (length ms), payload_bytes (map msg_data ms)) :: message_index list \<times> u64 \<times> u64"
  have build: "spec (has \<phi> d ?A) (rebuild_index d) (\<lambda>v w. v = ?built \<and> has \<phi> d ?A w) ?X ?D"
    using e(1) L by (intro spec_weaken [OF rebuild_index_spec [of "map msg_data ms" "[]" L L]])
      (auto simp: indexed_def torn_tail_def log_bytes_def intro: bad)
  have n: "u64_of_usize (length L) = of_nat (length L)" using L(2) by (simp add: u64_of_usize_def)
  have len: "spec (has \<phi> d ?A) (log_len d) (\<lambda>v w. v = of_nat (length L) \<and> has \<phi> d ?A w) ?X ?D"
    unfolding log_len_def
    by (rule spec_map_err, rule spec_weaken [OF spec_io_len [where P = ?A and D = ?A]])
      (auto simp: n at_rest_def has_def intro: bad)
  have save: "spec (has \<phi> d ?A) (seq (warn_only (write_metadata_for F root name ?e2)) (\<lambda>_. ret (Some (name, ?e2)))) ?Q ?X ?D"
  proof -
    let ?S = "has \<phi> d (\<lambda>fs. \<exists>M'. (M' = M \<or> meta_from_slice F M' = Inr (meta_of name ?e2)) \<and> at_rest L M' fs)"
    have "fe_dir ?e2 = d" using e(3) by (simp add: restarted_def)
    from save_at_rest_spec [OF d this M2(1), of \<phi> L M root]
    have "spec (has \<phi> d ?A) (write_metadata_for F root name ?e2) (\<lambda>_. ?S) (\<lambda>_. ?S) ?D"
      by (rule spec_weaken) (use M2(2) in \<open>auto simp: has_def broken_def\<close>)
    then have "spec (has \<phi> d ?A) (warn_only (write_metadata_for F root name ?e2)) (\<lambda>_. ?S) ?X ?D"
      unfolding warn_only_def by (intro spec_seq [OF spec_attempt]) (auto intro!: spec_ret)
    then show ?thesis by (rule spec_seq) (auto intro!: spec_ret)
  qed
  let ?tail = "\<lambda>built len. let e0 = loaded_entry d (meta_of name e) built len;
         expired = is_stream_expired now (fe_config e0) in
     if expired \<and> fe_ref_count e0 = 0 then
       seq (remove_stream_dir F root d) (\<lambda>_. ret None)
     else
       let e1 = (if expired then e0\<lparr>fe_state := Tombstone\<rparr> else e0);
           e2 = e1\<lparr>fe_producers := cleanup_stale_producers E now' (fe_producers e1)\<rparr> in
       seq (warn_only (write_metadata_for F root (sm_name (meta_of name e)) e2)) (\<lambda>_.
       ret (Some (sm_name (meta_of name e), e2)))"
  have tail: "spec (\<lambda>w. n = of_nat (length L) \<and> has \<phi> d ?A w) (?tail ?built n) ?Q ?X ?D" for n
  proof (cases "n = of_nat (length L)")
    case True
    have "loaded_entry d (meta_of name e) ?built n = e\<lparr>fe_unavailable := False, fe_notify := 0\<rparr>"
      using loaded_entry_same [OF e(1,2), of name] True L(1) e(3) by simp
    moreover have "sm_name (meta_of name e) = name" by (simp add: meta_of_def)
    ultimately show ?thesis using save live True by (simp add: Let_def restarted_def)
  qed (simp add: spec_def)
  have tail2: "spec (\<lambda>w. v = ?built \<and> has \<phi> d ?A w) (seq (log_len d) (?tail v)) ?Q ?X ?D" for v
    using spec_seq [OF len tail] by (cases "v = ?built") (simp_all add: spec_def)
  have entry: "spec (has \<phi> d ?A) (load_entry E F now now' root d (meta_of name e)) ?Q ?X ?D"
    unfolding load_entry_def by (rule spec_seq [OF opened spec_seq [OF build tail2]])
  have parsed: "spec (\<lambda>w. bs = M \<and> has \<phi> d ?A w) (case meta_from_slice F bs of
       Inl t \<Rightarrow> raise (Storage (''failed to parse stream metadata '' @ dir_display root d @ ''/meta.json: '' @ t))
     | Inr m \<Rightarrow> load_entry E F now now' root d m) ?Q ?X ?D" for bs
    using entry by (cases "bs = M") (simp_all add: M spec_def)
  have recovered: "spec (has \<phi> d ?U) (load_recovered E F now now' root d) ?Q ?X ?D"
    unfolding load_recovered_def
  proof (rule spec_seq [OF recover], rule spec_seq [OF exists])
    show "spec (\<lambda>w. b \<and> has \<phi> d ?A w \<or> \<not> b \<and> ?bad) (if \<not> b then ret None
       else seq (map_err (\<lambda>e. Storage (''failed to read stream metadata '' @ dir_display root d @ ''/meta.json: '' @ io_text e))
           (io_read d ''meta.json'')) (\<lambda>bs. case meta_from_slice F bs of
             Inl t \<Rightarrow> raise (Storage (''failed to parse stream metadata '' @ dir_display root d @ ''/meta.json: '' @ t))
           | Inr m \<Rightarrow> load_entry E F now now' root d m)) ?Q ?X ?D" for b
      using spec_seq [OF read parsed] lost by (cases b) simp_all
  qed
  have validated: "spec (\<lambda>w. v = Inr () \<and> has \<phi> d ?U w \<or> ?bad \<and> (\<exists>er. v = Inl er))
      (case v of Inl _ \<Rightarrow> ret None | Inr _ \<Rightarrow> load_recovered E F now now' root d) ?Q ?X ?D" for v :: "error + unit"
    using recovered lost by (cases v) simp_all
  show ?thesis
    unfolding load_stream_def
  proof (rule spec_seq [OF enter], rule spec_seq [OF stat])
    show "spec (\<lambda>w. (\<exists>fs. v = Inr (Some (NDir fs))) \<and> has \<phi> d ?U w \<or> ?bad \<and> (\<exists>er. v = Inl er))
      (if \<not> is_dir v then ret None
       else seq (attempt_act (validate_stream_dir root d)) (\<lambda>v. case v of
         Inl _ \<Rightarrow> ret None | Inr _ \<Rightarrow> load_recovered E F now now' root d)) ?Q ?X ?D" for v :: "io_error + node option"
      using spec_seq [OF valid validated] spec_weaken [OF lost, where P' = "\<lambda>_. ?bad \<and> (\<exists>er. v = Inl er)"]
      by (cases "\<exists>fs. v = Inr (Some (NDir fs))") auto
  qed
qed

end
