(* ===== verification/DS_File_Store.thy ===== *)
theory DS_File_Store
  imports DS_File_Load
begin

text \<open>
  The file backend against the in-memory backend, operation by operation,
  under every schedule of faults.
\<close>

section \<open>Streams on disk\<close>

text \<open>An entry in use, its files at rest and in step with it.\<close>

definition holds :: "(nat \<Rightarrow> fault) \<Rightarrow> file_env \<Rightarrow> string \<Rightarrow> file_entry \<Rightarrow> message list \<Rightarrow> bytes \<Rightarrow> world \<Rightarrow> bool" where
  "holds \<phi> F name e ms M w \<longleftrightarrow> \<not> fe_unavailable e \<and> is_valid_stream_dir_component (fe_dir e) \<and> indexed e ms \<and>
     meta_from_slice F M = Inr (meta_of name e) \<and> has \<phi> (fe_dir e) (at_rest (log_bytes ms) M) w"

text \<open>The in-memory backend that a store stands for, as far as one stream is concerned.\<close>

definition mirrors :: "fstore \<Rightarrow> string \<Rightarrow> file_entry \<Rightarrow> message list \<Rightarrow> mem \<Rightarrow> bool" where
  "mirrors s name e ms \<mu> \<longleftrightarrow> fmlookup (fs_streams s) name = Some e \<and> get_stream \<mu> name = Some (mem_entry e ms) \<and>
     mem_total_bytes \<mu> = fs_total_bytes s \<and> mem_max_total_bytes \<mu> = fs_max_total_bytes s \<and>
     mem_max_stream_bytes \<mu> = fs_max_stream_bytes s"

lemma outcome_mono:
  assumes "outcome Q X D r" "\<And>x s. Q x s \<Longrightarrow> Q' x s" "\<And>e s. X e s \<Longrightarrow> X' e s" "\<And>s. D s \<Longrightarrow> D' s"
  shows "outcome Q' X' D' r"
  using assms by (cases r rule: act_cases) simp_all

lemma spec_with_entry:
  assumes "spec (at_ctx e (fs_total_bytes s) P) m Q X D" "P (fs_world s)"
  shows "outcome
    (\<lambda>x s'. \<exists>c. Q x c \<and> s' = s\<lparr>fs_total_bytes := cx_total c, fs_streams := fmupd name (cx_entry c) (fs_streams s), fs_world := cx_world c\<rparr>)
    (\<lambda>x s'. \<exists>c. X x c \<and> s' = s\<lparr>fs_total_bytes := cx_total c, fs_streams := fmupd name (cx_entry c) (fs_streams s), fs_world := cx_world c\<rparr>)
    (\<lambda>s'. \<exists>c. D c \<and> s' = s\<lparr>fs_total_bytes := cx_total c, fs_streams := fmupd name (cx_entry c) (fs_streams s), fs_world := cx_world c\<rparr>)
    (with_entry name e m s)"
proof -
  let ?c = "\<lparr>cx_total = fs_total_bytes s, cx_entry = e, cx_world = fs_world s\<rparr>"
  have "outcome Q X D (m ?c)" by (rule specD [OF assms(1)]) (simp add: assms(2))
  then show ?thesis by (cases "m ?c" rule: act_cases) (auto simp: with_entry_def)
qed

section \<open>Appending\<close>

definition after_append :: "env \<Rightarrow> string option \<Rightarrow> bool \<Rightarrow> bytes list \<Rightarrow> file_entry \<Rightarrow> file_entry" where
  "after_append E pending close ds e =
     (let a = appended E pending close ds e in a\<lparr>fe_notify := Suc (fe_notify a)\<rparr>)"

definition append_ok :: "env \<Rightarrow> fstore \<Rightarrow> bytes list \<Rightarrow> file_entry \<Rightarrow> bool" where
  "append_ok E s ds e \<longleftrightarrow> room_for (fs_total_bytes s) (fs_max_total_bytes s) (fs_max_stream_bytes s) ds e \<and> renewable E (now_at E 2) e"

text \<open>The in-memory backend on the same arguments, once the prechecks have passed.\<close>

lemma append_batch_mem:
  assumes m: "mirrors s name e ms \<mu>" and i: "indexed e ms" "small ds"
    and v: "validate_batch_shape ds close = Inr ()"
    and pre: "precheck_batch_append (now_at E 0) (fe_config e) (fe_state e) (fe_closed e) (fe_last_seq e)
      name (if ds \<noteq> [] then Some ct else None) sq = Inr pending"
  shows "append_ok E s ds e \<Longrightarrow> append_batch E \<mu> name ds ct sq close =
      (set_stream name (mem_entry (after_append E pending close ds e) (ms @ log_from (fe_next_read_seq e) (fe_next_byte_offset e) ds))
         (\<mu>\<lparr>mem_total_bytes := fs_total_bytes s + payload_bytes ds\<rparr>),
       Inr \<lparr>ar_start_offset = file_next_offset e, ar_next_offset = file_next_offset (after_append E pending close ds e),
            ar_closed = fe_closed (after_append E pending close ds e)\<rparr>)"
    and "\<not> append_ok E s ds e \<Longrightarrow> \<exists>er. append_batch E \<mu> name ds ct sq close = (\<mu>, Inl er)"
proof -
  have g: "get_stream \<mu> name = Some (mem_entry e ms)" using m by (simp add: mirrors_def)
  note c = commit_messages_mem_entry [OF _ _ _ i, of \<mu> "fs_total_bytes s" "fs_max_total_bytes s" "fs_max_stream_bytes s"]
  have \<mu>: "mem_total_bytes \<mu> = fs_total_bytes s" "mem_max_total_bytes \<mu> = fs_max_total_bytes s" "mem_max_stream_bytes \<mu> = fs_max_stream_bytes s"
    using m by (simp_all add: mirrors_def)
  show "append_batch E \<mu> name ds ct sq close =
      (set_stream name (mem_entry (after_append E pending close ds e) (ms @ log_from (fe_next_read_seq e) (fe_next_byte_offset e) ds))
         (\<mu>\<lparr>mem_total_bytes := fs_total_bytes s + payload_bytes ds\<rparr>),
       Inr \<lparr>ar_start_offset = file_next_offset e, ar_next_offset = file_next_offset (after_append E pending close ds e),
            ar_closed = fe_closed (after_append E pending close ds e)\<rparr>)" if ok: "append_ok E s ds e"
  proof -
    from ok obtain cfg b where r: "renew_ttl E (now_at E 2) (fe_config e) = Inr (cfg, b)" by (auto simp: append_ok_def)
    have "commit_messages \<mu> (mem_entry e ms) ds = (\<mu>\<lparr>mem_total_bytes := fs_total_bytes s + payload_bytes ds\<rparr>,
       Inr (mem_entry (grown ds e) (ms @ log_from (fe_next_read_seq e) (fe_next_byte_offset e) ds)))"
      using c(1) \<mu> ok by (simp add: append_ok_def)
    with r show ?thesis
      by (cases pending) (simp_all add: append_batch_def v g pre apply_append_metadata_def Let_def after_append_def appended_def stamped_def renewed_def
          notify_send_def mem_entry_def entry_next_offset_def file_next_offset_def)
  qed
  show "\<exists>er. append_batch E \<mu> name ds ct sq close = (\<mu>, Inl er)" if no: "\<not> append_ok E s ds e"
  proof (cases "renew_ttl E (now_at E 2) (fe_config e)")
    case (Inl er)
    then show ?thesis by (simp add: append_batch_def v g pre apply_append_metadata_def Let_def)
  next
    case (Inr r)
    with no have "\<not> room_for (fs_total_bytes s) (fs_max_total_bytes s) (fs_max_stream_bytes s) ds e"
      by (auto simp: append_ok_def)
    with c(2) \<mu> obtain er where "commit_messages \<mu> (mem_entry e ms) ds = (\<mu>, Inl er)" by auto
    with Inr show ?thesis by (cases r) (simp add: append_batch_def v g pre apply_append_metadata_def Let_def)
  qed
qed

text \<open>
  The outcome of an append to a stream: with a value the in-memory backend has
  it too and the stream holds what that backend holds; with an error either
  that backend refuses as well, or there was a fault, and the stream is as it
  was or out of use; on a crash the disk leads back or has the new state.
\<close>

definition leads_back :: "(nat \<Rightarrow> fault) \<Rightarrow> file_env \<Rightarrow> string \<Rightarrow> bytes \<Rightarrow> bytes \<Rightarrow> bool \<Rightarrow> bytes \<Rightarrow> bytes \<Rightarrow> world \<Rightarrow> bool" where
  "leads_back \<phi> F d L M ok L' M' = broken \<phi> d (\<lambda>fs. undoable F False L M fs \<or> ok \<and> at_rest L' M' fs)"

definition append_done ::
  "(nat \<Rightarrow> fault) \<Rightarrow> file_env \<Rightarrow> env \<Rightarrow> fstore \<Rightarrow> string \<Rightarrow> file_entry \<Rightarrow> bytes list \<Rightarrow> file_entry \<Rightarrow> message list \<Rightarrow> bytes \<Rightarrow>
   append_result \<Rightarrow> fstore \<Rightarrow> bool" where
  "append_done \<phi> F E s name e ds e' ms' M' x s' \<longleftrightarrow> append_ok E s ds e \<and>
     x = \<lparr>ar_start_offset = file_next_offset e, ar_next_offset = file_next_offset e', ar_closed = fe_closed e'\<rparr> \<and>
     fs_streams s' = fmupd name e' (fs_streams s) \<and> fs_total_bytes s' = fs_total_bytes s + payload_bytes ds \<and>
     holds \<phi> F name e' ms' M' (fs_world s')"

definition append_undone ::
  "(nat \<Rightarrow> fault) \<Rightarrow> file_env \<Rightarrow> env \<Rightarrow> fstore \<Rightarrow> string \<Rightarrow> file_entry \<Rightarrow> bytes list \<Rightarrow> message list \<Rightarrow> bytes \<Rightarrow> message list \<Rightarrow> bytes \<Rightarrow>
   fstore \<Rightarrow> bool" where
  "append_undone \<phi> F E s name e ds ms M ms' M' s' \<longleftrightarrow> (\<exists>e1. fs_streams s' = fmupd name e1 (fs_streams s) \<and>
     (fe_unavailable e1 \<and> leads_back \<phi> F (fe_dir e) (log_bytes ms) M (append_ok E s ds e) (log_bytes ms') M' (fs_world s') \<or>
      (\<exists>n. e1 = e\<lparr>fe_notify := n\<rparr>) \<and> fs_total_bytes s' = fs_total_bytes s \<and>
        (\<not> append_ok E s ds e \<and> has \<phi> (fe_dir e) (at_rest (log_bytes ms) M) (fs_world s') \<or>
         broken \<phi> (fe_dir e) (quiet F False (log_bytes ms) M) (fs_world s'))))"

lemma file_append_outcome:
  assumes m: "mirrors s name e ms \<mu>" and s: "holds \<phi> F name e ms M (fs_world s)"
    and h: "honest \<phi>" and F: "journal_codec F" "meta_codec F"
    and fit: "small ds" "length (log_bytes ms) + length (encode_records ds) < 2 ^ 64" "unat (fe_total_bytes e) \<le> unat (fs_total_bytes s)"
    and v: "validate_batch_shape ds close = Inr ()"
    and pre: "precheck_batch_append (now_at E 0) (fe_config e) (fe_state e) (fe_closed e) (fe_last_seq e)
      name (if ds \<noteq> [] then Some ct else None) sq = Inr pending"
  defines "e' \<equiv> after_append E pending close ds e"
    and "ms' \<equiv> ms @ log_from (fe_next_read_seq e) (fe_next_byte_offset e) ds"
  obtains M' where "meta_from_slice F M' = Inr (meta_of name e')"
    "outcome (append_done \<phi> F E s name e ds e' ms' M') (\<lambda>_. append_undone \<phi> F E s name e ds ms M ms' M')
      (\<lambda>s'. leads_back \<phi> F (fe_dir e) (log_bytes ms) M (append_ok E s ds e) (log_bytes ms') M' (fs_world s'))
      (file_append_batch E F name ds ct sq close s)"
proof -
  let ?d = "fe_dir e" and ?L = "log_bytes ms" and ?t = "fs_total_bytes s"
  have old: "\<not> fe_unavailable e" "is_valid_stream_dir_component ?d" "indexed e ms" "meta_from_slice F M = Inr (meta_of name e)"
    "has \<phi> ?d (at_rest ?L M) (fs_world s)"
    using s by (auto simp: holds_def)
  have len: "length ?L < 2 ^ 64" "fe_file_len e = of_nat (length ?L)" using old(3) by (simp_all add: indexed_def)
  obtain M' where M': "meta_to_vec F (meta_of name (appended E pending close ds e)) = Inr M'"
    "meta_from_slice F M' = Inr (meta_of name (appended E pending close ds e))"
    by (rule meta_codecE [OF F(2), of "appended E pending close ds e"])
      (use grown_indexed(1) [OF old(3) fit(1,2)] in \<open>simp_all add: appended_def indexed_def Let_def\<close>)
  have same_meta: "meta_of name e' = meta_of name (appended E pending close ds e)"
    by (simp add: e'_def after_append_def meta_of_def Let_def)
  let ?u = "\<lparr>un_log_len = of_nat (length ?L), un_metadata = M, un_restore_log = False\<rparr>"
  have fin: "e' = (appended E pending close ds e)\<lparr>fe_notify := Suc (fe_notify (appended E pending close ds e))\<rparr>"
    by (simp add: e'_def after_append_def Let_def)
  note op = append_operation_spec [OF old(3) refl old(2) fit(1,2,3) refl refl M'(1) refl append_ok_def fin,
      where \<phi> = \<phi> and M = M and root = "fs_root_dir s" and start = "file_next_offset e"]
  note log = grown_indexed [OF old(3) fit(1,2), folded ms'_def]
  let ?ok = "append_ok E s ds e"
  let ?L1 = "if ?ok then log_bytes ms' else ?L" and ?M1 = "if ?ok then M' else M"
  have op1: "spec (at_ctx e ?t (has \<phi> ?d (\<lambda>fs. in_force F False ?L M fs \<and> quiet F False ?L M fs)))
    (append_operation E F (fs_max_total_bytes s) (fs_max_stream_bytes s) (fs_root_dir s) name ds pending close (file_next_offset e))
    (\<lambda>x c. ((?ok \<and> cx_entry c = e' \<and> cx_total c = ?t + payload_bytes ds \<and>
          x = \<lparr>ar_start_offset = file_next_offset e, ar_next_offset = file_next_offset e', ar_closed = fe_closed e'\<rparr>) \<and>
        revertible e ?t ?u (meta_of name e) (cx_entry c) (cx_total c)) \<and>
       has \<phi> ?d (\<lambda>fs. in_force F False ?L M fs \<and> fmlookup fs ''data.log'' = Some ?L1 \<and> fmlookup fs ''meta.json'' = Some ?M1) (cx_world c))
    (\<lambda>_ c. revertible e ?t ?u (meta_of name e) (cx_entry c) (cx_total c) \<and>
       has \<phi> ?d (\<lambda>fs. (\<not> ?ok \<or> (\<exists>k. \<phi> k \<noteq> Works)) \<and> in_force F False ?L M fs) (cx_world c))
    (\<lambda>c. broken \<phi> ?d (in_force F False ?L M) (cx_world c))"
    using op log(4) by (cases ?ok) (auto elim!: spec_weaken)
  note txn = append_transaction_spec [OF old(2) refl old(4) len(1) h F(1) old(1) len(2) refl op1, where root = "fs_root_dir s"]
  have reach: "broken \<phi> ?d (\<lambda>fs. undoable F False ?L M fs \<or> at_rest ?L1 ?M1 fs) w \<Longrightarrow> leads_back \<phi> F ?d ?L M ?ok (log_bytes ms') M' w" for w
    by (auto simp: leads_back_def undoable_def elim!: broken_mono split: if_splits)
  have e'_fields: "\<not> fe_unavailable e'" "fe_dir e' = ?d" "indexed e' ms'"
    using old(1) log(1) by (simp_all add: e'_def after_append_def appended_def indexed_def Let_def)
  have run: "file_append_batch E F name ds ct sq close s = with_entry name e (append_transaction F (fs_root_dir s) False
      (append_operation E F (fs_max_total_bytes s) (fs_max_stream_bytes s) (fs_root_dir s) name ds pending close (file_next_offset e))) s"
    using m old(1) by (simp add: file_append_batch_def v pre seq_def of_res_def available_stream_def lookup_stream_def ret_def
        mirrors_def ensure_available_def)
  have ready: "has \<phi> ?d (ready F False ?L M) (fs_world s)" using old(5) by (rule has_mono) (rule at_rest_ready)
  show ?thesis
  proof (rule that [of M'])
    show "meta_from_slice F M' = Inr (meta_of name e')" using M'(2) same_meta by simp
    show "outcome (append_done \<phi> F E s name e ds e' ms' M') (\<lambda>_. append_undone \<phi> F E s name e ds ms M ms' M')
      (\<lambda>s'. leads_back \<phi> F ?d ?L M ?ok (log_bytes ms') M' (fs_world s')) (file_append_batch E F name ds ct sq close s)"
      unfolding run
      by (rule outcome_mono [OF spec_with_entry [OF txn ready]])
        (use e'_fields old(2) M'(2) same_meta in \<open>auto simp: append_done_def append_undone_def holds_def undone_def dest!: reach\<close>)
  qed
qed

end
