(* ===== verification/DS_File_Read.thy ===== *)
theory DS_File_Read
  imports DS_File_Store DS_Step
begin

text \<open>
  Reading from the file backend: the index finds the bytes of each message,
  and without faults a read gives what the in-memory backend gives.
\<close>

section \<open>Messages through the index\<close>

lemma slice_shift:
  assumes "f \<le> a" "a + n \<le> e"
  shows "slice (a - f) (a - f + n) (take (e - f) (drop f L)) = slice a (a + n) L"
proof -
  have "a - f + n \<le> e - f" "a - f + n + f = a + n" "a - f + f = a" using assms by simp_all
  then show ?thesis unfolding slice_def take_take min_def take_drop drop_drop by simp
qed

lemma index_data:
  assumes "L = pre @ log_bytes ms @ post" "small (map msg_data ms)" "length L < 2 ^ 64"
  shows "list_all2 (\<lambda>i m. unat (mi_byte_len i) = length (msg_data m) \<and>
      slice (unat (mi_file_pos i)) (unat (mi_file_pos i) + length (msg_data m)) L = msg_data m \<and>
      length pre + 4 \<le> unat (mi_file_pos i) \<and> unat (mi_file_pos i) + length (msg_data m) \<le> length pre + length (log_bytes ms))
    (index_of (length pre) ms) ms"
  using assms
proof (induction ms arbitrary: pre)
  case (Cons m ms)
  have small: "length (msg_data m) < 2 ^ 32" "small (map msg_data ms)" using Cons.prems(2) by (simp_all add: small_def)
  let ?pre = "pre @ encode_record (msg_data m)"
  have len: "length pre + 4 + length (msg_data m) \<le> length L" using Cons.prems(1) by simp
  have pos: "unat (of_nat (length pre + 4) :: u64) = length pre + 4" by (subst unat_of_nat) (use len Cons.prems(3) in simp)
  have "list_all2 (\<lambda>i m. unat (mi_byte_len i) = length (msg_data m) \<and>
      slice (unat (mi_file_pos i)) (unat (mi_file_pos i) + length (msg_data m)) L = msg_data m \<and>
      length ?pre + 4 \<le> unat (mi_file_pos i) \<and> unat (mi_file_pos i) + length (msg_data m) \<le> length ?pre + length (log_bytes ms))
    (index_of (length ?pre) ms) ms"
    using Cons.prems small by (intro Cons.IH) simp_all
  then have rest: "list_all2 (\<lambda>i m'. unat (mi_byte_len i) = length (msg_data m') \<and>
      slice (unat (mi_file_pos i)) (unat (mi_file_pos i) + length (msg_data m')) L = msg_data m' \<and>
      length pre + 4 \<le> unat (mi_file_pos i) \<and> unat (mi_file_pos i) + length (msg_data m') \<le> length pre + length (log_bytes (m # ms)))
    (index_of (length pre + 4 + length (msg_data m)) ms) ms"
    by (simp add: add.assoc) (erule list_all2_mono, auto)
  have first: "slice (length pre + 4) (length pre + 4 + length (msg_data m)) L = msg_data m"
    using Cons.prems(1) small(1) by (simp add: slice_def encode_record_small)
  from rest show ?case
    unfolding index_of.simps list_all2_Cons message_index.simps pos
    using first small(1) by (simp add: unat_u64_of_usize)
qed simp

section \<open>Reads leave the disk alone\<close>

definition same_disk :: "(nat \<Rightarrow> fault) \<Rightarrow> world \<Rightarrow> world \<Rightarrow> bool" where
  "same_disk \<phi> w0 w \<longleftrightarrow> w_faults w = \<phi> \<and> w_root w = w_root w0"

abbreviation faulty :: "(nat \<Rightarrow> fault) \<Rightarrow> bool" where
  "faulty \<phi> \<equiv> \<exists>k. \<phi> k \<noteq> Works"

lemma same_disk_content: "same_disk \<phi> w0 w \<Longrightarrow> file_content w d f = file_content w0 d f"
  by (simp add: same_disk_def file_content_def dir_files_def)

lemma spec_io_read_at:
  assumes "file_content w0 d f = Some bs" "unat pos + unat n \<le> length bs"
  shows "spec (same_disk \<phi> w0) (io_read_at d f pos n) (\<lambda>r w. r = take (unat n) (drop (unat pos) bs) \<and> same_disk \<phi> w0 w)
    (\<lambda>_ _. faulty \<phi>) (\<lambda>_. faulty \<phi>)"
proof -
  let ?w = "\<lambda>w :: world. w\<lparr>w_calls := Suc (w_calls w)\<rparr>"
  have kept: "same_disk \<phi> w0 (?w w)" "file_content (?w w) d f = Some bs" if "same_disk \<phi> w0 w" for w
    using that assms(1) by (simp_all add: same_disk_def file_content_def dir_files_def)
  have fault: "faulty \<phi>" if "same_disk \<phi> w0 w" "w_faults w k = x" "x \<noteq> Works" for w k x
    using that by (auto simp: same_disk_def)
  show ?thesis
    unfolding io_read_at_def io_atomic_def
  proof (rule spec_io_call)
    show "faulty \<phi>" if "same_disk \<phi> w0 w" "w_faults w (w_calls w) = Fails e p" for w e p
      by (rule fault [OF that]) simp
    show "faulty \<phi>" if "same_disk \<phi> w0 w" "w_faults w (w_calls w) = Dies p" for w p
      by (rule fault [OF that]) simp
  qed (use assms(2) kept in auto)
qed

lemma last_index:
  assumes "ms \<noteq> []" "small (map msg_data ms)" "p + length (log_bytes ms) < 2 ^ 64"
  shows "unat (mi_file_pos (List.last (index_of p ms))) + unat (mi_byte_len (List.last (index_of p ms))) = p + length (log_bytes ms)"
  using assms
proof (induction ms arbitrary: p)
  case (Cons m ms)
  show ?case
  proof (cases "ms = []")
    case True
    with Cons.prems have "p + 4 < 2 ^ 64" "length (msg_data m) < 2 ^ 64" by simp_all
    with True show ?thesis by (simp add: unat_of_nat unat_u64_of_usize del: of_nat_add)
  next
    case False
    then have "index_of (p + 4 + length (msg_data m)) ms \<noteq> []" by (cases ms) simp_all
    with Cons.IH [of "p + 4 + length (msg_data m)"] Cons.prems False show ?thesis by (simp add: small_def add.assoc)
  qed
qed simp

text \<open>One read for a stretch of the index gives the messages of that stretch.\<close>

lemma read_messages_spec:
  assumes c: "file_content w0 d ''data.log'' = Some L" and L: "L = pre @ log_bytes ms @ post" "length L < 2 ^ 64"
    and s: "small (map msg_data ms)"
  shows "spec (same_disk \<phi> w0) (read_messages d (index_of (length pre) ms))
    (\<lambda>r w. r = map msg_data ms \<and> same_disk \<phi> w0 w) (\<lambda>_ _. faulty \<phi>) (\<lambda>_. faulty \<phi>)"
proof (cases "ms = []")
  case True
  then show ?thesis by (simp add: read_messages_def spec_ret)
next
  case False
  let ?idx = "index_of (length pre) ms"
  note data = index_data [OF L(1) s L(2)]
  have ne: "?idx \<noteq> []" using False by (cases ms) simp_all
  obtain m rest where ms: "ms = m # rest" using False by (cases ms) auto
  let ?first = "mi_file_pos (hd ?idx)" and ?last = "List.last ?idx"
  have first: "unat ?first = length pre + 4"
  proof -
    have "length pre + 4 < 2 ^ 64" using L ms by simp
    then show ?thesis by (simp add: ms unat_of_nat del: of_nat_add)
  qed
  let ?E = "length pre + length (log_bytes ms)" and ?f = "length pre + 4"
  have E: "?E < 2 ^ 64" "?E \<le> length L" using L by simp_all
  have last: "unat (mi_file_pos ?last) + unat (mi_byte_len ?last) = ?E" by (rule last_index [OF False s E(1)])
  then have "unat (mi_file_pos ?last + mi_byte_len ?last) = ?E" using E(1) by (simp add: unat_word_ariths)
  then have n: "unat (saturating_sub (mi_file_pos ?last + mi_byte_len ?last) ?first) = ?E - ?f"
    by (simp add: unat_saturating_sub first)
  have f: "?f \<le> ?E" by (simp add: ms)
  let ?bs = "take (?E - ?f) (drop ?f L)"
  let ?start = "\<lambda>i. unat (saturating_sub (mi_file_pos i) ?first)"
  have cut: "list_all2 (\<lambda>i m. ?start i + unat (mi_byte_len i) \<le> length ?bs \<and>
      slice (?start i) (?start i + unat (mi_byte_len i)) ?bs = msg_data m) ?idx ms"
    using data
  proof (rule list_all2_mono)
    fix i m
    assume "unat (mi_byte_len i) = length (msg_data m) \<and>
      slice (unat (mi_file_pos i)) (unat (mi_file_pos i) + length (msg_data m)) L = msg_data m \<and>
      ?f \<le> unat (mi_file_pos i) \<and> unat (mi_file_pos i) + length (msg_data m) \<le> ?E"
    then have i: "unat (mi_byte_len i) = length (msg_data m)" "?f \<le> unat (mi_file_pos i)" "unat (mi_file_pos i) + length (msg_data m) \<le> ?E"
      "slice (unat (mi_file_pos i)) (unat (mi_file_pos i) + length (msg_data m)) L = msg_data m" by blast+
    have st: "?start i = unat (mi_file_pos i) - ?f" by (simp add: unat_saturating_sub first)
    have "length ?bs = ?E - ?f" using E(2) f by simp
    then have "?start i + unat (mi_byte_len i) \<le> length ?bs" using i(1-3) st by linarith
    moreover have "slice (?start i) (?start i + unat (mi_byte_len i)) ?bs = msg_data m"
      unfolding st i(1) using slice_shift [OF i(2,3), of L] i(4) by simp
    ultimately show "?start i + unat (mi_byte_len i) \<le> length ?bs \<and> slice (?start i) (?start i + unat (mi_byte_len i)) ?bs = msg_data m" ..
  qed
  have inside: "list_all (\<lambda>i. ?start i + unat (mi_byte_len i) \<le> length ?bs) ?idx"
    using cut by (auto simp: list_all2_conv_all_nth list_all_length)
  have got: "map (\<lambda>i. slice (?start i) (?start i + unat (mi_byte_len i)) ?bs) ?idx = map msg_data ms"
    using cut by (auto simp: list_all2_conv_all_nth list_eq_iff_nth_eq)
  have rd: "spec (same_disk \<phi> w0) (map_err g (io_read_at d ''data.log'' ?first (saturating_sub (mi_file_pos ?last + mi_byte_len ?last) ?first)))
      (\<lambda>r w. r = ?bs \<and> same_disk \<phi> w0 w) (\<lambda>_ _. faulty \<phi>) (\<lambda>_. faulty \<phi>)" for g :: "io_error \<Rightarrow> error"
    using spec_io_read_at [OF c, of ?first "saturating_sub (mi_file_pos ?last + mi_byte_len ?last) ?first" \<phi>] f E(2)
    by (intro spec_map_err) (simp add: n first)
  show ?thesis
    unfolding read_messages_def Let_def if_not_P [OF ne]
  proof (rule spec_seq [OF rd])
    fix bs
    show "spec (\<lambda>w. bs = ?bs \<and> same_disk \<phi> w0 w)
      (if list_all (\<lambda>i. ?start i + unat (mi_byte_len i) \<le> length bs) ?idx
       then ret (map (\<lambda>i. slice (?start i) (?start i + unat (mi_byte_len i)) bs) ?idx) else never_returns)
      (\<lambda>r w. r = map msg_data ms \<and> same_disk \<phi> w0 w) (\<lambda>_ _. faulty \<phi>) (\<lambda>_. faulty \<phi>)"
    proof (cases "bs = ?bs")
      case True
      show ?thesis unfolding True if_P [OF inside] got by (rule spec_ret) simp
    qed (simp add: spec_def)
  qed
qed

lemma partition_point_map: "partition_point (\<lambda>x. P (f x)) xs = partition_point P (map f xs)"
  by (simp add: partition_point_def takeWhile_map comp_def)

lemma index_slice:
  assumes "a \<le> b"
  shows "slice a b (index_of 0 ms) = index_of (length (log_bytes (take a ms))) (slice a b ms)"
    "log_bytes ms = log_bytes (take a ms) @ log_bytes (slice a b ms) @ log_bytes (drop b ms)"
proof -
  have ms: "ms = take a ms @ slice a b ms @ drop b ms"
    using assms by (metis append.assoc append_take_drop_id min.absorb1 slice_def take_take)
  show "log_bytes ms = log_bytes (take a ms) @ log_bytes (slice a b ms) @ log_bytes (drop b ms)"
    by (subst ms) (simp only: log_bytes_simps)
  have "take b (index_of 0 ms) = index_of 0 (take b ms)" for b
  proof -
    have "index_of 0 ms = index_of 0 (take b ms) @ index_of (length (log_bytes (take b ms))) (drop b ms)"
      using index_of_append [of 0 "take b ms" "drop b ms"] by simp
    then show ?thesis by (simp add: min_def)
  qed
  moreover have "index_of 0 (take b ms) = index_of 0 (take a ms) @ index_of (length (log_bytes (take a ms))) (slice a b ms)"
  proof -
    have "take b ms = take a ms @ slice a b ms" using assms by (metis append_take_drop_id min.absorb1 slice_def take_take)
    then show ?thesis using index_of_append [of 0 "take a ms" "slice a b ms"] by simp
  qed
  ultimately show "slice a b (index_of 0 ms) = index_of (length (log_bytes (take a ms))) (slice a b ms)"
    by (cases "a \<le> length ms") (simp_all add: slice_def min_def)
qed

lemma message_range_index: "message_range mi_offset (index_of p ms) = message_range msg_offset ms"
proof -
  have "partition_point (\<lambda>m. offset_lt (mi_offset m) b) (index_of p ms) = partition_point (\<lambda>m. offset_lt (msg_offset m) b) ms" for b
    using partition_point_map [of "\<lambda>x. offset_lt x b" mi_offset "index_of p ms"] partition_point_map [of "\<lambda>x. offset_lt x b" msg_offset ms]
    by simp
  then show ?thesis by (simp add: message_range_def fun_eq_iff split: option.splits)
qed

section \<open>The whole store\<close>

text \<open>Every stream of the store is held by its files, and the in-memory backend has the same streams.\<close>

definition file_rel :: "(nat \<Rightarrow> fault) \<Rightarrow> file_env \<Rightarrow> fstore \<Rightarrow> mem \<Rightarrow> bool" where
  "file_rel \<phi> F s \<mu> \<longleftrightarrow>
     mem_total_bytes \<mu> = fs_total_bytes s \<and> mem_max_total_bytes \<mu> = fs_max_total_bytes s \<and>
     mem_max_stream_bytes \<mu> = fs_max_stream_bytes s \<and> w_faults (fs_world s) = \<phi> \<and>
     (\<forall>n. case fmlookup (fs_streams s) n of
        None \<Rightarrow> get_stream \<mu> n = None
      | Some e \<Rightarrow> \<exists>ms M. get_stream \<mu> n = Some (mem_entry e ms) \<and> holds \<phi> F n e ms M (fs_world s)) \<and>
     (\<forall>n n' e e'. fmlookup (fs_streams s) n = Some e \<longrightarrow> fmlookup (fs_streams s) n' = Some e' \<longrightarrow> fe_dir e = fe_dir e' \<longrightarrow> n = n')"

lemma file_rel_stream:
  assumes "file_rel \<phi> F s \<mu>"
  shows "case fmlookup (fs_streams s) n of None \<Rightarrow> get_stream \<mu> n = None
    | Some e \<Rightarrow> \<exists>ms M. get_stream \<mu> n = Some (mem_entry e ms) \<and> holds \<phi> F n e ms M (fs_world s)"
  using assms unfolding file_rel_def by blast

lemma file_rel_Some:
  assumes "file_rel \<phi> F s \<mu>" "fmlookup (fs_streams s) n = Some e"
  obtains ms M where "get_stream \<mu> n = Some (mem_entry e ms)" "holds \<phi> F n e ms M (fs_world s)"
  using file_rel_stream [OF assms(1), of n] assms(2) by auto

lemma file_rel_None: "file_rel \<phi> F s \<mu> \<Longrightarrow> fmlookup (fs_streams s) n = None \<Longrightarrow> get_stream \<mu> n = None"
  using file_rel_stream [of \<phi> F s \<mu> n] by simp

text \<open>What reading needs of a stream: it is in use and its index describes the log on disk.\<close>

definition shelved :: "world \<Rightarrow> file_entry \<Rightarrow> message list \<Rightarrow> bool" where
  "shelved w e ms \<longleftrightarrow> \<not> fe_unavailable e \<and> indexed e ms \<and> file_content w (fe_dir e) ''data.log'' = Some (log_bytes ms)"

lemma holds_shelved: "holds \<phi> F n e ms M w \<Longrightarrow> shelved w e ms"
  by (auto simp: shelved_def holds_def has_def at_rest_def file_content_def)

definition read_rel :: "world \<Rightarrow> (string, file_entry) fmap \<Rightarrow> mem \<Rightarrow> bool" where
  "read_rel w streams \<mu> \<longleftrightarrow> (\<forall>n. rel_option (\<lambda>e m. shelved w e (se_messages m) \<and> fe_fork_info e = se_fork_info m)
     (fmlookup streams n) (get_stream \<mu> n))"

lemma read_rel_stream:
  "read_rel w streams \<mu> \<Longrightarrow> rel_option (\<lambda>e m. shelved w e (se_messages m) \<and> fe_fork_info e = se_fork_info m)
     (fmlookup streams n) (get_stream \<mu> n)"
  by (simp add: read_rel_def)

lemma file_rel_read_rel:
  assumes "file_rel \<phi> F s \<mu>"
  shows "read_rel (fs_world s) (fs_streams s) \<mu>"
  unfolding read_rel_def
proof
  fix n
  show "rel_option (\<lambda>e m. shelved (fs_world s) e (se_messages m) \<and> fe_fork_info e = se_fork_info m) (fmlookup (fs_streams s) n) (get_stream \<mu> n)"
    using file_rel_stream [OF assms, of n] by (cases "fmlookup (fs_streams s) n") (auto dest: holds_shelved)
qed

lemma file_fork_lookup_rel:
  assumes "read_rel w streams \<mu>"
  shows "file_fork_lookup streams = fork_lookup \<mu>"
proof
  fix n
  from read_rel_stream [OF assms, of n] show "file_fork_lookup streams n = fork_lookup \<mu> n"
    by (cases "fmlookup streams n"; cases "get_stream \<mu> n") (simp_all add: file_fork_lookup_def fork_lookup_def)
qed

text \<open>A stretch of a stream.\<close>

lemma read_stretch_spec:
  assumes "shelved w0 e ms" "a \<le> b"
  shows "spec (same_disk \<phi> w0) (read_messages (fe_dir e) (slice a b (fe_index e)))
    (\<lambda>r w. r = map msg_data (slice a b ms) \<and> same_disk \<phi> w0 w) (\<lambda>_ _. faulty \<phi>) (\<lambda>_. faulty \<phi>)"
proof -
  have i: "fe_index e = index_of 0 ms" "length (log_bytes ms) < 2 ^ 64" "small (map msg_data ms)"
    "file_content w0 (fe_dir e) ''data.log'' = Some (log_bytes ms)"
    using assms(1) by (simp_all add: shelved_def indexed_def)
  have "set (slice a b ms) \<subseteq> set ms" by (auto simp: slice_def dest: in_set_dropD in_set_takeD)
  then have "small (map msg_data (slice a b ms))" using i(3) by (auto simp: small_def list_all_iff)
  from read_messages_spec [OF i(4) index_slice(2) [OF assms(2)] i(2) this]
  show ?thesis by (simp add: i(1) index_slice(1) [OF assms(2)])
qed

lemma range_ordered: "message_range off xs from up_to = (a, b) \<Longrightarrow> a \<le> b"
  by (auto simp: message_range_def Let_def)

lemma file_prepare_read_spec:
  assumes h: "shelved w0 e ms"
  shows "spec (same_disk \<phi> w0) (file_prepare_read e from)
    (\<lambda>r w. r = prepare_read (mem_entry e ms) from \<and> same_disk \<phi> w0 w) (\<lambda>_ _. faulty \<phi>) (\<lambda>_. faulty \<phi>)"
proof -
  have avail: "ensure_available e = Inr ()" using h by (simp add: shelved_def ensure_available_def)
  have idx: "fe_index e = index_of 0 ms" using h by (simp add: shelved_def indexed_def)
  obtain a b where r: "message_range msg_offset ms from None = (a, b)" by fastforce
  note stretch = read_stretch_spec [OF h range_ordered [OF r]]
  have local: "spec (same_disk \<phi> w0) (read_local_file_messages e from nxt)
      (\<lambda>r w. r = read_local_messages (mem_entry e ms) from nxt \<and> same_disk \<phi> w0 w) (\<lambda>_ _. faulty \<phi>) (\<lambda>_. faulty \<phi>)" for nxt
    unfolding read_local_file_messages_def idx message_range_index r prod.case
    by (rule spec_seq [OF stretch [unfolded idx]]) (auto intro!: spec_ret simp: read_local_messages_def r)
  have wrap: "spec (same_disk \<phi> w0) (seq (read_local_file_messages e from nxt) (\<lambda>r. ret (f r)))
      (\<lambda>r w. r = f (read_local_messages (mem_entry e ms) from nxt) \<and> same_disk \<phi> w0 w) (\<lambda>_ _. faulty \<phi>) (\<lambda>_. faulty \<phi>)"
    for nxt and f :: "read_result \<Rightarrow> pending_read"
    by (rule spec_seq [OF local]) (auto intro!: spec_ret)
  show ?thesis
    using wrap [of "file_next_offset e" Complete] wrap [of "file_next_offset e" "Fork _"]
    by (cases "fe_fork_info e")
      (auto simp: file_prepare_read_def prepare_read_def avail seq_def of_res_def Let_def spec_def ret_def)
qed

lemma seq_of_res_Inr [simp]: "seq (of_res (Inr x)) f = f x"
  by (simp add: fun_eq_iff seq_def of_res_def)

lemma file_read_segments_spec:
  assumes rel: "read_rel w0 streams \<mu>"
  shows "spec (same_disk \<phi> w0) (file_read_segments streams from up_to segs)
    (\<lambda>r w. r = read_segments \<mu> from up_to segs \<and> same_disk \<phi> w0 w) (\<lambda>_ _. faulty \<phi>) (\<lambda>_. faulty \<phi>)"
proof (induction segs)
  case Nil
  show ?case by (simp add: spec_ret)
next
  case (Cons seg segs)
  show ?case
  proof (cases "fmlookup streams (seg_name seg)")
    case None
    with read_rel_stream [OF rel, of "seg_name seg"] Cons.IH show ?thesis by simp
  next
    case (Some e)
    then obtain m where m: "get_stream \<mu> (seg_name seg) = Some m" "shelved w0 e (se_messages m)"
      using read_rel_stream [OF rel, of "seg_name seg"] by (auto simp: option_rel_Some1)
    let ?bound = "case read_up_to seg of None \<Rightarrow> up_to | Some b \<Rightarrow> offset_min b up_to"
    obtain a b where r: "message_range msg_offset (se_messages m) from (Some ?bound) = (a, b)" by fastforce
    have avail: "ensure_available e = Inr ()" using m(2) by (simp add: shelved_def ensure_available_def)
    have idx: "fe_index e = index_of 0 (se_messages m)" using m(2) by (simp add: shelved_def indexed_def)
    have tail: "spec (\<lambda>w. msgs = xs \<and> same_disk \<phi> w0 w) (seq (file_read_segments streams from up_to segs) (\<lambda>rest. ret (msgs @ rest)))
        (\<lambda>r w. r = xs @ read_segments \<mu> from up_to segs \<and> same_disk \<phi> w0 w) (\<lambda>_ _. faulty \<phi>) (\<lambda>_. faulty \<phi>)" for msgs xs
      by (cases "msgs = xs") (auto intro!: spec_ret spec_seq [OF Cons.IH] simp: spec_def [where P = "\<lambda>_. False"])
    show ?thesis
      using spec_seq [OF read_stretch_spec [OF m(2) range_ordered [OF r], of \<phi>] tail [of _ "map msg_data (slice a b (se_messages m))"]]
      by (simp add: Some m(1) avail Let_def idx message_range_index r)
  qed
qed

lemma file_finish_read_spec:
  assumes rel: "read_rel w0 streams \<mu>" and fin: "finish_read \<mu> from pending = Some (Inr x)"
  shows "spec (same_disk \<phi> w0) (file_finish_read streams from pending)
    (\<lambda>r w. r = x \<and> same_disk \<phi> w0 w) (\<lambda>_ _. faulty \<phi>) (\<lambda>_. faulty \<phi>)"
proof (cases pending)
  case (Complete r)
  with fin show ?thesis by (simp add: file_finish_read_def finish_read_def pending_finish_def spec_ret)
next
  case (Fork info local)
  show ?thesis
  proof (cases "offset_is_start from \<or> offset_lt from (fork_offset info)")
    case True
    with fin Fork obtain plan where plan: "build_read_plan (source_name info) (fork_lookup \<mu>) = Some (Inr plan)"
      "x = local\<lparr>rr_messages := read_segments \<mu> from (fork_offset info) plan @ rr_messages local\<rparr>"
      by (auto simp: finish_read_def pending_finish_def read_source_chain_def split: option.splits sum.splits)
    have chain: "file_read_source_chain streams (source_name info) from (fork_offset info) = file_read_segments streams from (fork_offset info) plan"
      by (simp add: file_read_source_chain_def file_fork_lookup_rel [OF rel] plan(1) fun_eq_iff seq_def of_run_def)
    show ?thesis
      unfolding file_finish_read_def Fork pending_read.case if_P [OF True] chain
      by (rule spec_seq [OF file_read_segments_spec [OF rel]]) (auto intro!: spec_ret simp: plan(2))
  qed (use fin Fork in \<open>simp add: file_finish_read_def finish_read_def pending_finish_def spec_ret\<close>)
qed

end
