(* ===== verification/DS_File_Frame.thy ===== *)
theory DS_File_Frame
  imports DS_File_Ops
begin

text \<open>
  Operations on one stream leave the directories of all others alone. The
  argument is the same for actions on the disk and on an entry: a preorder on
  states that every primitive keeps is kept by every composition.
\<close>

definition keeps :: "('s \<Rightarrow> 's \<Rightarrow> bool) \<Rightarrow> ('s, 'e, 'a) act \<Rightarrow> bool" where
  "keeps R m \<longleftrightarrow> (\<forall>s. R s (fst (m s)))"

locale frame =
  fixes R :: "'s \<Rightarrow> 's \<Rightarrow> bool"
  assumes refl: "R s s"
    and trans: "R s t \<Longrightarrow> R t u \<Longrightarrow> R s u"
begin

lemma ret_keeps: "keeps R (ret x)"
  by (simp add: keeps_def ret_def refl)

lemma raise_keeps: "keeps R (raise e)"
  by (simp add: keeps_def raise_def refl)

lemma of_res_keeps: "keeps R (of_res r)"
  by (simp add: keeps_def of_res_def refl)

lemma seq_keeps:
  assumes "keeps R m" "\<And>x. keeps R (f x)"
  shows "keeps R (seq m f)"
proof -
  have "R s (fst (seq m f s))" for s
  proof -
    have "R s (fst (m s))" using assms(1) by (simp add: keeps_def)
    moreover have "R t (fst (f x t))" for x t using assms(2) by (simp add: keeps_def)
    ultimately show ?thesis by (auto simp: seq_def split: prod.splits option.splits sum.splits intro: trans)
  qed
  then show ?thesis by (simp add: keeps_def)
qed

lemma map_err_keeps: "keeps R m \<Longrightarrow> keeps R (map_err f m)"
  by (auto simp: keeps_def map_err_def split: prod.splits dest: spec) (metis fst_conv)

lemma attempt_keeps: "keeps R m \<Longrightarrow> keeps R (attempt_act m)"
  by (auto simp: keeps_def attempt_act_def split: prod.splits) (metis fst_conv)

lemma modify_keeps: "(\<And>s. R s (f s)) \<Longrightarrow> keeps R (modify_state f)"
  by (simp add: keeps_def modify_state_def)

lemma fun_keeps: "(\<And>s. keeps R (m s)) \<Longrightarrow> keeps R (\<lambda>s. m s s)"
  by (simp add: keeps_def)

lemma ret_fun_keeps: "keeps R (\<lambda>s. ret (f s) s)"
  by (simp add: keeps_def ret_def refl)

lemma if_keeps: "(b \<Longrightarrow> keeps R m) \<Longrightarrow> (\<not> b \<Longrightarrow> keeps R n) \<Longrightarrow> keeps R (if b then m else n)"
  by simp

lemma case_sum_keeps: "(\<And>x. keeps R (f x)) \<Longrightarrow> (\<And>y. keeps R (g y)) \<Longrightarrow> keeps R (case v of Inl x \<Rightarrow> f x | Inr y \<Rightarrow> g y)"
  by (cases v) simp_all

lemma warn_only_keeps: "keeps R m \<Longrightarrow> keeps R (warn_only m)"
  unfolding warn_only_def by (intro seq_keeps attempt_keeps ret_keeps)

lemmas frame_intros = ret_keeps raise_keeps of_res_keeps seq_keeps map_err_keeps attempt_keeps if_keeps case_sum_keeps warn_only_keeps

end

section \<open>The disk\<close>

definition elsewhere :: "string \<Rightarrow> world \<Rightarrow> world \<Rightarrow> bool" where
  "elsewhere d w w' \<longleftrightarrow> w_faults w' = w_faults w \<and> (\<forall>d'. d' \<noteq> d \<longrightarrow> dir_files w' d' = dir_files w d')"

interpretation disk: frame "elsewhere d" for d
  by unfold_locales (auto simp: elsewhere_def)

lemma elsewhere_calls [simp]: "elsewhere d (w\<lparr>w_calls := k\<rparr>) w' \<longleftrightarrow> elsewhere d w w'"
  by (simp add: elsewhere_def dir_files_def)

lemma elsewhere_refl [simp]: "elsewhere d w w" "elsewhere d w (w\<lparr>w_calls := k\<rparr>)"
  by (simp_all add: elsewhere_def dir_files_def)

lemma elsewhere_set_dir [simp]: "elsewhere d w (set_dir d fs w)"
  by (simp add: elsewhere_def dir_files_def set_dir_def)

lemma io_call_keeps:
  assumes "\<And>w. elsewhere d w (fst (perform w))" "\<And>p w. elsewhere d w (failing p w)" "\<And>p w. elsewhere d w (dying p w)"
  shows "keeps (elsewhere d) (io_call failing dying perform)"
proof -
  have "elsewhere d w (fst (io_call failing dying perform w))" for w
    using assms [where w = "w\<lparr>w_calls := Suc (w_calls w)\<rparr>"]
    by (auto simp: io_call_def Let_def split: fault.splits prod.splits)
  then show ?thesis by (simp add: keeps_def)
qed

lemma io_atomic_keeps: "(\<And>w. elsewhere d w (fst (perform w))) \<Longrightarrow> keeps (elsewhere d) (io_atomic perform)"
  unfolding io_atomic_def by (rule io_call_keeps) auto

lemma put_file_elsewhere [simp]: "elsewhere d w (fst (put_file d f bs w))"
  by (simp add: put_file_def split: option.splits)

lemma io_writing_keeps: "(\<And>bs w. elsewhere d w (fst (put bs w))) \<Longrightarrow> keeps (elsewhere d) (io_writing put bs)"
  unfolding io_writing_def Let_def by (rule io_call_keeps) (auto split: option.splits)

lemma io_keeps:
  "keeps (elsewhere d) (io_read d f)" "keeps (elsewhere d) io_plain" "keeps (elsewhere d) (io_write d f bs)"
  "keeps (elsewhere d) (io_append d f bs)" "keeps (elsewhere d) (io_rename d a b)" "keeps (elsewhere d) (io_remove d f)"
  "keeps (elsewhere d) (io_len d f)" "keeps (elsewhere d) (io_set_len d f n)" "keeps (elsewhere d) (io_open_append d f)"
  "keeps (elsewhere d) (io_stat d)" "keeps (elsewhere d) (path_exists d f)"
  unfolding io_read_def io_plain_def io_write_def io_append_def io_rename_def io_remove_def io_len_def io_set_len_def
    io_open_append_def io_stat_def path_exists_def
  by (auto intro!: io_atomic_keeps io_writing_keeps disk.seq_keeps disk.attempt_keeps disk.ret_keeps split: option.splits)

lemma io_copy_keeps: "keeps (elsewhere d) (io_copy d a b)"
proof -
  have "keeps (elsewhere d) (io_writing (\<lambda>bs w'. if file_content w d a = None then (w', Inl not_found) else put_file d b bs w') bs)" for w bs
    by (rule io_writing_keeps) auto
  then show ?thesis by (simp add: keeps_def io_copy_def)
qed

lemmas disk_intros = io_keeps io_copy_keeps disk.frame_intros

lemma case_node_keeps:
  "keeps R a \<Longrightarrow> (\<And>fs. keeps R (b fs)) \<Longrightarrow> (\<And>bs. keeps R (c bs)) \<Longrightarrow> keeps R l \<Longrightarrow>
   keeps R (case n of None \<Rightarrow> a | Some (NDir fs) \<Rightarrow> b fs | Some (NFile bs) \<Rightarrow> c bs | Some NLink \<Rightarrow> l)"
  by (auto split: option.splits node.splits)

lemma disk_acts_keep:
  "keeps (elsewhere d) (validate_stream_dir root d)" "keeps (elsewhere d) (open_stream_file root d)"
  "fe_dir e = d \<Longrightarrow> keeps (elsewhere d) (write_metadata_for F root name e)"
  "keeps (elsewhere d) (cut_log root d n)" "keeps (elsewhere d) (restore_metadata d bs)"
  "keeps (elsewhere d) (recover_append F root d)" "keeps (elsewhere d) (write_journal F d u)" "keeps (elsewhere d) (commit_journal d)"
proof -
  show v: "keeps (elsewhere d) (validate_stream_dir root d)"
    unfolding validate_stream_dir_def by (intro disk_intros case_node_keeps)
  then show o: "keeps (elsewhere d) (open_stream_file root d)"
    unfolding open_stream_file_def by (intro disk_intros)
  show "keeps (elsewhere d) (write_metadata_for F root name e)" if "fe_dir e = d"
    unfolding write_metadata_for_def that using v by (intro disk_intros)
  show c: "keeps (elsewhere d) (cut_log root d n)" for n
    unfolding cut_log_def using o by (intro disk_intros)
  show r: "keeps (elsewhere d) (restore_metadata d bs)" for bs
    unfolding restore_metadata_def by (intro disk_intros)
  show "keeps (elsewhere d) (recover_append F root d)"
    unfolding recover_append_def using v c r by (intro disk_intros)
  show "keeps (elsewhere d) (write_journal F d u)" unfolding write_journal_def by (intro disk_intros)
  show "keeps (elsewhere d) (commit_journal d)" unfolding commit_journal_def by (intro disk_intros)
qed

section \<open>An entry and its directory\<close>

definition ctx_elsewhere :: "string \<Rightarrow> ctx \<Rightarrow> ctx \<Rightarrow> bool" where
  "ctx_elsewhere d c c' \<longleftrightarrow> (fe_dir (cx_entry c) = d \<longrightarrow> fe_dir (cx_entry c') = d \<and> elsewhere d (cx_world c) (cx_world c'))"

interpretation entry: frame "ctx_elsewhere d" for d
  by unfold_locales (auto simp: ctx_elsewhere_def intro: disk.trans)

lemma ctx_disk_keeps: "keeps (elsewhere d) m \<Longrightarrow> keeps (ctx_elsewhere d) (ctx_disk m)"
  by (auto simp: keeps_def ctx_elsewhere_def ctx_disk_def split: prod.splits) (metis fst_conv)

lemma set_entry_keeps: "(\<And>e. fe_dir (f e) = fe_dir e) \<Longrightarrow> keeps (ctx_elsewhere d) (set_entry f)"
  unfolding set_entry_def by (rule entry.modify_keeps) (simp add: ctx_elsewhere_def)

lemma release_keeps: "keeps (ctx_elsewhere d) (release_ctx n)"
  unfolding release_ctx_def by (rule entry.modify_keeps) (simp add: ctx_elsewhere_def)

lemma ctx_fun_keeps:
  "(\<And>c. fe_dir (cx_entry c) = d \<Longrightarrow> keeps (ctx_elsewhere d) (m c)) \<Longrightarrow> keeps (ctx_elsewhere d) (\<lambda>c. m c c)"
  by (auto simp: keeps_def ctx_elsewhere_def)

lemma push_index_dir [simp]: "fe_dir (push_index p ls e) = fe_dir e"
  by (induction p ls e rule: push_index.induct) simp_all

lemma rolled_back_dir [simp]: "fe_dir (rolled_back old u m e) = fe_dir e"
  by (simp add: rolled_back_def)

lemma write_records_keeps: "keeps (ctx_elsewhere d) (write_records d name ds)"
  unfolding write_records_def
  by (intro entry.frame_intros ctx_disk_keeps disk_intros set_entry_keeps release_keeps) (auto simp: Let_def split: sum.splits)

lemma append_records_keeps: "keeps (ctx_elsewhere d) (append_records max_total max_stream name ds)"
proof -
  have "ctx_elsewhere d c (fst (append_records max_total max_stream name ds c))" for c
  proof (cases "fe_dir (cx_entry c) = d")
    case True
    have "ctx_elsewhere d (c\<lparr>cx_total := t\<rparr>) (fst (write_records d name ds (c\<lparr>cx_total := t\<rparr>)))" for t
      using write_records_keeps by (simp add: keeps_def)
    with True show ?thesis
      by (auto simp: append_records_def ctx_elsewhere_def Let_def ret_def raise_def seq_def release_ctx_def modify_state_def
          split: sum.splits)
  qed (simp add: ctx_elsewhere_def)
  then show ?thesis by (simp add: keeps_def)
qed

lemma write_metadata_ctx_keeps: "keeps (ctx_elsewhere d) (write_metadata_ctx F root name)"
  unfolding write_metadata_ctx_def by (rule ctx_fun_keeps) (simp add: ctx_disk_keeps disk_acts_keep(3))

lemma apply_metadata_keeps: "keeps (ctx_elsewhere d) (apply_metadata_ctx E now ttl pending)"
proof -
  have "keeps (ctx_elsewhere d) (case renew_ttl E ttl (fe_config (cx_entry c)) of Inl er \<Rightarrow> raise er
      | Inr (cfg, _) \<Rightarrow> set_entry (\<lambda>e. e\<lparr>fe_config := cfg\<rparr>))" for c
    by (auto split: sum.splits intro!: entry.raise_keeps set_entry_keeps)
  then have "keeps (ctx_elsewhere d) (\<lambda>c. (case renew_ttl E ttl (fe_config (cx_entry c)) of Inl er \<Rightarrow> raise er
      | Inr (cfg, _) \<Rightarrow> set_entry (\<lambda>e. e\<lparr>fe_config := cfg\<rparr>)) c)" by (rule entry.fun_keeps)
  moreover have "(case v of Inl er \<Rightarrow> raise er | Inr (cfg, _) \<Rightarrow> set_entry (\<lambda>e. e\<lparr>fe_config := cfg\<rparr>)) c =
      (case v of Inl er \<Rightarrow> raise er c | Inr (cfg, _) \<Rightarrow> set_entry (\<lambda>e. e\<lparr>fe_config := cfg\<rparr>) c)"
    for v :: "error + stream_config \<times> bool" and c by (auto split: sum.splits)
  ultimately show ?thesis
    unfolding apply_metadata_ctx_def by (intro entry.seq_keeps set_entry_keeps) simp_all
qed

lemma append_operation_keeps:
  "keeps (ctx_elsewhere d) (append_operation E F max_total max_stream root name ds pending close start)"
  unfolding append_operation_def notify_ctx_def
  by (intro entry.seq_keeps append_records_keeps apply_metadata_keeps set_entry_keeps write_metadata_ctx_keeps entry.ret_fun_keeps)
    simp_all

lemma rollback_keeps:
  assumes "fe_dir old = d"
  shows "keeps (ctx_elsewhere d) (rollback F root old u er)"
proof -
  have step: "keeps (ctx_elsewhere d) (seq (release_ctx n) (\<lambda>_. seq (set_entry (rolled_back old u m)) (\<lambda>_. raise er)))" for n m
    by (intro entry.seq_keeps release_keeps set_entry_keeps entry.raise_keeps) simp
  have last: "keeps (ctx_elsewhere d) (\<lambda>c. seq (release_ctx (g c)) (\<lambda>_. seq (set_entry (rolled_back old u m)) (\<lambda>_. raise er)) c)" for g m
    by (rule entry.fun_keeps) (rule step)
  have out: "keeps (ctx_elsewhere d) (seq (set_entry (\<lambda>e. e\<lparr>fe_unavailable := True\<rparr>)) (\<lambda>_. raise x))" for x
    by (intro entry.seq_keeps set_entry_keeps entry.raise_keeps) simp
  show ?thesis
    unfolding rollback_def assms set_unavailable_def Let_def
    by (rule entry.seq_keeps, rule ctx_disk_keeps, rule io_keeps, rule entry.if_keeps, rule out, rule entry.seq_keeps,
        rule entry.attempt_keeps, rule ctx_disk_keeps, rule disk_acts_keep, rule entry.case_sum_keeps, rule out,
        rule entry.case_sum_keeps, rule entry.raise_keeps, rule last)
qed

lemma append_transaction_keeps:
  assumes "keeps (ctx_elsewhere d) operation"
  shows "keeps (ctx_elsewhere d) (append_transaction F root r operation)"
  unfolding append_transaction_def Let_def
  by (rule ctx_fun_keeps, simp only:)
    (intro entry.frame_intros ctx_disk_keeps disk_intros disk_acts_keep assms rollback_keeps; simp only:)

end
