(* ===== verification/DS_File_Refine.thy ===== *)
theory DS_File_Refine
  imports DS_File_Read DS_File_Frame
begin

text \<open>
  Whole operations of the file backend on a store of many streams: appends and
  reads agree with the in-memory backend, and an append survives a restart.
\<close>

section \<open>Changing one stream\<close>

lemma holds_elsewhere:
  assumes "holds \<phi> F n e ms M w" "elsewhere d w w'" "fe_dir e \<noteq> d"
  shows "holds \<phi> F n e ms M w'"
  using assms by (auto simp: holds_def has_def elsewhere_def)

lemma file_rel_update:
  assumes rel: "file_rel \<phi> F s \<mu>" and e: "fmlookup (fs_streams s) n = Some e" "fe_dir e' = fe_dir e"
    and w: "elsewhere (fe_dir e) (fs_world s) w'" and h: "holds \<phi> F n e' ms' M' w'"
  shows "file_rel \<phi> F (s\<lparr>fs_total_bytes := t, fs_streams := fmupd n e' (fs_streams s), fs_world := w'\<rparr>)
    (set_stream n (mem_entry e' ms') (\<mu>\<lparr>mem_total_bytes := t\<rparr>))"
proof -
  let ?s = "s\<lparr>fs_total_bytes := t, fs_streams := fmupd n e' (fs_streams s), fs_world := w'\<rparr>"
  let ?m = "set_stream n (mem_entry e' ms') (\<mu>\<lparr>mem_total_bytes := t\<rparr>)"
  have base: "mem_max_total_bytes \<mu> = fs_max_total_bytes s" "mem_max_stream_bytes \<mu> = fs_max_stream_bytes s" "w_faults (fs_world s) = \<phi>"
    using rel unfolding file_rel_def by blast+
  have inj: "k = k'" if "fmlookup (fs_streams s) k = Some a" "fmlookup (fs_streams s) k' = Some b" "fe_dir a = fe_dir b" for k k' a b
    using rel that unfolding file_rel_def by blast
  have stream: "case fmlookup (fs_streams ?s) k of None \<Rightarrow> get_stream ?m k = None
      | Some a \<Rightarrow> \<exists>ms M. get_stream ?m k = Some (mem_entry a ms) \<and> holds \<phi> F k a ms M (fs_world ?s)" for k
  proof (cases "k = n")
    case True
    with h show ?thesis by (auto simp: set_stream_def get_stream_def)
  next
    case False
    show ?thesis
    proof (cases "fmlookup (fs_streams s) k")
      case None
      with file_rel_None [OF rel None] False show ?thesis by (simp add: set_stream_def get_stream_def)
    next
      case (Some a)
      then obtain ms M where a: "get_stream \<mu> k = Some (mem_entry a ms)" "holds \<phi> F k a ms M (fs_world s)"
        by (rule file_rel_Some [OF rel])
      have "fe_dir a \<noteq> fe_dir e" using inj [OF Some e(1)] False by blast
      from holds_elsewhere [OF a(2) w this] a(1) Some False show ?thesis by (auto simp: set_stream_def get_stream_def)
    qed
  qed
  have inj': "k = k'" if "fmlookup (fs_streams ?s) k = Some a" "fmlookup (fs_streams ?s) k' = Some b" "fe_dir a = fe_dir b" for k k' a b
  proof -
    have orig: "\<exists>a0. fmlookup (fs_streams s) k = Some a0 \<and> fe_dir a0 = fe_dir a" if "fmlookup (fs_streams ?s) k = Some a" for k a
      using that e by (cases "k = n") auto
    note prem = that
    obtain a0 b0 where "fmlookup (fs_streams s) k = Some a0" "fe_dir a0 = fe_dir a" "fmlookup (fs_streams s) k' = Some b0" "fe_dir b0 = fe_dir b"
      using orig [OF prem(1)] orig [OF prem(2)] by blast
    with prem(3) show ?thesis by (intro inj [of k a0 k' b0]) simp_all
  qed
  have fields: "mem_total_bytes ?m = fs_total_bytes ?s" "mem_max_total_bytes ?m = fs_max_total_bytes ?s"
    "mem_max_stream_bytes ?m = fs_max_stream_bytes ?s" "w_faults (fs_world ?s) = \<phi>"
    using w base by (simp_all add: elsewhere_def set_stream_def)
  show ?thesis
    unfolding file_rel_def by (intro conjI allI impI fields stream) (erule inj', assumption+)
qed

lemma with_entry_world:
  assumes "keeps (ctx_elsewhere d) m" "fe_dir e = d"
  shows "elsewhere d (fs_world s) (fs_world (fst (with_entry name e m s)))"
  using assms by (auto simp: keeps_def ctx_elsewhere_def with_entry_def split: prod.splits)
    (metis ctx.select_convs(2,3) fst_conv)

section \<open>Appending\<close>

text \<open>Before the transaction both backends make the same checks.\<close>

lemma append_checks:
  assumes rel: "file_rel \<phi> F s \<mu>"
  obtains (refused) er where "file_append_batch E F name ds ct sq close s = (s, Some (Inl er))"
      "append_batch E \<mu> name ds ct sq close = (\<mu>, Inl er)"
  | (passed) e ms M pending where "mirrors s name e ms \<mu>" "holds \<phi> F name e ms M (fs_world s)" "validate_batch_shape ds close = Inr ()"
      "precheck_batch_append (now_at E 0) (fe_config e) (fe_state e) (fe_closed e) (fe_last_seq e)
        name (if ds \<noteq> [] then Some ct else None) sq = Inr pending"
proof (cases "validate_batch_shape ds close")
  case (Inl er)
  then show ?thesis by (intro refused [of er]) (simp_all add: file_append_batch_def append_batch_def seq_def of_res_def)
next
  case v: (Inr u)
  show ?thesis
  proof (cases "fmlookup (fs_streams s) name")
    case None
    from file_rel_None [OF rel None] None v show ?thesis
      by (intro refused [of "NotFound name"])
        (simp_all add: file_append_batch_def append_batch_def seq_def of_res_def available_stream_def lookup_stream_def raise_def)
  next
    case (Some e)
    then obtain ms M where e: "get_stream \<mu> name = Some (mem_entry e ms)" "holds \<phi> F name e ms M (fs_world s)"
      by (rule file_rel_Some [OF rel])
    have m: "mirrors s name e ms \<mu>" using rel Some e(1) by (auto simp: mirrors_def file_rel_def)
    have avail: "ensure_available e = Inr ()" using e(2) by (simp add: holds_def ensure_available_def)
    show ?thesis
    proof (cases "precheck_batch_append (now_at E 0) (fe_config e) (fe_state e) (fe_closed e) (fe_last_seq e)
        name (if ds \<noteq> [] then Some ct else None) sq")
      case (Inl er)
      with v Some e(1) avail show ?thesis
        by (intro refused [of er])
          (simp_all add: file_append_batch_def append_batch_def seq_def of_res_def available_stream_def lookup_stream_def ret_def)
    next
      case (Inr pending)
      with v m e(2) show ?thesis by (intro passed) simp_all
    qed
  qed
qed

text \<open>What an append needs to be representable in a log file.\<close>

definition loggable :: "mem \<Rightarrow> string \<Rightarrow> bytes list \<Rightarrow> bool" where
  "loggable \<mu> name ds \<longleftrightarrow> small ds \<and> (case get_stream \<mu> name of None \<Rightarrow> True
     | Some m \<Rightarrow> length (log_bytes (se_messages m)) + length (encode_records ds) < 2 ^ 63)"

lemma append_refines:
  assumes rel: "file_rel \<phi> F s \<mu>" and inv: "mem_inv \<mu>" and h: "honest \<phi>" and F: "journal_codec F" "meta_codec F"
    and l: "loggable \<mu> name ds"
  shows "outcome
    (\<lambda>x s'. \<exists>\<mu>'. append_batch E \<mu> name ds ct sq close = (\<mu>', Inr x) \<and> file_rel \<phi> F s' \<mu>')
    (\<lambda>_ s'. (\<exists>er. append_batch E \<mu> name ds ct sq close = (\<mu>, Inl er)) \<and>
       (file_rel \<phi> F s' \<mu> \<or> (\<exists>m n. get_stream \<mu> name = Some m \<and> file_rel \<phi> F s' (set_stream name (m\<lparr>se_notify := n\<rparr>) \<mu>))) \<or> faulty \<phi>)
    (\<lambda>_. faulty \<phi>)
    (file_append_batch E F name ds ct sq close s)"
proof (rule append_checks [OF rel, of E name ds ct sq close])
  fix er
  assume "file_append_batch E F name ds ct sq close s = (s, Some (Inl er))" "append_batch E \<mu> name ds ct sq close = (\<mu>, Inl er)"
  with rel show ?thesis by simp
next
  fix e ms M pending
  assume m: "mirrors s name e ms \<mu>" and e: "holds \<phi> F name e ms M (fs_world s)" and v: "validate_batch_shape ds close = Inr ()"
    and pre: "precheck_batch_append (now_at E 0) (fe_config e) (fe_state e) (fe_closed e) (fe_last_seq e)
        name (if ds \<noteq> [] then Some ct else None) sq = Inr pending"
  have look: "fmlookup (fs_streams s) name = Some e" "get_stream \<mu> name = Some (mem_entry e ms)" and tot: "mem_total_bytes \<mu> = fs_total_bytes s"
    using m by (simp_all add: mirrors_def)
  have fit: "small ds" "length (log_bytes ms) + length (encode_records ds) < 2 ^ 64" "unat (fe_total_bytes e) \<le> unat (fs_total_bytes s)"
    using l look(2) mem_core_bytes_le [of \<mu> name "mem_entry e ms"] inv tot by (simp_all add: loggable_def mem_inv_def)
  have i: "indexed e ms" "\<not> fe_unavailable e" using e by (simp_all add: holds_def)
  let ?e = "after_append E pending close ds e" and ?ms = "ms @ log_from (fe_next_read_seq e) (fe_next_byte_offset e) ds"
  obtain M' where out: "outcome (append_done \<phi> F E s name e ds ?e ?ms M') (\<lambda>_. append_undone \<phi> F E s name e ds ms M ?ms M')
      (\<lambda>s'. leads_back \<phi> F (fe_dir e) (log_bytes ms) M (append_ok E s ds e) (log_bytes ?ms) M' (fs_world s'))
      (file_append_batch E F name ds ct sq close s)"
    by (rule file_append_outcome [OF m e h F fit v pre])
  have run: "file_append_batch E F name ds ct sq close s = with_entry name e (append_transaction F (fs_root_dir s) False
      (append_operation E F (fs_max_total_bytes s) (fs_max_stream_bytes s) (fs_root_dir s) name ds pending close (file_next_offset e))) s"
    using look(1) i(2) by (simp add: file_append_batch_def v pre seq_def of_res_def available_stream_def lookup_stream_def ret_def
        ensure_available_def)
  define s1 where "s1 = fst (file_append_batch E F name ds ct sq close s)"
  have away: "elsewhere (fe_dir e) (fs_world s) (fs_world s1)"
    unfolding s1_def run by (rule with_entry_world [OF append_transaction_keeps [OF append_operation_keeps] refl])
  have shape: "s1 = s\<lparr>fs_total_bytes := fs_total_bytes s1, fs_streams := fs_streams s1, fs_world := fs_world s1\<rparr>"
    unfolding s1_def run with_entry_def by (auto split: prod.splits)
  note mem = append_batch_mem [OF m i(1) fit(1) v pre]
  have update: "file_rel \<phi> F s1 (set_stream name (mem_entry e1 ms1) (\<mu>\<lparr>mem_total_bytes := fs_total_bytes s1\<rparr>))"
    if "fs_streams s1 = fmupd name e1 (fs_streams s)" "fe_dir e1 = fe_dir e" "holds \<phi> F name e1 ms1 M1 (fs_world s1)" for e1 ms1 M1
    using file_rel_update [OF rel look(1) that(2) away that(3), of "fs_total_bytes s1"] shape that(1) by simp
  show ?thesis
  proof (cases "file_append_batch E F name ds ct sq close s" rule: act_cases)
    case (result s' x)
    then have d: "append_done \<phi> F E s name e ds ?e ?ms M' x s'" and s': "s1 = s'" using out s1_def by simp_all
    have "fe_dir ?e = fe_dir e" by (simp add: after_append_def appended_def Let_def)
    with d update mem(1) show ?thesis unfolding result s' by (auto simp: append_done_def)
  next
    case (failure s' er)
    then have u: "append_undone \<phi> F E s name e ds ms M ?ms M' s'" and s': "s1 = s'" using out s1_def by simp_all
    from u consider "faulty \<phi>" | n where "fs_streams s' = fmupd name (e\<lparr>fe_notify := n\<rparr>) (fs_streams s)" "fs_total_bytes s' = fs_total_bytes s"
        "\<not> append_ok E s ds e" "has \<phi> (fe_dir e) (at_rest (log_bytes ms) M) (fs_world s')"
      by (auto simp: append_undone_def leads_back_def broken_def)
    then show ?thesis
    proof cases
      case 2
      have "holds \<phi> F name (e\<lparr>fe_notify := n\<rparr>) ms M (fs_world s')"
        using e 2(4) by (simp add: holds_def indexed_def meta_of_def)
      moreover have eqn: "mem_entry (e\<lparr>fe_notify := n\<rparr>) ms = (mem_entry e ms)\<lparr>se_notify := n\<rparr>" by (simp add: mem_entry_def)
      moreover have "\<mu>\<lparr>mem_total_bytes := fs_total_bytes s'\<rparr> = \<mu>" using 2(2) tot by simp
      ultimately have "file_rel \<phi> F s' (set_stream name ((mem_entry e ms)\<lparr>se_notify := n\<rparr>) \<mu>)"
        unfolding eqn [symmetric] using update [of "e\<lparr>fe_notify := n\<rparr>" ms M] 2(1) s' by simp
      with mem(2) [OF 2(3)] look(2) show ?thesis unfolding failure by auto
    qed (simp add: failure)
  next
    case (crash s')
    with out show ?thesis by (auto simp: leads_back_def broken_def)
  qed
qed

section \<open>Reading\<close>

lemma spec_fs_disk:
  assumes "spec P m Q X D" "P (fs_world s)"
  shows "outcome (\<lambda>x s'. \<exists>w. Q x w \<and> s' = s\<lparr>fs_world := w\<rparr>) (\<lambda>x s'. \<exists>w. X x w \<and> s' = s\<lparr>fs_world := w\<rparr>)
    (\<lambda>s'. \<exists>w. D w \<and> s' = s\<lparr>fs_world := w\<rparr>) (fs_disk m s)"
  using specD [OF assms] by (cases "m (fs_world s)" rule: act_cases) (auto simp: fs_disk_def)

lemma outcome_seq:
  assumes "outcome R X D (m s)" "\<And>x t. R x t \<Longrightarrow> outcome Q X D (f x t)"
  shows "outcome Q X D (seq m f s)"
  using assms by (cases "m s" rule: act_cases) (simp_all add: seq_def)

text \<open>Only the number of calls may differ: the relation does not see it.\<close>

lemma file_rel_same_disk:
  assumes "file_rel \<phi> F s \<mu>" "same_disk \<phi> (fs_world s) w"
  shows "file_rel \<phi> F (s\<lparr>fs_world := w\<rparr>) \<mu>"
proof -
  have "dir_files w = dir_files (fs_world s)" using assms(2) by (auto simp: same_disk_def dir_files_def)
  then have "holds \<phi> F n e ms M w = holds \<phi> F n e ms M (fs_world s)" for n e ms M
    using assms by (simp add: holds_def has_def same_disk_def file_rel_def)
  then show ?thesis using assms by (simp add: file_rel_def same_disk_def cong: option.case_cong)
qed

lemma seq_value: "m s = (s', Some (Inr x)) \<Longrightarrow> seq m f s = f x s'"
  by (simp add: seq_def)

lemma seq_assoc: "seq (seq m f) g = seq m (\<lambda>x. seq (f x) g)"
  by (simp add: fun_eq_iff seq_def split: prod.splits option.splits sum.splits)

lemma read_rel_config:
  assumes "read_rel w streams (set_stream n m' \<mu>)" "get_stream \<mu> n = Some m" "se_messages m' = se_messages m" "se_fork_info m' = se_fork_info m"
  shows "read_rel w streams \<mu>"
  unfolding read_rel_def
proof
  fix k
  from read_rel_stream [OF assms(1), of k] assms(2-4)
  show "rel_option (\<lambda>e m. shelved w e (se_messages m) \<and> fe_fork_info e = se_fork_info m) (fmlookup streams k) (get_stream \<mu> k)"
    by (cases "k = n") (auto simp: set_stream_def get_stream_def option_rel_Some2)
qed

text \<open>Storing a renewed deadline.\<close>

lemma save_metadata_outcome:
  assumes rel: "file_rel \<phi> F s \<mu>" and e: "fmlookup (fs_streams s) n = Some e" and h: "holds \<phi> F n e ms M (fs_world s)"
    and F: "meta_codec F" and e': "e' = e\<lparr>fe_config := cfg\<rparr>"
  shows "outcome (\<lambda>_ s'. fs_streams s' = fmupd n e' (fs_streams s) \<and> file_rel \<phi> F s' (set_stream n (mem_entry e' ms) \<mu>)) (\<lambda>_ _. faulty \<phi>) (\<lambda>_. faulty \<phi>)
    (seq (put_entry n e') (\<lambda>_. save_metadata F n e') s)"
proof -
  let ?s = "s\<lparr>fs_streams := fmupd n e' (fs_streams s)\<rparr>" and ?d = "fe_dir e"
  obtain M1 where M1: "meta_to_vec F (meta_of n e') = Inr M1" "meta_from_slice F M1 = Inr (meta_of n e')"
    by (rule meta_codecE [OF F, of e']) (use h e' in \<open>simp_all add: holds_def indexed_def\<close>)
  have d: "is_valid_stream_dir_component ?d" "fe_dir e' = ?d" "has \<phi> ?d (at_rest (log_bytes ms) M) (fs_world s)"
    using h e' by (simp_all add: holds_def)
  have run: "seq (put_entry n e') (\<lambda>_. save_metadata F n e') s = fs_disk (write_metadata_for F (fs_root_dir s) n e') ?s"
    by (simp add: seq_def put_entry_def modify_state_def save_metadata_def)
  note out = specD [OF save_at_rest_spec [OF d(1,2) M1(1), of \<phi> "log_bytes ms" M "fs_root_dir s"] d(3)]
  have away: "elsewhere ?d (fs_world s) (fst (write_metadata_for F (fs_root_dir s) n e' (fs_world s)))"
    using disk_acts_keep(3) [OF d(2)] by (simp add: keeps_def)
  have same: "\<mu>\<lparr>mem_total_bytes := fs_total_bytes s\<rparr> = \<mu>" using rel by (simp add: file_rel_def)
  show ?thesis
  proof (cases "write_metadata_for F (fs_root_dir s) n e' (fs_world s)" rule: act_cases)
    case (result w u)
    have "has \<phi> ?d (at_rest (log_bytes ms) M1) w" using out result by simp
    then have "holds \<phi> F n e' ms M1 w" using h M1(2) e' by (simp add: holds_def indexed_def)
    moreover have "elsewhere ?d (fs_world s) w" using away result by simp
    ultimately have now: "file_rel \<phi> F (?s\<lparr>fs_world := w\<rparr>) (set_stream n (mem_entry e' ms) \<mu>)"
      using file_rel_update [OF rel e d(2), of w ms M1 "fs_total_bytes s"] same by simp
    show ?thesis unfolding run by (simp add: fs_disk_def result now)
  qed (use out run in \<open>auto simp: fs_disk_def broken_def\<close>)
qed

lemma read_refines:
  assumes rel: "file_rel \<phi> F s \<mu>" and inv: "mem_inv \<mu>" and wf: "wf_offset from" and F: "meta_codec F"
  shows "outcome
    (\<lambda>x s'. \<exists>\<mu>'. mem_read E \<mu> name from = Some (\<mu>', Inr x) \<and> file_rel \<phi> F s' \<mu>')
    (\<lambda>er s'. mem_read E \<mu> name from = Some (\<mu>, Inl er) \<and> file_rel \<phi> F s' \<mu> \<or> faulty \<phi>)
    (\<lambda>_. faulty \<phi>)
    (file_read E F name from s)"
  (is "outcome ?Q ?X ?D _")
proof (cases "fmlookup (fs_streams s) name")
  case None
  with file_rel_None [OF rel None] rel show ?thesis
    by (simp add: file_read_def mem_read_def seq_def available_stream_def lookup_stream_def raise_def)
next
  case (Some e)
  then obtain ms M where e: "get_stream \<mu> name = Some (mem_entry e ms)" "holds \<phi> F name e ms M (fs_world s)"
    by (rule file_rel_Some [OF rel])
  have avail: "available_stream name s = (s, Some (Inr e))"
    using Some e(2) by (simp add: available_stream_def lookup_stream_def seq_def ret_def ensure_available_def holds_def of_res_def)
  obtain r where fin: "finish_read \<mu> from (prepare_read (mem_entry e ms) from) = Some (Inr r)"
    using finish_read_returns [OF inv e(1) wf] by blast
  show ?thesis
  proof (cases "check_stream_access (now_at E 0) (fe_config e) (fe_state e) name")
    case (Inl er)
    with avail e(1) rel show ?thesis by (simp add: file_read_def mem_read_def seq_def of_res_def)
  next
    case ok0: (Inr u)
    let ?p = "prepare_read (mem_entry e ms) from"
    have same0: "same_disk \<phi> (fs_world s) (fs_world s)" using rel by (simp add: same_disk_def file_rel_def)
    have prep: "outcome (\<lambda>x s'. x = ?p \<and> (\<exists>w. same_disk \<phi> (fs_world s) w \<and> s' = s\<lparr>fs_world := w\<rparr>)) ?X ?D (fs_disk (file_prepare_read e from) s)"
      by (rule outcome_mono [OF spec_fs_disk [OF file_prepare_read_spec [OF holds_shelved [OF e(2)], of \<phi>] same0]]) auto
    have finish: "outcome (\<lambda>x s'. x = r \<and> (\<exists>w. same_disk \<phi> (fs_world t) w \<and> s' = t\<lparr>fs_world := w\<rparr>)) ?X ?D
        (fs_disk (file_finish_read (fs_streams t) from ?p) t)"
      if "read_rel (fs_world t) (fs_streams t) \<mu>" "w_faults (fs_world t) = \<phi>" for t
      by (rule outcome_mono [OF spec_fs_disk [OF file_finish_read_spec [OF that(1) fin, of \<phi>]]]) (auto simp: same_disk_def that(2))
    have start: "file_read E F name from s = seq (if ttl_seconds (fe_config e) \<noteq> None then
            seq (of_res (check_stream_access (now_at E 1) (fe_config e) (fe_state e) name)) (\<lambda>_.
            seq (fs_disk (file_prepare_read e from)) (\<lambda>pending.
            seq (of_res (renew_ttl E (now_at E 2) (fe_config e))) (\<lambda>(cfg, _).
            let e' = e\<lparr>fe_config := cfg\<rparr> in
            seq (put_entry name e') (\<lambda>_.
            seq (save_metadata F name e') (\<lambda>_. ret pending)))))
          else fs_disk (file_prepare_read e from)) (\<lambda>pending.
        (\<lambda>s. fs_disk (file_finish_read (fs_streams s) from pending) s)) s"
      unfolding file_read_def seq_value [of "available_stream name" s s e, OF avail] ok0 seq_of_res_Inr ..
    have moved: "file_rel \<phi> F (s\<lparr>fs_world := w\<rparr>) \<mu>" "w_faults w = \<phi>" if "same_disk \<phi> (fs_world s) w" for w
      using file_rel_same_disk [OF rel that] that by (simp_all add: same_disk_def)
    show ?thesis
    proof (cases "ttl_seconds (fe_config e)")
      case None
      then have mem: "mem_read E \<mu> name from = Some (\<mu>, Inr r)" using e(1) ok0 fin by (simp add: mem_read_def del: check_stream_access_Inr)
      have step: "outcome ?Q ?X ?D (fs_disk (file_finish_read (fs_streams t) from p) t)"
        if t: "p = ?p \<and> (\<exists>w. same_disk \<phi> (fs_world s) w \<and> t = s\<lparr>fs_world := w\<rparr>)" for p t
      proof -
        from t moved have rt: "file_rel \<phi> F t \<mu>" "w_faults (fs_world t) = \<phi>" by auto
        show ?thesis unfolding conjunct1 [OF t]
          by (rule outcome_mono [OF finish [OF file_rel_read_rel [OF rt(1)] rt(2)]]) (auto simp: mem intro: file_rel_same_disk [OF rt(1)])
      qed
      show ?thesis unfolding start using None by (simp only: not_True_eq_False if_False simp_thms) (rule outcome_seq, rule prep, rule step)
    next
      case (Some ttl)
      let ?rest = "\<lambda>pending. seq (of_res (renew_ttl E (now_at E 2) (fe_config e))) (\<lambda>(cfg, _).
          let e' = e\<lparr>fe_config := cfg\<rparr> in
          seq (put_entry name e') (\<lambda>_. seq (save_metadata F name e') (\<lambda>_. ret pending)))"
      show ?thesis
      proof (cases "check_stream_access (now_at E 1) (fe_config e) (fe_state e) name")
        case (Inl er)
        with start Some e(1) ok0 rel show ?thesis
          by (simp add: mem_read_def seq_def of_res_def del: check_stream_access_Inr One_nat_def)
      next
        case ok1: (Inr u1)
        have start1: "file_read E F name from s = seq (seq (fs_disk (file_prepare_read e from)) ?rest) (\<lambda>pending.
            (\<lambda>s. fs_disk (file_finish_read (fs_streams s) from pending) s)) s"
          unfolding start ok1 seq_of_res_Inr using Some by simp
        have renewing: "outcome (\<lambda>p t. p = ?p \<and> (\<exists>cfg b. renew_ttl E (now_at E 2) (fe_config e) = Inr (cfg, b) \<and>
              file_rel \<phi> F t (set_stream name (mem_entry (e\<lparr>fe_config := cfg\<rparr>) ms) \<mu>))) ?X ?D (?rest p t)"
          if t: "p = ?p \<and> (\<exists>w. same_disk \<phi> (fs_world s) w \<and> t = s\<lparr>fs_world := w\<rparr>)" for p t
        proof -
          from t obtain w where w: "same_disk \<phi> (fs_world s) w" "t = s\<lparr>fs_world := w\<rparr>" by blast
          have rt: "file_rel \<phi> F t \<mu>" using moved(1) [OF w(1)] w(2) by simp
          show ?thesis
          proof (cases "renew_ttl E (now_at E 2) (fe_config e)")
            case (Inl er)
            then have "mem_read E \<mu> name from = Some (\<mu>, Inl er)" using e(1) ok0 ok1 fin Some
              by (simp add: mem_read_def del: check_stream_access_Inr One_nat_def)
            with Inl rt show ?thesis by (simp add: seq_def of_res_def)
          next
            case (Inr cb)
            obtain cfg b where cb: "cb = (cfg, b)" by fastforce
            let ?e = "e\<lparr>fe_config := cfg\<rparr>"
            have lt: "fmlookup (fs_streams t) name = Some e" using \<open>fmlookup (fs_streams s) name = Some e\<close> w(2) by simp
            obtain ms' M' where h: "get_stream \<mu> name = Some (mem_entry e ms')" "holds \<phi> F name e ms' M' (fs_world t)"
              by (rule file_rel_Some [OF rt lt])
            have "ms' = ms" using h(1) e(1) by (simp add: mem_entry_def)
            with save_metadata_outcome [OF rt lt h(2) F refl, of cfg]
            have saved: "outcome (\<lambda>_ t'. file_rel \<phi> F t' (set_stream name (mem_entry ?e ms) \<mu>)) (\<lambda>_ _. faulty \<phi>) (\<lambda>_. faulty \<phi>)
                (seq (put_entry name ?e) (\<lambda>_. save_metadata F name ?e) t)"
              by (auto elim: outcome_mono)
            have "outcome (\<lambda>p t. p = ?p \<and> (\<exists>cfg b. renew_ttl E (now_at E 2) (fe_config e) = Inr (cfg, b) \<and>
                file_rel \<phi> F t (set_stream name (mem_entry (e\<lparr>fe_config := cfg\<rparr>) ms) \<mu>))) ?X ?D
                (seq (seq (put_entry name ?e) (\<lambda>_. save_metadata F name ?e)) (\<lambda>_. ret p) t)"
              by (rule outcome_seq [where R = "\<lambda>_ t'. file_rel \<phi> F t' (set_stream name (mem_entry ?e ms) \<mu>)"],
                  rule outcome_mono [OF saved]) (use t Inr cb in \<open>auto simp: ret_def\<close>)
            then show ?thesis by (simp add: Inr cb seq_assoc Let_def)
          qed
        qed
        have last: "outcome ?Q ?X ?D (fs_disk (file_finish_read (fs_streams t) from p) t)"
          if t: "p = ?p \<and> (\<exists>cfg b. renew_ttl E (now_at E 2) (fe_config e) = Inr (cfg, b) \<and>
              file_rel \<phi> F t (set_stream name (mem_entry (e\<lparr>fe_config := cfg\<rparr>) ms) \<mu>))" for p t
        proof -
          from t obtain cfg b where c: "renew_ttl E (now_at E 2) (fe_config e) = Inr (cfg, b)"
            "file_rel \<phi> F t (set_stream name (mem_entry (e\<lparr>fe_config := cfg\<rparr>) ms) \<mu>)" by blast
          let ?\<mu> = "set_stream name (mem_entry (e\<lparr>fe_config := cfg\<rparr>) ms) \<mu>"
          have mem: "mem_read E \<mu> name from = Some (?\<mu>, Inr r)"
            using e(1) ok0 ok1 fin Some c(1)
            by (simp add: mem_read_def mem_entry_def del: check_stream_access_Inr One_nat_def)
          have rr: "read_rel (fs_world t) (fs_streams t) \<mu>"
            by (rule read_rel_config [OF file_rel_read_rel [OF c(2)] e(1)]) simp_all
          have "w_faults (fs_world t) = \<phi>" using c(2) by (simp add: file_rel_def)
          from outcome_mono [OF finish [OF rr this], of ?Q ?X ?D] mem file_rel_same_disk [OF c(2)] show ?thesis
            unfolding conjunct1 [OF t] by auto
        qed
        show ?thesis
          unfolding start1 by (rule outcome_seq, rule outcome_seq, rule prep, rule renewing, assumption, rule last)
      qed
    qed
  qed
qed

end
