(* ===== verification/DS_File_Restart.thy ===== *)
theory DS_File_Restart
  imports DS_File_Refine
begin

text \<open>
  What a restart of the file backend finds: the stream as it was before or
  after an append that was under way, the whole records of any log, and a
  directory that any number of interrupted recoveries leave recoverable.
\<close>

section \<open>A restart\<close>

definition rebooted :: "world \<Rightarrow> world" where
  "rebooted w = w\<lparr>w_faults := (\<lambda>_. Works)\<rparr>"

lemma has_rebooted: "has \<phi> d P w \<Longrightarrow> has (\<lambda>_. Works) d P (rebooted w)"
  by (auto simp: has_def rebooted_def dir_files_def)

lemma outcome_works:
  assumes "outcome Q X D r" "\<And>x s. \<not> X x s" "\<And>s. \<not> D s"
  shows "\<exists>x s'. r = (s', Some (Inr x)) \<and> Q x s'"
  using assms by (cases r rule: act_cases) auto

lemma load_stream_rebooted:
  assumes e: "indexed e ms" "entry_ok (mem_entry e ms)" "is_valid_stream_dir_component (fe_dir e)" and L: "length (log_bytes ms) < 2 ^ 63"
    and M: "meta_from_slice F M = Inr (meta_of name e)" and codec: "meta_codec F" and live: "\<not> is_stream_expired now (fe_config e)"
    and w: "has \<phi> (fe_dir e) (undoable F False (log_bytes ms) M) w"
  obtains w' where "load_stream E F now now' root (fe_dir e) (rebooted w) = (w', Some (Inr (Some (name, restarted E now' e))))"
    "file_content w' (fe_dir e) ''data.log'' = Some (log_bytes ms)"
proof -
  have h: "honest (\<lambda>_. Works)" by (simp add: honest_def)
  note run = specD [OF load_stream_spec [OF e(1,2) refl e(3) refl L M h codec live, of False E now' root] has_rebooted [OF w]]
  obtain w' where
    "load_stream E F now now' root (fe_dir e) (rebooted w) = (w', Some (Inr (Some (name, restarted E now' e))))"
    "has (\<lambda>_. Works) (fe_dir e) (\<lambda>fs. \<exists>M'. (M' = M \<or> meta_from_slice F M' = Inr (meta_of name (restarted E now' e))) \<and>
       at_rest (log_bytes ms) M' fs) w'"
    using outcome_works [OF run] by auto
  then show thesis by (intro that [of w']) (auto simp: has_def at_rest_def file_content_def)
qed

text \<open>The entry and the messages a stream is restarted with are those of the in-memory backend \<open>\<mu>\<close>.\<close>

definition restarts_as :: "env \<Rightarrow> file_env \<Rightarrow> time \<Rightarrow> time \<Rightarrow> string \<Rightarrow> string \<Rightarrow> string \<Rightarrow> world \<Rightarrow> mem \<Rightarrow> bool" where
  "restarts_as E F now now' root name d w \<mu> \<longleftrightarrow> (\<exists>e ms w'. get_stream \<mu> name = Some (mem_entry e ms) \<and>
     load_stream E F now now' root d (rebooted w) = (w', Some (Inr (Some (name, restarted E now' e)))) \<and>
     file_content w' d ''data.log'' = Some (log_bytes ms))"

lemma restarts_asI:
  assumes m: "get_stream \<mu> name = Some (mem_entry e ms)" and inv: "mem_inv \<mu>" and i: "indexed e ms"
    and d: "is_valid_stream_dir_component d" "fe_dir e = d" and len: "length (log_bytes ms) < 2 ^ 63"
    and M: "meta_from_slice F M = Inr (meta_of name e)" and F: "meta_codec F"
    and live: "\<And>m. get_stream \<mu> name = Some m \<Longrightarrow> \<not> is_stream_expired now (se_config m)"
    and w: "has \<phi> d (undoable F False (log_bytes ms) M) w"
  shows "restarts_as E F now now' root name d w \<mu>"
proof -
  have ok: "entry_ok (mem_entry e ms)" using mem_inv_entry [OF inv m] .
  have alive: "\<not> is_stream_expired now (fe_config e)" using live [OF m] by simp
  obtain w' where "load_stream E F now now' root d (rebooted w) = (w', Some (Inr (Some (name, restarted E now' e))))"
    "file_content w' d ''data.log'' = Some (log_bytes ms)"
    using load_stream_rebooted [OF i ok _ len M F alive, of \<phi> w] d w by blast
  with m show ?thesis by (auto simp: restarts_as_def)
qed

lemma undoable_at_rest: "at_rest L M fs \<Longrightarrow> undoable F r L M fs"
  by (simp add: undoable_def)

lemma quiet_undoable: "quiet F r L M fs \<Longrightarrow> undoable F r L M fs"
  by (simp add: quiet_def)

lemma after_append_indexed:
  assumes "indexed e ms" "small ds" "length (log_bytes ms) + length (encode_records ds) < 2 ^ 64"
  shows "indexed (after_append E pending close ds e) (ms @ log_from (fe_next_read_seq e) (fe_next_byte_offset e) ds)"
    "fe_dir (after_append E pending close ds e) = fe_dir e"
  using grown_indexed(1) [OF assms] by (simp_all add: after_append_def appended_def indexed_def Let_def)

text \<open>Where an append may have left the directory.\<close>

lemma append_leaves:
  assumes out: "outcome (append_done \<phi> F E s name e ds e' ms' M') (\<lambda>_. append_undone \<phi> F E s name e ds ms M ms' M')
      (\<lambda>s'. leads_back \<phi> F (fe_dir e) (log_bytes ms) M (append_ok E s ds e) (log_bytes ms') M' (fs_world s')) (s', r)"
    and d: "fe_dir e' = fe_dir e"
  obtains (before) "\<nexists>x. r = Some (Inr x)" "has \<phi> (fe_dir e) (undoable F False (log_bytes ms) M) (fs_world s')"
  | (after) "append_ok E s ds e" "has \<phi> (fe_dir e) (undoable F False (log_bytes ms') M') (fs_world s')"
proof (cases "(s', r)" rule: act_cases)
  case (result t x)
  with out d show ?thesis
    by (intro after) (auto simp: append_done_def holds_def undoable_at_rest elim!: has_mono)
next
  case (failure t er)
  with out have u: "append_undone \<phi> F E s name e ds ms M ms' M' s'" by simp
  then have "has \<phi> (fe_dir e) (undoable F False (log_bytes ms) M) (fs_world s') \<or>
      append_ok E s ds e \<and> has \<phi> (fe_dir e) (undoable F False (log_bytes ms') M') (fs_world s')"
    by (auto simp: append_undone_def leads_back_def broken_def has_def intro: undoable_at_rest quiet_undoable)
  with failure before after show ?thesis by blast
next
  case (crash t)
  with out have "leads_back \<phi> F (fe_dir e) (log_bytes ms) M (append_ok E s ds e) (log_bytes ms') M' (fs_world s')" by simp
  then have "has \<phi> (fe_dir e) (undoable F False (log_bytes ms) M) (fs_world s') \<or>
      append_ok E s ds e \<and> has \<phi> (fe_dir e) (undoable F False (log_bytes ms') M') (fs_world s')"
    by (auto simp: leads_back_def broken_def has_def intro: undoable_at_rest)
  with crash before after show ?thesis by blast
qed

lemma append_restarts:
  assumes rel: "file_rel \<phi> F s \<mu>" and inv: "mem_inv \<mu>" and h: "honest \<phi>" and F: "journal_codec F" "meta_codec F"
    and l: "loggable \<mu> name ds" and fits: "batch_fits \<mu> name ds" and e: "fmlookup (fs_streams s) name = Some e"
    and run: "file_append_batch E F name ds ct sq close s = (s', r)"
    and mem: "append_batch E \<mu> name ds ct sq close = (\<mu>', v)"
    and live: "\<And>m. get_stream \<mu> name = Some m \<Longrightarrow> \<not> is_stream_expired now (se_config m)"
      "\<And>m. get_stream \<mu>' name = Some m \<Longrightarrow> \<not> is_stream_expired now (se_config m)"
  shows "restarts_as E F now now' root name (fe_dir e) (fs_world s') \<mu> \<and> (\<nexists>x. r = Some (Inr x)) \<or>
    restarts_as E F now now' root name (fe_dir e) (fs_world s') \<mu>'"
proof -
  obtain ms M where e0: "get_stream \<mu> name = Some (mem_entry e ms)" and held: "holds \<phi> F name e ms M (fs_world s)"
    by (rule file_rel_Some [OF rel e])
  have len: "length (log_bytes ms) + length (encode_records ds) < 2 ^ 63" "small ds" using l e0 by (simp_all add: loggable_def)
  have old: "indexed e ms" "is_valid_stream_dir_component (fe_dir e)" "meta_from_slice F M = Inr (meta_of name e)"
    "has \<phi> (fe_dir e) (at_rest (log_bytes ms) M) (fs_world s)" using held by (simp_all add: holds_def)
  have kept: "restarts_as E F now now' root name (fe_dir e) w \<mu>" if "has \<phi> (fe_dir e) (undoable F False (log_bytes ms) M) w" for w
    by (rule restarts_asI [OF e0 inv old(1,2) refl _ old(3) F(2) live(1) that]) (use len in simp_all)
  show ?thesis
  proof (rule append_checks [OF rel, of E name ds ct sq close])
    fix er
    assume "file_append_batch E F name ds ct sq close s = (s, Some (Inl er))"
    with run kept [of "fs_world s"] old(4) show ?thesis by (auto simp: has_def intro: undoable_at_rest)
  next
    fix e1 ms1 M1 pending
    assume m: "mirrors s name e1 ms1 \<mu>" and v: "validate_batch_shape ds close = Inr ()"
      and pre: "precheck_batch_append (now_at E 0) (fe_config e1) (fe_state e1) (fe_closed e1) (fe_last_seq e1)
        name (if ds \<noteq> [] then Some ct else None) sq = Inr pending"
    have same: "e1 = e" "ms1 = ms" using m e e0 by (auto simp: mirrors_def mem_entry_def)
    have fit: "small ds" "length (log_bytes ms) + length (encode_records ds) < 2 ^ 64" "unat (fe_total_bytes e) \<le> unat (fs_total_bytes s)"
      using len mem_core_bytes_le [of \<mu> name "mem_entry e ms"] inv e0 m by (simp_all add: mem_inv_def mirrors_def)
    let ?e = "after_append E pending close ds e" and ?ms = "ms @ log_from (fe_next_read_seq e) (fe_next_byte_offset e) ds"
    obtain M' where M': "meta_from_slice F M' = Inr (meta_of name ?e)"
      and out: "outcome (append_done \<phi> F E s name e ds ?e ?ms M') (\<lambda>_. append_undone \<phi> F E s name e ds ms M ?ms M')
        (\<lambda>s'. leads_back \<phi> F (fe_dir e) (log_bytes ms) M (append_ok E s ds e) (log_bytes ?ms) M' (fs_world s'))
        (file_append_batch E F name ds ct sq close s)"
      by (rule file_append_outcome [OF m [unfolded same] held h F fit v pre [unfolded same]])
    note new = after_append_indexed [OF old(1) fit(1,2), of E pending close]
    show ?thesis
    proof (rule append_leaves [OF out [unfolded run] new(2)])
      assume ok: "append_ok E s ds e" and w: "has \<phi> (fe_dir e) (undoable F False (log_bytes ?ms) M') (fs_world s')"
      have now: "get_stream \<mu>' name = Some (mem_entry ?e ?ms)"
        using append_batch_mem(1) [OF m [unfolded same] old(1) fit(1) v pre [unfolded same] ok] mem by (auto simp: set_stream_def get_stream_def)
      have "length (log_bytes ?ms) < 2 ^ 63" using len(1) by (simp add: log_bytes_def)
      from restarts_asI [OF now append_batch_inv [OF inv fits mem] new(1) old(2) new(2) this M' F(2) live(2) w] show ?thesis by simp
    qed (use kept in blast)
  qed
qed

section \<open>Any bytes as a log\<close>

lemma le32_from_le32:
  assumes "length bs = 4"
  shows "le32 (from_le32 bs) = bs"
proof -
  obtain a b c d where bs: "bs = [a, b, c, d]" using assms by (auto simp: length_Suc_conv eval_nat_numeral)
  define n where "n = from_le32 bs"
  have byte: "of_char c < (256 :: nat)" for c :: char using nat_of_char_less_256 [of c] by simp
  have n: "n = of_char a + 256 * (of_char b + 256 * (of_char c + 256 * of_char d))" by (simp add: n_def bs from_le32_def)
  have step: "(x + 256 * y) mod 256 = x" "(x + 256 * y) div 256 = y" if "x < 256" for x y :: nat using that by simp_all
  have d: "n div 65536 = n div 256 div 256" "n div 16777216 = n div 256 div 256 div 256" by (simp_all flip: div_mult2_eq)
  have "n mod 256 = of_char a" "n div 256 mod 256 = of_char b" "n div 256 div 256 mod 256 = of_char c"
    "n div 256 div 256 div 256 mod 256 = of_char d"
    unfolding n by (simp_all only: step [OF byte] mod_less [OF byte])
  then show ?thesis unfolding n_def [symmetric] le32_def d by (simp add: bs)
qed

lemma bytes_split:
  obtains ds torn where "L = encode_records ds @ torn" "small ds" "torn_tail torn"
proof -
  have "\<exists>ds torn. L = encode_records ds @ torn \<and> small ds \<and> torn_tail torn"
  proof (induction L rule: length_induct)
    case (1 L)
    show ?case
    proof (cases "torn_tail L")
      case True
      then show ?thesis by (intro exI [of _ "[]"] exI [of _ L]) (simp add: small_def)
    next
      case False
      define d where "d = take (from_le32 L) (drop 4 L)"
      have len: "length d = from_le32 L" "4 \<le> length L" using False by (auto simp: d_def torn_tail_def)
      have "le32 (length d) = take 4 L"
        using le32_from_le32 [of "take 4 L"] len by (simp add: from_le32_take)
      then have L: "L = encode_record d @ drop (4 + from_le32 L) L" and d: "length d < 2 ^ 32"
        using from_le32_bound [of L] len(1) by (simp_all add: encode_record_small d_def add.commute flip: drop_drop)
      obtain ds torn where "drop (4 + from_le32 L) L = encode_records ds @ torn" "small ds" "torn_tail torn"
        using 1 len(2) by (metis (no_types, lifting) add_gr_0 diff_less length_drop less_le_trans zero_less_numeral)
      with L d show ?thesis by (intro exI [of _ "d # ds"] exI [of _ torn]) (simp add: small_def)
    qed
  qed
  then show thesis using that by blast
qed

lemma rebuild_index_works:
  assumes "has (\<lambda>_. Works) d (at_rest (encode_records ds @ torn) M) w" "small ds" "torn_tail torn"
    "length (encode_records ds @ torn) < 2 ^ 63"
  obtains w' where "rebuild_index d w = (w', Some (Inr (index_of 0 (log_from 0 0 ds), of_nat (length ds), payload_bytes ds)))"
    "has (\<lambda>_. Works) d (at_rest (encode_records ds) M) w'"
proof -
  note run = specD [OF rebuild_index_spec [OF assms(2-4) refl refl] assms(1)]
  show thesis using outcome_works [OF run] by (auto simp: broken_def intro: that)
qed

lemma read_log_works:
  assumes "has (\<lambda>_. Works) d (at_rest (encode_records ds) M) w" "small ds" "length (encode_records ds) < 2 ^ 64"
  obtains w' where "read_messages d (index_of 0 (log_from sq bo ds)) w = (w', Some (Inr ds))"
proof -
  let ?ms = "log_from sq bo ds"
  have c: "file_content w d ''data.log'' = Some ([] @ log_bytes ?ms @ [])" "same_disk (\<lambda>_. Works) w w"
    using assms(1) by (auto simp: has_def at_rest_def file_content_def log_bytes_def same_disk_def)
  have "outcome (\<lambda>r w'. r = ds \<and> same_disk (\<lambda>_. Works) w w') (\<lambda>_ _. faulty (\<lambda>_. Works)) (\<lambda>_. faulty (\<lambda>_. Works))
      (read_messages d (index_of 0 ?ms) w)"
    using specD [OF read_messages_spec [OF c(1) refl, of "\<lambda>_. Works"] c(2)] assms(2,3) by (simp add: log_bytes_def)
  from outcome_works [OF this] show thesis by (auto intro: that)
qed

section \<open>Interrupted recoveries\<close>

text \<open>Runs of \<open>recover_append\<close> that end somewhere, each under faults of its own.\<close>

inductive attempts :: "file_env \<Rightarrow> string \<Rightarrow> string \<Rightarrow> world \<Rightarrow> world \<Rightarrow> bool" for F root d where
  start: "attempts F root d w w"
| again: "attempts F root d w w1 \<Longrightarrow> honest \<phi> \<Longrightarrow> w2 = fst (recover_append F root d (w1\<lparr>w_faults := \<phi>\<rparr>)) \<Longrightarrow> attempts F root d w w2"

inductive_simps attempts_simps: "attempts F root d w w'"

definition in_dir :: "string \<Rightarrow> (files \<Rightarrow> bool) \<Rightarrow> world \<Rightarrow> bool" where
  "in_dir d P w \<longleftrightarrow> (\<exists>fs. dir_files w d = Some fs \<and> P fs)"

lemma in_dir_has: "in_dir d P w \<Longrightarrow> has \<phi> d P (w\<lparr>w_faults := \<phi>\<rparr>)"
  by (auto simp: in_dir_def has_def dir_files_def)

lemma has_in_dir: "has \<phi> d P w \<Longrightarrow> (\<And>fs. P fs \<Longrightarrow> Q fs) \<Longrightarrow> in_dir d Q w"
  by (auto simp: in_dir_def has_def)

lemma attempts_undoable:
  assumes "attempts F root d w w'" "in_dir d (undoable F r L M) w"
    and d: "is_valid_stream_dir_component d" "meta_from_slice F M = Inr m" "length L < 2 ^ 64"
  shows "in_dir d (undoable F r L M) w'"
  using assms(1,2)
proof (induction rule: attempts.induct)
  case (again w w1 \<phi> w2)
  note run = specD [OF recover_spec [OF d again.hyps(2)] in_dir_has [OF again.IH [OF again.prems]], of root]
  have "in_dir d (undoable F r L M) (fst (recover_append F root d (w1\<lparr>w_faults := \<phi>\<rparr>)))"
    by (cases "recover_append F root d (w1\<lparr>w_faults := \<phi>\<rparr>)" rule: act_cases)
      (use run in \<open>auto simp: broken_def undoable_at_rest elim: has_in_dir\<close>)
  with again.hyps(3) show ?case by simp
qed

lemma recover_works:
  assumes "in_dir d (undoable F r L M) w" and d: "is_valid_stream_dir_component d" "meta_from_slice F M = Inr m" "length L < 2 ^ 64"
  obtains w' where "recover_append F root d (rebooted w) = (w', Some (Inr ()))" "in_dir d (at_rest L M) w'"
proof -
  have h: "honest (\<lambda>_. Works)" by (simp add: honest_def)
  note run = specD [OF recover_spec [OF d h] in_dir_has [OF assms(1)], of root]
  obtain w' where "recover_append F root d (rebooted w) = (w', Some (Inr ()))" "has (\<lambda>_. Works) d (at_rest L M) w'"
    using outcome_works [OF run] by (auto simp: broken_def rebooted_def)
  then show thesis by (intro that) (auto elim: has_in_dir)
qed

end
