(* ===== verification/DS_File_Sample.thy ===== *)
theory DS_File_Sample
  imports DS_File_Restart DS_Sample "HOL-Library.Countable"
begin

text \<open>
  A concrete serializer and a concrete store of the file backend, at which the
  properties are instantiated. The serializer numbers the metadata and writes
  the number in unary; a table of producers is numbered by its sorted entries.
\<close>

section \<open>A serializer\<close>

instance offset :: countable
  by countable_datatype

instance stream_state :: countable
  by countable_datatype

definition producers_code :: "producers \<Rightarrow> nat" where
  "producers_code ps = to_nat (map (\<lambda>k. (k, map_option (\<lambda>st. (ps_epoch st, ps_last_seq st, ps_updated_at st)) (ps k)))
     (sorted_list_of_set (dom ps)))"

lemma producers_code_inj:
  assumes "finite (dom ps)" "finite (dom qs)" "producers_code ps = producers_code qs"
  shows "ps = qs"
proof
  fix k :: string
  let ?g = "\<lambda>st :: producer_state. (ps_epoch st, ps_last_seq st, ps_updated_at st)"
  let ?l = "\<lambda>ps. map (\<lambda>k. (k, map_option ?g (ps k))) (sorted_list_of_set (dom ps))"
  have same: "?l ps = ?l qs" using assms(3) by (simp add: producers_code_def)
  have look: "map_of (?l ps) k = (if k \<in> dom ps then Some (map_option ?g (ps k)) else None)" if "finite (dom ps)" for ps
    using that by (auto simp: map_of_map_restrict restrict_map_def)
  have "inj (map_option ?g)" by (intro option.inj_map injI) (auto simp: producer_state.equality)
  with look [OF assms(1)] look [OF assms(2)] same show "ps k = qs k"
    by (auto simp: dom_def inj_eq split: if_splits)
qed

definition meta_code :: "stream_meta \<Rightarrow> nat" where
  "meta_code m = to_nat (sm_name m,
     (content_type (sm_config m), ttl_seconds (sm_config m), expires_at (sm_config m), created_closed (sm_config m)),
     (sm_closed m, sm_created_at m, sm_updated_at m, sm_last_seq m, producers_code (sm_producers m)),
     map_option (\<lambda>f. (source_name f, fork_offset f, sub_offset f)) (sm_fork_info m), sm_ref_count m, sm_state m)"

lemma meta_code_inj: "inj_on meta_code {m. finite (dom (sm_producers m))}"
proof (rule inj_onI)
  fix a b :: stream_meta
  assume fin: "a \<in> {m. finite (dom (sm_producers m))}" "b \<in> {m. finite (dom (sm_producers m))}" and eq: "meta_code a = meta_code b"
  have "inj (map_option (\<lambda>f :: fork_info. (source_name f, fork_offset f, sub_offset f)))" by (intro option.inj_map injI) (auto simp: fork_info.equality)
  with eq producers_code_inj [of "sm_producers a" "sm_producers b"] fin show "a = b"
    by (simp add: meta_code_def inj_eq)
qed

definition unary :: "nat \<Rightarrow> bytes" where
  "unary n = replicate n (CHR ''1'')"

definition decode_by :: "('a \<Rightarrow> nat) \<Rightarrow> 'a set \<Rightarrow> bytes \<Rightarrow> string + 'a" where
  "decode_by code A bs = (if length bs \<in> code ` A then Inr (inv_into A code (length bs)) else Inl ''expected value'')"

lemma decode_by_unary: "inj_on code A \<Longrightarrow> x \<in> A \<Longrightarrow> decode_by code A (unary (code x)) = Inr x"
  by (simp add: decode_by_def unary_def)

definition undo_code :: "undo \<Rightarrow> nat" where
  "undo_code u = to_nat (un_log_len u, un_metadata u, un_restore_log u)"

lemma undo_code_inj: "inj undo_code"
  by (rule injI) (simp add: undo_code_def)

definition sample_file_env :: file_env where
  "sample_file_env = \<lparr>base64url = id, meta_to_vec = (\<lambda>m. Inr (unary (meta_code m))),
     meta_from_slice = decode_by meta_code {m. finite (dom (sm_producers m))},
     undo_to_vec = (\<lambda>u. Inr (unary (undo_code u))), undo_from_slice = decode_by undo_code UNIV,
     dir_order = (\<lambda>_. [])\<rparr>"

lemma sample_codecs: "journal_codec sample_file_env" "meta_codec sample_file_env"
  by (simp_all add: journal_codec_def meta_codec_def sample_file_env_def decode_by_unary [OF undo_code_inj]
      decode_by_unary [OF meta_code_inj])

lemma sample_decodes: "finite (dom (sm_producers m)) \<Longrightarrow> meta_from_slice sample_file_env (unary (meta_code m)) = Inr m"
  by (simp add: sample_file_env_def decode_by_unary [OF meta_code_inj])

section \<open>A store\<close>

text \<open>An entry of the in-memory backend put into files.\<close>

definition shelve :: "string \<Rightarrow> stream_entry \<Rightarrow> file_entry" where
  "shelve d m = \<lparr>fe_unavailable = False, fe_config = se_config m, fe_index = index_of 0 (se_messages m), fe_closed = se_closed m,
     fe_next_read_seq = se_next_read_seq m, fe_next_byte_offset = se_next_byte_offset m, fe_total_bytes = se_total_bytes m,
     fe_created_at = se_created_at m, fe_updated_at = se_updated_at m, fe_producers = se_producers m, fe_notify = se_notify m,
     fe_last_seq = se_last_seq m, fe_file_len = of_nat (length (log_bytes (se_messages m))), fe_dir = d,
     fe_fork_info = se_fork_info m, fe_ref_count = se_ref_count m, fe_state = se_state m\<rparr>"

lemma mem_entry_shelve: "mem_entry (shelve d m) (se_messages m) = m"
  by (simp add: mem_entry_def shelve_def)

definition shelf :: "string \<Rightarrow> string \<Rightarrow> stream_entry \<Rightarrow> files" where
  "shelf d n m = fmap_of_list [(''data.log'', log_bytes (se_messages m)), (''meta.json'', unary (meta_code (meta_of n (shelve d m))))]"

definition stored :: "(nat \<Rightarrow> fault) \<Rightarrow> string \<Rightarrow> string \<Rightarrow> mem \<Rightarrow> fstore" where
  "stored \<phi> d n \<mu> = (let m = the (get_stream \<mu> n) in
     \<lparr>fs_streams = fmap_of_list [(n, shelve d m)], fs_total_bytes = mem_total_bytes \<mu>, fs_max_total_bytes = mem_max_total_bytes \<mu>,
      fs_max_stream_bytes = mem_max_stream_bytes \<mu>, fs_root_dir = ''/data'',
      fs_world = \<lparr>w_root = fmap_of_list [(d, NDir (shelf d n m))], w_calls = 0, w_faults = \<phi>\<rparr>\<rparr>)"

lemma stored_rel:
  assumes m: "get_stream \<mu> n = Some m" "\<And>k. k \<noteq> n \<Longrightarrow> get_stream \<mu> k = None"
    and d: "is_valid_stream_dir_component d" "small (map msg_data (se_messages m))" "length (log_bytes (se_messages m)) < 2 ^ 64"
      "finite (dom (se_producers m))"
  shows "file_rel \<phi> sample_file_env (stored \<phi> d n \<mu>) \<mu>"
proof -
  let ?s = "stored \<phi> d n \<mu>" and ?e = "shelve d m"
  have "holds \<phi> sample_file_env n ?e (se_messages m) (unary (meta_code (meta_of n ?e))) (fs_world ?s)"
    using d m(1) sample_decodes [of "meta_of n ?e"]
    by (simp add: holds_def indexed_def stored_def shelve_def shelf_def has_def dir_files_def at_rest_def meta_of_def fmap_of_list.rep_eq)
  moreover have "get_stream \<mu> n = Some (mem_entry ?e (se_messages m))" using m(1) by (simp add: mem_entry_shelve)
  moreover have "fmlookup (fs_streams ?s) k = (if k = n then Some ?e else None)" for k
    using m(1) by (simp add: stored_def fmap_of_list.rep_eq)
  ultimately show ?thesis
    using m by (auto simp: file_rel_def stored_def split: option.splits if_splits)
qed

end
