(* ===== verification/DS_Prop_File.thy ===== *)
theory DS_Prop_File
  imports DS_File_Sample
begin

text \<open>
  Properties of the file backend: it implements the in-memory backend, an
  append survives a crash at any call of the operating system, any bytes are
  read back as the whole records they begin with, and recovery may be
  interrupted and repeated.
\<close>

section \<open>The sample store\<close>

lemma sample_one_entry:
  obtains m where "get_stream sample_one ''a'' = Some m" "\<And>k. k \<noteq> ''a'' \<Longrightarrow> get_stream sample_one k = None"
    "map msg_data (se_messages m) = [''hello'', ''x'']" "finite (dom (se_producers m))" "expires_at (se_config m) = None"
    "se_next_read_seq m = 2"
proof -
  obtain m where m: "get_stream sample_one ''a'' = Some m" using sample_one_present by blast
  have "map_option (\<lambda>e. (map msg_data (se_messages e), expires_at (se_config e), se_next_read_seq e))
      (get_stream sample_one ''a'') = Some ([''hello'', ''x''], None, 2)" by code_simp
  moreover have "fset (fmdom (mem_streams sample_one)) = {''a''}" by code_simp
  moreover have "se_producers m = Map.empty"
    using m commit_messages_fields(6,13)
    by (fastforce simp: sample_one_def sample_empty_def create_stream_with_data_def Let_def mem_new_def get_stream_def set_stream_def
        stream_entry_new_def dest!: commit_messages_Inl split: sum.splits prod.splits if_splits)
  ultimately show thesis using m by (intro that [of m]) (auto simp: get_stream_def fmdom_notI)
qed

lemma sample_one_inv: "mem_inv sample_one"
  by (rule reachable_mem_inv [OF sample_one_reachable])

definition sample_store :: "(nat \<Rightarrow> fault) \<Rightarrow> fstore" where
  "sample_store \<phi> = stored \<phi> ''a'' ''a'' sample_one"

lemma sample_store_rel: "file_rel \<phi> sample_file_env (sample_store \<phi>) sample_one"
proof (rule sample_one_entry)
  fix m
  assume m: "get_stream sample_one ''a'' = Some m" "\<And>k. k \<noteq> ''a'' \<Longrightarrow> get_stream sample_one k = None"
    "map msg_data (se_messages m) = [''hello'', ''x'']" "finite (dom (se_producers m))"
  have "is_valid_stream_dir_component ''a''" by code_simp
  with m show ?thesis unfolding sample_store_def
    by (intro stored_rel) (simp_all add: small_def log_bytes_def)
qed

lemma sample_loggable: "loggable sample_one ''a'' [''yz'']" "batch_fits sample_one ''a'' [''yz'']"
proof -
  show "batch_fits sample_one ''a'' [''yz'']"
    by (rule sample_one_entry) (simp add: batch_fits_def payload_fits_def)
  show "loggable sample_one ''a'' [''yz'']"
    by (rule sample_one_entry) (simp add: loggable_def small_def log_bytes_def)
qed

lemma no_fault_honest: "honest (\<lambda>_. Works)"
  by (simp add: honest_def)

section \<open>Refinement\<close>

text \<open>
  C5. The file backend implements the in-memory backend for appends: from a
  store whose files stand for the memory state \<open>\<mu>\<close>, an append that succeeds
  answers what the in-memory append answers and its files stand for the new
  memory state; an append that fails without a fault of the filesystem is one
  that the in-memory backend refuses, and the files stand for \<open>\<mu>\<close> up to the
  notification counter of the stream.
\<close>

theorem file_append_refines_memory:
  assumes "file_rel \<phi> F s \<mu>" "mem_inv \<mu>" "honest \<phi>" "journal_codec F" "meta_codec F" "loggable \<mu> name ds"
  shows "outcome
    (\<lambda>x s'. \<exists>\<mu>'. append_batch E \<mu> name ds ct sq close = (\<mu>', Inr x) \<and> file_rel \<phi> F s' \<mu>')
    (\<lambda>_ s'. (\<exists>er. append_batch E \<mu> name ds ct sq close = (\<mu>, Inl er)) \<and>
       (file_rel \<phi> F s' \<mu> \<or> (\<exists>m n. get_stream \<mu> name = Some m \<and> file_rel \<phi> F s' (set_stream name (m\<lparr>se_notify := n\<rparr>) \<mu>))) \<or>
       (\<exists>k. \<phi> k \<noteq> Works))
    (\<lambda>_. \<exists>k. \<phi> k \<noteq> Works)
    (file_append_batch E F name ds ct sq close s)"
  by (rule append_refines [OF assms])

lemma sample_append_accepted: "\<nexists>er. snd (append_batch sample_env sample_one ''a'' [''yz''] ''text/plain'' None False) = Inl er"
proof -
  have "case snd (append_batch sample_env sample_one ''a'' [''yz''] ''text/plain'' None False) of Inl _ \<Rightarrow> False | Inr _ \<Rightarrow> True"
    by code_simp
  then show ?thesis by (auto split: sum.splits)
qed

theorem file_append_refines_memory_witness:
  "\<exists>s' x \<mu>'. file_append_batch sample_env sample_file_env ''a'' [''yz''] ''text/plain'' None False (sample_store (\<lambda>_. Works)) =
       (s', Some (Inr x)) \<and>
     append_batch sample_env sample_one ''a'' [''yz''] ''text/plain'' None False = (\<mu>', Inr x) \<and>
     file_rel (\<lambda>_. Works) sample_file_env s' \<mu>'"
  using file_append_refines_memory [OF sample_store_rel sample_one_inv no_fault_honest sample_codecs sample_loggable(1),
      of sample_env "''text/plain''" None False] sample_append_accepted
  by (cases "file_append_batch sample_env sample_file_env ''a'' [''yz''] ''text/plain'' None False (sample_store (\<lambda>_. Works))"
      rule: act_cases) auto

text \<open>
  C6. The file backend implements the in-memory backend for reads: a read
  answers what the in-memory read of the state \<open>\<mu>\<close> answers (the messages, the
  next offset and the flags, through the fork chain, or the same error), with
  the same renewed deadline, unless a call of the filesystem fails.
\<close>

theorem file_read_refines_memory:
  assumes "file_rel \<phi> F s \<mu>" "mem_inv \<mu>" "wf_offset from" "meta_codec F"
  shows "outcome
    (\<lambda>x s'. \<exists>\<mu>'. mem_read E \<mu> name from = Some (\<mu>', Inr x) \<and> file_rel \<phi> F s' \<mu>')
    (\<lambda>er s'. mem_read E \<mu> name from = Some (\<mu>, Inl er) \<and> file_rel \<phi> F s' \<mu> \<or> (\<exists>k. \<phi> k \<noteq> Works))
    (\<lambda>_. \<exists>k. \<phi> k \<noteq> Works)
    (file_read E F name from s)"
  by (rule read_refines [OF assms])

theorem file_read_refines_memory_witness:
  "map_option (map_sum id rr_messages) (snd (file_read sample_env sample_file_env ''a'' Start (sample_store (\<lambda>_. Works)))) =
     Some (Inr [''hello'', ''x''])"
proof -
  have wf: "wf_offset Start" by simp
  from file_read_refines_memory [OF sample_store_rel sample_one_inv wf sample_codecs(2),
      where \<phi> = "\<lambda>_. Works" and E = sample_env and name = "''a''"]
    sample_one_read
  show ?thesis
    by (cases "file_read sample_env sample_file_env ''a'' Start (sample_store (\<lambda>_. Works))" rule: act_cases) auto
qed

section \<open>Crashes and restarts\<close>

text \<open>
  C4. An append survives a crash: whatever calls of the filesystem fail and
  wherever the process dies in an append, a restart finds the stream, with the
  entry and the log of the in-memory backend before or after the append, and
  with those after it when the append was acknowledged.
\<close>

theorem append_survives_restart:
  assumes "file_rel \<phi> F s \<mu>" "mem_inv \<mu>" "honest \<phi>" "journal_codec F" "meta_codec F" "loggable \<mu> name ds" "batch_fits \<mu> name ds"
    and "fmlookup (fs_streams s) name = Some e"
    and "file_append_batch E F name ds ct sq close s = (s', r)" "append_batch E \<mu> name ds ct sq close = (\<mu>', v)"
    and "\<And>m. get_stream \<mu> name = Some m \<Longrightarrow> \<not> is_stream_expired now (se_config m)"
      "\<And>m. get_stream \<mu>' name = Some m \<Longrightarrow> \<not> is_stream_expired now (se_config m)"
  shows "restarts_as E F now now' root name (fe_dir e) (fs_world s') \<mu> \<and> (\<nexists>x. r = Some (Inr x)) \<or>
    restarts_as E F now now' root name (fe_dir e) (fs_world s') \<mu>'"
  by (rule append_restarts [OF assms])

text \<open>The process dies in the fifteenth call, after one byte of a write.\<close>

definition sample_crash :: "nat \<Rightarrow> fault" where
  "sample_crash k = (if k = 14 then Dies (Some 1) else Works)"

lemma sample_crash_honest: "honest sample_crash"
  by (simp add: honest_def sample_crash_def)

lemma sample_append_live:
  assumes "get_stream (fst (append_batch sample_env sample_one ''a'' [''yz''] ''text/plain'' None False)) ''a'' = Some m"
  shows "\<not> is_stream_expired 5 (se_config m)"
proof -
  have "map_option (\<lambda>e. expires_at (se_config e))
      (get_stream (fst (append_batch sample_env sample_one ''a'' [''yz''] ''text/plain'' None False)) ''a'') = Some None" by code_simp
  with assms show ?thesis by (simp add: is_stream_expired_def)
qed

theorem append_survives_restart_witness:
  "\<exists>s'. s' = fst (file_append_batch sample_env sample_file_env ''a'' [''yz''] ''text/plain'' None False (sample_store sample_crash)) \<and>
    (restarts_as sample_env sample_file_env 5 6 ''/data'' ''a'' ''a'' (fs_world s') sample_one \<or>
     restarts_as sample_env sample_file_env 5 6 ''/data'' ''a'' ''a'' (fs_world s')
       (fst (append_batch sample_env sample_one ''a'' [''yz''] ''text/plain'' None False)))"
proof (rule sample_one_entry)
  fix m
  assume m: "get_stream sample_one ''a'' = Some m" "expires_at (se_config m) = None"
  let ?s = "sample_store sample_crash"
  have e: "fmlookup (fs_streams ?s) ''a'' = Some (shelve ''a'' m)" "fe_dir (shelve ''a'' m) = ''a''"
    using m(1) by (simp_all add: sample_store_def stored_def shelve_def)
  obtain s' r where run: "file_append_batch sample_env sample_file_env ''a'' [''yz''] ''text/plain'' None False ?s = (s', r)" by fastforce
  obtain \<mu>' v where mem: "append_batch sample_env sample_one ''a'' [''yz''] ''text/plain'' None False = (\<mu>', v)" by fastforce
  have live: "\<not> is_stream_expired 5 (se_config k)" if "get_stream sample_one ''a'' = Some k" for k
    using that m by (simp add: is_stream_expired_def)
  from append_survives_restart [OF sample_store_rel sample_one_inv sample_crash_honest sample_codecs sample_loggable e(1) run mem live,
      of 6 "''/data''"] sample_append_live mem e(2) run
  show ?thesis by auto
qed

text \<open>
  C19. Recovery may be interrupted: from a directory whose journal can undo a
  change of \<open>(L, M)\<close>, however often \<open>recover_append\<close> is started and fails or
  dies, the next run without faults returns and leaves exactly the log \<open>L\<close>, the
  metadata \<open>M\<close> and no journal.
\<close>

theorem recovery_may_be_interrupted:
  assumes "in_dir d (undoable F r L M) w" "attempts F root d w w'"
    and "is_valid_stream_dir_component d" "meta_from_slice F M = Inr m" "length L < 2 ^ 64"
  shows "\<exists>w''. recover_append F root d (rebooted w') = (w'', Some (Inr ())) \<and> in_dir d (at_rest L M) w''"
  using recover_works [OF attempts_undoable [OF assms(2,1,3-5)] assms(3-5), of root] by metis

text \<open>A directory in which an append of one record was interrupted.\<close>

definition sample_meta :: stream_meta where
  "sample_meta = \<lparr>sm_name = ''a'', sm_config = \<lparr>content_type = ''text/plain'', ttl_seconds = None, expires_at = None,
     created_closed = False\<rparr>, sm_closed = False, sm_created_at = 0, sm_updated_at = None, sm_last_seq = None,
     sm_producers = Map.empty, sm_fork_info = None, sm_ref_count = 0, sm_state = Active\<rparr>"

definition sample_torn :: world where
  "sample_torn = \<lparr>w_root = fmap_of_list [(''a'', NDir (fmap_of_list
       [(''data.log'', encode_record ''hello'' @ [CHR 0x02]), (''meta.json'', []),
        (''append.undo'', unary (undo_code \<lparr>un_log_len = 9, un_metadata = unary (meta_code sample_meta), un_restore_log = False\<rparr>))]))],
     w_calls = 0, w_faults = (\<lambda>_. Works)\<rparr>"

theorem recovery_may_be_interrupted_witness:
  "\<exists>w''. recover_append sample_file_env ''/data'' ''a'' (rebooted
       (fst (recover_append sample_file_env ''/data'' ''a'' (sample_torn\<lparr>w_faults := sample_crash\<rparr>)))) = (w'', Some (Inr ())) \<and>
     in_dir ''a'' (at_rest (encode_record ''hello'') (unary (meta_code sample_meta))) w''"
proof -
  have u: "undo_from_slice sample_file_env (unary (undo_code u)) = Inr u" for u
    by (simp add: sample_file_env_def decode_by_unary [OF undo_code_inj])
  have "in_force sample_file_env False (encode_record ''hello'') (unary (meta_code sample_meta))
      (fmap_of_list [(''data.log'', encode_record ''hello'' @ [CHR 0x02]), (''meta.json'', []),
        (''append.undo'', unary (undo_code \<lparr>un_log_len = 9, un_metadata = unary (meta_code sample_meta), un_restore_log = False\<rparr>))])"
    by (simp add: in_force_def fmap_of_list.rep_eq u)
  then have w: "in_dir ''a'' (undoable sample_file_env False (encode_record ''hello'') (unary (meta_code sample_meta))) sample_torn"
    by (simp add: in_dir_def dir_files_def sample_torn_def undoable_def)
  have d: "is_valid_stream_dir_component ''a''" "length (encode_record ''hello'') < 2 ^ 64"
    "meta_from_slice sample_file_env (unary (meta_code sample_meta)) = Inr sample_meta"
    by code_simp (simp_all add: sample_decodes sample_meta_def)
  show ?thesis
    by (rule recovery_may_be_interrupted [OF w attempts.again [OF attempts.start sample_crash_honest refl] d(1,3,2)])
qed

section \<open>Any log\<close>

text \<open>
  C20. Opening a stream terminates on any log: whatever bytes are in the file, the
  scan ends, keeps the whole records at its beginning, cuts off the rest, and
  the rebuilt index reads back exactly these records.
\<close>

theorem any_log_is_indexed:
  assumes "has (\<lambda>_. Works) d (at_rest L M) w" "length L < 2 ^ 63"
  shows "\<exists>ds torn idx w' w''. L = encode_records ds @ torn \<and> torn_tail torn \<and>
    rebuild_index d w = (w', Some (Inr (idx, of_nat (length ds), payload_bytes ds))) \<and>
    file_content w' d ''data.log'' = Some (encode_records ds) \<and> read_messages d idx w' = (w'', Some (Inr ds))"
proof (rule bytes_split [of L])
  fix ds torn
  assume L: "L = encode_records ds @ torn" "small ds" "torn_tail torn"
  with assms have len: "length (encode_records ds @ torn) < 2 ^ 63" "length (encode_records ds) < 2 ^ 64" by simp_all
  obtain w' where w': "rebuild_index d w = (w', Some (Inr (index_of 0 (log_from 0 0 ds), of_nat (length ds), payload_bytes ds)))"
      "has (\<lambda>_. Works) d (at_rest (encode_records ds) M) w'"
    by (rule rebuild_index_works [OF assms(1) [unfolded L(1)] L(2,3) len(1)])
  moreover obtain w'' where "read_messages d (index_of 0 (log_from 0 0 ds)) w' = (w'', Some (Inr ds))"
    by (rule read_log_works [OF w'(2) L(2) len(2)])
  moreover have "file_content w' d ''data.log'' = Some (encode_records ds)"
    using w'(2) by (auto simp: has_def at_rest_def file_content_def)
  ultimately show ?thesis using L by blast
qed

definition sample_bytes :: world where
  "sample_bytes = \<lparr>w_root = fmap_of_list [(''a'', NDir (fmap_of_list [(''data.log'', ''garbage''), (''meta.json'', [])]))],
     w_calls = 0, w_faults = (\<lambda>_. Works)\<rparr>"

theorem any_log_is_indexed_witness:
  "\<exists>ds torn idx w' w''. ''garbage'' = encode_records ds @ torn \<and> torn_tail torn \<and>
    rebuild_index ''a'' sample_bytes = (w', Some (Inr (idx, of_nat (length ds), payload_bytes ds))) \<and>
    file_content w' ''a'' ''data.log'' = Some (encode_records ds) \<and> read_messages ''a'' idx w' = (w'', Some (Inr ds))"
  by (rule any_log_is_indexed [where M = "[]"])
    (simp_all add: sample_bytes_def has_def dir_files_def at_rest_def fmap_of_list.rep_eq)

text \<open>
  The log is a faithful encoding: from a log of the records \<open>ds\<close> with the torn
  rest of an unfinished write after them, a scan and a read return exactly \<open>ds\<close>
  with the offsets they were appended at.
\<close>

theorem log_round_trip:
  assumes "has (\<lambda>_. Works) d (at_rest (encode_records ds @ torn) M) w" "small ds" "torn_tail torn"
    "length (encode_records ds @ torn) < 2 ^ 63"
  shows "\<exists>idx w' w''. rebuild_index d w = (w', Some (Inr (idx, of_nat (length ds), payload_bytes ds))) \<and>
    map mi_offset idx = map msg_offset (log_from 0 0 ds) \<and> read_messages d idx w' = (w'', Some (Inr ds))"
proof (rule rebuild_index_works [OF assms])
  fix w'
  assume run: "rebuild_index d w = (w', Some (Inr (index_of 0 (log_from 0 0 ds), of_nat (length ds), payload_bytes ds)))"
    and w': "has (\<lambda>_. Works) d (at_rest (encode_records ds) M) w'"
  have "length (encode_records ds) < 2 ^ 64" using assms(4) by simp
  from read_log_works [OF w' assms(2) this] obtain w'' where "read_messages d (index_of 0 (log_from 0 0 ds)) w' = (w'', Some (Inr ds))" .
  with run show ?thesis by auto
qed

definition sample_log :: world where
  "sample_log = \<lparr>w_root = fmap_of_list [(''a'', NDir (fmap_of_list
       [(''data.log'', encode_records [''hello'', ''x''] @ [CHR 0x02, CHR 0x00]), (''meta.json'', [])]))],
     w_calls = 0, w_faults = (\<lambda>_. Works)\<rparr>"

theorem log_round_trip_witness:
  "\<exists>idx w' w''. rebuild_index ''a'' sample_log = (w', Some (Inr (idx, of_nat (length [''hello'', ''x'']), payload_bytes [''hello'', ''x'']))) \<and>
    map mi_offset idx = map msg_offset (log_from 0 0 [''hello'', ''x'']) \<and> read_messages ''a'' idx w' = (w'', Some (Inr [''hello'', ''x'']))"
  by (rule log_round_trip [where M = "[]" and torn = "[CHR 0x02, CHR 0x00]"])
    (simp_all add: sample_log_def has_def dir_files_def at_rest_def fmap_of_list.rep_eq small_def torn_tail_def)

end
