(* ===== verification/DS_Cl_Sse.thy ===== *)
theory DS_Cl_Sse
  imports DS_Sse
begin

text \<open>
  The client's reading of responses, \<open>error.rs\<close> and \<open>protocol.rs\<close> of
  \<open>durable-streams-client\<close>: errors, response headers, the parser of
  Server-Sent Events and the collection of an event stream.
\<close>

section \<open>Errors\<close>

datatype error_kind = KInvalidArgument | KConfig | KNetwork | KTimeout | KNotFound | KConflict | KStreamClosed
  | KInvalidOffset | KForbidden | KRateLimited | KUnexpectedStatus | KParse | KIo

record http_error =
  he_status :: nat
  he_kind :: error_kind
  he_message :: string
  he_headers :: "string \<rightharpoonup> string"
  he_next_offset :: "string option"
  he_stream_closed :: bool
  he_stream_cursor :: "string option"
  he_producer_epoch :: "int option"
  he_producer_seq :: "int option"
  he_expected_seq :: "int option"
  he_received_seq :: "int option"

text \<open>An error of the HTTP client: whether it is a time-out and whether connecting failed.\<close>

record transport_error =
  te_timeout :: bool
  te_connect :: bool

datatype client_error = CInvalidArgument string | CConfig string | CTransport transport_error | CHttp http_error
  | CIo string | CJson string | CToml string | CUrl string | CBase64 string | CParse string

fun error_kind_of :: "client_error \<Rightarrow> error_kind" where
  "error_kind_of (CInvalidArgument _) = KInvalidArgument"
| "error_kind_of (CUrl _) = KInvalidArgument"
| "error_kind_of (CConfig _) = KConfig"
| "error_kind_of (CToml _) = KConfig"
| "error_kind_of (CTransport e) = (if te_timeout e then KTimeout else KNetwork)"
| "error_kind_of (CHttp e) = he_kind e"
| "error_kind_of (CIo _) = KIo"
| "error_kind_of (CJson _) = KParse"
| "error_kind_of (CParse _) = KParse"
| "error_kind_of (CBase64 _) = KParse"

definition http_is_retryable :: "http_error \<Rightarrow> bool" where
  "http_is_retryable e \<longleftrightarrow> he_status e \<in> {429, 500, 502, 503, 504}"

fun is_retryable :: "client_error \<Rightarrow> bool" where
  "is_retryable (CTransport e) = (te_timeout e \<or> te_connect e)"
| "is_retryable (CHttp e) = http_is_retryable e"
| "is_retryable _ = False"

section \<open>Headers\<close>

text \<open>A response as the HTTP client hands it over: the headers whose values are text, in lower case, and the outcome of reading the body.\<close>

record http_response =
  hr_status :: nat
  hr_headers :: "string \<rightharpoonup> string"
  hr_body :: "transport_error + bytes"

definition header_value :: "http_response \<Rightarrow> string \<Rightarrow> string option" where
  "header_value r name = hr_headers r name"

definition true_or_empty :: "string \<Rightarrow> bool" where
  "true_or_empty v \<longleftrightarrow> eq_ignore_ascii_case v ''true'' \<or> v = []"

definition parse_bool_header :: "http_response \<Rightarrow> string \<Rightarrow> bool" where
  "parse_bool_header r name = (case header_value r name of Some v \<Rightarrow> true_or_empty v | None \<Rightarrow> False)"

text \<open>\<open>str::parse::<i64>\<close>: a sign, then digits, within range.\<close>

definition parse_i64 :: "string \<Rightarrow> int option" where
  "parse_i64 s =
     (let neg = (s \<noteq> [] \<and> hd s = CHR ''-''); ds = (if s \<noteq> [] \<and> hd s \<in> {CHR ''+'', CHR ''-''} then tl s else s) in
      if ds = [] then None
      else case parse_digits 0 ds of
        Inl _ \<Rightarrow> None
      | Inr n \<Rightarrow> let v = (if neg then - int n else int n) in
          if - (2 ^ 63) \<le> v \<and> v < 2 ^ 63 then Some v else None)"

definition parse_i64_header :: "http_response \<Rightarrow> string \<Rightarrow> int option" where
  "parse_i64_header r name = Option.bind (header_value r name) parse_i64"

text \<open>\<open>str::contains\<close>.\<close>

fun str_contains :: "string \<Rightarrow> string \<Rightarrow> bool" where
  "str_contains [] p = (p = [])"
| "str_contains (c # cs) p = (strip_prefix p (c # cs) \<noteq> None \<or> str_contains cs p)"

definition http_error_kind :: "nat \<Rightarrow> bool \<Rightarrow> string \<Rightarrow> error_kind" where
  "http_error_kind st closed lower =
     (if st = 404 then KNotFound
      else if st = 403 then KForbidden
      else if st = 429 then KRateLimited
      else if st = 400 \<and> (str_contains lower ''offset'' \<or> str_contains lower ''invalid'') then KInvalidOffset
      else if st = 409 \<and> closed then KStreamClosed
      else if st = 409 then KConflict
      else KUnexpectedStatus)"

text \<open>\<open>phrase\<close> is \<open>StatusCode::canonical_reason\<close>.\<close>

definition build_http_error_from_parts :: "(nat \<Rightarrow> string option) \<Rightarrow> nat \<Rightarrow> (string \<rightharpoonup> string) \<Rightarrow> string \<Rightarrow> http_error" where
  "build_http_error_from_parts phrase st hs body =
     (let closed = (case hs ''stream-closed'' of Some v \<Rightarrow> true_or_empty v | None \<Rightarrow> False);
          number = (\<lambda>n. Option.bind (hs n) parse_i64) in
      \<lparr>he_status = st, he_kind = http_error_kind st closed (to_lowercase body),
       he_message = (if body = [] then (case phrase st of Some t \<Rightarrow> t | None \<Rightarrow> ''request failed'') else body),
       he_headers = hs, he_next_offset = hs ''stream-next-offset'', he_stream_closed = closed,
       he_stream_cursor = hs ''stream-cursor'', he_producer_epoch = number ''producer-epoch'',
       he_producer_seq = number ''producer-seq'', he_expected_seq = number ''producer-expected-seq'',
       he_received_seq = number ''producer-received-seq''\<rparr>)"

definition relevant_headers :: "string list" where
  "relevant_headers = [''stream-closed'', ''stream-next-offset'', ''stream-cursor'', ''producer-epoch'', ''producer-seq'',
     ''producer-expected-seq'', ''producer-received-seq'']"

text \<open>A body that cannot be read is replaced by the text of the status.\<close>

definition response_error :: "(nat \<Rightarrow> string option) \<Rightarrow> http_response \<Rightarrow> http_error" where
  "response_error phrase r = build_http_error_from_parts phrase (hr_status r)
     (\<lambda>n. if n \<in> set relevant_headers then hr_headers r n else None)
     (case hr_body r of
        Inr bs \<Rightarrow> from_utf8_lossy bs
      | Inl _ \<Rightarrow> nat_to_string (hr_status r) @ '' '' @ (case phrase (hr_status r) of Some t \<Rightarrow> t | None \<Rightarrow> ''<unknown status code>''))"

section \<open>The event parser\<close>

text \<open>\<open>str::from_utf8\<close> accepts exactly the well-formed sequences.\<close>

function utf8_ok :: "bytes \<Rightarrow> bool" where
  "utf8_ok [] = True"
| "utf8_ok (c # bs) = (case cont_ranges c of
     None \<Rightarrow> False
   | Some rs \<Rightarrow> (let (k, ok) = match_cont rs bs in ok \<and> utf8_ok (drop k bs)))"
  by pat_completeness auto
termination by (relation "measure length") auto

record sse_parser =
  sp_buffer :: bytes
  sp_event :: "string option"
  sp_data :: bytes
  sp_saw_data :: bool

record parsed_event =
  pe_kind :: "string option"
  pe_data :: string

definition sse_parser_new :: sse_parser where
  "sse_parser_new = \<lparr>sp_buffer = [], sp_event = None, sp_data = [], sp_saw_data = False\<rparr>"

definition drop_cr :: "bytes \<Rightarrow> bytes" where
  "drop_cr l = (if l \<noteq> [] \<and> List.last l = CHR 0x0D then butlast l else l)"

definition sse_utf8_error :: client_error where
  "sse_utf8_error = CParse ''SSE stream contained invalid UTF-8''"

text \<open>One line without its end.\<close>

definition sse_line :: "bytes \<Rightarrow> sse_parser \<Rightarrow> client_error + (sse_parser \<times> parsed_event list)" where
  "sse_line l p =
     (if l = [] then
        if sp_saw_data p \<or> sp_event p \<noteq> None then
          if utf8_ok (sp_data p) then
            Inr (p\<lparr>sp_event := None, sp_data := [], sp_saw_data := False\<rparr>, [\<lparr>pe_kind = sp_event p, pe_data = sp_data p\<rparr>])
          else Inl sse_utf8_error
        else Inr (p, [])
      else if \<not> utf8_ok l then Inl sse_utf8_error
      else case strip_prefix ''event:'' l of
        Some rest \<Rightarrow> Inr (p\<lparr>sp_event := Some (trim rest)\<rparr>, [])
      | None \<Rightarrow> (case strip_prefix ''data:'' l of
          Some rest \<Rightarrow>
            let rest' = (case strip_prefix '' '' rest of Some r \<Rightarrow> r | None \<Rightarrow> rest) in
            Inr (p\<lparr>sp_data := sp_data p @ (if sp_saw_data p then [CHR 0x0A] else []) @ rest', sp_saw_data := True\<rparr>, [])
        | None \<Rightarrow> Inr (p, [])))"

text \<open>The loop of \<open>push\<close> on the bytes of the buffer; what is left of it has no line end.\<close>

function sse_loop :: "bytes \<Rightarrow> sse_parser \<Rightarrow> client_error + (sse_parser \<times> parsed_event list)" where
  "sse_loop buf p =
     (if CHR 0x0A \<in> set buf then
        (case sse_line (drop_cr (takeWhile (\<lambda>c. c \<noteq> CHR 0x0A) buf)) p of
           Inl e \<Rightarrow> Inl e
         | Inr (p', es) \<Rightarrow> map_sum id (map_prod id (\<lambda>rest. es @ rest)) (sse_loop (tl (dropWhile (\<lambda>c. c \<noteq> CHR 0x0A) buf)) p'))
      else Inr (p\<lparr>sp_buffer := buf\<rparr>, []))"
  by pat_completeness auto
termination
proof (relation "measure (\<lambda>(buf, _). length buf)", simp)
  fix buf :: bytes and p p' :: sse_parser
  assume "CHR 0x0A \<in> set buf"
  then have "dropWhile (\<lambda>c. c \<noteq> CHR 0x0A) buf \<noteq> []" by auto
  then have "length (tl (dropWhile (\<lambda>c. c \<noteq> CHR 0x0A) buf)) < length (dropWhile (\<lambda>c. c \<noteq> CHR 0x0A) buf)" by simp
  then show "((tl (dropWhile (\<lambda>c. c \<noteq> CHR 0x0A) buf), p'), buf, p) \<in> measure (\<lambda>(buf, _). length buf)"
    using length_dropWhile_le [of "\<lambda>c. c \<noteq> CHR 0x0A" buf] by simp
qed

declare sse_loop.simps [simp del]

definition sse_push :: "bytes \<Rightarrow> sse_parser \<Rightarrow> client_error + (sse_parser \<times> parsed_event list)" where
  "sse_push bs p = sse_loop (sp_buffer p @ bs) p"

section \<open>Collecting a stream\<close>

record control_event =
  ce_next_offset :: string
  ce_cursor :: "string option"
  ce_up_to_date :: bool
  ce_closed :: bool

record read_chunk =
  rc_data :: bytes
  rc_next_offset :: string

text \<open>The derived deserializer: unknown fields are skipped, a known one may occur once.\<close>

definition control_field :: "(string \<times> json) list \<Rightarrow> string \<Rightarrow> string + json option" where
  "control_field fs n = (case filter (\<lambda>f. fst f = n) fs of
     [] \<Rightarrow> Inr None
   | [(_, v)] \<Rightarrow> Inr (Some v)
   | _ \<Rightarrow> Inl (''duplicate field `'' @ n @ ''`''))"

definition control_bool :: "(string \<times> json) list \<Rightarrow> string \<Rightarrow> string + bool" where
  "control_bool fs n = (case control_field fs n of
     Inl e \<Rightarrow> Inl e
   | Inr None \<Rightarrow> Inr False
   | Inr (Some (JBool b)) \<Rightarrow> Inr b
   | Inr (Some _) \<Rightarrow> Inl ''invalid type, expected a boolean'')"

definition control_event_of :: "json \<Rightarrow> string + control_event" where
  "control_event_of j = (case j of
     JObject fs \<Rightarrow>
       (case control_field fs ''streamNextOffset'' of
          Inr (Some (JString off)) \<Rightarrow>
            (case control_field fs ''streamCursor'' of
               Inl e \<Rightarrow> Inl e
             | Inr c \<Rightarrow>
               (case (case c of None \<Rightarrow> Inr None | Some JNull \<Rightarrow> Inr None | Some (JString s) \<Rightarrow> Inr (Some s)
                      | Some _ \<Rightarrow> Inl ''invalid type, expected a string'') of
                  Inl e \<Rightarrow> Inl e
                | Inr cur \<Rightarrow>
                  (case (control_bool fs ''upToDate'', control_bool fs ''streamClosed'') of
                     (Inr u, Inr cl) \<Rightarrow> Inr \<lparr>ce_next_offset = off, ce_cursor = cur, ce_up_to_date = u, ce_closed = cl\<rparr>
                   | (Inl e, _) \<Rightarrow> Inl e
                   | (_, Inl e) \<Rightarrow> Inl e)))
        | Inr None \<Rightarrow> Inl ''missing field `streamNextOffset`''
        | Inr (Some _) \<Rightarrow> Inl ''invalid type, expected a string''
        | Inl e \<Rightarrow> Inl e)
   | _ \<Rightarrow> Inl ''invalid type, expected struct ControlEvent'')"

record sse_acc =
  sa_chunks :: "read_chunk list"
  sa_next_offset :: "string option"
  sa_cursor :: "string option"
  sa_up_to_date :: bool
  sa_closed :: bool

definition sse_acc_new :: sse_acc where
  "sse_acc_new = \<lparr>sa_chunks = [], sa_next_offset = None, sa_cursor = None, sa_up_to_date = False, sa_closed = False\<rparr>"

definition at_limit :: "nat option \<Rightarrow> sse_acc \<Rightarrow> bool" where
  "at_limit limit a = (case limit of Some n \<Rightarrow> length (sa_chunks a) \<ge> n | None \<Rightarrow> False)"

text \<open>\<open>decode\<close> is the base64 decoder when the response announces that encoding.\<close>

definition data_event :: "(bytes \<Rightarrow> string + bytes) option \<Rightarrow> string \<Rightarrow> sse_acc \<Rightarrow> client_error + sse_acc" where
  "data_event decode d a =
     (let off = (case sa_next_offset a of Some o1 \<Rightarrow> o1 | None \<Rightarrow> ''-1'') in
      case (case decode of None \<Rightarrow> Inr d | Some f \<Rightarrow> f (filter (\<lambda>c. c \<notin> {CHR 0x0A, CHR 0x0D}) d)) of
        Inl e \<Rightarrow> Inl (CBase64 e)
      | Inr bs \<Rightarrow> Inr (a\<lparr>sa_chunks := sa_chunks a @ [\<lparr>rc_data = bs, rc_next_offset = off\<rparr>]\<rparr>))"

definition apply_control :: "env \<Rightarrow> string \<Rightarrow> sse_acc \<Rightarrow> client_error + sse_acc" where
  "apply_control E d a =
     (case (case from_slice E d of Inl e \<Rightarrow> Inl e | Inr j \<Rightarrow> control_event_of j) of
        Inl e \<Rightarrow> Inl (CParse (''invalid SSE control event JSON: '' @ e))
      | Inr c \<Rightarrow> Inr (a\<lparr>sa_next_offset := Some (ce_next_offset c), sa_cursor := ce_cursor c,
           sa_up_to_date := ce_up_to_date c \<or> ce_closed c, sa_closed := ce_closed c\<rparr>))"

text \<open>The loop over the events of one network chunk; it ends early at the limit or at a final control event.\<close>

fun sse_events ::
  "env \<Rightarrow> (bytes \<Rightarrow> string + bytes) option \<Rightarrow> nat option \<Rightarrow> bool \<Rightarrow> parsed_event list \<Rightarrow> sse_acc \<Rightarrow> client_error + sse_acc" where
  "sse_events E decode limit up [] a = Inr a"
| "sse_events E decode limit up (ev # evs) a =
     (let kind = (case pe_kind ev of Some k \<Rightarrow> k | None \<Rightarrow> ''data'') in
      if kind = ''data'' then
        (case data_event decode (pe_data ev) a of
           Inl e \<Rightarrow> Inl e
         | Inr a' \<Rightarrow> if at_limit limit a' then Inr a' else sse_events E decode limit up evs a')
      else if kind = ''control'' then
        (case apply_control E (pe_data ev) a of
           Inl e \<Rightarrow> Inl e
         | Inr a' \<Rightarrow> if sa_closed a' \<or> up \<and> sa_up_to_date a' then Inr a' else sse_events E decode limit up evs a')
      else sse_events E decode limit up evs a)"

fun collect_loop ::
  "env \<Rightarrow> (bytes \<Rightarrow> string + bytes) option \<Rightarrow> nat option \<Rightarrow> bool \<Rightarrow> (transport_error + bytes) list \<Rightarrow> sse_parser \<Rightarrow> sse_acc \<Rightarrow>
   client_error + sse_acc" where
  "collect_loop E decode limit up [] p a = Inr a"
| "collect_loop E decode limit up (Inl e # cs) p a = Inl (CTransport e)"
| "collect_loop E decode limit up (Inr c # cs) p a =
     (case sse_push c p of
        Inl e \<Rightarrow> Inl e
      | Inr (p', evs) \<Rightarrow>
        (case sse_events E decode limit up evs a of
           Inl e \<Rightarrow> Inl e
         | Inr a' \<Rightarrow>
           if sa_closed a' \<or> up \<and> sa_up_to_date a' \<or> at_limit limit a' then Inr a'
           else collect_loop E decode limit up cs p' a'))"

datatype read_payload = PBytes bytes | PJson "json list"

record read_response =
  rp_status :: nat
  rp_next_offset :: string
  rp_up_to_date :: bool
  rp_closed :: bool
  rp_cursor :: "string option"
  rp_content_type :: "string option"
  rp_etag :: "string option"
  rp_chunks :: "read_chunk list"
  rp_payload :: "read_payload option"

text \<open>\<open>body\<close> is what the byte stream of the response yields.\<close>

definition collect_sse ::
  "env \<Rightarrow> (bytes \<Rightarrow> string + bytes) \<Rightarrow> http_response \<Rightarrow> (transport_error + bytes) list \<Rightarrow> nat option \<Rightarrow> bool \<Rightarrow> client_error + read_response" where
  "collect_sse E decode64 r body limit up =
     (let decode = (case header_value r ''stream-sse-data-encoding'' of
            Some v \<Rightarrow> if eq_ignore_ascii_case v ''base64'' then Some decode64 else None | None \<Rightarrow> None) in
      case collect_loop E decode limit up body sse_parser_new sse_acc_new of
        Inl e \<Rightarrow> Inl e
      | Inr a \<Rightarrow> (case sa_next_offset a of
          None \<Rightarrow> Inl (CParse ''missing SSE control event with streamNextOffset'')
        | Some off \<Rightarrow> Inr \<lparr>rp_status = 200, rp_next_offset = off, rp_up_to_date = sa_up_to_date a, rp_closed = sa_closed a,
            rp_cursor = sa_cursor a, rp_content_type = header_value r ''content-type'', rp_etag = header_value r ''etag'',
            rp_chunks = sa_chunks a, rp_payload = None\<rparr>))"

end
