(* ===== verification/DS_Cl_Frames.thy ===== *)
theory DS_Cl_Frames
  imports DS_Cl_Sse
begin

text \<open>
  The event parser of the client on the frames of the server: the network may
  cut the bytes anywhere, and every frame comes out as the event it was made of.
\<close>

section \<open>Chunks of the network\<close>

lemma sse_line_buffer:
  "sse_line l (p\<lparr>sp_buffer := b\<rparr>) = map_sum id (map_prod (\<lambda>p'. p'\<lparr>sp_buffer := b\<rparr>) id) (sse_line l p)"
  by (simp add: sse_line_def Let_def split: option.splits)

lemma sse_loop_buffer: "sse_loop buf (p\<lparr>sp_buffer := b\<rparr>) = sse_loop buf p"
proof (induction buf p rule: sse_loop.induct)
  case (1 buf p)
  show ?case
  proof (cases "CHR 0x0A \<in> set buf")
    case True
    show ?thesis
      by (subst (1 2) sse_loop.simps) (use 1 True in \<open>auto simp: sse_line_buffer split: sum.splits\<close>)
  next
    case False
    then show ?thesis by (simp add: sse_loop.simps [of buf])
  qed
qed

lemma map_sum_Inr_iff: "map_sum id f x = Inr y \<longleftrightarrow> (\<exists>z. x = Inr z \<and> f z = y)"
  by (cases x) auto

lemma append_Nil_id: "(@) [] = id" and append_one: "(@) [x] = (#) x" and append_fun: "(@) (a @ b) = (\<lambda>x. a @ b @ x)"
  by (simp_all add: fun_eq_iff)

lemma sse_loop_append:
  "sse_loop (xs @ ys) p = (case sse_loop xs p of
     Inl e \<Rightarrow> Inl e
   | Inr (p', es) \<Rightarrow> map_sum id (map_prod id (\<lambda>rest. es @ rest)) (sse_loop (sp_buffer p' @ ys) p'))"
proof (induction xs p rule: sse_loop.induct)
  case (1 xs p)
  show ?case
  proof (cases "CHR 0x0A \<in> set xs")
    case False
    then show ?thesis
      by (simp add: sse_loop.simps [of xs] sse_loop_buffer append_Nil_id sum.map_id prod.map_id0)
  next
    case True
    let ?q = "\<lambda>c. c \<noteq> CHR 0x0A"
    obtain x where x: "x \<in> set xs" "\<not> ?q x" using True by auto
    have cut: "takeWhile ?q (xs @ ys) = takeWhile ?q xs" "dropWhile ?q (xs @ ys) = dropWhile ?q xs @ ys"
      using takeWhile_append1 [OF x(1), of ?q] dropWhile_append1 [OF x(1), of ?q] x(2) by simp_all
    have "dropWhile ?q xs \<noteq> []" using True by auto
    then have tl: "tl (dropWhile ?q xs @ ys) = tl (dropWhile ?q xs) @ ys" by simp
    show ?thesis
    proof (cases "sse_line (drop_cr (takeWhile ?q xs)) p")
      case (Inl e)
      then show ?thesis using True by (simp add: sse_loop.simps [of xs] sse_loop.simps [of "xs @ ys"] cut)
    next
      case (Inr r)
      obtain p' es where r: "r = (p', es)" by fastforce
      note IH = 1 [OF True Inr r [symmetric]]
      show ?thesis
        using True IH
        by (simp add: sse_loop.simps [of xs] sse_loop.simps [of "xs @ ys"] cut tl Inr r split: sum.splits prod.splits)
          (auto simp: sum.map_comp prod.map_comp comp_def append_fun)
    qed
  qed
qed

fun push_all :: "bytes list \<Rightarrow> sse_parser \<Rightarrow> client_error + (sse_parser \<times> parsed_event list)" where
  "push_all [] p = Inr (p, [])"
| "push_all (c # cs) p = (case sse_push c p of
     Inl e \<Rightarrow> Inl e
   | Inr (p', es) \<Rightarrow> map_sum id (map_prod id (\<lambda>rest. es @ rest)) (push_all cs p'))"

lemma sse_loop_rest: "sse_loop buf p = Inr (p', es) \<Longrightarrow> CHR 0x0A \<notin> set (sp_buffer p')"
proof (induction buf p arbitrary: es rule: sse_loop.induct)
  case (1 buf p)
  show ?case
  proof (cases "CHR 0x0A \<in> set buf")
    case False
    with 1(2) show ?thesis by (subst (asm) sse_loop.simps) auto
  next
    case True
    with 1(2) obtain p1 es1 es2 where
      "sse_line (drop_cr (takeWhile (\<lambda>c. c \<noteq> CHR 0x0A) buf)) p = Inr (p1, es1)"
      "sse_loop (tl (dropWhile (\<lambda>c. c \<noteq> CHR 0x0A) buf)) p1 = Inr (p', es2)"
      by (subst (asm) sse_loop.simps) (auto simp: map_sum_Inr_iff split: sum.splits)
    from 1(1) [OF True this(1) refl this(2)] show ?thesis .
  qed
qed

text \<open>How the bytes are cut does not matter.\<close>

lemma push_all_concat:
  assumes "CHR 0x0A \<notin> set (sp_buffer p)"
  shows "push_all cs p = sse_push (concat cs) p"
  using assms
proof (induction cs arbitrary: p)
  case Nil
  then show ?case by (simp add: sse_push_def sse_loop.simps [of "sp_buffer p"])
next
  case (Cons c cs)
  have "sse_push (concat (c # cs)) p = (case sse_push c p of
     Inl e \<Rightarrow> Inl e
   | Inr (p', es) \<Rightarrow> map_sum id (map_prod id (\<lambda>rest. es @ rest)) (sse_push (concat cs) p'))"
    unfolding sse_push_def using sse_loop_append [of "sp_buffer p @ c" "concat cs" p] by (simp only: concat.simps append_assoc)
  with Cons.IH sse_loop_rest show ?case
    by (auto simp: sse_push_def split: sum.splits)
qed

section \<open>UTF-8\<close>

lemmas utf8_ok_Cons = utf8_ok.simps(2)
declare utf8_ok.simps(2) [simp del]

lemma utf8_ok_ascii [simp]: "byte_in 0 0x7F c \<Longrightarrow> utf8_ok (c # bs) = utf8_ok bs"
  by (simp add: cont_ranges_def utf8_ok_Cons)

lemma match_cont_append:
  "match_cont rs xs = (k, True) \<Longrightarrow> match_cont rs (xs @ ys) = (k, True) \<and> k \<le> length xs"
  by (induction rs xs arbitrary: k rule: match_cont.induct) (auto split: if_splits prod.splits)

lemma utf8_ok_append: "utf8_ok xs \<Longrightarrow> utf8_ok ys \<Longrightarrow> utf8_ok (xs @ ys)"
proof (induction xs rule: utf8_ok.induct)
  case (2 c bs)
  then obtain rs k where rs: "cont_ranges c = Some rs" "match_cont rs bs = (k, True)" "utf8_ok (drop k bs)"
    by (auto simp: utf8_ok_Cons split: option.splits prod.splits)
  from match_cont_append [OF rs(2), of ys] 2(1) [OF rs(1) rs(2) [symmetric] refl rs(3)] 2(3) rs
  show ?case by (simp add: utf8_ok_Cons)
qed simp

lemma cont_ranges_high: "cont_ranges c = Some rs \<Longrightarrow> (lo, hi) \<in> set rs \<Longrightarrow> 0x80 \<le> lo"
  by (auto simp: cont_ranges_def split: if_splits)

lemma match_cont_ascii:
  assumes "match_cont rs (xs @ c # ys) = (k, True)" "byte_in 0 0x7F c" "\<And>lo hi. (lo, hi) \<in> set rs \<Longrightarrow> 0x80 \<le> lo"
  shows "match_cont rs xs = (k, True) \<and> k \<le> length xs"
  using assms
proof (induction rs xs arbitrary: k rule: match_cont.induct)
  case (2 r rs)
  obtain lo hi where r: "r = (lo, hi)" by fastforce
  with 2(3) [of lo hi] have "\<not> byte_in lo hi c" using 2(2) by (simp add: byte_in_def)
  with 2(1) r show ?case by simp
next
  case (3 lo hi rs b bs)
  from 3(2) obtain k' where k: "k = Suc k'" "match_cont rs (bs @ c # ys) = (k', True)" "byte_in lo hi b"
    by (auto split: if_splits prod.splits)
  have "match_cont rs bs = (k', True) \<and> k' \<le> length bs" by (rule 3(1) [OF k(3,2) 3(3)]) (use 3(4) in auto)
  with k show ?case by auto
qed auto

lemma utf8_ok_split: "utf8_ok (xs @ c # ys) \<Longrightarrow> byte_in 0 0x7F c \<Longrightarrow> utf8_ok xs \<and> utf8_ok ys"
proof (induction xs rule: utf8_ok.induct)
  case (2 b bs)
  from 2(2) obtain rs k where rs: "cont_ranges b = Some rs" "match_cont rs (bs @ c # ys) = (k, True)" "utf8_ok (drop k (bs @ c # ys))"
    by (auto simp: utf8_ok_Cons split: option.splits prod.splits)
  from match_cont_ascii [OF rs(2) 2(3)] cont_ranges_high [OF rs(1)]
  have k: "match_cont rs bs = (k, True)" "k \<le> length bs" by auto
  with rs(3) have "utf8_ok (drop k bs @ c # ys)" by simp
  from 2(1) [OF rs(1) k(1) [symmetric] refl this 2(3)] rs(1) k(1) show ?case by (simp add: utf8_ok_Cons)
qed simp

lemma ascii_lines [simp]: "byte_in 0 0x7F (CHR 0x0A)" "byte_in 0 0x7F (CHR 0x0D)" "byte_in 0 0x7F (CHR '' '')"
  by (simp_all add: byte_in_def)

lemma utf8_ok_lines:
  "utf8_ok (cur @ cs) \<Longrightarrow> l \<in> set (split_lines_loop cur cs) \<Longrightarrow> utf8_ok l"
proof (induction cur cs arbitrary: l rule: split_lines_loop.induct)
  case (2 cur c cs)
  note ok = 2(4) and l = 2(5) and IH = 2(1-3)
  show ?case
  proof (cases "c = CHR 0x0D \<or> c = CHR 0x0A")
    case True
    with ok utf8_ok_split [of cur c cs] have parts: "utf8_ok cur" "utf8_ok cs" by auto
    then have "utf8_ok (skip_lf cs)" by (cases cs) auto
    with parts l IH(1,2) True show ?thesis by (auto split: if_splits)
  next
    case False
    with ok l IH(3) show ?thesis by auto
  qed
qed simp

lemma utf8_ok_join: "(\<And>l. l \<in> set ls \<Longrightarrow> utf8_ok l) \<Longrightarrow> utf8_ok (join_lf ls)"
  by (induction ls rule: join_lf.induct) (auto intro!: utf8_ok_append)

lemma match_cont_take: "match_cont rs bs = (k, True) \<Longrightarrow> match_cont rs (take k bs @ ys) = (k, True) \<and> k \<le> length bs"
  by (induction rs bs arbitrary: k rule: match_cont.induct) (auto split: if_splits prod.splits)

lemma utf8_ok_replacement: "utf8_ok (replacement @ bs) = utf8_ok bs"
  by (simp add: replacement_def utf8_ok_Cons cont_ranges_def byte_in_def)

lemma utf8_ok_lossy: "utf8_ok (from_utf8_lossy bs)"
proof (induction bs rule: from_utf8_lossy.induct)
  case (2 c bs)
  show ?case
  proof (cases "cont_ranges c")
    case None
    with 2(1) show ?thesis by (simp add: utf8_ok_replacement)
  next
    case (Some rs)
    obtain k ok where k: "match_cont rs bs = (k, ok)" by fastforce
    have rest: "utf8_ok (from_utf8_lossy (drop k bs))" using 2(2) [OF Some k [symmetric] refl] .
    show ?thesis
    proof (cases ok)
      case True
      with match_cont_take [of rs bs k "from_utf8_lossy (drop k bs)"] k have
        "match_cont rs (take k bs @ from_utf8_lossy (drop k bs)) = (k, True)" "k \<le> length bs" by auto
      with Some k True rest show ?thesis by (simp add: utf8_ok_Cons)
    qed (use Some k rest in \<open>simp add: utf8_ok_replacement\<close>)
  qed
qed simp

section \<open>Frames\<close>

text \<open>The parser between two events.\<close>

definition idle :: "sse_parser \<Rightarrow> bool" where
  "idle p \<longleftrightarrow> sp_event p = None \<and> sp_data p = [] \<and> \<not> sp_saw_data p"

lemma sse_loop_line:
  assumes "CHR 0x0A \<notin> set l" "l = [] \<or> List.last l \<noteq> CHR 0x0D"
  shows "sse_loop (l @ CHR 0x0A # rest) p = (case sse_line l p of
     Inl e \<Rightarrow> Inl e
   | Inr (p', es) \<Rightarrow> map_sum id (map_prod id (\<lambda>evs. es @ evs)) (sse_loop rest p'))"
proof -
  have "takeWhile (\<lambda>c. c \<noteq> CHR 0x0A) (l @ CHR 0x0A # rest) = l" using assms(1) by (induction l) auto
  moreover have "dropWhile (\<lambda>c. c \<noteq> CHR 0x0A) (l @ CHR 0x0A # rest) = CHR 0x0A # rest" using assms(1) by (induction l) auto
  moreover have "drop_cr l = l" using assms(2) by (auto simp: drop_cr_def)
  ultimately show ?thesis by (simp add: sse_loop.simps [of "l @ CHR 0x0A # rest"] split: sum.splits)
qed

text \<open>One leading space of a data line is dropped.\<close>

definition unspace :: "bytes \<Rightarrow> bytes" where
  "unspace l = (case strip_prefix '' '' l of Some r \<Rightarrow> r | None \<Rightarrow> l)"

definition clean_line :: "bytes \<Rightarrow> bool" where
  "clean_line l \<longleftrightarrow> CHR 0x0A \<notin> set l \<and> CHR 0x0D \<notin> set l \<and> utf8_ok l"

lemma clean_line_last: "clean_line l \<Longrightarrow> l = [] \<or> List.last l \<noteq> CHR 0x0D"
  by (auto simp: clean_line_def dest: last_in_set)

definition add_line :: "bytes \<Rightarrow> sse_parser \<Rightarrow> sse_parser" where
  "add_line l p = p\<lparr>sp_data := sp_data p @ (if sp_saw_data p then [CHR 0x0A] else []) @ unspace l, sp_saw_data := True\<rparr>"

lemma event_line: "sse_line (''event:'' @ k) p = Inr (p\<lparr>sp_event := Some (trim k)\<rparr>, [])" if "utf8_ok k"
proof -
  have "utf8_ok (''event:'' @ k)" using that by (simp add: byte_in_def)
  then show ?thesis by (simp add: sse_line_def)
qed

lemma data_line: "sse_line (''data:'' @ l) p = Inr (add_line l p, [])" if "utf8_ok l"
proof -
  have "utf8_ok (''data:'' @ l)" using that by (simp add: byte_in_def)
  then show ?thesis by (simp add: sse_line_def add_line_def unspace_def Let_def)
qed

lemma sse_loop_silent:
  assumes "CHR 0x0A \<notin> set l" "l = [] \<or> List.last l \<noteq> CHR 0x0D" "sse_line l p = Inr (p', [])"
  shows "sse_loop (l @ CHR 0x0A # rest) p = sse_loop rest p'"
  using sse_loop_line [OF assms(1,2), of rest p] assms(3) by (simp add: append_Nil_id sum.map_id prod.map_id0)

lemma data_lines_loop:
  assumes "\<And>l. l \<in> set ls \<Longrightarrow> clean_line l"
  shows "sse_loop (concat (map (\<lambda>l. ''data:'' @ l @ [CHR 0x0A]) ls) @ rest) p = sse_loop rest (fold add_line ls p)"
  using assms
proof (induction ls arbitrary: p)
  case (Cons l ls)
  have l: "clean_line l" using Cons.prems by simp
  let ?rest = "concat (map (\<lambda>l. ''data:'' @ l @ [CHR 0x0A]) ls) @ rest"
  have "sse_loop ((''data:'' @ l) @ CHR 0x0A # ?rest) p = sse_loop ?rest (add_line l p)"
    by (rule sse_loop_silent) (use l clean_line_last [OF l] data_line [of l p] in \<open>auto simp: clean_line_def\<close>)
  with Cons show ?case by simp
qed simp

lemma join_lf_snoc: "xs \<noteq> [] \<Longrightarrow> join_lf (xs @ [x]) = join_lf xs @ CHR 0x0A # x"
  by (induction xs rule: join_lf.induct) (auto simp: join_lf_Cons)

lemma fold_add_line:
  assumes "ls \<noteq> []" "\<not> sp_saw_data p" "sp_data p = []"
  shows "fold add_line ls p = p\<lparr>sp_data := join_lf (map unspace ls), sp_saw_data := True\<rparr>"
  using assms(1)
proof (induction ls rule: rev_induct)
  case (snoc l ls)
  then show ?case using assms(2,3) by (cases "ls = []") (simp_all add: add_line_def join_lf_snoc)
qed simp

lemma utf8_ok_unspace: "utf8_ok l \<Longrightarrow> utf8_ok (unspace l)"
  by (cases l) (auto simp: unspace_def)

text \<open>A frame of an event with a name and data lines, and the event it becomes.\<close>

lemma event_frame:
  assumes p: "idle p" and k: "clean_line k" and ls: "ls \<noteq> []" "\<And>l. l \<in> set ls \<Longrightarrow> clean_line l"
  shows "sse_loop (''event:'' @ k @ [CHR 0x0A] @ concat (map (\<lambda>l. ''data:'' @ l @ [CHR 0x0A]) ls) @ [CHR 0x0A] @ rest) p =
    map_sum id (map_prod id (\<lambda>evs. \<lparr>pe_kind = Some (trim k), pe_data = join_lf (map unspace ls)\<rparr> # evs)) (sse_loop rest p)"
proof -
  let ?b = "concat (map (\<lambda>l. ''data:'' @ l @ [CHR 0x0A]) ls) @ CHR 0x0A # rest"
  let ?p1 = "p\<lparr>sp_event := Some (trim k)\<rparr>" and ?d = "join_lf (map unspace ls)"
  have "sse_loop ((''event:'' @ k) @ CHR 0x0A # ?b) p = sse_loop ?b ?p1"
    by (rule sse_loop_silent) (use k clean_line_last [OF k] event_line [of k p] in \<open>auto simp: clean_line_def\<close>)
  also have "\<dots> = sse_loop (CHR 0x0A # rest) (fold add_line ls ?p1)" by (rule data_lines_loop [OF ls(2)])
  also have "fold add_line ls ?p1 = ?p1\<lparr>sp_data := ?d, sp_saw_data := True\<rparr>"
    by (rule fold_add_line [OF ls(1)]) (use p in \<open>simp_all add: idle_def\<close>)
  also have "sse_loop (CHR 0x0A # rest) \<dots> = map_sum id (map_prod id (\<lambda>evs. \<lparr>pe_kind = Some (trim k), pe_data = ?d\<rparr> # evs)) (sse_loop rest p)"
  proof -
    have "utf8_ok ?d" by (rule utf8_ok_join) (use ls(2) in \<open>auto simp: clean_line_def intro: utf8_ok_unspace\<close>)
    moreover have "p\<lparr>sp_event := None, sp_data := [], sp_saw_data := False\<rparr> = p" using p by (simp add: idle_def)
    ultimately show ?thesis
      using sse_loop_line [of "[]" rest "?p1\<lparr>sp_data := ?d, sp_saw_data := True\<rparr>"] by (simp add: sse_line_def append_one)
  qed
  finally show ?thesis by simp
qed

text \<open>What the server sends, as frames.\<close>

datatype frame = FData bytes | FControl control_payload | FKeepalive

fun frame_bytes :: "env \<Rightarrow> frame \<Rightarrow> bytes" where
  "frame_bytes E (FData b) = format_raw_data_frame b"
| "frame_bytes E (FControl c) = format_control_frame E c"
| "frame_bytes E FKeepalive = format_keepalive_frame"

fun frame_events :: "env \<Rightarrow> frame \<Rightarrow> parsed_event list" where
  "frame_events E (FData b) = [\<lparr>pe_kind = Some ''data'', pe_data = join_lf (map unspace (split_lines b))\<rparr>]"
| "frame_events E (FControl c) = [\<lparr>pe_kind = Some ''control'', pe_data = to_vec E (control_json c)\<rparr>]"
| "frame_events E FKeepalive = []"

fun frame_ok :: "env \<Rightarrow> frame \<Rightarrow> bool" where
  "frame_ok E (FData b) = utf8_ok b"
| "frame_ok E (FControl c) = (clean_line (to_vec E (control_json c)) \<and> strip_prefix '' '' (to_vec E (control_json c)) = None)"
| "frame_ok E FKeepalive = True"

lemma frame_parsed:
  assumes "idle p" "frame_ok E f"
  shows "sse_loop (frame_bytes E f @ rest) p = map_sum id (map_prod id (\<lambda>evs. frame_events E f @ evs)) (sse_loop rest p)"
proof (cases f)
  case (FData b)
  have clean: "clean_line l" if "l \<in> set (split_lines b)" for l
    using that assms(2) FData split_lines_loop_clean [of "[]" l b] utf8_ok_lines [of "[]" b l]
    by (simp add: split_lines_def clean_line_def)
  have "clean_line '' data''" "trim '' data'' = ''data''" by code_simp+
  with event_frame [OF assms(1), of "'' data''" "split_lines b" rest] clean FData show ?thesis
    by (simp add: format_raw_data_frame_def split_lines_def)
next
  case (FControl c)
  have "clean_line '' control''" "trim '' control'' = ''control''" by code_simp+
  with event_frame [OF assms(1), of "'' control''" "[to_vec E (control_json c)]" rest] assms(2) FControl show ?thesis
    by (simp add: format_control_frame_def unspace_def)
next
  case FKeepalive
  have c: "sse_line '':'' p = Inr (p, [])" by (simp add: sse_line_def byte_in_def)
  have "sse_line [] p = Inr (p, [])" using assms(1) by (simp add: sse_line_def idle_def)
  from sse_loop_silent [OF _ _ c, of "CHR 0x0A # rest"] sse_loop_silent [OF _ _ this, of rest] FKeepalive show ?thesis
    by (cases "sse_loop rest p") (auto simp: format_keepalive_frame_def)
qed

lemma frames_parsed:
  assumes "idle p" "\<And>f. f \<in> set fs \<Longrightarrow> frame_ok E f"
  shows "sse_loop (concat (map (frame_bytes E) fs)) p = Inr (p\<lparr>sp_buffer := []\<rparr>, concat (map (frame_events E) fs))"
  using assms(2)
proof (induction fs)
  case Nil
  show ?case by (simp add: sse_loop.simps [of "[]"])
next
  case (Cons f fs)
  with frame_parsed [OF assms(1), of E f] show ?case by simp
qed

section \<open>Payloads\<close>

text \<open>A text comes back as it was when no line of it begins with a space and it has no carriage return.\<close>

definition spaceless :: "bytes \<Rightarrow> bool" where
  "spaceless b \<longleftrightarrow> CHR 0x0D \<notin> set b \<and> (\<forall>l\<in>set (split_lines b). strip_prefix '' '' l = None)"

lemma spaceless_returns: "spaceless b \<Longrightarrow> join_lf (map unspace (split_lines b)) = b"
proof -
  assume b: "spaceless b"
  then have "map unspace (split_lines b) = split_lines b" by (auto simp: spaceless_def unspace_def intro!: map_idI)
  with b join_split_lines [of b "[]"] show ?thesis by (simp add: spaceless_def split_lines_def)
qed

text \<open>The derived deserializer of the client reads what the derived serializer of the server wrote.\<close>

lemma control_event_of_control_json:
  "control_event_of (control_json c) = Inr \<lparr>ce_next_offset = cp_next_offset c, ce_cursor = cp_cursor c,
     ce_up_to_date = (cp_up_to_date c = Some True), ce_closed = (cp_closed c = Some True)\<rparr>"
  by (auto simp: control_event_of_def control_json_def control_field_def control_bool_def split: option.splits)

definition control_codec :: "env \<Rightarrow> bool" where
  "control_codec E \<longleftrightarrow> (\<forall>c. clean_line (to_vec E (control_json c)) \<and> strip_prefix '' '' (to_vec E (control_json c)) = None \<and>
     from_slice E (to_vec E (control_json c)) = Inr (control_json c))"

definition after_control :: "control_payload \<Rightarrow> sse_acc \<Rightarrow> sse_acc" where
  "after_control c a = a\<lparr>sa_next_offset := Some (cp_next_offset c), sa_cursor := cp_cursor c,
     sa_up_to_date := (cp_up_to_date c = Some True \<or> cp_closed c = Some True), sa_closed := (cp_closed c = Some True)\<rparr>"

lemma apply_control_frame:
  assumes "control_codec E"
  shows "apply_control E (to_vec E (control_json c)) a = Inr (after_control c a)"
  using assms by (simp add: control_codec_def apply_control_def control_event_of_control_json after_control_def)

end
