(* ===== verification/DS_Cl_Collect.thy ===== *)
theory DS_Cl_Collect
  imports DS_Cl_Frames DS_Get
begin

text \<open>
  The client's collection of an event stream of the server: the bytes that
  \<open>encode_read_as_sse_frames\<close> wrote become the messages they were made of.
\<close>

section \<open>The loop over the network chunks\<close>

lemma data_event_open: "data_event decode d a = Inr a' \<Longrightarrow> sa_closed a' = sa_closed a"
  by (auto simp: data_event_def Let_def split: sum.splits option.splits)

lemma at_limit_None [simp]: "\<not> at_limit None a"
  by (simp add: at_limit_def)

lemma sse_events_append:
  "\<not> sa_closed a \<Longrightarrow> sse_events E decode None False (xs @ ys) a = (case sse_events E decode None False xs a of
     Inl e \<Rightarrow> Inl e
   | Inr a' \<Rightarrow> if sa_closed a' then Inr a' else sse_events E decode None False ys a')"
  by (induction xs arbitrary: a) (auto simp: Let_def data_event_open split: sum.splits)

lemma collect_loop_events:
  assumes "push_all cs p = Inr (p', evs)" "\<not> sa_closed a"
  shows "collect_loop E decode None False (map Inr cs) p a = sse_events E decode None False evs a"
  using assms
proof (induction cs arbitrary: p evs a)
  case (Cons c cs)
  then obtain p1 e1 e2 where p: "sse_push c p = Inr (p1, e1)" "push_all cs p1 = Inr (p', e2)" "evs = e1 @ e2"
    by (auto simp: map_sum_Inr_iff split: sum.splits)
  show ?case using Cons.IH [OF p(2)] Cons.prems(2) p by (auto simp: sse_events_append split: sum.splits)
qed simp

lemma frames_collected:
  assumes "concat cs = concat (map (frame_bytes E) fs)" "\<And>f. f \<in> set fs \<Longrightarrow> frame_ok E f"
  shows "collect_loop E decode None False (map Inr cs) sse_parser_new sse_acc_new =
    sse_events E decode None False (concat (map (frame_events E) fs)) sse_acc_new"
proof -
  have "idle sse_parser_new" "sp_buffer sse_parser_new = []" by (simp_all add: idle_def sse_parser_new_def)
  with push_all_concat [of sse_parser_new cs] frames_parsed [OF _ assms(2), of sse_parser_new] assms(1)
  have "push_all cs sse_parser_new = Inr (sse_parser_new\<lparr>sp_buffer := []\<rparr>, concat (map (frame_events E) fs))"
    by (simp add: sse_push_def)
  then show ?thesis by (rule collect_loop_events) (simp add: sse_acc_new_def)
qed

section \<open>Events\<close>

text \<open>The text of a data event is read back as a payload.\<close>

definition carries :: "(bytes \<Rightarrow> string + bytes) option \<Rightarrow> bytes \<Rightarrow> bytes \<Rightarrow> bool" where
  "carries decode b m \<longleftrightarrow> utf8_ok b \<and> (\<forall>a. data_event decode (join_lf (map unspace (split_lines b))) a =
     Inr (a\<lparr>sa_chunks := sa_chunks a @ [\<lparr>rc_data = m, rc_next_offset = (case sa_next_offset a of Some o1 \<Rightarrow> o1 | None \<Rightarrow> ''-1'')\<rparr>]\<rparr>))"

lemma carries_plain: "utf8_ok b \<Longrightarrow> spaceless b \<Longrightarrow> carries None b b"
  by (simp add: carries_def spaceless_returns data_event_def)

lemma carries_decoded:
  assumes "utf8_ok b" "spaceless b" "CHR 0x0A \<notin> set b" "f b = Inr m"
  shows "carries (Some f) b m"
proof -
  have "filter (\<lambda>c. c \<notin> {CHR 0x0A, CHR 0x0D}) b = b"
    using assms(2,3) by (auto simp: spaceless_def filter_id_conv)
  then show ?thesis using assms by (simp add: carries_def spaceless_returns data_event_def)
qed

lemma data_then_control:
  assumes "control_codec E" "carries decode b m"
  shows "\<exists>ch. rc_data ch = m \<and>
    sse_events E decode None False (frame_events E (FData b) @ frame_events E (FControl c) @ evs) a =
    (let a' = after_control c (a\<lparr>sa_chunks := sa_chunks a @ [ch]\<rparr>) in
     if sa_closed a' then Inr a' else sse_events E decode None False evs a')"
  using assms
  by (intro exI [of _ "\<lparr>rc_data = m, rc_next_offset = (case sa_next_offset a of Some o1 \<Rightarrow> o1 | None \<Rightarrow> ''-1'')\<rparr>"])
    (simp add: carries_def apply_control_frame Let_def)

lemma messages_collected:
  assumes "control_codec E" "\<And>m. m \<in> set (map fst ctls) \<Longrightarrow> carries decode (pay m) (txt m)" "ctls \<noteq> []"
    "\<And>c. c \<in> set (butlast ctls) \<Longrightarrow> cp_closed (snd c) \<noteq> Some True"
  shows "\<exists>b. map rc_data (sa_chunks b) = map rc_data (sa_chunks a) @ map (\<lambda>c. txt (fst c)) ctls \<and>
    sse_events E decode None False (concat (map (\<lambda>c. frame_events E (FData (pay (fst c))) @ frame_events E (FControl (snd c))) ctls)) a =
    Inr (after_control (snd (List.last ctls)) b)"
  using assms(2-4)
proof (induction ctls arbitrary: a)
  case (Cons c ctls)
  let ?rest = "concat (map (\<lambda>c. frame_events E (FData (pay (fst c))) @ frame_events E (FControl (snd c))) ctls)"
  have "carries decode (pay (fst c)) (txt (fst c))" using Cons.prems(1) by simp
  from data_then_control [OF assms(1) this, of "snd c" ?rest a] obtain ch where ch: "rc_data ch = txt (fst c)"
    "sse_events E decode None False (frame_events E (FData (pay (fst c))) @ frame_events E (FControl (snd c)) @ ?rest) a =
    (let a' = after_control (snd c) (a\<lparr>sa_chunks := sa_chunks a @ [ch]\<rparr>) in
     if sa_closed a' then Inr a' else sse_events E decode None False ?rest a')" by blast
  let ?b = "a\<lparr>sa_chunks := sa_chunks a @ [ch]\<rparr>"
  show ?case
  proof (cases "ctls = []")
    case True
    with ch show ?thesis by (intro exI [of _ ?b]) (simp add: Let_def)
  next
    case False
    with Cons.prems(3) have "\<not> sa_closed (after_control (snd c) ?b)" by (simp add: after_control_def)
    with ch(2) have now: "sse_events E decode None False (frame_events E (FData (pay (fst c))) @ frame_events E (FControl (snd c)) @ ?rest) a =
      sse_events E decode None False ?rest (after_control (snd c) ?b)" by (simp only: Let_def if_False)
    obtain b where b: "map rc_data (sa_chunks b) = map rc_data (sa_chunks (after_control (snd c) ?b)) @ map (\<lambda>c. txt (fst c)) ctls"
      "sse_events E decode None False ?rest (after_control (snd c) ?b) = Inr (after_control (snd (List.last ctls)) b)"
      using Cons.IH [OF _ False, of "after_control (snd c) ?b"] Cons.prems(1,3) False by auto
    show ?thesis
      by (intro exI [of _ b] conjI)
        (use b(1) ch(1) in \<open>simp add: after_control_def\<close>, use now b(2) False in \<open>simp only: list.map concat.simps append_assoc last.simps if_False\<close>)
  qed
qed simp

section \<open>The control events of a read\<close>

lemma build_sse_control_fields:
  "build_sse_control cur r = (cur', c) \<Longrightarrow> cp_next_offset c = as_str (rr_next_offset r) \<and>
    (cp_up_to_date c = Some True \<longleftrightarrow> rr_at_tail r) \<and> (cp_closed c = Some True \<longleftrightarrow> rr_closed r \<and> rr_at_tail r)"
  by (auto simp: build_sse_control_def Let_def split: if_splits prod.splits)

lemma sse_message_controls_ends:
  assumes "sse_message_controls ts tb tail cl rem cur ms = (cur', ctls)" "length ms < 2 ^ 64"
  shows "map fst ctls = ms \<and> (\<forall>c\<in>set (butlast ctls). cp_closed (snd c) \<noteq> Some True) \<and>
    (ms \<noteq> [] \<longrightarrow> cp_next_offset (snd (List.last ctls)) = as_str (offset_new ts (tb - (rem - payload_bytes ms))) \<and>
      (cp_up_to_date (snd (List.last ctls)) = Some True \<longleftrightarrow> tail) \<and> (cp_closed (snd (List.last ctls)) = Some True \<longleftrightarrow> cl \<and> tail))"
  using assms
proof (induction ms arbitrary: rem cur cur' ctls)
  case (Cons m ms)
  let ?k = "u64_of_usize (length ms)" and ?rem = "rem - u64_of_usize (length m)"
  let ?rr = "\<lparr>rr_messages = [], rr_next_offset = offset_new (ts - ?k) (tb - ?rem), rr_at_tail = (?k = 0 \<and> tail), rr_closed = cl \<and> ?k = 0 \<and> tail\<rparr>"
  obtain cur1 ctl where c1: "build_sse_control cur ?rr = (cur1, ctl)" by fastforce
  obtain cur2 rest where c2: "sse_message_controls ts tb tail cl ?rem cur1 ms = (cur2, rest)" by fastforce
  have ctls: "ctls = (m, ctl) # rest" using Cons.prems(1) c1 c2 by (simp add: Let_def)
  note IH = Cons.IH [OF c2]
  have "unat (of_nat (length ms) :: u64) = length ms" using Cons.prems(2) by (simp add: unat_of_nat)
  then have k: "?k = 0 \<longleftrightarrow> ms = []" using Cons.prems(2) by (auto simp: u64_of_usize_def unat_eq_zero)
  note f = build_sse_control_fields [OF c1]
  show ?case
  proof (cases "ms = []")
    case True
    then have "rest = []" using c2 by simp
    moreover have "?k = 0" using True k by simp
    ultimately show ?thesis using f True ctls by (simp add: payload_bytes_Cons u64_of_usize_def)
  next
    case False
    have ms: "length ms < 2 ^ 64" using Cons.prems(2) by simp
    have rest: "rest \<noteq> []" using IH [OF ms] False by auto
    then have last: "List.last ctls = List.last rest" "butlast ctls = (m, ctl) # butlast rest" using ctls by simp_all
    with IH [OF ms] f k False rest show ?thesis by (simp add: ctls payload_bytes_Cons diff_diff_eq)
  qed
qed simp

section \<open>Reads\<close>

text \<open>The texts of the data events of a read, and the payloads the client makes of them.\<close>

definition sse_texts :: "env \<Rightarrow> string \<Rightarrow> bytes list \<Rightarrow> bytes list" where
  "sse_texts E ct ms =
     (if is_json_content_type ct then (if ms = [] then [] else [''['' @ array_content 0 ms @ '']''])
      else if is_binary_content_type ct then map (base64_encode E) ms
      else map from_utf8_lossy ms)"

definition sse_payloads :: "string \<Rightarrow> bytes list \<Rightarrow> bytes list" where
  "sse_payloads ct ms =
     (if is_json_content_type ct then (if ms = [] then [] else [''['' @ array_content 0 ms @ '']''])
      else if is_binary_content_type ct then ms
      else map from_utf8_lossy ms)"

text \<open>The encoder writes printable characters other than the space, and the decoder reads them back.\<close>

definition base64_codec :: "env \<Rightarrow> (bytes \<Rightarrow> string + bytes) \<Rightarrow> bool" where
  "base64_codec E f \<longleftrightarrow> (\<forall>m. f (base64_encode E m) = Inr m \<and> (\<forall>c\<in>set (base64_encode E m). byte_in 0x21 0x7E c))"

lemma utf8_ok_printable: "\<forall>c\<in>set b. byte_in 0x21 0x7E c \<Longrightarrow> utf8_ok b"
  by (induction b) (auto simp: byte_in_def)

lemma split_lines_loop_none: "CHR 0x0A \<notin> set cs \<Longrightarrow> CHR 0x0D \<notin> set cs \<Longrightarrow> split_lines_loop cur cs = [cur @ cs]"
  by (induction cur cs rule: split_lines_loop.induct) auto

lemma printable_spaceless:
  assumes "\<forall>c\<in>set b. byte_in 0x21 0x7E c"
  shows "spaceless b" "CHR 0x0A \<notin> set b"
proof -
  have "\<not> byte_in 0x21 0x7E (CHR 0x0A)" "\<not> byte_in 0x21 0x7E (CHR 0x0D)" "\<not> byte_in 0x21 0x7E (CHR '' '')"
    by (simp_all add: byte_in_def)
  then have no: "CHR 0x0A \<notin> set b" "CHR 0x0D \<notin> set b" "CHR '' '' \<notin> set b" using assms by blast+
  have "strip_prefix '' '' b = None" using no(3) by (cases b) auto
  then show "spaceless b" using no split_lines_loop_none [of b "[]"] by (simp add: spaceless_def split_lines_def)
  show "CHR 0x0A \<notin> set b" by (rule no(1))
qed

definition sse_decoder :: "string \<Rightarrow> (bytes \<Rightarrow> string + bytes) \<Rightarrow> (bytes \<Rightarrow> string + bytes) option" where
  "sse_decoder ct f = (if is_binary_content_type ct then Some f else None)"

lemma json_is_text: "is_json_content_type ct \<Longrightarrow> \<not> is_binary_content_type ct"
  by (simp add: is_json_content_type_def is_binary_content_type_def is_text_content_type_def)

lemma array_content_ok: "utf8_ok (array_content i ms)"
  by (induction i ms rule: array_content.induct) (auto intro!: utf8_ok_append utf8_ok_lossy simp: byte_in_def)

lemma message_carried:
  assumes "base64_codec E f" "\<not> is_json_content_type ct" "\<not> is_binary_content_type ct \<Longrightarrow> spaceless (from_utf8_lossy m)"
  shows "carries (sse_decoder ct f) (if is_binary_content_type ct then base64_encode E m else from_utf8_lossy m)
    (if is_binary_content_type ct then m else from_utf8_lossy m)"
proof (cases "is_binary_content_type ct")
  case True
  let ?b = "base64_encode E m"
  have b: "\<forall>c\<in>set ?b. byte_in 0x21 0x7E c" "f ?b = Inr m" using assms(1) by (auto simp: base64_codec_def)
  with carries_decoded [OF utf8_ok_printable printable_spaceless, of ?b f m] True show ?thesis by (simp add: sse_decoder_def)
next
  case False
  with carries_plain [OF utf8_ok_lossy] assms(3) show ?thesis by (simp add: sse_decoder_def)
qed

lemma control_frame_ok: "control_codec E \<Longrightarrow> frame_ok E (FControl c)"
  by (simp add: control_codec_def)

lemma carries_frame_ok: "carries decode b m \<Longrightarrow> frame_ok E (FData b)"
  by (simp add: carries_def)

lemma concat_map_concat: "concat (map h (concat (map g xs))) = concat (map (\<lambda>x. concat (map h (g x))) xs)"
  by (induction xs) auto

lemma data_frame_text: "format_data_frame E m b False = format_raw_data_frame (if b then base64_encode E m else from_utf8_lossy m)"
  by (cases b) (simp_all add: format_data_frame_def)

text \<open>What the encoder of the server writes is collected as what it was given.\<close>

lemma encoded_read_collected:
  assumes E: "control_codec E" "base64_codec E f"
    and enc: "encode_read_as_sse_frames E cur r \<lparr>is_binary = is_binary_content_type ct, is_json = is_json_content_type ct\<rparr> = Some (cur', bs)"
    and off: "rr_next_offset r = offset_new a b" and len: "length (rr_messages r) < 2 ^ 64"
    and plain: "\<not> is_binary_content_type ct \<Longrightarrow> \<forall>t\<in>set (sse_texts E ct (rr_messages r)). spaceless t"
    and cs: "concat cs = bs"
  shows "\<exists>c ac. collect_loop E (sse_decoder ct f) None False (map Inr cs) sse_parser_new sse_acc_new = Inr (after_control c ac) \<and>
    map rc_data (sa_chunks ac) = sse_payloads ct (rr_messages r) \<and> cp_next_offset c = as_str (rr_next_offset r) \<and>
    (cp_up_to_date c = Some True \<longleftrightarrow> rr_at_tail r) \<and> (cp_closed c = Some True \<longleftrightarrow> rr_closed r \<and> rr_at_tail r)"
proof (cases "is_json_content_type ct \<or> rr_messages r = []")
  case whole: True
  obtain c cur1 where c: "build_sse_control cur r = (cur1, c)" by fastforce
  let ?fs = "(if rr_messages r = [] then [] else [FData (''['' @ array_content 0 (rr_messages r) @ '']'')]) @ [FControl c]"
  have bs: "bs = concat (map (frame_bytes E) ?fs)"
    using enc whole c by (auto simp: encode_read_as_sse_frames_def format_data_frames_def)
  note f = build_sse_control_fields [OF c]
  show ?thesis
  proof (cases "rr_messages r = []")
    case True
    have "collect_loop E (sse_decoder ct f) None False (map Inr cs) sse_parser_new sse_acc_new = Inr (after_control c sse_acc_new)"
      using frames_collected [of cs E ?fs "sse_decoder ct f"] bs cs control_frame_ok [OF E(1)] True
      by (simp add: apply_control_frame [OF E(1)])
    with f True show ?thesis by (intro exI [of _ c] exI [of _ sse_acc_new]) (simp add: sse_payloads_def sse_acc_new_def)
  next
    case False
    let ?t = "''['' @ array_content 0 (rr_messages r) @ '']''"
    have "utf8_ok ?t" by (auto intro!: utf8_ok_append array_content_ok simp: byte_in_def)
    moreover have "spaceless ?t" "sse_decoder ct f = None"
      using plain whole False json_is_text by (auto simp: sse_texts_def sse_decoder_def)
    ultimately have t: "carries (sse_decoder ct f) ?t ?t" using carries_plain by simp
    have "collect_loop E (sse_decoder ct f) None False (map Inr cs) sse_parser_new sse_acc_new =
      sse_events E (sse_decoder ct f) None False (concat (map (frame_events E) ?fs)) sse_acc_new"
      by (rule frames_collected) (use bs cs control_frame_ok [OF E(1)] carries_frame_ok [OF t] False in auto)
    moreover have "concat (map (frame_events E) ?fs) = frame_events E (FData ?t) @ frame_events E (FControl c) @ []"
      using False by simp
    ultimately have "collect_loop E (sse_decoder ct f) None False (map Inr cs) sse_parser_new sse_acc_new =
      sse_events E (sse_decoder ct f) None False (frame_events E (FData ?t) @ frame_events E (FControl c) @ []) sse_acc_new" by (simp only:)
    with data_then_control [OF E(1) t, of c "[]" sse_acc_new] obtain ch where ch: "rc_data ch = ?t"
      "collect_loop E (sse_decoder ct f) None False (map Inr cs) sse_parser_new sse_acc_new =
       Inr (after_control c (sse_acc_new\<lparr>sa_chunks := [ch]\<rparr>))"
      by (auto simp: Let_def sse_acc_new_def)
    with f whole False show ?thesis
      by (intro exI [of _ c] exI [of _ "sse_acc_new\<lparr>sa_chunks := [ch]\<rparr>"]) (simp add: sse_payloads_def)
  qed
next
  case False
  let ?pay = "\<lambda>m. if is_binary_content_type ct then base64_encode E m else from_utf8_lossy m"
  let ?txt = "\<lambda>m. if is_binary_content_type ct then m else from_utf8_lossy m"
  obtain cur1 ctls where c: "sse_message_controls a b (rr_at_tail r) (rr_closed r) (payload_bytes (rr_messages r)) cur (rr_messages r) = (cur1, ctls)"
    by fastforce
  let ?fs = "concat (map (\<lambda>c. [FData (?pay (fst c)), FControl (snd c)]) ctls)"
  have bs: "bs = concat (map (frame_bytes E) ?fs)"
    using enc False off c
    by (auto simp: encode_read_as_sse_frames_def data_frame_text concat_map_concat split_def)
  note k = sse_message_controls_ends [OF c len]
  have ne: "ctls \<noteq> []" using k False by auto
  have car: "carries (sse_decoder ct f) (?pay m) (?txt m)" if "m \<in> set (map fst ctls)" for m
    by (rule message_carried [OF E(2)]) (use False plain that k in \<open>auto simp: sse_texts_def\<close>)
  have "frame_ok E x" if "x \<in> set ?fs" for x
    using that car carries_frame_ok control_frame_ok [OF E(1)] by fastforce
  then have "collect_loop E (sse_decoder ct f) None False (map Inr cs) sse_parser_new sse_acc_new =
    sse_events E (sse_decoder ct f) None False (concat (map (\<lambda>c. frame_events E (FData (?pay (fst c))) @ frame_events E (FControl (snd c))) ctls)) sse_acc_new"
    using frames_collected [of cs E ?fs "sse_decoder ct f"] bs cs by (simp add: concat_map_concat)
  moreover have "\<exists>b. map rc_data (sa_chunks b) = map rc_data (sa_chunks sse_acc_new) @ map (\<lambda>c. ?txt (fst c)) ctls \<and>
    sse_events E (sse_decoder ct f) None False (concat (map (\<lambda>c. frame_events E (FData (?pay (fst c))) @ frame_events E (FControl (snd c))) ctls)) sse_acc_new =
    Inr (after_control (snd (List.last ctls)) b)"
    by (rule messages_collected [OF E(1) car ne]) (use k in auto)
  ultimately obtain ac where ac:
    "map rc_data (sa_chunks ac) = map rc_data (sa_chunks sse_acc_new) @ map (\<lambda>c. ?txt (fst c)) ctls"
    "collect_loop E (sse_decoder ct f) None False (map Inr cs) sse_parser_new sse_acc_new = Inr (after_control (snd (List.last ctls)) ac)"
    by (simp only:) blast
  have "map (\<lambda>c. ?txt (fst c)) ctls = map ?txt (rr_messages r)" using k by (metis (no_types, lifting) comp_apply map_eq_conv map_map)
  with ac k False off show ?thesis
    by (intro exI [of _ "snd (List.last ctls)"] exI [of _ ac]) (simp add: sse_payloads_def sse_acc_new_def)
qed

end
