(* ===== verification/DS_Cl_Journal.thy ===== *)
theory DS_Cl_Journal
  imports DS_Cl_Sse
begin

text \<open>
  The client's local journal, \<open>journal.rs\<close>: a file of JSON lines that keeps the
  messages of a stream and the offset at which to resume.
\<close>

section \<open>Data\<close>

datatype journal_direction = Inbound | Outbound

record journal_stream_identity =
  ji_path :: string
  ji_content_type :: string

record producer_journal_progress =
  pj_producer_id :: string
  pj_epoch :: int
  pj_next_seq :: int
  pj_acked_server_offset :: "string option"
  pj_acked_local_seq :: "u64 option"

record journal_record =
  jr_version :: u32
  jr_stream :: journal_stream_identity
  jr_direction :: journal_direction
  jr_local_seq :: u64
  jr_batch_seq :: u64
  jr_batch_index :: u32
  jr_batch_len :: u32
  jr_payload :: json
  jr_next_offset :: "string option"
  jr_observed_at :: time
  jr_persisted_at :: time
  jr_producer :: "producer_journal_progress option"

text \<open>The open journal; the file it appends to is passed along.\<close>

record json_journal =
  jj_stream :: journal_stream_identity
  jj_records :: "journal_record list"
  jj_resume_offset :: "string option"
  jj_next_local_seq :: u64
  jj_next_batch_seq :: u64

record replay_state =
  rs_records :: "journal_record list"
  rs_resume_offset :: "string option"
  rs_next_local_seq :: u64
  rs_next_batch_seq :: u64
  rs_valid_bytes :: nat

definition replay_state_default :: replay_state where
  "replay_state_default = \<lparr>rs_records = [], rs_resume_offset = None, rs_next_local_seq = 0, rs_next_batch_seq = 0, rs_valid_bytes = 0\<rparr>"

definition JOURNAL_RECORD_VERSION :: u32 where
  "JOURNAL_RECORD_VERSION = 1"

text \<open>The derived serializers of a record.\<close>

record journal_env =
  record_to_vec :: "journal_record \<Rightarrow> string + bytes"
  record_from_slice :: "bytes \<Rightarrow> string + journal_record"

definition identity_validate :: "journal_stream_identity \<Rightarrow> client_error + unit" where
  "identity_validate i =
     (if trim (ji_path i) = [] then Inl (CInvalidArgument ''journal stream path must not be empty'')
      else if strip_prefix ''application/json'' (ji_content_type i) = None then
        Inl (CInvalidArgument (''journal only supports application/json content types, got '' @ [CHR 0x27] @ ji_content_type i @ [CHR 0x27]))
      else Inr ())"

section \<open>Replay\<close>

definition commit_batch :: "replay_state \<Rightarrow> journal_record list \<Rightarrow> u64 \<Rightarrow> string option \<Rightarrow> replay_state" where
  "commit_batch st pending batch_seq nxt = st
     \<lparr>rs_resume_offset := (case nxt of Some off \<Rightarrow> Some off | None \<Rightarrow> rs_resume_offset st),
      rs_next_batch_seq := batch_seq + 1,
      rs_next_local_seq := rs_next_local_seq st + of_nat (length pending),
      rs_records := rs_records st @ pending\<rparr>"

record pending_batch =
  pb_records :: "journal_record list"
  pb_seq :: u64
  pb_len :: u32
  pb_next_offset :: "string option"

definition batch_starts :: "journal_record \<Rightarrow> pending_batch" where
  "batch_starts r = \<lparr>pb_records = [r], pb_seq = jr_batch_seq r, pb_len = jr_batch_len r, pb_next_offset = jr_next_offset r\<rparr>"

definition commit_pending :: "replay_state \<Rightarrow> pending_batch \<Rightarrow> replay_state" where
  "commit_pending st b = commit_batch st (pb_records b) (pb_seq b) (pb_next_offset b)"

definition batch_whole :: "pending_batch \<Rightarrow> bool" where
  "batch_whole b \<longleftrightarrow> length (pb_records b) = unat (pb_len b)"

text \<open>
  One round of the loop of \<open>commit_valid_prefix\<close>: the state, what is pending, and
  whether the loop goes on. (A pending batch of \<open>2\<^sup>3\<^sup>2\<close> records, which would
  panic, ends the loop here.)
\<close>

definition commit_round :: "replay_state \<Rightarrow> pending_batch \<Rightarrow> journal_record \<Rightarrow> replay_state \<times> pending_batch \<times> bool" where
  "commit_round st b r =
     (if jr_local_seq r \<noteq> of_nat (length (rs_records st)) + of_nat (length (pb_records b)) then (st, b, False)
      else if pb_records b = [] then
        if jr_batch_index r \<noteq> 0 then (st, b, False) else (st, batch_starts r, True)
      else if jr_batch_seq r \<noteq> pb_seq b then
        if \<not> batch_whole b then (st, b, False)
        else (let st' = commit_pending st b; b' = b\<lparr>pb_records := [], pb_next_offset := None\<rparr> in
              if jr_batch_index r \<noteq> 0 then (st', b', False) else (st', batch_starts r, True))
      else if unat (jr_batch_index r) \<noteq> length (pb_records b) \<or> jr_batch_len r \<noteq> pb_len b \<or> pb_next_offset b \<noteq> jr_next_offset r
        then (st, b, False)
      else (st, b\<lparr>pb_records := pb_records b @ [r]\<rparr>, True))"

fun commit_loop :: "replay_state \<Rightarrow> pending_batch \<Rightarrow> journal_record list \<Rightarrow> replay_state \<times> pending_batch" where
  "commit_loop st b [] = (st, b)"
| "commit_loop st b (r # rs) = (case commit_round st b r of (st', b', go) \<Rightarrow> if go then commit_loop st' b' rs else (st', b'))"

definition no_batch :: pending_batch where
  "no_batch = \<lparr>pb_records = [], pb_seq = 0, pb_len = 0, pb_next_offset = None\<rparr>"

definition commit_valid_prefix :: "journal_record list \<Rightarrow> replay_state" where
  "commit_valid_prefix rs = (case commit_loop replay_state_default no_batch rs of (st, b) \<Rightarrow>
     if pb_records b \<noteq> [] \<and> batch_whole b then commit_pending st b else st)"

definition is_ascii_whitespace :: "char \<Rightarrow> bool" where
  "is_ascii_whitespace c \<longleftrightarrow> c \<in> {CHR 0x09, CHR 0x0A, CHR 0x0C, CHR 0x0D, CHR '' ''}"

definition trim_ascii_whitespace :: "bytes \<Rightarrow> bytes" where
  "trim_ascii_whitespace bs = rev (dropWhile is_ascii_whitespace (rev (dropWhile is_ascii_whitespace bs)))"

definition journal_mismatch :: "journal_stream_identity \<Rightarrow> journal_stream_identity \<Rightarrow> string" where
  "journal_mismatch i j = ''journal stream mismatch: expected '' @ [CHR 0x27] @ ji_path i @ [CHR 0x27] @ '' with content type '' @ [CHR 0x27] @
     ji_content_type i @ [CHR 0x27] @ '', found '' @ [CHR 0x27] @ ji_path j @ [CHR 0x27] @ '' with '' @ [CHR 0x27] @ ji_content_type j @ [CHR 0x27]"

text \<open>The loop over the lines: it ends at the first that is no record.\<close>

fun replay_lines :: "journal_env \<Rightarrow> journal_stream_identity \<Rightarrow> bytes list \<Rightarrow> client_error + journal_record list" where
  "replay_lines J i [] = Inr []"
| "replay_lines J i (l # ls) =
     (let line = trim_ascii_whitespace l in
      if line = [] then replay_lines J i ls
      else case record_from_slice J line of
        Inl _ \<Rightarrow> Inr []
      | Inr r \<Rightarrow>
        if jr_version r \<noteq> JOURNAL_RECORD_VERSION then
          Inl (CParse (''unsupported journal record version '' @ nat_to_string (unat (jr_version r))))
        else if jr_stream r \<noteq> i then Inl (CParse (journal_mismatch i (jr_stream r)))
        else map_sum id (\<lambda>rs. r # rs) (replay_lines J i ls))"

text \<open>Everything up to the last line end.\<close>

definition complete_lines :: "bytes \<Rightarrow> bytes" where
  "complete_lines bs = rev (dropWhile (\<lambda>c. c \<noteq> CHR 0x0A) (rev bs))"

text \<open>\<open>None\<close>: there is no file.\<close>

definition replay_journal :: "journal_env \<Rightarrow> journal_stream_identity \<Rightarrow> bytes option \<Rightarrow> client_error + replay_state" where
  "replay_journal J i file = (case file of
     None \<Rightarrow> Inr replay_state_default
   | Some bs \<Rightarrow> map_sum id (\<lambda>rs. (commit_valid_prefix rs)\<lparr>rs_valid_bytes := length (complete_lines bs)\<rparr>)
       (replay_lines J i (split_on (CHR 0x0A) (complete_lines bs))))"

text \<open>
  The calls of the filesystem that \<open>open\<close> makes may fail with an error; a file
  that is not there is created.
\<close>

record open_faults =
  of_read :: "string option"
  of_open :: "string option"
  of_set_len :: "string option"

definition journal_open ::
  "journal_env \<Rightarrow> open_faults \<Rightarrow> journal_stream_identity \<Rightarrow> bytes option \<Rightarrow> bytes option \<times> (client_error + json_journal)" where
  "journal_open J io i file = (case identity_validate i of
     Inl e \<Rightarrow> (file, Inl e)
   | Inr _ \<Rightarrow> (case of_read io of
       Some e \<Rightarrow> (file, Inl (CIo e))
     | None \<Rightarrow> (case replay_journal J i file of
         Inl e \<Rightarrow> (file, Inl e)
       | Inr st \<Rightarrow> (case of_open io of
           Some e \<Rightarrow> (file, Inl (CIo e))
         | None \<Rightarrow> (let bs = (case file of Some b \<Rightarrow> b | None \<Rightarrow> []) in
             case of_set_len io of
               Some e \<Rightarrow> (Some bs, Inl (CIo e))
             | None \<Rightarrow> (Some (take (rs_valid_bytes st) bs),
                 Inr \<lparr>jj_stream = i, jj_records = rs_records st, jj_resume_offset = rs_resume_offset st,
                      jj_next_local_seq = rs_next_local_seq st, jj_next_batch_seq = rs_next_batch_seq st\<rparr>))))))"

definition journal_values :: "json_journal \<Rightarrow> json list" where
  "journal_values j = map jr_payload (jj_records j)"

section \<open>Appending\<close>

text \<open>How many bytes the file takes before a write fails (\<open>None\<close>: no write fails), and whether flushing and syncing succeed.\<close>

record write_faults =
  wf_room :: "nat option"
  wf_sync :: bool

definition write_all :: "nat option \<Rightarrow> bytes \<Rightarrow> bytes \<Rightarrow> bytes \<times> (client_error + nat option)" where
  "write_all room bs file = (case room of
     None \<Rightarrow> (file @ bs, Inr None)
   | Some k \<Rightarrow> if length bs \<le> k then (file @ bs, Inr (Some (k - length bs)))
               else (file @ take k bs, Inl (CIo ''write failed'')))"

definition journal_record_at ::
  "json_journal \<Rightarrow> time \<Rightarrow> journal_direction \<Rightarrow> u32 \<Rightarrow> string option \<Rightarrow> producer_journal_progress option \<Rightarrow> nat \<Rightarrow> json \<Rightarrow> journal_record" where
  "journal_record_at j now dir n nxt producer k v =
     \<lparr>jr_version = JOURNAL_RECORD_VERSION, jr_stream = jj_stream j, jr_direction = dir,
      jr_local_seq = jj_next_local_seq j + of_nat k, jr_batch_seq = jj_next_batch_seq j, jr_batch_index = of_nat k, jr_batch_len = n,
      jr_payload = v, jr_next_offset = nxt, jr_observed_at = now, jr_persisted_at = now, jr_producer = producer\<rparr>"

fun write_journal_records :: "journal_env \<Rightarrow> nat option \<Rightarrow> journal_record list \<Rightarrow> bytes \<Rightarrow> bytes \<times> (client_error + unit)" where
  "write_journal_records J room [] file = (file, Inr ())"
| "write_journal_records J room (r # rs) file = (case record_to_vec J r of
     Inl e \<Rightarrow> (file, Inl (CJson e))
   | Inr line \<Rightarrow> (case write_all room line file of
       (file1, Inl e) \<Rightarrow> (file1, Inl e)
     | (file1, Inr room1) \<Rightarrow> (case write_all room1 [CHR 0x0A] file1 of
         (file2, Inl e) \<Rightarrow> (file2, Inl e)
       | (file2, Inr room2) \<Rightarrow> write_journal_records J room2 rs file2)))"

definition append_values ::
  "journal_env \<Rightarrow> write_faults \<Rightarrow> time \<Rightarrow> journal_direction \<Rightarrow> json list \<Rightarrow> string option \<Rightarrow> producer_journal_progress option \<Rightarrow>
   json_journal \<Rightarrow> bytes \<Rightarrow> json_journal \<times> bytes \<times> (client_error + journal_record list)" where
  "append_values J io now dir values nxt producer j file =
     (if values = [] then
        (case nxt of Some off \<Rightarrow> j\<lparr>jj_resume_offset := Some off\<rparr> | None \<Rightarrow> j, file, Inr [])
      else if length values \<ge> 2 ^ 32 then (j, file, Inl (CInvalidArgument ''journal batch is too large''))
      else (let rs = map (\<lambda>(k, v). journal_record_at j now dir (of_nat (length values)) nxt producer k v) (enumerate 0 values) in
        case write_journal_records J (wf_room io) rs file of
          (file', Inl e) \<Rightarrow> (j, file', Inl e)
        | (file', Inr _) \<Rightarrow>
          if \<not> wf_sync io then (j, file', Inl (CIo ''sync failed''))
          else (j\<lparr>jj_next_local_seq := jj_next_local_seq j + of_nat (length rs), jj_next_batch_seq := jj_next_batch_seq j + 1,
                  jj_resume_offset := (case nxt of Some off \<Rightarrow> Some off | None \<Rightarrow> jj_resume_offset j),
                  jj_records := jj_records j @ rs\<rparr>, file', Inr rs)))"

end
