(* ===== verification/DS_Cl_Replay.thy ===== *)
theory DS_Cl_Replay
  imports DS_Cl_Journal
begin

text \<open>
  Replaying a journal: what is committed is a sequence of whole batches, and an
  append that the file took in part leaves the batches before it.
\<close>

section \<open>Batches\<close>

text \<open>Records that can stand at the start of a batch whose first record has the number \<open>n\<close>.\<close>

definition segment :: "nat \<Rightarrow> journal_record list \<Rightarrow> bool" where
  "segment n p \<longleftrightarrow> p \<noteq> [] \<and> (\<forall>k<length p. jr_local_seq (p ! k) = of_nat (n + k) \<and> jr_batch_seq (p ! k) = jr_batch_seq (hd p) \<and>
     unat (jr_batch_index (p ! k)) = k \<and> jr_batch_len (p ! k) = jr_batch_len (hd p) \<and> jr_next_offset (p ! k) = jr_next_offset (hd p))"

definition whole_batch :: "nat \<Rightarrow> journal_record list \<Rightarrow> bool" where
  "whole_batch n w \<longleftrightarrow> segment n w \<and> unat (jr_batch_len (hd w)) = length w"

fun batches_ok :: "nat \<Rightarrow> journal_record list list \<Rightarrow> bool" where
  "batches_ok n [] = True"
| "batches_ok n (w # ws) = (whole_batch n w \<and> batches_ok (n + length w) ws)"

definition pending_of :: "journal_record list \<Rightarrow> pending_batch" where
  "pending_of p = \<lparr>pb_records = p, pb_seq = jr_batch_seq (hd p), pb_len = jr_batch_len (hd p), pb_next_offset = jr_next_offset (hd p)\<rparr>"

definition commit_whole :: "replay_state \<Rightarrow> journal_record list \<Rightarrow> replay_state" where
  "commit_whole st w = commit_pending st (pending_of w)"

text \<open>The state after the batches \<open>ws\<close>.\<close>

definition state_of :: "journal_record list list \<Rightarrow> replay_state" where
  "state_of ws = foldl commit_whole replay_state_default ws"

lemma pending_of_simps [simp]:
  "pb_records (pending_of p) = p" "pb_seq (pending_of p) = jr_batch_seq (hd p)" "pb_len (pending_of p) = jr_batch_len (hd p)"
  "pb_next_offset (pending_of p) = jr_next_offset (hd p)"
  by (simp_all add: pending_of_def)

lemma commit_whole_simps [simp]:
  "rs_records (commit_whole st w) = rs_records st @ w" "rs_next_local_seq (commit_whole st w) = rs_next_local_seq st + of_nat (length w)"
  "rs_next_batch_seq (commit_whole st w) = jr_batch_seq (hd w) + 1"
  "rs_resume_offset (commit_whole st w) = (case jr_next_offset (hd w) of Some off \<Rightarrow> Some off | None \<Rightarrow> rs_resume_offset st)"
  by (simp_all add: commit_whole_def commit_pending_def commit_batch_def)

lemma state_of_Nil [simp]: "state_of [] = replay_state_default"
  by (simp add: state_of_def)

lemma state_of_snoc [simp]: "state_of (ws @ [w]) = commit_whole (state_of ws) w"
  by (simp add: state_of_def)

lemma state_of_records [simp]: "rs_records (state_of ws) = concat ws"
  by (induction ws rule: rev_induct) (auto simp: replay_state_default_def)

lemma state_of_next [simp]: "rs_next_local_seq (state_of ws) = of_nat (length (concat ws))"
  by (induction ws rule: rev_induct) (auto simp: replay_state_default_def)

lemma batches_ok_snoc: "batches_ok n (ws @ [w]) \<longleftrightarrow> batches_ok n ws \<and> whole_batch (n + length (concat ws)) w"
  by (induction n ws rule: batches_ok.induct) (auto simp: add.assoc)

lemma batch_starts_of: "batch_starts r = pending_of [r]"
  by (simp add: batch_starts_def pending_of_def)

lemma segment_one: "segment n [r] \<longleftrightarrow> jr_local_seq r = of_nat n \<and> jr_batch_index r = 0"
  by (simp add: segment_def unat_eq_zero)

lemma segment_snoc:
  assumes "p \<noteq> []"
  shows "segment n (p @ [r]) \<longleftrightarrow> segment n p \<and> jr_local_seq r = of_nat (n + length p) \<and> jr_batch_seq r = jr_batch_seq (hd p) \<and>
    unat (jr_batch_index r) = length p \<and> jr_batch_len r = jr_batch_len (hd p) \<and> jr_next_offset r = jr_next_offset (hd p)"
  using assms by (auto simp: segment_def nth_append less_Suc_eq simp del: of_nat_add)

lemma segment_prefix: "segment n (p @ q) \<Longrightarrow> p \<noteq> [] \<Longrightarrow> segment n p"
proof (induction q rule: rev_induct)
  case (snoc r q)
  then have "segment n ((p @ q) @ [r])" by simp
  then have "segment n (p @ q)" using segment_snoc [of "p @ q" n r] snoc.prems(2) by blast
  with snoc show ?case by blast
qed simp

section \<open>Whatever the records, whole batches are committed\<close>

text \<open>What holds of the loop: the batches committed and the batch that is being collected.\<close>

definition loop_inv :: "journal_record list \<Rightarrow> replay_state \<Rightarrow> pending_batch \<Rightarrow> bool" where
  "loop_inv seen st b \<longleftrightarrow> (\<exists>ws. batches_ok 0 ws \<and> st = state_of ws \<and> seen = concat ws @ pb_records b \<and>
     (pb_records b \<noteq> [] \<longrightarrow> b = pending_of (pb_records b) \<and> segment (length (concat ws)) (pb_records b)))"

lemma loop_inv_commit:
  assumes "loop_inv seen st b" "pb_records b \<noteq> []" "batch_whole b"
  shows "\<exists>ws. batches_ok 0 ws \<and> commit_pending st b = state_of ws \<and> seen = concat ws"
proof -
  obtain ws where ws: "batches_ok 0 ws" "st = state_of ws" "seen = concat ws @ pb_records b" "b = pending_of (pb_records b)"
    "segment (length (concat ws)) (pb_records b)" using assms(1,2) by (auto simp: loop_inv_def)
  have "whole_batch (length (concat ws)) (pb_records b)"
    using ws(4,5) assms(3) by (metis batch_whole_def pending_of_simps(3) whole_batch_def)
  with ws(1) have "batches_ok 0 (ws @ [pb_records b])" by (simp add: batches_ok_snoc)
  moreover have "commit_pending st b = state_of (ws @ [pb_records b])"
    using ws(2) unfolding state_of_snoc commit_whole_def ws(4) [symmetric] by simp
  ultimately show ?thesis using ws(3) by (intro exI [of _ "ws @ [pb_records b]"]) simp
qed

lemma loop_inv_start:
  "batches_ok 0 ws \<Longrightarrow> jr_local_seq r = of_nat (length (concat ws)) \<Longrightarrow> jr_batch_index r = 0 \<Longrightarrow>
    loop_inv (concat ws @ [r]) (state_of ws) (batch_starts r)"
  by (auto simp: loop_inv_def batch_starts_of segment_one)

lemma loop_inv_add:
  assumes "loop_inv seen st b" "pb_records b \<noteq> []" "jr_local_seq r = of_nat (length (rs_records st)) + of_nat (length (pb_records b))"
    "jr_batch_seq r = pb_seq b" "unat (jr_batch_index r) = length (pb_records b)" "jr_batch_len r = pb_len b" "pb_next_offset b = jr_next_offset r"
  shows "loop_inv (seen @ [r]) st (b\<lparr>pb_records := pb_records b @ [r]\<rparr>)"
proof -
  obtain ws where ws: "batches_ok 0 ws" "st = state_of ws" "seen = concat ws @ pb_records b" "b = pending_of (pb_records b)"
    "segment (length (concat ws)) (pb_records b)" using assms(1,2) by (auto simp: loop_inv_def)
  have "segment (length (concat ws)) (pb_records b @ [r])"
    using ws(2,4,5) assms(3-7) segment_snoc [OF assms(2), of "length (concat ws)" r]
    by (metis of_nat_add pending_of_simps(2,3,4) state_of_records)
  moreover have "b\<lparr>pb_records := pb_records b @ [r]\<rparr> = pending_of (pb_records b @ [r])"
    using assms(2) ws(4) by (metis (no_types, lifting) hd_append2 pending_batch.update_convs(1) pending_of_def)
  ultimately show ?thesis using ws(1-3) by (auto simp: loop_inv_def)
qed

lemma loop_inv_commits:
  assumes "loop_inv seen st b" "pb_records b \<noteq> []" "batch_whole b"
  shows "loop_inv seen (commit_pending st b) (b\<lparr>pb_records := [], pb_next_offset := None\<rparr>)"
  using loop_inv_commit [OF assms] by (auto simp: loop_inv_def)

lemma loop_inv_first:
  assumes "loop_inv seen st b" "pb_records b = []" "jr_local_seq r = of_nat (length (rs_records st))" "jr_batch_index r = 0"
  shows "loop_inv (seen @ [r]) st (batch_starts r)"
  using assms loop_inv_start [of _ r] by (auto simp: loop_inv_def)

lemma loop_inv_round:
  assumes "loop_inv seen st b" "commit_round st b r = (st', b', go)"
  shows "loop_inv (if go then seen @ [r] else seen) st' b'"
proof (cases "jr_local_seq r = of_nat (length (rs_records st)) + of_nat (length (pb_records b))")
  case seq: True
  show ?thesis
  proof (cases "pb_records b = []")
    case True
    with assms seq loop_inv_first [OF assms(1) True] show ?thesis by (auto simp: commit_round_def split: if_splits)
  next
    case p: False
    show ?thesis
    proof (cases "jr_batch_seq r \<noteq> pb_seq b \<and> batch_whole b")
      case True
      let ?st = "commit_pending st b" and ?b = "b\<lparr>pb_records := [], pb_next_offset := None\<rparr>"
      have c: "loop_inv seen ?st ?b" using loop_inv_commits [OF assms(1) p] True by blast
      have "jr_local_seq r = of_nat (length (rs_records ?st))" using seq by (simp add: commit_pending_def commit_batch_def)
      with assms(2) seq p True c loop_inv_first [OF c] show ?thesis by (auto simp: commit_round_def Let_def split: if_splits)
    next
      case False
      with assms seq p loop_inv_add [OF assms(1) p seq] show ?thesis by (auto simp: commit_round_def split: if_splits)
    qed
  qed
next
  case False
  with assms show ?thesis by (auto simp: commit_round_def)
qed

lemma loop_inv_loop:
  assumes "loop_inv seen st b" "commit_loop st b rs = (st', b')"
  shows "\<exists>more rest. rs = more @ rest \<and> loop_inv (seen @ more) st' b'"
  using assms
proof (induction rs arbitrary: seen st b)
  case (Cons r rs)
  obtain st1 b1 go where rd: "commit_round st b r = (st1, b1, go)" by (metis prod_cases3)
  show ?case
  proof (cases go)
    case True
    with loop_inv_round [OF Cons.prems(1) rd] Cons.prems(2) rd Cons.IH [of "seen @ [r]" st1 b1]
    obtain more rest where "rs = more @ rest" "loop_inv (seen @ [r] @ more) st' b'" by auto
    then show ?thesis by (intro exI [of _ "r # more"] exI [of _ rest]) simp
  next
    case False
    with loop_inv_round [OF Cons.prems(1) rd] Cons.prems(2) rd show ?thesis
      by (intro exI [of _ "[]"] exI [of _ "r # rs"]) simp
  qed
qed auto

lemma commits_whole_batches:
  "\<exists>ws rest. rs = concat ws @ rest \<and> batches_ok 0 ws \<and> commit_valid_prefix rs = state_of ws"
proof -
  obtain st b where l: "commit_loop replay_state_default no_batch rs = (st, b)" by fastforce
  have "loop_inv [] replay_state_default no_batch" by (auto simp: loop_inv_def no_batch_def intro: exI [of _ "[]"])
  from loop_inv_loop [OF this l] obtain more rest where m: "rs = more @ rest" "loop_inv more st b" by auto
  show ?thesis
  proof (cases "pb_records b \<noteq> [] \<and> batch_whole b")
    case True
    with loop_inv_commit [OF m(2)] l m(1) show ?thesis by (auto simp: commit_valid_prefix_def)
  next
    case False
    obtain ws where "batches_ok 0 ws" "st = state_of ws" "more = concat ws @ pb_records b" using m(2) by (auto simp: loop_inv_def)
    with False l m(1) show ?thesis by (intro exI [of _ ws] exI [of _ "pb_records b @ rest"]) (auto simp: commit_valid_prefix_def)
  qed
qed

section \<open>Whole batches are replayed\<close>

text \<open>Neighbouring batches have different numbers.\<close>

definition numbered :: "journal_record list list \<Rightarrow> bool" where
  "numbered ws \<longleftrightarrow> successively (\<lambda>v w. jr_batch_seq (hd w) \<noteq> jr_batch_seq (hd v)) ws"

lemma loop_fills:
  assumes "segment n (p @ q)" "p \<noteq> []" "n = length (rs_records st)"
  shows "commit_loop st (pending_of p) (q @ rest) = commit_loop st (pending_of (p @ q)) rest"
  using assms(1,2)
proof (induction q arbitrary: p)
  case (Cons r q)
  have "segment n ((p @ [r]) @ q)" using Cons.prems(1) by simp
  then have "segment n (p @ [r])" by (rule segment_prefix) simp
  with segment_snoc [OF Cons.prems(2), of n r] assms(3) Cons.prems(2)
  have "commit_round st (pending_of p) r = (st, pending_of (p @ [r]), True)"
    by (simp add: commit_round_def pending_of_def)
  with Cons.IH [of "p @ [r]"] Cons.prems(1) show ?case by simp
qed simp

lemma loop_next_batch:
  assumes "whole_batch (length (rs_records st)) w" "segment (length (rs_records st) + length w) (r # q)"
    "jr_batch_seq r \<noteq> jr_batch_seq (hd w)"
  shows "commit_loop st (pending_of w) ((r # q) @ rest) = commit_loop (commit_whole st w) (pending_of (r # q)) rest"
proof -
  have "segment (length (rs_records st) + length w) [r]" using segment_prefix [of _ "[r]" q] assms(2) by simp
  then have "commit_round st (pending_of w) r = (commit_whole st w, pending_of [r], True)"
    using assms(1,3)
    by (auto simp: commit_round_def segment_one whole_batch_def segment_def batch_whole_def commit_whole_def batch_starts_of Let_def unat_eq_zero)
  with loop_fills [of "length (rs_records (commit_whole st w))" "[r]" q "commit_whole st w" rest] assms(2) show ?thesis by simp
qed

lemma loop_batches:
  assumes "batches_ok (length (rs_records st)) (w # ws)" "numbered (w # ws)"
  shows "commit_loop st (pending_of w) (concat ws @ rest) =
    commit_loop (foldl commit_whole st (butlast (w # ws))) (pending_of (List.last (w # ws))) rest"
  using assms
proof (induction ws arbitrary: st w)
  case (Cons v ws)
  from Cons.prems have v: "whole_batch (length (rs_records st)) w" "segment (length (rs_records st) + length w) v" "v \<noteq> []"
    "jr_batch_seq (hd v) \<noteq> jr_batch_seq (hd w)"
    by (auto simp: whole_batch_def segment_def numbered_def)
  with loop_next_batch [of st w "hd v" "tl v" "concat ws @ rest"]
  have "commit_loop st (pending_of w) (v @ concat ws @ rest) = commit_loop (commit_whole st w) (pending_of v) (concat ws @ rest)" by simp
  with Cons.IH [of "commit_whole st w" v] Cons.prems show ?case by (simp add: numbered_def)
qed simp

text \<open>A piece of a batch that is not whole.\<close>

definition torn_batch :: "nat \<Rightarrow> journal_record list \<Rightarrow> bool" where
  "torn_batch n p \<longleftrightarrow> segment n p \<and> length p \<noteq> unat (jr_batch_len (hd p))"

lemma no_batch_starts: "commit_loop replay_state_default no_batch ((r # q) @ rest) = commit_loop replay_state_default (pending_of (r # q)) rest"
  if "segment 0 (r # q)"
proof -
  have "segment 0 [r]" using segment_prefix [of _ "[r]" q] that by simp
  then have "commit_round replay_state_default no_batch r = (replay_state_default, pending_of [r], True)"
    by (simp add: commit_round_def segment_one no_batch_def replay_state_default_def batch_starts_of)
  with loop_fills [of 0 "[r]" q replay_state_default rest] that show ?thesis by (simp add: replay_state_default_def)
qed

lemma replays_batches:
  assumes "batches_ok 0 ws" "numbered ws"
    and p: "p = [] \<or> torn_batch (length (concat ws)) p \<and> (ws \<noteq> [] \<longrightarrow> jr_batch_seq (hd p) \<noteq> jr_batch_seq (hd (List.last ws)))"
  shows "commit_valid_prefix (concat ws @ p) = state_of ws"
proof (cases ws)
  case Nil
  show ?thesis
  proof (cases p)
    case (Cons r q)
    with p Nil have "segment 0 (r # q)" "\<not> batch_whole (pending_of (r # q))" by (auto simp: torn_batch_def batch_whole_def)
    with no_batch_starts [of r q "[]"] Cons Nil show ?thesis by (simp add: commit_valid_prefix_def)
  qed (simp add: Nil commit_valid_prefix_def no_batch_def)
next
  case (Cons w vs)
  let ?st = "foldl commit_whole replay_state_default (butlast ws)" and ?l = "List.last ws"
  have w: "whole_batch 0 w" using assms(1) Cons by simp
  then have ne: "w \<noteq> []" "segment 0 w" by (auto simp: whole_batch_def segment_def)
  have "commit_loop replay_state_default no_batch (concat ws @ p) = commit_loop replay_state_default (pending_of w) (concat vs @ p)"
    using no_batch_starts [of "hd w" "tl w" "concat vs @ p"] ne Cons by simp
  also have "\<dots> = commit_loop ?st (pending_of ?l) p"
    using loop_batches [of replay_state_default w vs p] assms(1,2) Cons by (simp add: replay_state_default_def)
  finally have loop: "commit_loop replay_state_default no_batch (concat ws @ p) = commit_loop ?st (pending_of ?l) p" .
  have ws: "ws = butlast ws @ [?l]" using Cons by simp
  have st: "?st = state_of (butlast ws)" by (simp add: state_of_def)
  have l: "whole_batch (length (concat (butlast ws))) ?l" using assms(1) batches_ok_snoc [of 0 "butlast ws" ?l] ws by simp
  have all: "commit_whole ?st ?l = state_of ws" using state_of_snoc [of "butlast ws" ?l] ws st by simp
  have len: "length (concat ws) = length (concat (butlast ws)) + length ?l"
    using arg_cong [OF ws, of "\<lambda>x. length (concat x)"] by simp
  have "?l \<noteq> []" "batch_whole (pending_of ?l)" using l by (auto simp: whole_batch_def segment_def batch_whole_def)
  show ?thesis
  proof (cases p)
    case Nil
    with loop \<open>?l \<noteq> []\<close> \<open>batch_whole (pending_of ?l)\<close> all show ?thesis by (simp add: commit_valid_prefix_def commit_whole_def)
  next
    case (Cons r q)
    with p \<open>ws = w # vs\<close> have t: "torn_batch (length (concat ws)) (r # q)" "jr_batch_seq r \<noteq> jr_batch_seq (hd ?l)" by auto
    have "commit_loop ?st (pending_of ?l) ((r # q) @ []) = commit_loop (commit_whole ?st ?l) (pending_of (r # q)) []"
      by (rule loop_next_batch) (use l t len st in \<open>auto simp: torn_batch_def\<close>)
    with loop Cons all have "commit_loop replay_state_default no_batch (concat ws @ p) = (state_of ws, pending_of (r # q))" by simp
    moreover have "\<not> batch_whole (pending_of (r # q))" using t(1) by (simp add: torn_batch_def batch_whole_def)
    ultimately show ?thesis by (simp add: commit_valid_prefix_def)
  qed
qed

end
