(* ===== verification/DS_Cl_Journaled.thy ===== *)
theory DS_Cl_Journaled
  imports DS_Cl_Replay
begin

text \<open>
  The bytes of a journal: lines of records, of which a fault may leave a part,
  and the runs of a journal that is opened and appended to.
\<close>

section \<open>Lines\<close>

definition reads_back :: "journal_env \<Rightarrow> journal_record \<Rightarrow> bool" where
  "reads_back J r \<longleftrightarrow> (\<exists>l. record_to_vec J r = Inr l \<and> l \<noteq> [] \<and> CHR 0x0A \<notin> set l \<and> trim_ascii_whitespace l = l \<and>
     record_from_slice J l = Inr r)"

definition line_of :: "journal_env \<Rightarrow> journal_record \<Rightarrow> bytes" where
  "line_of J r = (case record_to_vec J r of Inr l \<Rightarrow> l | Inl _ \<Rightarrow> [])"

definition lines_of :: "journal_env \<Rightarrow> journal_record list \<Rightarrow> bytes" where
  "lines_of J rs = concat (map (\<lambda>r. line_of J r @ [CHR 0x0A]) rs)"

lemma lines_of_simps [simp]:
  "lines_of J [] = []" "lines_of J (r # rs) = line_of J r @ CHR 0x0A # lines_of J rs" "lines_of J (rs @ qs) = lines_of J rs @ lines_of J qs"
  by (simp_all add: lines_of_def)

lemma reads_backD:
  "reads_back J r \<Longrightarrow> record_to_vec J r = Inr (line_of J r) \<and> line_of J r \<noteq> [] \<and> CHR 0x0A \<notin> set (line_of J r) \<and>
     trim_ascii_whitespace (line_of J r) = line_of J r \<and> record_from_slice J (line_of J r) = Inr r"
  by (auto simp: reads_back_def line_of_def)

lemma lines_of_end: "rs \<noteq> [] \<Longrightarrow> \<exists>xs. lines_of J rs = xs @ [CHR 0x0A]"
  by (cases rs rule: rev_cases) auto

lemma complete_lines_of: "CHR 0x0A \<notin> set t \<Longrightarrow> complete_lines (lines_of J rs @ t) = lines_of J rs"
proof (cases "rs = []")
  case True
  assume "CHR 0x0A \<notin> set t"
  then have "dropWhile (\<lambda>c. c \<noteq> CHR 0x0A) (rev t) = []" by (auto simp: dropWhile_eq_Nil_conv)
  with True show ?thesis by (simp add: complete_lines_def)
next
  case False
  assume t: "CHR 0x0A \<notin> set t"
  obtain xs where xs: "lines_of J rs = xs @ [CHR 0x0A]" using lines_of_end [OF False] by blast
  have "dropWhile (\<lambda>c. c \<noteq> CHR 0x0A) (rev t @ CHR 0x0A # rev xs) = CHR 0x0A # rev xs"
    using t by (subst dropWhile_append2) auto
  then show ?thesis by (simp add: complete_lines_def xs)
qed

lemma split_lines_of: "list_all (reads_back J) rs \<Longrightarrow> split_on (CHR 0x0A) (lines_of J rs) = map (line_of J) rs @ [[]]"
  by (induction rs) (use reads_backD in \<open>auto simp: split_on_line\<close>)

definition record_fits :: "journal_env \<Rightarrow> journal_stream_identity \<Rightarrow> journal_record \<Rightarrow> bool" where
  "record_fits J i r \<longleftrightarrow> reads_back J r \<and> jr_version r = JOURNAL_RECORD_VERSION \<and> jr_stream r = i"

lemma replay_lines_of:
  assumes "list_all (record_fits J i) rs"
  shows "replay_lines J i (map (line_of J) rs @ [[]]) = Inr rs"
proof -
  have "trim_ascii_whitespace [] = []" by (simp add: trim_ascii_whitespace_def)
  then show ?thesis using assms by (induction rs) (use reads_backD in \<open>auto simp: record_fits_def Let_def\<close>)
qed

lemma replay_journal_lines:
  assumes "list_all (record_fits J i) rs" "CHR 0x0A \<notin> set t"
  shows "replay_journal J i (Some (lines_of J rs @ t)) = Inr ((commit_valid_prefix rs)\<lparr>rs_valid_bytes := length (lines_of J rs)\<rparr>)"
proof -
  have "list_all (reads_back J) rs" using assms(1) by (simp add: list_all_iff record_fits_def)
  then show ?thesis
    using assms by (simp add: replay_journal_def complete_lines_of split_lines_of replay_lines_of)
qed

text \<open>What is left of lines that were cut.\<close>

lemma take_lines_of:
  assumes "list_all (reads_back J) rs" "k < length (lines_of J rs)"
  shows "\<exists>m t. m < length rs \<and> take k (lines_of J rs) = lines_of J (take m rs) @ t \<and> CHR 0x0A \<notin> set t"
  using assms
proof (induction rs arbitrary: k)
  case (Cons r rs)
  let ?l = "line_of J r"
  show ?case
  proof (cases "k \<le> length ?l")
    case True
    then have "take k (lines_of J (r # rs)) = take k ?l" by simp
    moreover have "CHR 0x0A \<notin> set (take k ?l)" using Cons.prems(1) reads_backD set_take_subset by fastforce
    ultimately show ?thesis by (intro exI [of _ 0] exI [of _ "take k ?l"]) simp
  next
    case False
    then obtain k' where k: "k = length ?l + Suc k'" by (metis add_Suc_right less_imp_Suc_add not_le)
    with Cons.prems have "k' < length (lines_of J rs)" "list_all (reads_back J) rs" by auto
    from Cons.IH [OF this(2,1)] obtain m t where "m < length rs" "take k' (lines_of J rs) = lines_of J (take m rs) @ t" "CHR 0x0A \<notin> set t" by blast
    then show ?thesis by (intro exI [of _ "Suc m"] exI [of _ t]) (simp add: k)
  qed
qed simp

lemma write_journal_lines:
  assumes "list_all (reads_back J) rs"
  shows "write_journal_records J room rs f =
    (case room of
       Some k \<Rightarrow> if length (lines_of J rs) \<le> k then (f @ lines_of J rs, Inr ())
                 else (f @ take k (lines_of J rs), Inl (CIo ''write failed''))
     | None \<Rightarrow> (f @ lines_of J rs, Inr ()))"
  using assms
proof (induction rs arbitrary: room f)
  case (Cons r rs)
  have r: "record_to_vec J r = Inr (line_of J r)" using Cons.prems reads_backD by auto
  show ?case
  proof (cases room)
    case None
    with Cons r show ?thesis by (simp add: write_all_def)
  next
    case (Some k)
    let ?l = "line_of J r"
    consider "k < length ?l" | "k = length ?l" | "length ?l < k" by linarith
    then show ?thesis
    proof cases
      case 3
      then have "Suc 0 \<le> k - length ?l" by linarith
      with 3 have "write_journal_records J room (r # rs) f = write_journal_records J (Some (k - length ?l - 1)) rs (f @ ?l @ [CHR 0x0A])"
        using Some r by (simp add: write_all_def)
      moreover have "take k (lines_of J (r # rs)) = ?l @ CHR 0x0A # take (k - length ?l - 1) (lines_of J rs)"
        using 3 by (simp add: take_Cons')
      ultimately show ?thesis using Cons Some 3 by auto
    qed (use Some r in \<open>auto simp: write_all_def\<close>)
  qed
qed (auto split: option.split)

section \<open>Appends\<close>

text \<open>The journal in memory and the file hold the same whole batches.\<close>

definition journal_rel :: "journal_env \<Rightarrow> journal_stream_identity \<Rightarrow> journal_record list list \<Rightarrow> json_journal \<Rightarrow> bytes \<Rightarrow> bool" where
  "journal_rel J i ws j f \<longleftrightarrow> batches_ok 0 ws \<and> numbered ws \<and> list_all (record_fits J i) (concat ws) \<and> f = lines_of J (concat ws) \<and>
     jj_stream j = i \<and> jj_records j = concat ws \<and> jj_next_local_seq j = of_nat (length (concat ws)) \<and>
     jj_next_batch_seq j = rs_next_batch_seq (state_of ws)"

definition new_batch ::
  "json_journal \<Rightarrow> time \<Rightarrow> journal_direction \<Rightarrow> json list \<Rightarrow> string option \<Rightarrow> producer_journal_progress option \<Rightarrow> journal_record list" where
  "new_batch j now dir vals nxt producer =
     map (\<lambda>(k, v). journal_record_at j now dir (of_nat (length vals)) nxt producer k v) (enumerate 0 vals)"

lemma new_batch_simps [simp]:
  "length (new_batch j now dir vals nxt pr) = length vals" "map jr_payload (new_batch j now dir vals nxt pr) = vals"
  by (auto simp: new_batch_def journal_record_at_def split_def intro: nth_equalityI simp: nth_enumerate_eq)

lemma new_batch_nth: "k < length vals \<Longrightarrow>
    new_batch j now dir vals nxt pr ! k = journal_record_at j now dir (of_nat (length vals)) nxt pr k (vals ! k)"
  by (simp add: new_batch_def nth_enumerate_eq)

lemma new_batch_hd: "vals \<noteq> [] \<Longrightarrow>
    hd (new_batch j now dir vals nxt pr) = journal_record_at j now dir (of_nat (length vals)) nxt pr 0 (hd vals)"
  using new_batch_nth [of 0 vals j now dir nxt pr] by (metis hd_conv_nth length_0_conv length_greater_0_conv new_batch_simps(1))

lemma new_batch_whole:
  assumes "vals \<noteq> []" "length vals < 2 ^ 32" "jj_next_local_seq j = of_nat n"
  shows "whole_batch n (new_batch j now dir vals nxt pr)"
proof -
  have "unat (of_nat k :: u32) = k" if "k \<le> length vals" for k using that assms(2) by (simp add: unat_of_nat)
  moreover have "new_batch j now dir vals nxt pr \<noteq> []" using assms(1) new_batch_simps(1) by (metis length_0_conv)
  ultimately show ?thesis
    using assms by (simp add: whole_batch_def segment_def new_batch_hd new_batch_nth journal_record_at_def)
qed

lemma new_batch_numbered:
  assumes "journal_rel J i ws j f" "vals \<noteq> []"
  shows "numbered (ws @ [new_batch j now dir vals nxt pr])"
    "ws \<noteq> [] \<Longrightarrow> jr_batch_seq (hd (new_batch j now dir vals nxt pr)) \<noteq> jr_batch_seq (hd (List.last ws))"
proof -
  have seq: "jr_batch_seq (hd (new_batch j now dir vals nxt pr)) = rs_next_batch_seq (state_of ws)"
    using assms by (simp add: new_batch_hd journal_record_at_def journal_rel_def)
  show new: "jr_batch_seq (hd (new_batch j now dir vals nxt pr)) \<noteq> jr_batch_seq (hd (List.last ws))" if "ws \<noteq> []"
    using seq state_of_snoc [of "butlast ws" "List.last ws"] that by simp
  then show "numbered (ws @ [new_batch j now dir vals nxt pr])"
    using assms(1) by (auto simp: journal_rel_def numbered_def successively_append_iff)
qed

lemma new_batch_fits:
  assumes "\<forall>v\<in>set vals. \<forall>r. jr_payload r = v \<longrightarrow> reads_back J r" "jj_stream j = i"
  shows "list_all (record_fits J i) (new_batch j now dir vals nxt pr)"
proof -
  have "record_fits J i (new_batch j now dir vals nxt pr ! k)" if "k < length vals" for k
    using that assms(2) assms(1) [rule_format, OF nth_mem [OF that]] by (simp add: new_batch_nth record_fits_def journal_record_at_def)
  then show ?thesis by (simp add: list_all_length)
qed

lemma torn_take:
  assumes "whole_batch n w" "m < length w" "m \<noteq> 0"
  shows "torn_batch n (take m w)" "hd (take m w) = hd w"
proof -
  have "w \<noteq> []" "take m w \<noteq> []" using assms by auto
  then show hd: "hd (take m w) = hd w" using assms(3) by (simp add: hd_take)
  have "segment n (take m w @ drop m w)" using assms(1) by (simp add: whole_batch_def)
  then have "segment n (take m w)" by (rule segment_prefix) (rule \<open>take m w \<noteq> []\<close>)
  with hd assms(1,2) show "torn_batch n (take m w)" by (simp add: torn_batch_def whole_batch_def)
qed

definition no_open_faults :: open_faults where
  "no_open_faults = \<lparr>of_read = None, of_open = None, of_set_len = None\<rparr>"

text \<open>Opening a file of whole batches, then a piece of another, then a piece of a line.\<close>

lemma open_torn:
  assumes ws: "batches_ok 0 ws" "numbered ws" "list_all (record_fits J i) (concat ws @ p)" "CHR 0x0A \<notin> set t"
    and p: "p = [] \<or> torn_batch (length (concat ws)) p \<and> (ws \<noteq> [] \<longrightarrow> jr_batch_seq (hd p) \<noteq> jr_batch_seq (hd (List.last ws)))"
    and i: "identity_validate i = Inr ()"
  shows "journal_open J no_open_faults i (Some (lines_of J (concat ws @ p) @ t)) = (Some (lines_of J (concat ws @ p)),
    Inr \<lparr>jj_stream = i, jj_records = concat ws, jj_resume_offset = rs_resume_offset (state_of ws),
         jj_next_local_seq = of_nat (length (concat ws)), jj_next_batch_seq = rs_next_batch_seq (state_of ws)\<rparr>)"
  using replay_journal_lines [OF ws(3,4)] replays_batches [OF ws(1,2) p] i
  by (simp add: journal_open_def no_open_faults_def del: lines_of_simps)

lemma append_outcomes:
  assumes rel: "journal_rel J i ws j f" and v: "vals \<noteq> []" "length vals < 2 ^ 32"
      "\<forall>v\<in>set vals. \<forall>r. jr_payload r = v \<longrightarrow> reads_back J r"
    and a: "append_values J io now dir vals nxt pr j f = (j', f', res)"
  defines "w \<equiv> new_batch j now dir vals nxt pr"
  shows "(\<exists>m t. m < length w \<and> isl res \<and> j' = j \<and> f' = lines_of J (concat ws @ take m w) @ t \<and> CHR 0x0A \<notin> set t) \<or>
    f' = lines_of J (concat ws @ w) \<and> (isl res \<and> j' = j \<or> res = Inr w \<and> journal_rel J i (ws @ [w]) j' f')"
proof -
  have fits: "list_all (record_fits J i) w" unfolding w_def by (rule new_batch_fits) (use v(3) rel in \<open>auto simp: journal_rel_def\<close>)
  then have rb: "list_all (reads_back J) w" by (simp add: list_all_iff record_fits_def)
  have f: "f = lines_of J (concat ws)" using rel by (simp add: journal_rel_def)
  have whole: "whole_batch (length (concat ws)) w"
    unfolding w_def by (rule new_batch_whole [OF v(1,2)]) (use rel in \<open>simp add: journal_rel_def\<close>)
  have hd: "hd w = journal_record_at j now dir (of_nat (length vals)) nxt pr 0 (hd vals)" using v(1) by (simp add: w_def new_batch_hd)
  have num: "numbered (ws @ [w])" unfolding w_def by (rule new_batch_numbered [OF rel v(1)])
  show ?thesis
  proof (cases "write_journal_records J (wf_room io) w f")
    case (Pair f1 r1)
    have v': "\<not> 2 ^ 32 \<le> length vals" using v(2) by simp
    have app: "append_values J io now dir vals nxt pr j f = (case r1 of
        Inl e \<Rightarrow> (j, f1, Inl e)
      | Inr _ \<Rightarrow> if \<not> wf_sync io then (j, f1, Inl (CIo ''sync failed''))
          else (j\<lparr>jj_next_local_seq := jj_next_local_seq j + of_nat (length w), jj_next_batch_seq := jj_next_batch_seq j + 1,
                  jj_resume_offset := (case nxt of Some off \<Rightarrow> Some off | None \<Rightarrow> jj_resume_offset j),
                  jj_records := jj_records j @ w\<rparr>, f1, Inr w))"
      using Pair v(1) v' unfolding append_values_def new_batch_def [symmetric] w_def [symmetric] Let_def
      by (simp only: if_False) (simp split: sum.split)
    show ?thesis
    proof (cases r1)
      case (Inl e)
      with Pair write_journal_lines [OF rb, of "wf_room io" f] obtain k where
        "k < length (lines_of J w)" "f1 = f @ take k (lines_of J w)"
        by (auto simp: not_le split: option.splits if_splits)
      with take_lines_of [OF rb] obtain m t where "m < length w" "f1 = f @ lines_of J (take m w) @ t" "CHR 0x0A \<notin> set t" by metis
      with app a Inl f show ?thesis by auto
    next
      case (Inr u)
      with Pair write_journal_lines [OF rb, of "wf_room io" f] f have f1: "f1 = lines_of J (concat ws @ w)"
        by (auto split: option.splits if_splits)
      show ?thesis
      proof (cases "wf_sync io")
        case True
        with app a Inr f1 have j': "j' = j\<lparr>jj_next_local_seq := jj_next_local_seq j + of_nat (length w), jj_next_batch_seq := jj_next_batch_seq j + 1,
            jj_resume_offset := (case nxt of Some off \<Rightarrow> Some off | None \<Rightarrow> jj_resume_offset j), jj_records := jj_records j @ w\<rparr>"
          "f' = f1" "res = Inr w" by auto
        have "journal_rel J i (ws @ [w]) j' f'"
          using rel j' f1 num whole fits hd by (auto simp: journal_rel_def batches_ok_snoc journal_record_at_def)
        with j' f1 show ?thesis by simp
      next
        case False
        with app a Inr f1 show ?thesis by auto
      qed
    qed
  qed
qed

section \<open>Runs\<close>

text \<open>
  A journal that is created, appended to and opened again; \<open>vs\<close> are the values
  whose appends were acknowledged and \<open>off\<close> the offset that was stored with them.
  \<open>ok\<close> are the payloads that the serializer reads back.
\<close>

definition record_codec :: "journal_env \<Rightarrow> (json \<Rightarrow> bool) \<Rightarrow> bool" where
  "record_codec J ok \<longleftrightarrow> (\<forall>r. ok (jr_payload r) \<longrightarrow> reads_back J r)"

definition stored_offset :: "json list \<Rightarrow> string option \<Rightarrow> string option \<Rightarrow> string option" where
  "stored_offset vals nxt off = (if vals = [] \<or> nxt = None then off else nxt)"

inductive journal_run ::
  "journal_env \<Rightarrow> (json \<Rightarrow> bool) \<Rightarrow> journal_stream_identity \<Rightarrow> json list \<Rightarrow> string option \<Rightarrow> json_journal \<Rightarrow> bytes \<Rightarrow> bool"
  for J ok i where
  created: "journal_open J io i None = (Some f, Inr j) \<Longrightarrow> journal_run J ok i [] None j f"
| appended: "journal_run J ok i vs off j f \<Longrightarrow> list_all ok vals \<Longrightarrow>
    append_values J io now dir vals nxt pr j f = (j', f', Inr rs) \<Longrightarrow>
    journal_run J ok i (vs @ vals) (stored_offset vals nxt off) j' f'"
| reopened: "journal_run J ok i vs off j f \<Longrightarrow> journal_open J io i (Some f) = (Some f', Inr j') \<Longrightarrow>
    journal_run J ok i vs off j' f'"

definition run_inv :: "journal_env \<Rightarrow> journal_stream_identity \<Rightarrow> json list \<Rightarrow> string option \<Rightarrow> json_journal \<Rightarrow> bytes \<Rightarrow> bool" where
  "run_inv J i vs off j f \<longleftrightarrow> identity_validate i = Inr () \<and> (\<exists>ws. journal_rel J i ws j f \<and> map jr_payload (concat ws) = vs \<and>
     rs_resume_offset (state_of ws) = off)"

lemma journal_open_faultless:
  "journal_open J io i f = (f', Inr j) \<Longrightarrow> identity_validate i = Inr () \<and> journal_open J no_open_faults i f = (f', Inr j)"
  by (auto simp: journal_open_def no_open_faults_def Let_def split: sum.splits option.splits)

lemma snoc_offset: "map jr_payload w = vals \<Longrightarrow> vals \<noteq> [] \<Longrightarrow> jr_next_offset (hd w) = nxt \<Longrightarrow>
    rs_resume_offset (state_of (ws @ [w])) = stored_offset vals nxt (rs_resume_offset (state_of ws))"
  by (auto simp: stored_offset_def split: option.split)

lemma run_invariant:
  assumes "record_codec J ok" "journal_run J ok i vs off j f"
  shows "run_inv J i vs off j f"
  using assms(2)
proof induction
  case (created io f j)
  from journal_open_faultless [OF this] have i: "identity_validate i = Inr ()" "journal_open J no_open_faults i None = (Some f, Inr j)" by auto
  then have "journal_rel J i [] j f"
    by (auto simp: journal_open_def no_open_faults_def replay_journal_def replay_state_default_def journal_rel_def numbered_def)
  with i(1) show ?case by (auto simp: run_inv_def replay_state_default_def intro!: exI [of _ "[]"])
next
  case (appended vs off j f vals io now dir nxt pr j' f' rs)
  then obtain ws where ws: "identity_validate i = Inr ()" "journal_rel J i ws j f" "map jr_payload (concat ws) = vs"
    "rs_resume_offset (state_of ws) = off" by (auto simp: run_inv_def)
  show ?case
  proof (cases "vals = []")
    case True
    with appended.hyps(3) ws show ?thesis
      by (auto simp: append_values_def run_inv_def stored_offset_def journal_rel_def intro!: exI [of _ ws] split: option.splits)
  next
    case False
    have len: "length vals < 2 ^ 32" using appended.hyps(3) False by (auto simp: append_values_def not_le split: if_splits)
    have rb: "\<forall>v\<in>set vals. \<forall>r. jr_payload r = v \<longrightarrow> reads_back J r"
      using appended.hyps(2) assms(1) by (auto simp: list_all_iff record_codec_def)
    let ?w = "new_batch j now dir vals nxt pr"
    from append_outcomes [OF ws(2) False len rb appended.hyps(3)] have "journal_rel J i (ws @ [?w]) j' f'" by auto
    moreover have "rs_resume_offset (state_of (ws @ [?w])) = stored_offset vals nxt off"
      using snoc_offset [of ?w vals nxt ws] False ws(4) by (simp add: new_batch_hd journal_record_at_def)
    ultimately show ?thesis using ws(1,3) by (auto simp: run_inv_def intro!: exI [of _ "ws @ [?w]"])
  qed
next
  case (reopened vs off j f io f' j')
  then obtain ws where ws: "identity_validate i = Inr ()" "journal_rel J i ws j f" "map jr_payload (concat ws) = vs"
    "rs_resume_offset (state_of ws) = off" by (auto simp: run_inv_def)
  then have "journal_open J no_open_faults i (Some f) = (Some f, Inr \<lparr>jj_stream = i, jj_records = concat ws, jj_resume_offset = off,
         jj_next_local_seq = of_nat (length (concat ws)), jj_next_batch_seq = rs_next_batch_seq (state_of ws)\<rparr>)"
    using open_torn [of ws J i "[]" "[]"] by (auto simp: journal_rel_def simp del: lines_of_simps)
  with journal_open_faultless [OF reopened.hyps(2)] ws show ?case by (auto simp: run_inv_def journal_rel_def)
qed

end
