(* ===== verification/DS_Cl_Http.thy ===== *)
theory DS_Cl_Http
  imports DS_Cl_Sse
begin

text \<open>
  The client's operations, \<open>client/raw_ops.rs\<close>, \<open>retry.rs\<close> and \<open>auth.rs\<close>: requests,
  retries, and the reading of the answers. What is sent goes to a network
  whose state \<open>'w\<close> the definitions pass along. An operation that may wait for
  ever is \<open>None\<close> when it does.
\<close>

section \<open>Requests\<close>

datatype http_method = MPut | MPost | MGet | MHead | MDelete

type_synonym pairs = "(string \<times> string) list"

record request =
  rq_method :: http_method
  rq_url :: string
  rq_query :: pairs
  rq_headers :: pairs
  rq_body :: "bytes option"

datatype auth_config = AuthNone | AuthBearer string | AuthBasic string string | AuthHeader string string

definition auth_apply :: "env \<Rightarrow> auth_config \<Rightarrow> request \<Rightarrow> request" where
  "auth_apply E a r = (case a of
     AuthNone \<Rightarrow> r
   | AuthBearer t \<Rightarrow> r\<lparr>rq_headers := rq_headers r @ [(''authorization'', ''Bearer '' @ t)]\<rparr>
   | AuthBasic u p \<Rightarrow> r\<lparr>rq_headers := rq_headers r @ [(''authorization'', ''Basic '' @ base64_encode E (u @ '':'' @ p))]\<rparr>
   | AuthHeader n v \<Rightarrow> r\<lparr>rq_headers := rq_headers r @ [(n, v)]\<rparr>)"

definition auth_validate :: "auth_config \<Rightarrow> client_error + unit" where
  "auth_validate a = (case a of
     AuthBearer t \<Rightarrow> if trim t = [] then Inl (CInvalidArgument ''auth bearer token must not be empty'') else Inr ()
   | AuthBasic u _ \<Rightarrow> if trim u = [] then Inl (CInvalidArgument ''auth basic username must not be empty'') else Inr ()
   | AuthHeader n v \<Rightarrow> if trim n = [] then Inl (CInvalidArgument ''auth header name must not be empty'')
       else if trim v = [] then Inl (CInvalidArgument ''auth header value must not be empty'') else Inr ()
   | AuthNone \<Rightarrow> Inr ())"

text \<open>
  The client: the part of its configuration that requests depend on, and the
  libraries it calls, the joining of URLs and the standard text of a status.
\<close>

record client =
  cl_env :: env
  cl_base_url :: string
  cl_query :: pairs
  cl_headers :: pairs
  cl_auth :: auth_config
  cl_max_retries :: nat
  cl_url_join :: "string \<Rightarrow> string \<Rightarrow> string + string"
  cl_phrase :: "nat \<Rightarrow> string option"
  cl_decode64 :: "bytes \<Rightarrow> string + bytes"

record request_options =
  ro_headers :: pairs
  ro_query :: pairs

definition stream_url :: "client \<Rightarrow> string \<Rightarrow> request_options \<Rightarrow> client_error + (string \<times> pairs)" where
  "stream_url C path opts = (case cl_url_join C (cl_base_url C) (dropWhile (\<lambda>c. c = CHR ''/'') path) of
     Inl e \<Rightarrow> Inl (CUrl e)
   | Inr url \<Rightarrow> Inr (url, cl_query C @ ro_query opts))"

text \<open>\<open>request\<close>: the default headers, those of the call, authentication.\<close>

definition build_request :: "client \<Rightarrow> http_method \<Rightarrow> string \<times> pairs \<Rightarrow> request_options \<Rightarrow> request" where
  "build_request C m u opts = auth_apply (cl_env C) (cl_auth C)
     \<lparr>rq_method = m, rq_url = fst u, rq_query = snd u, rq_headers = cl_headers C @ ro_headers opts, rq_body = None\<rparr>"

definition add_headers :: "pairs \<Rightarrow> request \<Rightarrow> request" where
  "add_headers hs r = r\<lparr>rq_headers := rq_headers r @ hs\<rparr>"

definition add_body :: "bytes \<Rightarrow> request \<Rightarrow> request" where
  "add_body b r = r\<lparr>rq_body := Some b\<rparr>"

section \<open>The network and retries\<close>

text \<open>
  Sending a request; sending it under a time limit (\<open>None\<close>: the limit passed);
  the same with the body as the chunks it arrives in.
\<close>

record 'w network =
  nw_send :: "request \<Rightarrow> 'w \<Rightarrow> 'w \<times> (transport_error + http_response)"
  nw_send_within :: "nat \<Rightarrow> request \<Rightarrow> 'w \<Rightarrow> 'w \<times> (transport_error + http_response) option"
  nw_stream :: "request \<Rightarrow> 'w \<Rightarrow> 'w \<times> (transport_error + (http_response \<times> (transport_error + bytes) list))"
  nw_stream_within :: "nat \<Rightarrow> request \<Rightarrow> 'w \<Rightarrow> 'w \<times> (transport_error + (http_response \<times> (transport_error + bytes) list)) option"

type_synonym ('w, 'a) action = "'w \<Rightarrow> ('w \<times> (client_error + 'a)) option"

text \<open>\<open>RetryPolicy::run\<close> with the number of retries that are left; the delays between them are not modelled.\<close>

fun retry_run :: "nat \<Rightarrow> ('w, 'a) action \<Rightarrow> ('w, 'a) action" where
  "retry_run left operation w = (case operation w of
     Some (w', Inl e) \<Rightarrow>
       (case left of
          Suc n \<Rightarrow> if is_retryable e then retry_run n operation w' else Some (w', Inl e)
        | 0 \<Rightarrow> Some (w', Inl e))
   | r \<Rightarrow> r)"

declare retry_run.simps [simp del]

definition require :: "client \<Rightarrow> (nat \<Rightarrow> bool) \<Rightarrow> http_response \<Rightarrow> client_error + http_response" where
  "require C wanted r = (if wanted (hr_status r) then Inr r else Inl (CHttp (response_error (cl_phrase C) r)))"

definition is_success :: "nat \<Rightarrow> bool" where
  "is_success st \<longleftrightarrow> 200 \<le> st \<and> st < 300"

definition send_request :: "client \<Rightarrow> 'w network \<Rightarrow> (nat \<Rightarrow> bool) \<Rightarrow> request \<Rightarrow> 'w \<Rightarrow> 'w \<times> (client_error + http_response)" where
  "send_request C N wanted rq w = (case nw_send N rq w of
     (w', Inl e) \<Rightarrow> (w', Inl (CTransport e))
   | (w', Inr r) \<Rightarrow> (w', require C wanted r))"

definition send_retrying_request :: "client \<Rightarrow> 'w network \<Rightarrow> (nat \<Rightarrow> bool) \<Rightarrow> request \<Rightarrow> ('w, http_response) action" where
  "send_retrying_request C N wanted rq = retry_run (cl_max_retries C) (\<lambda>w. Some (send_request C N wanted rq w))"

text \<open>What follows the sending: the rest of an operation works on the answer alone.\<close>

definition answer :: "('w, 'a) action \<Rightarrow> ('a \<Rightarrow> client_error + 'b) \<Rightarrow> ('w, 'b) action" where
  "answer act f w = map_option (\<lambda>(w', r). (w', case r of Inl e \<Rightarrow> Inl e | Inr a \<Rightarrow> f a)) (act w)"

definition with_url :: "client_error + (string \<times> pairs) \<Rightarrow> (string \<times> pairs \<Rightarrow> ('w, 'a) action) \<Rightarrow> ('w, 'a) action" where
  "with_url u act w = (case u of Inl e \<Rightarrow> Some (w, Inl e) | Inr x \<Rightarrow> act x w)"

section \<open>Operations\<close>

record create_stream_request =
  cq_content_type :: string
  cq_ttl_seconds :: "u64 option"
  cq_expires_at :: "string option"
  cq_closed :: bool
  cq_body :: "bytes option"
  cq_options :: request_options

record create_stream_response =
  cs_status :: nat
  cs_next_offset :: "string option"
  cs_stream_closed :: bool

definition opt_header :: "string \<Rightarrow> string option \<Rightarrow> pairs" where
  "opt_header n v = (case v of Some x \<Rightarrow> [(n, x)] | None \<Rightarrow> [])"

definition opt_body :: "bytes option \<Rightarrow> request \<Rightarrow> request" where
  "opt_body b r = (case b of Some x \<Rightarrow> add_body x r | None \<Rightarrow> r)"

definition create_raw :: "client \<Rightarrow> 'w network \<Rightarrow> string \<Rightarrow> create_stream_request \<Rightarrow> ('w, create_stream_response) action" where
  "create_raw C N path q = with_url (stream_url C path (cq_options q)) (\<lambda>u.
     answer (send_retrying_request C N (\<lambda>st. st \<in> {200, 201})
       (opt_body (cq_body q) (add_headers
         ([(''content-type'', cq_content_type q)] @ opt_header ''stream-ttl'' (map_option u64_to_string (cq_ttl_seconds q))
          @ opt_header ''stream-expires-at'' (cq_expires_at q) @ (if cq_closed q then [(''stream-closed'', ''true'')] else []))
         (build_request C MPut u (cq_options q)))))
     (\<lambda>r. Inr \<lparr>cs_status = hr_status r, cs_next_offset = header_value r ''stream-next-offset'',
        cs_stream_closed = parse_bool_header r ''stream-closed''\<rparr>))"

record producer_fields =
  pf_id :: string
  pf_epoch :: int
  pf_seq :: int

text \<open>\<open>i64::to_string\<close>.\<close>

definition i64_to_string :: "int \<Rightarrow> string" where
  "i64_to_string k = (if k < 0 then ''-'' @ nat_to_string (nat (- k)) else nat_to_string (nat k))"

definition producer_pairs :: "producer_fields option \<Rightarrow> pairs" where
  "producer_pairs p = (case p of None \<Rightarrow> []
   | Some f \<Rightarrow> [(''producer-id'', pf_id f), (''producer-epoch'', i64_to_string (pf_epoch f)), (''producer-seq'', i64_to_string (pf_seq f))])"

record append_response =
  ap_status :: nat
  ap_next_offset :: "string option"
  ap_stream_closed :: bool
  ap_producer_epoch :: "int option"
  ap_producer_seq :: "int option"

definition append_request ::
  "client \<Rightarrow> request_options \<Rightarrow> string option \<Rightarrow> string option \<Rightarrow> producer_fields option \<Rightarrow> bytes \<Rightarrow> string \<times> pairs \<Rightarrow> request" where
  "append_request C opts ct sq p body u = add_body body
     (add_headers (opt_header ''content-type'' ct @ opt_header ''stream-seq'' sq @ producer_pairs p) (build_request C MPost u opts))"

definition append_parts ::
  "client \<Rightarrow> 'w network \<Rightarrow> string \<Rightarrow> request_options \<Rightarrow> string option \<Rightarrow> string option \<Rightarrow> producer_fields option \<Rightarrow> bytes \<Rightarrow>
   ('w, append_response) action" where
  "append_parts C N path opts ct sq p body = with_url (stream_url C path opts) (\<lambda>u.
     answer (send_retrying_request C N (\<lambda>st. st \<in> {200, 204}) (append_request C opts ct sq p body u))
     (\<lambda>r. Inr \<lparr>ap_status = hr_status r, ap_next_offset = header_value r ''stream-next-offset'',
        ap_stream_closed = parse_bool_header r ''stream-closed'', ap_producer_epoch = parse_i64_header r ''producer-epoch'',
        ap_producer_seq = parse_i64_header r ''producer-seq''\<rparr>))"

record close_stream_response =
  cr_status :: nat
  cr_final_offset :: string
  cr_stream_closed :: bool

definition close_parts ::
  "client \<Rightarrow> 'w network \<Rightarrow> string \<Rightarrow> request_options \<Rightarrow> string option \<Rightarrow> producer_fields option \<Rightarrow> bytes option \<Rightarrow>
   ('w, close_stream_response) action" where
  "close_parts C N path opts ct p body = with_url (stream_url C path opts) (\<lambda>u.
     answer (send_retrying_request C N (\<lambda>st. st \<in> {200, 204})
       (opt_body body (add_headers ([(''stream-closed'', ''true'')] @ opt_header ''content-type'' ct @ producer_pairs p) (build_request C MPost u opts))))
     (\<lambda>r. case header_value r ''stream-next-offset'' of
        None \<Rightarrow> Inl (CParse ''missing Stream-Next-Offset header'')
      | Some off \<Rightarrow> if off = [] then Inl (CParse ''empty Stream-Next-Offset header'')
          else Inr \<lparr>cr_status = hr_status r, cr_final_offset = off, cr_stream_closed = parse_bool_header r ''stream-closed''\<rparr>))"

record head_response =
  hd_status :: nat
  hd_offset :: "string option"
  hd_content_type :: "string option"
  hd_ttl_seconds :: "u64 option"
  hd_expires_at :: "string option"
  hd_stream_closed :: bool
  hd_etag :: "string option"

definition head_once :: "client \<Rightarrow> 'w network \<Rightarrow> string \<Rightarrow> request_options \<Rightarrow> ('w, head_response) action" where
  "head_once C N path opts = with_url (stream_url C path opts) (\<lambda>u.
     answer (\<lambda>w. Some (send_request C N is_success (build_request C MHead u opts) w))
     (\<lambda>r. Inr \<lparr>hd_status = hr_status r, hd_offset = header_value r ''stream-next-offset'', hd_content_type = header_value r ''content-type'',
        hd_ttl_seconds = (case header_value r ''stream-ttl'' of Some v \<Rightarrow> (case parse_u64 v of Inr k \<Rightarrow> Some k | Inl _ \<Rightarrow> None) | None \<Rightarrow> None),
        hd_expires_at = header_value r ''stream-expires-at'', hd_stream_closed = parse_bool_header r ''stream-closed'',
        hd_etag = header_value r ''etag''\<rparr>))"

record connect_response =
  cn_status :: nat
  cn_offset :: "string option"
  cn_content_type :: "string option"
  cn_stream_closed :: bool

definition connect_raw :: "client \<Rightarrow> 'w network \<Rightarrow> string \<Rightarrow> request_options \<Rightarrow> ('w, connect_response) action" where
  "connect_raw C N path opts = answer (head_once C N path opts)
     (\<lambda>h. Inr \<lparr>cn_status = hd_status h, cn_offset = hd_offset h, cn_content_type = hd_content_type h, cn_stream_closed = hd_stream_closed h\<rparr>)"

definition delete_raw :: "client \<Rightarrow> 'w network \<Rightarrow> string \<Rightarrow> request_options \<Rightarrow> ('w, nat) action" where
  "delete_raw C N path opts = with_url (stream_url C path opts) (\<lambda>u.
     answer (\<lambda>w. Some (send_request C N (\<lambda>st. st \<in> {200, 204}) (build_request C MDelete u opts) w)) (\<lambda>r. Inr (hr_status r)))"

end
