(* ===== verification/DS_Cl_Producer.thy ===== *)
theory DS_Cl_Producer
  imports DS_Cl_Http
begin

text \<open>
  The client's idempotent producer, \<open>idempotent.rs\<close>: it numbers its appends and
  may claim a new epoch when it is fenced.
\<close>

record producer_local =
  pl_epoch :: int
  pl_next_seq :: int
  pl_closed :: bool
  pl_acked_server_offset :: "string option"

record idempotent_producer_config =
  ip_producer_id :: string
  ip_epoch :: int
  ip_auto_claim :: bool
  ip_max_batch_bytes :: nat
  ip_max_batch_items :: "nat option"

definition producer_config_validate :: "idempotent_producer_config \<Rightarrow> client_error + unit" where
  "producer_config_validate c =
     (if trim (ip_producer_id c) = [] then Inl (CInvalidArgument ''producerId must not be empty'')
      else if ip_epoch c < 0 then Inl (CInvalidArgument ''epoch must not be negative'')
      else if ip_max_batch_bytes c = 0 then Inl (CInvalidArgument ''maxBatchBytes must be greater than zero'')
      else if ip_max_batch_items c = Some 0 then Inl (CInvalidArgument ''maxBatchItems must be greater than zero'')
      else Inr ())"

text \<open>The part of \<open>IdempotentProducer\<close> that does not change.\<close>

record idempotent_producer =
  id_client :: client
  id_path :: string
  id_content_type :: string
  id_options :: request_options
  id_config :: idempotent_producer_config

definition producer_new ::
  "client \<Rightarrow> string \<Rightarrow> string \<Rightarrow> request_options \<Rightarrow> idempotent_producer_config \<Rightarrow> client_error + (idempotent_producer \<times> producer_local)" where
  "producer_new C path ct opts c = (case producer_config_validate c of
     Inl e \<Rightarrow> Inl e
   | Inr _ \<Rightarrow> Inr (\<lparr>id_client = C, id_path = path, id_content_type = ct, id_options = opts, id_config = c\<rparr>,
       \<lparr>pl_epoch = ip_epoch c, pl_next_seq = 0, pl_closed = False, pl_acked_server_offset = None\<rparr>))"

definition producer_fields_of :: "idempotent_producer \<Rightarrow> producer_local \<Rightarrow> producer_fields" where
  "producer_fields_of P st = \<lparr>pf_id = ip_producer_id (id_config P), pf_epoch = pl_epoch st, pf_seq = pl_next_seq st\<rparr>"

text \<open>\<open>i64\<close> addition, as a release build wraps it.\<close>

definition i64_add :: "int \<Rightarrow> int \<Rightarrow> int" where
  "i64_add a b = (a + b + 2 ^ 63) mod 2 ^ 64 - 2 ^ 63"

definition claim_epoch :: "http_error \<Rightarrow> producer_local \<Rightarrow> producer_local" where
  "claim_epoch e st = st\<lparr>pl_epoch := i64_add (case he_producer_epoch e of Some k \<Rightarrow> k | None \<Rightarrow> pl_epoch st) 1, pl_next_seq := 0\<rparr>"

text \<open>The loop of \<open>append_with_state\<close> and \<open>close_with_state\<close>: one more attempt after a fencing answer, when that is allowed.\<close>

definition with_claim ::
  "idempotent_producer \<Rightarrow> (producer_fields \<Rightarrow> ('w, 'a) action) \<Rightarrow> producer_local \<Rightarrow> 'w \<Rightarrow> ('w \<times> producer_local \<times> (client_error + 'a)) option" where
  "with_claim P act st w = Option.bind (act (producer_fields_of P st) w) (\<lambda>(w', res).
     case res of
       Inl (CHttp e) \<Rightarrow>
         if ip_auto_claim (id_config P) \<and> he_kind e = KForbidden then
           (let st' = claim_epoch e st in
            map_option (\<lambda>(w'', res'). (w'', st', res')) (act (producer_fields_of P st') w'))
         else Some (w', st, Inl (CHttp e))
     | r \<Rightarrow> Some (w', st, r))"

definition producer_append ::
  "idempotent_producer \<Rightarrow> 'w network \<Rightarrow> bytes \<Rightarrow> producer_local \<Rightarrow> 'w \<Rightarrow> ('w \<times> producer_local \<times> (client_error + append_response)) option" where
  "producer_append P N body st w = map_option (\<lambda>(w', st', res). case res of
       Inl e \<Rightarrow> (w', st', Inl e)
     | Inr r \<Rightarrow> (w', st'\<lparr>pl_acked_server_offset := ap_next_offset r, pl_next_seq := i64_add (pl_next_seq st') 1\<rparr>, Inr r))
     (with_claim P (\<lambda>f. append_parts (id_client P) N (id_path P) (id_options P) (Some (id_content_type P)) None (Some f) body) st w)"

text \<open>The body of a batch: a JSON array of the values, or the bytes one after the other.\<close>

fun parse_bodies :: "env \<Rightarrow> bytes list \<Rightarrow> client_error + json list" where
  "parse_bodies E [] = Inr []"
| "parse_bodies E (b # bs) = (case from_slice E b of
     Inl e \<Rightarrow> Inl (CJson e)
   | Inr v \<Rightarrow> map_sum id (\<lambda>vs. v # vs) (parse_bodies E bs))"

definition batch_body :: "env \<Rightarrow> string \<Rightarrow> bytes list \<Rightarrow> client_error + bytes" where
  "batch_body E ct bs = (if strip_prefix ''application/json'' ct \<noteq> None then map_sum id (\<lambda>vs. to_vec E (JArray vs)) (parse_bodies E bs)
     else Inr (concat bs))"

definition producer_append_batch ::
  "idempotent_producer \<Rightarrow> 'w network \<Rightarrow> bytes list \<Rightarrow> producer_local \<Rightarrow> 'w \<Rightarrow> ('w \<times> producer_local \<times> (client_error + append_response)) option" where
  "producer_append_batch P N bs st w = (case batch_body (cl_env (id_client P)) (id_content_type P) bs of
     Inl e \<Rightarrow> Some (w, st, Inl e)
   | Inr body \<Rightarrow> producer_append P N body st w)"

definition append_json_values ::
  "idempotent_producer \<Rightarrow> 'w network \<Rightarrow> json list \<Rightarrow> producer_local \<Rightarrow> 'w \<Rightarrow> ('w \<times> producer_local \<times> (client_error + append_response)) option" where
  "append_json_values P N vs st w =
     (if strip_prefix ''application/json'' (id_content_type P) = None then
        Some (w, st, Inl (CInvalidArgument ''append_json_values requires an application/json content type''))
      else producer_append P N (to_vec (cl_env (id_client P)) (JArray vs)) st w)"

definition producer_close ::
  "idempotent_producer \<Rightarrow> 'w network \<Rightarrow> bytes option \<Rightarrow> producer_local \<Rightarrow> 'w \<Rightarrow> ('w \<times> producer_local \<times> (client_error + close_stream_response)) option" where
  "producer_close P N body st w =
     (let act = (\<lambda>f. close_parts (id_client P) N (id_path P) (id_options P) (Some (id_content_type P)) (Some f) body) in
      if pl_closed st then map_option (\<lambda>(w', res). (w', st, case res of
          Inl (CHttp e) \<Rightarrow> if he_kind e \<in> {KConflict, KStreamClosed}
            then Inr \<lparr>cr_status = 200, cr_final_offset = (case he_next_offset e of Some off \<Rightarrow> off | None \<Rightarrow> []), cr_stream_closed = True\<rparr>
            else Inl (CHttp e)
        | r \<Rightarrow> r)) (act (producer_fields_of P st) w)
      else map_option (\<lambda>(w', st', res). case res of
          Inl e \<Rightarrow> (w', st', Inl e)
        | Inr r \<Rightarrow> (w', st'\<lparr>pl_acked_server_offset := Some (cr_final_offset r), pl_closed := True\<rparr>, Inr r))
        (with_claim P act st w))"

end
