(* ===== verification/DS_Cl_Once.thy ===== *)
theory DS_Cl_Once
  imports DS_Cl_Producer DS_Prop_Http
begin

text \<open>
  The client's producer and the server's POST handler together, over a network
  that may lose a request or its answer: an append that is acknowledged has
  been stored once, however often it was sent.
\<close>

section \<open>The network\<close>

text \<open>Names of headers do not distinguish case; a server looks at the first value of a name.\<close>

definition wire_headers :: "pairs \<Rightarrow> header_map" where
  "wire_headers hs n = map_option (\<lambda>p. Some (snd p)) (find (\<lambda>p. eq_ignore_ascii_case (fst p) n) hs)"

definition protocol_headers :: "string list" where
  "protocol_headers = [''content-type'', ''etag'', ''stream-sse-data-encoding'', ''Stream-Next-Offset'', ''Stream-Closed'',
     ''Stream-Up-To-Date'', ''Stream-Cursor'', ''Producer-Epoch'', ''Producer-Seq'', ''Producer-Expected-Seq'', ''Producer-Received-Seq'']"

definition wire_response :: "response \<Rightarrow> http_response" where
  "wire_response resp = \<lparr>hr_status = rs_status resp,
     hr_headers = (\<lambda>n. Option.bind (find (\<lambda>k. to_lowercase k = n) protocol_headers) (rs_headers resp)),
     hr_body = Inr (case rs_body resp of Some b \<Rightarrow> b | None \<Rightarrow> [])\<rparr>"

definition wire_answer :: "env \<Rightarrow> response problem_result \<Rightarrow> http_response" where
  "wire_answer E res = wire_response (case res of Inl p \<Rightarrow> problem_into_response E p | Inr r \<Rightarrow> r)"

datatype link = Lost transport_error | ReplyLost transport_error | Delivered

text \<open>A server with one stream to post to; \<open>k\<close> counts the requests, each with its own clock and its own luck.\<close>

record post_server =
  ps_env_at :: "nat \<Rightarrow> env"
  ps_link :: "nat \<Rightarrow> link"
  ps_limit :: nat
  ps_name :: string
  ps_uri :: string

definition post_send :: "post_server \<Rightarrow> request \<Rightarrow> mem \<times> nat \<Rightarrow> (mem \<times> nat) \<times> (transport_error + http_response)" where
  "post_send V rq w = (case w of (s, k) \<Rightarrow>
     (case append_data (ps_env_at V k) None (ps_limit V) (ps_name V) (ps_uri V) (wire_headers (rq_headers rq))
             (BodyBytes (case rq_body rq of Some b \<Rightarrow> b | None \<Rightarrow> [])) s of
        (s', res) \<Rightarrow>
        (case ps_link V k of
           Lost e \<Rightarrow> ((s, Suc k), Inl e)
         | ReplyLost e \<Rightarrow> ((s', Suc k), Inl e)
         | Delivered \<Rightarrow> ((s', Suc k), Inr (wire_answer (ps_env_at V k) res)))))"

section \<open>One append, before and after it is stored\<close>

definition unsent :: "u64 \<Rightarrow> u64 \<Rightarrow> producer_state option \<Rightarrow> bool" where
  "unsent ep q st \<longleftrightarrow> (case st of None \<Rightarrow> True | Some x \<Rightarrow> \<not> (ps_epoch x = ep \<and> q \<le> ps_last_seq x))"

definition outstanding :: "string \<Rightarrow> producer_headers \<Rightarrow> message list \<Rightarrow> u64 \<Rightarrow> bytes list \<Rightarrow> mem \<Rightarrow> bool" where
  "outstanding n p L r msgs s \<longleftrightarrow> mem_inv s \<and> log_of s n L \<and> batch_fits s n msgs \<and>
     (\<exists>e. get_stream s n = Some e \<and> se_next_read_seq e = r \<and> unsent (prod_epoch p) (prod_seq p) (se_producers e (prod_id p)))"

text \<open>Stored, at a time that no later request takes for long ago.\<close>

definition recorded :: "(nat \<Rightarrow> env) \<Rightarrow> string \<Rightarrow> producer_headers \<Rightarrow> message list \<Rightarrow> u64 \<Rightarrow> bytes list \<Rightarrow> mem \<Rightarrow> bool" where
  "recorded Es n p L r msgs s \<longleftrightarrow> mem_inv s \<and> (\<exists>M. log_of s n (L @ M) \<and> map msg_data M = msgs) \<and>
     (\<exists>e st. get_stream s n = Some e \<and> se_next_read_seq e = r + of_nat (length msgs) \<and> se_producers e (prod_id p) = Some st \<and>
        ps_epoch st = prod_epoch p \<and> ps_last_seq st = prod_seq p \<and>
        (\<forall>k. minus_seconds (Es k) (now_at (Es k) 1) PRODUCER_STATE_TTL_SECS < ps_updated_at st))"

text \<open>All requests fall within the seven days for which a producer is remembered.\<close>

definition within_memory :: "(nat \<Rightarrow> env) \<Rightarrow> bool" where
  "within_memory Es \<longleftrightarrow> (\<forall>i k. minus_seconds (Es i) (now_at (Es i) 1) PRODUCER_STATE_TTL_SECS < now_at (Es k) 2)"

lemma unsent_cleanup: "unsent ep q (ps i) \<Longrightarrow> unsent ep q (cleanup_stale_producers E t ps i)"
  by (auto simp: unsent_def cleanup_stale_producers_def Let_def split: option.splits)

lemma batch_fits_extends:
  assumes "extends s s' n []" "batch_fits s n msgs"
  shows "batch_fits s' n msgs"
  using assms by (auto simp: extends_def batch_fits_def)

lemma log_extends_nothing:
  assumes "mem_inv s" "extends s s' n []" "get_stream s n = Some e" "log_of s n L"
  shows "log_of s' n L"
  using extends_log [OF assms(1-3) _ assms(4)] by simp

lemma outstanding_rejected:
  assumes "outstanding n p L r msgs s" "append_with_producer E s n msgs ct p cl sq = (s', Inl er)"
  shows "outstanding n p L r msgs s'"
proof -
  obtain e where e: "mem_inv s" "log_of s n L" "batch_fits s n msgs" "get_stream s n = Some e" "se_next_read_seq e = r"
    "unsent (prod_epoch p) (prod_seq p) (se_producers e (prod_id p))" using assms(1) by (auto simp: outstanding_def)
  have x: "extends s s' n []" using append_with_producer_extends [OF assms(2) e(4)] by (simp add: producer_payload_def)
  note kept = append_with_producer_inv [OF e(1,3) assms(2)] log_extends_nothing [OF e(1) x e(4,2)] batch_fits_extends [OF x e(3)]
  from append_with_producer_Inl [OF assms(2)] e(4-6) unsent_cleanup [of _ _ "se_producers e" "prod_id p"]
  have "\<exists>e'. get_stream s' n = Some e' \<and> se_next_read_seq e' = r \<and> unsent (prod_epoch p) (prod_seq p) (se_producers e' (prod_id p))" by auto
  with kept show ?thesis by (simp add: outstanding_def)
qed

lemma outstanding_stored:
  assumes "outstanding n p L r msgs s" "append_with_producer (Es k) s n msgs ct p cl sq = (s', Inr a)" "within_memory Es"
  shows "recorded Es n p L r msgs s'"
proof -
  obtain e where e: "mem_inv s" "log_of s n L" "batch_fits s n msgs" "get_stream s n = Some e" "se_next_read_seq e = r"
    "unsent (prod_epoch p) (prod_seq p) (se_producers e (prod_id p))" using assms(1) by (auto simp: outstanding_def)
  note inv = append_with_producer_inv [OF e(1,3) assms(2)]
  from assms(2) show ?thesis
  proof (cases rule: append_with_producer_Inr)
    case (dup e1 e0 ep q)
    then have "unsent (prod_epoch p) (prod_seq p) (se_producers e0 (prod_id p))" using e(4,6) unsent_cleanup by simp
    with dup(3) show ?thesis by (auto simp: unsent_def check_producer_def split: option.splits if_splits)
  next
    case (acc e1 e0 pending c' ch s1 e2)
    have "unat (se_next_read_seq e) + length msgs < 2 ^ 64" using e(3,4) by (simp add: batch_fits_def)
    moreover have x: "extends s s' n msgs" using append_with_producer_extends [OF assms(2) e(4)] acc(8) by (simp add: producer_payload_def)
    ultimately have "log_of s' n (L @ log_from (se_next_read_seq e) (se_next_byte_offset e) msgs)"
      using extends_log [OF e(1) _ e(4) _ e(2)] by simp
    then have "\<exists>M. log_of s' n (L @ M) \<and> map msg_data M = msgs" by (auto intro!: exI)
    moreover obtain y where y: "get_stream s' n = Some y" "se_next_read_seq y = r + of_nat (length msgs)"
      using x e(4,5) by (auto simp: extends_def)
    moreover have "\<exists>st. se_producers y (prod_id p) = Some st \<and> ps_epoch st = prod_epoch p \<and>
        ps_last_seq st = prod_seq p \<and> (\<forall>i. minus_seconds (Es i) (now_at (Es i) 1) PRODUCER_STATE_TTL_SECS < ps_updated_at st)"
      using y(1) acc(7) assms(3) by (auto simp: within_memory_def)
    ultimately show ?thesis using inv by (simp add: recorded_def)
  qed
qed

lemma recorded_again:
  assumes "recorded Es n p L r msgs s" "append_with_producer (Es k) s n msgs' ct p cl sq = (s', a)"
  shows "recorded Es n p L r msgs s'"
proof -
  obtain M e st where e: "mem_inv s" "log_of s n (L @ M)" "map msg_data M = msgs" "get_stream s n = Some e"
    "se_producers e (prod_id p) = Some st" "ps_epoch st = prod_epoch p" "ps_last_seq st = prod_seq p"
    "\<forall>k. minus_seconds (Es k) (now_at (Es k) 1) PRODUCER_STATE_TTL_SECS < ps_updated_at st"
    "se_next_read_seq e = r + of_nat (length msgs)"
    using assms(1) by (auto simp: recorded_def)
  let ?ps = "cleanup_stale_producers (Es k) (now_at (Es k) 1) (se_producers e)"
  have ps: "?ps (prod_id p) = Some st" using e(5,8) by (simp add: cleanup_stale_producers_def)
  have cleaned: "s' = s \<or> s' = set_stream n (e\<lparr>se_producers := ?ps\<rparr>) s \<and> extends s s' n []"
  proof (cases a)
    case (Inl er)
    with append_with_producer_Inl [of "Es k" s n msgs' ct p cl sq s' er] assms(2) e(4) show ?thesis by (auto intro: extends_meta)
  next
    case (Inr b)
    with assms(2) have "append_with_producer (Es k) s n msgs' ct p cl sq = (s', Inr b)" by simp
    then show ?thesis
    proof (cases rule: append_with_producer_Inr)
      case (dup e1 e0 ep q)
      with e(4) show ?thesis by (auto intro: extends_meta)
    next
      case (acc e1 e0 pending c' ch s1 e2)
      with e(4,6,7) ps show ?thesis by (simp add: check_producer_def)
    qed
  qed
  then show ?thesis
  proof
    assume s': "s' = set_stream n (e\<lparr>se_producers := ?ps\<rparr>) s \<and> extends s s' n []"
    then have "mem_inv s'" "log_of s' n (L @ M)" using producers_update_inv [OF e(1,4)] log_extends_nothing [OF e(1) _ e(4,2)] by auto
    moreover have "get_stream s' n = Some (e\<lparr>se_producers := ?ps\<rparr>)" using s' by simp
    ultimately show ?thesis using e(3,6-9) ps by (auto simp: recorded_def)
  qed (use assms(1) in simp)
qed

section \<open>Requests on the wire\<close>

text \<open>Headers that do not get in the way of the protocol's.\<close>

definition reserved_headers :: "string list" where
  "reserved_headers = [''content-type'', ''producer-id'', ''producer-epoch'', ''producer-seq'', ''stream-closed'', ''stream-seq'']"

definition plain_headers :: "pairs \<Rightarrow> bool" where
  "plain_headers hs \<longleftrightarrow> list_all (\<lambda>p. to_lowercase (fst p) \<notin> set reserved_headers) hs"

lemma eq_ignore_ascii_case_lower: "eq_ignore_ascii_case a b \<longleftrightarrow> to_lowercase a = to_lowercase b"
  by (simp add: eq_ignore_ascii_case_def to_lowercase_def)

lemma wire_headers_skip:
  "plain_headers hs \<Longrightarrow> to_lowercase n \<in> set reserved_headers \<Longrightarrow> wire_headers (hs @ xs) n = wire_headers xs n"
  by (induction hs) (auto simp: wire_headers_def plain_headers_def eq_ignore_ascii_case_lower)

lemma lower_names:
  "to_lowercase ''content-type'' = ''content-type''" "to_lowercase ''Producer-Id'' = ''producer-id''" "to_lowercase ''Producer-Epoch'' = ''producer-epoch''"
  "to_lowercase ''Producer-Seq'' = ''producer-seq''" "to_lowercase ''Stream-Closed'' = ''stream-closed''" "to_lowercase ''Stream-Seq'' = ''stream-seq''"
  "to_lowercase ''producer-id'' = ''producer-id''" "to_lowercase ''producer-epoch'' = ''producer-epoch''" "to_lowercase ''producer-seq'' = ''producer-seq''"
  by code_simp+

definition produced_headers :: "string \<Rightarrow> string \<Rightarrow> string \<Rightarrow> string \<Rightarrow> pairs" where
  "produced_headers ct i a b = [(''content-type'', ct), (''producer-id'', i), (''producer-epoch'', a), (''producer-seq'', b)]"

lemma produced_on_wire:
  assumes "plain_headers hs" "h = wire_headers (hs @ produced_headers ct i a b)"
  shows "header_str h ''content-type'' = Some ct" "header_str h ''Producer-Id'' = Some i" "header_str h ''Producer-Epoch'' = Some a"
    "header_str h ''Producer-Seq'' = Some b" "header_str h ''Stream-Closed'' = None" "header_str h ''Stream-Seq'' = None"
proof -
  have skip: "h n = wire_headers (produced_headers ct i a b) n" if "to_lowercase n \<in> set reserved_headers" for n
    unfolding assms(2) by (rule wire_headers_skip [OF assms(1) that])
  note look = skip header_str_def reserved_headers_def produced_headers_def wire_headers_def eq_ignore_ascii_case_lower lower_names
  show "header_str h ''content-type'' = Some ct" by (simp add: look)
  show "header_str h ''Producer-Id'' = Some i" by (simp add: look)
  show "header_str h ''Producer-Epoch'' = Some a" by (simp add: look)
  show "header_str h ''Producer-Seq'' = Some b" by (simp add: look)
  show "header_str h ''Stream-Closed'' = None" by (simp add: look)
  show "header_str h ''Stream-Seq'' = None" by (simp add: look)
qed

lemma parse_printed: "parse_non_negative_int (u64_to_string w) h = Inr v \<Longrightarrow> v = w"
  by (auto simp: parse_non_negative_int_def Let_def split: if_splits sum.splits)

lemma produced_parsed:
  assumes "plain_headers hs" "parse_producer_headers (wire_headers (hs @ produced_headers ct i (u64_to_string ep) (u64_to_string q))) = Inr x"
  shows "x = Some \<lparr>prod_id = i, prod_epoch = ep, prod_seq = q\<rparr>"
  using assms(2) parse_printed
  by (auto simp: parse_producer_headers_def produced_on_wire [OF assms(1) refl] split: if_splits sum.splits)

section \<open>One request\<close>

lemma problem_status: "400 \<le> status (problem (problem_of er))"
  by (cases er) (auto simp: problem_of_def problem_resp_defs problem_defs Let_def split: option.splits)

lemma problem_status_kept [simp]:
  "problem (pr_with_header n v p) = problem p" "status (problem (pr_with_instance i p)) = status (problem p)"
  by (simp_all add: pr_with_header_def pr_with_instance_def)

lemma producer_error_status: "400 \<le> status (problem (producer_error_response E s n p er))"
  by (cases er) (auto simp: producer_error_response_def stream_closed_response_def problem_status Let_def split: sum.splits)

text \<open>A producer's POST is rejected before it reaches the store, or it is one append of its messages.\<close>

lemma produced_post:
  assumes hs: "plain_headers hs" and msgs: "extract_messages E body (normalize_content_type ct) = Inr msgs"
    and post: "append_data E None lim n uri (wire_headers (hs @ produced_headers ct i (u64_to_string ep) (u64_to_string q))) (BodyBytes body) s = (s', res)"
  shows "s' = s \<and> isl res \<or> (\<exists>a. append_with_producer E s n msgs (normalize_content_type ct) \<lparr>prod_id = i, prod_epoch = ep, prod_seq = q\<rparr> False None = (s', a) \<and>
      isl a = isl res)"
    and "case res of Inl pr \<Rightarrow> 400 \<le> status (problem pr) | Inr _ \<Rightarrow> True"
proof -
  let ?h = "wire_headers (hs @ produced_headers ct i (u64_to_string ep) (u64_to_string q))"
  let ?p = "\<lparr>prod_id = i, prod_epoch = ep, prod_seq = q\<rparr>"
  note h = produced_on_wire [OF hs refl]
  obtain r where r: "append_job E n ?h body s = (s', r)" "res = with_instance uri r"
    using post by (cases "append_job E n ?h body s") (auto simp: append_data_def run_job_def read_body_def)
  have "(s' = s \<and> isl r \<or> (\<exists>a. append_with_producer E s n msgs (normalize_content_type ct) ?p False None = (s', a) \<and> isl a = isl r)) \<and>
      (case r of Inl pr \<Rightarrow> 400 \<le> status (problem pr) | Inr _ \<Rightarrow> True)"
  proof (cases "parse_producer_headers ?h")
    case (Inl er)
    with r(1) show ?thesis by (auto simp: append_job_def parse_stream_closed_def h Let_def problem_status)
  next
    case (Inr x)
    from produced_parsed [OF hs this] Inr have x: "parse_producer_headers ?h = Inr (Some ?p)" by simp
    show ?thesis
    proof (cases "body = [] \<or> msgs = []")
      case True
      have "extract_messages_http E body (normalize_content_type ct) = Inr msgs" using msgs by (simp add: extract_messages_http_def)
      with True r(1) x have "s' = s \<and> (r = Inl (problem_of EmptyBody) \<or> r = Inl (problem_of EmptyArray))"
        by (cases "body = []") (simp_all add: append_job_def parse_stream_closed_def h)
      then show ?thesis by (auto simp: problem_status)
    next
      case False
      with r(1) x msgs have "handle_producer_append E s n msgs (normalize_content_type ct) ?p False False None = (s', r)"
        by (simp add: append_job_def parse_stream_closed_def h Let_def extract_messages_http_def)
      then show ?thesis
        by (auto simp: handle_producer_append_def Let_def producer_error_status split: prod.splits sum.splits)
    qed
  qed
  with r(2) show "s' = s \<and> isl res \<or> (\<exists>a. append_with_producer E s n msgs (normalize_content_type ct) ?p False None = (s', a) \<and> isl a = isl res)"
    "case res of Inl pr \<Rightarrow> 400 \<le> status (problem pr) | Inr _ \<Rightarrow> True"
    by (cases r; auto simp: with_instance_def)+
qed

text \<open>Where an append stands: not stored yet, or stored.\<close>

definition in_flight :: "post_server \<Rightarrow> producer_headers \<Rightarrow> message list \<Rightarrow> u64 \<Rightarrow> bytes list \<Rightarrow> mem \<times> nat \<Rightarrow> bool" where
  "in_flight V p L r msgs w \<longleftrightarrow> outstanding (ps_name V) p L r msgs (fst w) \<or> recorded (ps_env_at V) (ps_name V) p L r msgs (fst w)"

definition settled :: "post_server \<Rightarrow> producer_headers \<Rightarrow> message list \<Rightarrow> u64 \<Rightarrow> bytes list \<Rightarrow> mem \<times> nat \<Rightarrow> bool" where
  "settled V p L r msgs w \<longleftrightarrow> recorded (ps_env_at V) (ps_name V) p L r msgs (fst w)"

lemma append_in_flight:
  assumes "in_flight V p L r msgs (s, k)" "append_with_producer (ps_env_at V k) s (ps_name V) msgs ct p cl sq = (s', a)" "within_memory (ps_env_at V)"
  shows "in_flight V p L r msgs (s', k') \<and> (\<not> isl a \<longrightarrow> settled V p L r msgs (s', k'))"
proof (cases "recorded (ps_env_at V) (ps_name V) p L r msgs s")
  case True
  from recorded_again [OF this assms(2)] show ?thesis by (simp add: in_flight_def settled_def)
next
  case False
  with assms(1) have o: "outstanding (ps_name V) p L r msgs s" by (simp add: in_flight_def)
  show ?thesis
  proof (cases a)
    case (Inl er)
    with outstanding_rejected [OF o, of "ps_env_at V k" ct cl sq s' er] assms(2) show ?thesis by (simp add: in_flight_def)
  next
    case (Inr b)
    with outstanding_stored [OF o, of "ps_env_at V" k ct cl sq s' b] assms(2,3) show ?thesis by (simp add: in_flight_def settled_def)
  qed
qed

lemma in_flight_count: "in_flight V p L r msgs (s, k) = in_flight V p L r msgs (s, k')"
  by (simp add: in_flight_def)

lemma attempt_in_flight:
  assumes N: "nw_send N = post_send V" and hs: "plain_headers hs" and mem: "within_memory (ps_env_at V)"
    and msgs: "\<And>k. extract_messages (ps_env_at V k) body (normalize_content_type ct) = Inr msgs"
    and rq: "rq_headers rq = hs @ produced_headers ct (prod_id p) (u64_to_string (prod_epoch p)) (u64_to_string (prod_seq p))" "rq_body rq = Some body"
    and w: "in_flight V p L r msgs w" "send_request C N (\<lambda>st. st \<in> {200, 204}) rq w = (w', res)"
  shows "in_flight V p L r msgs w' \<and> (\<not> isl res \<longrightarrow> settled V p L r msgs w')"
proof -
  obtain s k where sk: "w = (s, k)" by fastforce
  obtain s1 pr where post: "append_data (ps_env_at V k) None (ps_limit V) (ps_name V) (ps_uri V)
      (wire_headers (hs @ produced_headers ct (prod_id p) (u64_to_string (prod_epoch p)) (u64_to_string (prod_seq p)))) (BodyBytes body) s = (s1, pr)"
    by fastforce
  have p: "\<lparr>prod_id = prod_id p, prod_epoch = prod_epoch p, prod_seq = prod_seq p\<rparr> = p" by simp
  note out = produced_post [OF hs msgs post, unfolded p]
  have flight: "in_flight V p L r msgs (s1, Suc k) \<and> (\<not> isl pr \<longrightarrow> settled V p L r msgs (s1, Suc k))"
    using out(1)
  proof
    assume "s1 = s \<and> isl pr"
    with w(1) sk in_flight_count show ?thesis by fastforce
  next
    assume "\<exists>a. append_with_producer (ps_env_at V k) s (ps_name V) msgs (normalize_content_type ct) p False None = (s1, a) \<and> isl a = isl pr"
    with append_in_flight [of V p L r msgs s k] w(1) sk mem show ?thesis by fastforce
  qed
  have send: "post_send V rq (s, k) = (case ps_link V k of Lost e \<Rightarrow> ((s, Suc k), Inl e) | ReplyLost e \<Rightarrow> ((s1, Suc k), Inl e)
      | Delivered \<Rightarrow> ((s1, Suc k), Inr (wire_answer (ps_env_at V k) pr)))"
    using post by (simp add: post_send_def rq)
  show ?thesis
  proof (cases "ps_link V k")
    case (Lost e)
    with w sk send N in_flight_count show ?thesis by (fastforce simp: send_request_def)
  next
    case (ReplyLost e)
    with w(2) sk send N flight show ?thesis by (auto simp: send_request_def)
  next
    case Delivered
    have "isl res" if "isl pr"
    proof -
      from that obtain x where x: "pr = Inl x" by (cases pr) auto
      with out(2) have "hr_status (wire_answer (ps_env_at V k) pr) \<notin> {200, 204}"
        by (auto simp: wire_answer_def wire_response_def problem_into_response_def)
      with w(2) sk send N Delivered show ?thesis by (auto simp: send_request_def require_def)
    qed
    with w(2) sk send N Delivered flight show ?thesis by (auto simp: send_request_def)
  qed
qed

section \<open>Retries\<close>

lemma retry_run_invariant:
  assumes "\<And>w w' x. I w \<Longrightarrow> act w = Some (w', x) \<Longrightarrow> I w' \<and> (\<not> isl x \<longrightarrow> F w')" "I w" "retry_run n act w = Some (w', x)"
  shows "I w' \<and> (\<not> isl x \<longrightarrow> F w')"
  using assms(2,3)
proof (induction n arbitrary: w)
  case 0
  then show ?case using assms(1) by (auto simp: retry_run.simps [of 0] split: option.splits prod.splits sum.splits)
next
  case (Suc n)
  from Suc.prems(2) obtain w1 x1 where a: "act w = Some (w1, x1)"
    by (auto simp: retry_run.simps [of "Suc n"] split: option.splits)
  show ?case
  proof (cases "\<exists>e. x1 = Inl e \<and> is_retryable e")
    case True
    with a Suc.prems(2) have "retry_run n act w1 = Some (w', x)" by (auto simp: retry_run.simps [of "Suc n"])
    with Suc.IH assms(1) [OF Suc.prems(1) a] show ?thesis by blast
  next
    case False
    with a Suc.prems(2) have "(w', x) = (w1, x1)" by (auto simp: retry_run.simps [of "Suc n"] split: sum.splits)
    with assms(1) [OF Suc.prems(1) a] show ?thesis by simp
  qed
qed

lemma retry_run_returns: "(\<And>w. act w \<noteq> None) \<Longrightarrow> retry_run n act w \<noteq> None"
proof (induction n arbitrary: w)
  case 0
  then show ?case by (auto simp: retry_run.simps [of 0] split: option.splits prod.splits sum.splits)
next
  case (Suc n)
  then show ?case by (auto simp: retry_run.simps [of "Suc n"] split: option.splits prod.splits sum.splits)
qed

section \<open>A producer at work\<close>

text \<open>What the producer's requests say of it.\<close>

definition headers_of :: "idempotent_producer \<Rightarrow> producer_local \<Rightarrow> producer_headers" where
  "headers_of P st = \<lparr>prod_id = ip_producer_id (id_config P), prod_epoch = of_nat (nat (pl_epoch st)), prod_seq = of_nat (nat (pl_next_seq st))\<rparr>"

definition base_headers :: "idempotent_producer \<Rightarrow> pairs" where
  "base_headers P = rq_headers (build_request (id_client P) MPost ([], []) (id_options P))"

lemma base_headers_any: "rq_headers (build_request (id_client P) MPost u (id_options P)) = base_headers P"
  by (simp add: base_headers_def build_request_def auth_apply_def split: auth_config.split)

lemma i64_printed: "0 \<le> k \<Longrightarrow> k < 2 ^ 63 \<Longrightarrow> i64_to_string k = u64_to_string (of_nat (nat k))"
proof -
  assume k: "0 \<le> k" "k < 2 ^ 63"
  then have "nat k < 2 ^ 64" by auto
  then have "unat (of_nat (nat k) :: u64) = nat k" by (simp add: unat_of_nat)
  then show ?thesis using k by (simp add: i64_to_string_def u64_to_string_def)
qed

lemma produced_request:
  assumes "0 \<le> pl_epoch st" "pl_epoch st < 2 ^ 63" "0 \<le> pl_next_seq st" "pl_next_seq st < 2 ^ 63"
    and rq: "rq = append_request (id_client P) (id_options P) (Some (id_content_type P)) None (Some (producer_fields_of P st)) body u"
  shows "rq_headers rq = base_headers P @ produced_headers (id_content_type P) (prod_id (headers_of P st))
      (u64_to_string (prod_epoch (headers_of P st))) (u64_to_string (prod_seq (headers_of P st)))"
    and "rq_body rq = Some body"
  using assms
  by (simp_all add: append_request_def add_body_def add_headers_def opt_header_def producer_pairs_def producer_fields_of_def
      headers_of_def produced_headers_def i64_printed base_headers_any)

text \<open>A producer that talks to the server, and what is known of the bodies it sends.\<close>

definition connected :: "idempotent_producer \<Rightarrow> (mem \<times> nat) network \<Rightarrow> post_server \<Rightarrow> (bytes \<Rightarrow> bytes list) \<Rightarrow> bytes list \<Rightarrow> bool" where
  "connected P N V f bodies \<longleftrightarrow> nw_send N = post_send V \<and> \<not> ip_auto_claim (id_config P) \<and> plain_headers (base_headers P) \<and>
     within_memory (ps_env_at V) \<and>
     (\<forall>k. \<forall>b\<in>set bodies. extract_messages (ps_env_at V k) b (normalize_content_type (id_content_type P)) = Inr (f b))"

definition local_ok :: "producer_local \<Rightarrow> nat \<Rightarrow> bool" where
  "local_ok st m \<longleftrightarrow> 0 \<le> pl_epoch st \<and> pl_epoch st < 2 ^ 63 \<and> 0 \<le> pl_next_seq st \<and> pl_next_seq st + int m < 2 ^ 63"

lemma producer_append_keeps:
  assumes claim: "\<not> ip_auto_claim (id_config P)" and I: "I w"
    and step: "\<And>u v v' y. I v \<Longrightarrow> send_request (id_client P) N (\<lambda>st. st \<in> {200, 204})
        (append_request (id_client P) (id_options P) (Some (id_content_type P)) None (Some (producer_fields_of P st)) b u) v = (v', y) \<Longrightarrow>
      I v' \<and> (\<not> isl y \<longrightarrow> F v')"
  shows "\<exists>w' st' res. producer_append P N b st w = Some (w', st', res) \<and> I w' \<and>
    (\<not> isl res \<longrightarrow> F w' \<and> pl_epoch st' = pl_epoch st \<and> pl_next_seq st' = i64_add (pl_next_seq st) 1)"
proof -
  let ?C = "id_client P"
  let ?act = "append_parts ?C N (id_path P) (id_options P) (Some (id_content_type P)) None (Some (producer_fields_of P st)) b"
  have act: "\<exists>w' x. ?act w = Some (w', x) \<and> I w' \<and> (\<not> isl x \<longrightarrow> F w')"
  proof (cases "stream_url ?C (id_path P) (id_options P)")
    case (Inl e)
    with I show ?thesis by (simp add: append_parts_def with_url_def)
  next
    case (Inr u)
    let ?rq = "append_request ?C (id_options P) (Some (id_content_type P)) None (Some (producer_fields_of P st)) b u"
    let ?send = "\<lambda>w. Some (send_request ?C N (\<lambda>st. st \<in> {200, 204}) ?rq w)"
    obtain w' x where run: "retry_run (cl_max_retries ?C) ?send w = Some (w', x)"
      using retry_run_returns [of ?send "cl_max_retries ?C" w] by auto
    have "I w' \<and> (\<not> isl x \<longrightarrow> F w')" using retry_run_invariant [of I ?send F, OF _ I run] step by blast
    with run Inr show ?thesis
      by (cases x) (auto simp: append_parts_def with_url_def answer_def send_retrying_request_def)
  qed
  then obtain w' x where x: "?act w = Some (w', x)" "I w'" "\<not> isl x \<Longrightarrow> F w'" by blast
  have "with_claim P (\<lambda>g. append_parts ?C N (id_path P) (id_options P) (Some (id_content_type P)) None (Some g) b) st w = Some (w', st, x)"
    using x(1) claim by (auto simp: with_claim_def split: sum.split client_error.split)
  then show ?thesis using x(2,3) by (cases x) (auto simp: producer_append_def)
qed

lemma producer_append_once:
  assumes c: "connected P N V f bodies" "b \<in> set bodies" and st: "local_ok st 1"
    and w: "outstanding (ps_name V) (headers_of P st) L r (f b) (fst w)"
  shows "\<exists>w' st' res. producer_append P N b st w = Some (w', st', res) \<and> in_flight V (headers_of P st) L r (f b) w' \<and>
    (\<not> isl res \<longrightarrow> settled V (headers_of P st) L r (f b) w' \<and> pl_epoch st' = pl_epoch st \<and> pl_next_seq st' = pl_next_seq st + 1)"
proof -
  have range: "0 \<le> pl_epoch st" "pl_epoch st < 2 ^ 63" "0 \<le> pl_next_seq st" "pl_next_seq st < 2 ^ 63" using st by (auto simp: local_ok_def)
  have net: "nw_send N = post_send V" "plain_headers (base_headers P)" "within_memory (ps_env_at V)" "\<not> ip_auto_claim (id_config P)"
    "extract_messages (ps_env_at V k) b (normalize_content_type (id_content_type P)) = Inr (f b)" for k
    using c by (auto simp: connected_def)
  have "i64_add (pl_next_seq st) 1 = pl_next_seq st + 1" using st by (simp add: i64_add_def local_ok_def)
  moreover have "in_flight V (headers_of P st) L r (f b) w" using w by (simp add: in_flight_def)
  ultimately show ?thesis
    using producer_append_keeps [of P "in_flight V (headers_of P st) L r (f b)" w N st b "settled V (headers_of P st) L r (f b)", OF net(4)]
      attempt_in_flight [OF net(1,2,3,5) produced_request [OF range refl]] by metis
qed

text \<open>Another append under a number that is stored already.\<close>

lemma attempt_settled:
  assumes N: "nw_send N = post_send V" and hs: "plain_headers hs"
    and body: "\<And>k. extract_messages (ps_env_at V k) body (normalize_content_type ct) = Inr msgs'"
    and rq: "rq_headers rq = hs @ produced_headers ct (prod_id p) (u64_to_string (prod_epoch p)) (u64_to_string (prod_seq p))" "rq_body rq = Some body"
    and w: "settled V p L r msgs w" "send_request C N wanted rq w = (w', res)"
  shows "settled V p L r msgs w'"
proof -
  obtain s k where sk: "w = (s, k)" by fastforce
  obtain s1 pr where post: "append_data (ps_env_at V k) None (ps_limit V) (ps_name V) (ps_uri V)
      (wire_headers (hs @ produced_headers ct (prod_id p) (u64_to_string (prod_epoch p)) (u64_to_string (prod_seq p)))) (BodyBytes body) s = (s1, pr)"
    by fastforce
  have p: "\<lparr>prod_id = prod_id p, prod_epoch = prod_epoch p, prod_seq = prod_seq p\<rparr> = p" by simp
  have "recorded (ps_env_at V) (ps_name V) p L r msgs s1"
    using produced_post(1) [OF hs body post, unfolded p] w(1) sk recorded_again by (auto simp: settled_def)
  moreover have "fst w' \<in> {s, s1}"
    using w(2) sk N post rq by (auto simp: send_request_def post_send_def split: link.splits)
  ultimately show ?thesis using w(1) sk by (auto simp: settled_def)
qed

lemma producer_append_settled:
  assumes c: "connected P N V f bodies" "b \<in> set bodies" and st: "local_ok st 1" and w: "settled V (headers_of P st) L r msgs w"
  shows "\<exists>w' st' res. producer_append P N b st w = Some (w', st', res) \<and> settled V (headers_of P st) L r msgs w'"
proof -
  have range: "0 \<le> pl_epoch st" "pl_epoch st < 2 ^ 63" "0 \<le> pl_next_seq st" "pl_next_seq st < 2 ^ 63" using st by (auto simp: local_ok_def)
  have net: "nw_send N = post_send V" "plain_headers (base_headers P)" "\<not> ip_auto_claim (id_config P)"
    "extract_messages (ps_env_at V k) b (normalize_content_type (id_content_type P)) = Inr (f b)" for k
    using c by (auto simp: connected_def)
  show ?thesis
    using producer_append_keeps [of P "settled V (headers_of P st) L r msgs" w N st b "\<lambda>_. True", OF net(3) w]
      attempt_settled [OF net(1,2,4) produced_request [OF range refl]] by metis
qed

text \<open>A caller that appends one body after the other and stops at the first error: what was acknowledged, and what failed.\<close>

fun producer_run ::
  "idempotent_producer \<Rightarrow> 'w network \<Rightarrow> bytes list \<Rightarrow> producer_local \<Rightarrow> 'w \<Rightarrow> ('w \<times> bytes list \<times> bytes option) option" where
  "producer_run P N [] st w = Some (w, [], None)"
| "producer_run P N (b # bs) st w = Option.bind (producer_append P N b st w) (\<lambda>(w', st', res). case res of
     Inl e \<Rightarrow> Some (w', [], Some b)
   | Inr r \<Rightarrow> map_option (\<lambda>(w2, acked, failed). (w2, b # acked, failed)) (producer_run P N bs st' w'))"

text \<open>The server is ready for the next appends of the producer.\<close>

definition awaits :: "idempotent_producer \<Rightarrow> producer_local \<Rightarrow> string \<Rightarrow> message list \<Rightarrow> u64 \<Rightarrow> mem \<Rightarrow> bool" where
  "awaits P st n L r s \<longleftrightarrow> mem_inv s \<and> log_of s n L \<and> (\<exists>e. get_stream s n = Some e \<and> se_next_read_seq e = r \<and>
     unsent (prod_epoch (headers_of P st)) (prod_seq (headers_of P st)) (se_producers e (ip_producer_id (id_config P))))"

lemma awaits_outstanding:
  assumes "awaits P st n L r s" "payload_fits msgs" "unat r + length msgs < 2 ^ 64"
  shows "outstanding n (headers_of P st) L r msgs s"
  using assms by (auto simp: awaits_def outstanding_def batch_fits_def headers_of_def)

lemma settled_awaits:
  assumes "settled V (headers_of P st) L r msgs w" "local_ok st 1" "pl_epoch st' = pl_epoch st" "pl_next_seq st' = pl_next_seq st + 1"
  shows "\<exists>M. map msg_data M = msgs \<and> awaits P st' (ps_name V) (L @ M) (r + of_nat (length msgs)) (fst w)"
proof -
  have "nat (pl_next_seq st) + 1 < 2 ^ 64" "nat (pl_next_seq st') = nat (pl_next_seq st) + 1" using assms(2,4) by (auto simp: local_ok_def)
  moreover have "unat (of_nat m :: u64) = m" if "m < 2 ^ 64" for m using that by (simp add: unat_of_nat)
  ultimately have "unat (of_nat (nat (pl_next_seq st)) :: u64) = nat (pl_next_seq st)" "unat (of_nat (nat (pl_next_seq st')) :: u64) = nat (pl_next_seq st) + 1"
    by (metis add_lessD1, metis)
  then have "\<not> (of_nat (nat (pl_next_seq st')) :: u64) \<le> of_nat (nat (pl_next_seq st))"
    unfolding word_le_nat_alt by linarith
  with assms(1,3) show ?thesis by (auto simp: settled_def recorded_def awaits_def headers_of_def unsent_def)
qed

lemma producer_run_once:
  assumes "connected P N V f bodies" "set bs \<subseteq> set bodies" "local_ok st (length bs)" "awaits P st (ps_name V) L r (fst w)"
    and "unat r + length (concat (map f bs)) < 2 ^ 64" "\<And>b. b \<in> set bs \<Longrightarrow> payload_fits (f b)"
  shows "\<exists>w' acked failed M. producer_run P N bs st w = Some (w', acked, failed) \<and> log_of (fst w') (ps_name V) (L @ M) \<and>
    (failed = None \<and> acked = bs \<and> map msg_data M = concat (map f acked) \<or>
     (\<exists>b rest. failed = Some b \<and> bs = acked @ b # rest \<and> map msg_data M \<in> {concat (map f acked), concat (map f (acked @ [b]))}))"
  using assms(2-)
proof (induction bs arbitrary: st L r w)
  case Nil
  then show ?case by (auto simp: awaits_def intro!: exI [of _ "[]"])
next
  case (Cons b bs)
  have st: "local_ok st 1" using Cons.prems(2) by (auto simp: local_ok_def)
  have "outstanding (ps_name V) (headers_of P st) L r (f b) (fst w)"
    by (rule awaits_outstanding [OF Cons.prems(3)]) (use Cons.prems(4,5) in auto)
  from producer_append_once [OF assms(1) _ st this] Cons.prems(1) obtain w' st' res where a: "producer_append P N b st w = Some (w', st', res)"
    "in_flight V (headers_of P st) L r (f b) w'"
    "\<not> isl res \<Longrightarrow> settled V (headers_of P st) L r (f b) w' \<and> pl_epoch st' = pl_epoch st \<and> pl_next_seq st' = pl_next_seq st + 1"
    by auto
  show ?case
  proof (cases res)
    case (Inl e)
    obtain M where "log_of (fst w') (ps_name V) (L @ M)" "map msg_data M \<in> {[], f b}"
      using a(2) by (auto simp: in_flight_def outstanding_def recorded_def intro: that [of "[]"])
    then show ?thesis using a(1) Inl
      by (intro exI [of _ w'] exI [of _ "[]"] exI [of _ "Some b"] exI [of _ M]) auto
  next
    case (Inr resp)
    with a(3) have s: "settled V (headers_of P st) L r (f b) w'" "pl_epoch st' = pl_epoch st" "pl_next_seq st' = pl_next_seq st + 1" by auto
    from settled_awaits [OF s(1) st s(2,3)] obtain M where M: "map msg_data M = f b"
      "awaits P st' (ps_name V) (L @ M) (r + of_nat (length (f b))) (fst w')" by blast
    have un: "unat (r + of_nat (length (f b))) = unat r + length (f b)"
      using Cons.prems(4) by (simp add: unat_word_ariths unat_of_nat)
    have "local_ok st' (length bs)" using Cons.prems(2) s(2,3) by (auto simp: local_ok_def)
    from Cons.IH [OF _ this M(2)] Cons.prems(1,4,5) un
    obtain w2 acked failed M' where r: "producer_run P N bs st' w' = Some (w2, acked, failed)" "log_of (fst w2) (ps_name V) ((L @ M) @ M')"
      "failed = None \<and> acked = bs \<and> map msg_data M' = concat (map f acked) \<or>
       (\<exists>b rest. failed = Some b \<and> bs = acked @ b # rest \<and> map msg_data M' \<in> {concat (map f acked), concat (map f (acked @ [b]))})"
      by auto
    then show ?thesis using a(1) Inr M(1)
      by (intro exI [of _ w2] exI [of _ "b # acked"] exI [of _ failed] exI [of _ "M @ M'"]) auto
  qed
qed

end
