(* ===== verification/DS_Cl_Read.thy ===== *)
theory DS_Cl_Read
  imports DS_Cl_Http DS_Cl_Journal
begin

text \<open>
  The client's reads, \<open>read_raw\<close> and what it calls in \<open>client/raw_ops.rs\<close> and
  \<open>protocol.rs\<close>, the background subscription, and the replica of \<open>replica.rs\<close>.
\<close>

section \<open>Answers\<close>

definition collect_catch_up :: "client \<Rightarrow> http_response \<Rightarrow> client_error + read_response" where
  "collect_catch_up C r =
     (let ct = header_value r ''content-type''; is_js = (case ct of Some v \<Rightarrow> strip_prefix ''application/json'' v \<noteq> None | None \<Rightarrow> False) in
      case header_value r ''stream-next-offset'' of
        None \<Rightarrow> Inl (CParse ''missing Stream-Next-Offset header'')
      | Some off \<Rightarrow> (case hr_body r of
          Inl e \<Rightarrow> Inl (CTransport e)
        | Inr bs \<Rightarrow>
          (case (if \<not> is_js then Inr (PBytes bs, bs \<noteq> [])
                 else if bs = [] then Inr (PJson [], False)
                 else case from_slice (cl_env C) bs of
                   Inl e \<Rightarrow> Inl (CJson e)
                 | Inr (JArray vs) \<Rightarrow> Inr (PJson vs, vs \<noteq> [])
                 | Inr _ \<Rightarrow> Inl (CJson ''invalid type, expected a sequence'')) of
             Inl e \<Rightarrow> Inl e
           | Inr (payload, nonempty) \<Rightarrow> Inr
               \<lparr>rp_status = hr_status r, rp_next_offset = off,
                rp_up_to_date = (parse_bool_header r ''stream-up-to-date'' \<or> hr_status r = 200 \<or> hr_status r = 204),
                rp_closed = parse_bool_header r ''stream-closed'', rp_cursor = header_value r ''stream-cursor'',
                rp_content_type = ct, rp_etag = header_value r ''etag'',
                rp_chunks = (if nonempty then [\<lparr>rc_data = bs, rc_next_offset = off\<rparr>] else []), rp_payload = Some payload\<rparr>)))"

record subscription_event =
  sv_chunk :: "read_chunk option"
  sv_next_offset :: string
  sv_up_to_date :: bool
  sv_stream_closed :: bool
  sv_cursor :: "string option"

definition response_to_event :: "read_response \<Rightarrow> subscription_event" where
  "response_to_event r = \<lparr>sv_chunk = (if rp_chunks r = [] then None else Some (List.last (rp_chunks r))),
     sv_next_offset = rp_next_offset r, sv_up_to_date = rp_up_to_date r, sv_stream_closed = rp_closed r, sv_cursor = rp_cursor r\<rparr>"

section \<open>Requests\<close>

datatype live_mode = CatchUp | LongPoll | Sse | Auto

record read_request =
  rr_offset :: "string option"
  rr_live :: live_mode
  rr_timeout :: "nat option"
  rr_max_chunks :: "nat option"
  rr_wait_for_up_to_date :: bool
  rr_cursor :: "string option"
  rr_if_none_match :: "string option"
  rr_options :: request_options

definition offset_or_start :: "read_request \<Rightarrow> string" where
  "offset_or_start q = (case rr_offset q of Some off \<Rightarrow> off | None \<Rightarrow> ''-1'')"

definition read_url :: "client \<Rightarrow> string \<Rightarrow> read_request \<Rightarrow> string option \<Rightarrow> client_error + (string \<times> pairs)" where
  "read_url C path q live = map_sum id (\<lambda>(url, query). (url, query
     @ (case rr_offset q of Some off \<Rightarrow> [(''offset'', off)] | None \<Rightarrow> if live \<noteq> None then [(''offset'', ''-1'')] else [])
     @ opt_header ''live'' live @ opt_header ''cursor'' (rr_cursor q))) (stream_url C path (rr_options q))"

definition quiet_response :: "nat \<Rightarrow> string \<Rightarrow> read_response" where
  "quiet_response st off = \<lparr>rp_status = st, rp_next_offset = off, rp_up_to_date = True, rp_closed = False, rp_cursor = None,
     rp_content_type = None, rp_etag = None, rp_chunks = [], rp_payload = None\<rparr>"

definition read_http :: "client \<Rightarrow> 'w network \<Rightarrow> string \<Rightarrow> read_request \<Rightarrow> string option \<Rightarrow> ('w, read_response) action" where
  "read_http C N path q live = with_url (read_url C path q live) (\<lambda>u w.
     let rq = add_headers (opt_header ''if-none-match'' (rr_if_none_match q)) (build_request C MGet u (rr_options q));
         finish = (\<lambda>res. case res of Inl e \<Rightarrow> Inl (CTransport e)
           | Inr r \<Rightarrow> (case require C is_success r of Inl e \<Rightarrow> Inl e | Inr r' \<Rightarrow> collect_catch_up C r')) in
     case rr_timeout q of
       None \<Rightarrow> Some (case nw_send N rq w of (w', res) \<Rightarrow> (w', finish res))
     | Some limit \<Rightarrow> Some (case nw_send_within N limit rq w of
         (w', Some res) \<Rightarrow> (w', finish res)
       | (w', None) \<Rightarrow> (w', if rr_live q = LongPoll then Inr (quiet_response 204 (offset_or_start q))
                            else Inl (CParse ''timed out waiting for response''))))"

definition read_sse_raw :: "client \<Rightarrow> 'w network \<Rightarrow> string \<Rightarrow> read_request \<Rightarrow> ('w, read_response) action" where
  "read_sse_raw C N path q = with_url (read_url C path q (Some ''sse'')) (\<lambda>u w.
     let rq = build_request C MGet u (rr_options q);
         finish = (\<lambda>res. case res of Inl e \<Rightarrow> Inl (CTransport e)
           | Inr (r, body) \<Rightarrow> (case require C is_success r of Inl e \<Rightarrow> Inl e
              | Inr r' \<Rightarrow> collect_sse (cl_env C) (cl_decode64 C) r' body (rr_max_chunks q) (rr_wait_for_up_to_date q))) in
     case rr_timeout q of
       None \<Rightarrow> Some (case nw_stream N rq w of (w', res) \<Rightarrow> (w', finish res))
     | Some limit \<Rightarrow> Some (case nw_stream_within N limit rq w of
         (w', Some res) \<Rightarrow> (w', finish res)
       | (w', None) \<Rightarrow> (w', Inl (CInvalidArgument ''timed out waiting for SSE response''))))"

section \<open>Long polls\<close>

text \<open>What the loop has collected, and the next answer.\<close>

definition merge_response :: "read_response option \<Rightarrow> read_response \<Rightarrow> read_response" where
  "merge_response agg r = (case agg of
     None \<Rightarrow> r
   | Some a \<Rightarrow> a\<lparr>rp_status := rp_status r, rp_next_offset := rp_next_offset r, rp_up_to_date := rp_up_to_date r,
        rp_closed := rp_closed r, rp_cursor := rp_cursor r,
        rp_content_type := (if rp_content_type r \<noteq> None then rp_content_type r else rp_content_type a),
        rp_etag := (if rp_etag r \<noteq> None then rp_etag r else rp_etag a),
        rp_chunks := rp_chunks a @ rp_chunks r,
        rp_payload := (if rp_payload a = None then rp_payload r else rp_payload a)\<rparr>)"

definition long_poll_done :: "read_request \<Rightarrow> read_response \<Rightarrow> bool" where
  "long_poll_done q a \<longleftrightarrow> rp_closed a \<or> (case rr_max_chunks q of Some m \<Rightarrow> length (rp_chunks a) \<ge> m | None \<Rightarrow> False) \<or>
     rr_wait_for_up_to_date q \<and> rp_up_to_date a"

text \<open>\<open>elapsed k w\<close> is the time that has passed at the \<open>k\<close>-th round.\<close>

partial_function (option) long_poll_loop ::
  "client \<Rightarrow> 'w network \<Rightarrow> string \<Rightarrow> (nat \<Rightarrow> 'w \<Rightarrow> nat) \<Rightarrow> read_request \<Rightarrow> nat \<Rightarrow> read_request \<Rightarrow> read_response option \<Rightarrow> ('w, read_response) action" where
  "long_poll_loop C N path elapsed q k cur agg w =
     (if (case rr_timeout q of Some budget \<Rightarrow> elapsed k w \<ge> budget | None \<Rightarrow> False) then
        Some (w, Inr (case agg of Some a \<Rightarrow> a | None \<Rightarrow> quiet_response 200 (offset_or_start cur)))
      else
        (let cur' = (case rr_timeout q of Some budget \<Rightarrow> cur\<lparr>rr_timeout := Some (budget - elapsed k w)\<rparr> | None \<Rightarrow> cur) in
         Option.bind (read_http C N path cur' (Some ''long-poll'') w) (\<lambda>(w', res).
           case res of
             Inl e \<Rightarrow> Some (w', Inl e)
           | Inr r \<Rightarrow>
             (let a = merge_response agg r in
              if long_poll_done q a then Some (w', Inr a)
              else long_poll_loop C N path elapsed q (Suc k) (cur'\<lparr>rr_offset := Some (rp_next_offset r)\<rparr>) (Some a) w'))))"

definition read_long_poll_raw :: "client \<Rightarrow> 'w network \<Rightarrow> string \<Rightarrow> (nat \<Rightarrow> 'w \<Rightarrow> nat) \<Rightarrow> read_request \<Rightarrow> ('w, read_response) action" where
  "read_long_poll_raw C N path elapsed q = long_poll_loop C N path elapsed q 0 (q\<lparr>rr_live := LongPoll\<rparr>) None"

definition read_auto :: "client \<Rightarrow> 'w network \<Rightarrow> string \<Rightarrow> read_request \<Rightarrow> ('w, read_response) action" where
  "read_auto C N path q w = Option.bind (read_http C N path (q\<lparr>rr_live := CatchUp\<rparr>) None w) (\<lambda>(w', res).
     case res of
       Inl e \<Rightarrow> Some (w', Inl e)
     | Inr initial \<Rightarrow>
       if rp_closed initial \<or> rp_chunks initial \<noteq> [] then Some (w', Inr initial)
       else answer (read_http C N path (q\<lparr>rr_live := LongPoll, rr_offset := Some (rp_next_offset initial)\<rparr>) (Some ''long-poll''))
              (\<lambda>follow. Inr (if rp_chunks follow = [] then initial else follow)) w')"

definition read_once :: "client \<Rightarrow> 'w network \<Rightarrow> string \<Rightarrow> (nat \<Rightarrow> 'w \<Rightarrow> nat) \<Rightarrow> read_request \<Rightarrow> ('w, read_response) action" where
  "read_once C N path elapsed q = (case rr_live q of
     CatchUp \<Rightarrow> read_http C N path q None
   | LongPoll \<Rightarrow> read_long_poll_raw C N path elapsed q
   | Sse \<Rightarrow> read_sse_raw C N path q
   | Auto \<Rightarrow> read_auto C N path q)"

definition read_raw :: "client \<Rightarrow> 'w network \<Rightarrow> string \<Rightarrow> (nat \<Rightarrow> 'w \<Rightarrow> nat) \<Rightarrow> read_request \<Rightarrow> ('w, read_response) action" where
  "read_raw C N path elapsed q = retry_run (cl_max_retries C) (read_once C N path elapsed q)"

text \<open>One turn of the task behind a subscription: the event or error that is sent, and the request of the next turn.\<close>

definition subscription_turn ::
  "client \<Rightarrow> 'w network \<Rightarrow> string \<Rightarrow> (nat \<Rightarrow> 'w \<Rightarrow> nat) \<Rightarrow> read_request \<Rightarrow> 'w \<Rightarrow> ('w \<times> (client_error + subscription_event) \<times> read_request option) option" where
  "subscription_turn C N path elapsed q w = map_option (\<lambda>(w', res). case res of
     Inl e \<Rightarrow> (w', Inl e, None)
   | Inr r \<Rightarrow> (w', Inr (response_to_event r),
       if rp_closed r then None
       else Some (q\<lparr>rr_offset := Some (rp_next_offset r), rr_live := (if rr_live q = CatchUp then LongPoll else rr_live q)\<rparr>)))
     (read_raw C N path elapsed q w)"

section \<open>The replica\<close>

definition response_json_values :: "read_payload option \<Rightarrow> client_error + json list" where
  "response_json_values p = (case p of
     Some (PJson vs) \<Rightarrow> Inr vs
   | Some (PBytes _) \<Rightarrow> Inl (CParse ''read replica only supports application/json payloads'')
   | None \<Rightarrow> Inr [])"

record read_replica_result =
  rl_appended :: nat
  rl_total :: nat
  rl_next_offset :: "string option"
  rl_up_to_date :: bool
  rl_stream_closed :: bool

definition replicate_step ::
  "client \<Rightarrow> 'w network \<Rightarrow> (nat \<Rightarrow> 'w \<Rightarrow> nat) \<Rightarrow> journal_env \<Rightarrow> write_faults \<Rightarrow> time \<Rightarrow> read_request \<Rightarrow> 'w \<Rightarrow> json_journal \<Rightarrow> bytes \<Rightarrow>
   ('w \<times> json_journal \<times> bytes \<times> (client_error + read_replica_result)) option" where
  "replicate_step C N elapsed J io now q w j f =
     (if rr_offset q \<noteq> None then
        Some (w, j, f, Inl (CInvalidArgument ''read replica request offsets are derived from the journal''))
      else (let q' = q\<lparr>rr_offset := jj_resume_offset j\<rparr> in
        if rr_live q' = Sse then
          Some (w, j, f, Inl (CInvalidArgument ''read replica currently supports catch_up, long_poll, and auto reads''))
        else map_option (\<lambda>(w', res). case res of
            Inl e \<Rightarrow> (w', j, f, Inl e)
          | Inr r \<Rightarrow> (case response_json_values (rp_payload r) of
              Inl e \<Rightarrow> (w', j, f, Inl e)
            | Inr vs \<Rightarrow> (case append_values J io now Inbound vs (Some (rp_next_offset r)) None j f of
                (j', f', Inl e) \<Rightarrow> (w', j', f', Inl e)
              | (j', f', Inr rs) \<Rightarrow> (w', j', f', Inr \<lparr>rl_appended = length rs, rl_total = length (jj_records j'),
                  rl_next_offset = jj_resume_offset j', rl_up_to_date = rp_up_to_date r, rl_stream_closed = rp_closed r\<rparr>))))
          (read_raw C N (ji_path (jj_stream j)) elapsed q' w)))"

end
