(* ===== verification/DS_Prop_Client.thy ===== *)
theory DS_Prop_Client
  imports DS_Cl_Collect DS_Cl_Journaled DS_Cl_Once DS_Cl_Read DS_Prop_Http DS_File_Sample
begin

text \<open>
  Properties of the client crate, and of the client and the server together.
\<close>

section \<open>Event streams\<close>

text \<open>The answer of a handler as it arrives.\<close>

definition delivered :: "response \<Rightarrow> http_response \<Rightarrow> bool" where
  "delivered resp r \<longleftrightarrow> hr_status r = rs_status resp \<and>
     list_all (\<lambda>n. hr_headers r (to_lowercase n) = rs_headers resp n) protocol_headers"

lemma delivered_header: "delivered resp r \<Longrightarrow> n \<in> set protocol_headers \<Longrightarrow> header_value r (to_lowercase n) = rs_headers resp n"
  by (simp add: delivered_def header_value_def list_all_iff)

lemma delivered_encoding: "delivered resp r \<Longrightarrow> header_value r ''stream-sse-data-encoding'' = rs_headers resp ''stream-sse-data-encoding''"
proof -
  assume "delivered resp r"
  then have "header_value r (to_lowercase ''stream-sse-data-encoding'') = rs_headers resp ''stream-sse-data-encoding''"
    by (rule delivered_header) (simp add: protocol_headers_def)
  moreover have "to_lowercase ''stream-sse-data-encoding'' = ''stream-sse-data-encoding''" by code_simp
  ultimately show ?thesis by simp
qed

lemma read_sse_Inr:
  assumes "read_sse E adm n off ct t0 secs cur s = Some (s', cur', Inr (resp, frames, nxt))"
  obtains rcv r where "subscribe_and_read E adm n off s = Some (s', Inr (rcv, r))"
    "encode_read_as_sse_frames E cur r \<lparr>is_binary = is_binary_content_type ct, is_json = is_json_content_type ct\<rparr> = Some (cur', frames)"
    "rs_headers resp ''stream-sse-data-encoding'' = (if is_binary_content_type ct then Some ''base64'' else None)"
  using assms by (auto simp: read_sse_def Let_def sse_start_def response_defs split: option.splits prod.splits sum.splits if_splits)

text \<open>
  C8. A client that opens an event stream receives the log. The bytes that the
  server writes for a read from a position, however the network cuts them, are
  collected into exactly the messages of the log from that position on: as they
  were when the stream is binary, as valid UTF-8 when it is text, as one array
  when it is JSON. The offset it keeps is the tail of the stream, and it knows
  whether the stream is closed. A text line must not begin with a space and the
  text must not hold carriage returns: the frames do not carry these.
\<close>

theorem event_stream_delivers_log:
  assumes s: "reachable s" "log_of s n L" "wf_offset off" "off \<noteq> Now" "length L < 2 ^ 64"
    and sse: "read_sse E adm n off ct t0 secs cur s = Some (s', cur', Inr (resp, frames, nxt))"
    and net: "delivered resp r" "concat cs = frames"
    and lib: "control_codec E" "base64_codec E f"
    and plain: "is_binary_content_type ct \<or> list_all spaceless (sse_texts E ct (log_read L off))"
  shows "\<exists>e rsp. get_stream s n = Some e \<and> collect_sse E f r (map Inr cs) None False = Inr rsp \<and>
    map rc_data (rp_chunks rsp) = sse_payloads ct (log_read L off) \<and>
    rp_next_offset rsp = as_str (entry_next_offset e) \<and> rp_up_to_date rsp \<and> rp_closed rsp = se_closed e"
proof -
  obtain rcv rr where rr: "subscribe_and_read E adm n off s = Some (s', Inr (rcv, rr))"
    "encode_read_as_sse_frames E cur rr \<lparr>is_binary = is_binary_content_type ct, is_json = is_json_content_type ct\<rparr> = Some (cur', frames)"
    "rs_headers resp ''stream-sse-data-encoding'' = (if is_binary_content_type ct then Some ''base64'' else None)"
    using sse by (rule read_sse_Inr)
  obtain e where e: "get_stream s n = Some e" "rr = \<lparr>rr_messages = log_read L off, rr_next_offset = entry_next_offset e,
      rr_at_tail = True, rr_closed = se_closed e\<rparr>"
    using mem_read_result [OF reachable_mem_inv [OF s(1)] s(2-4) subscribe_and_read_Inr(2) [OF rr(1)]] by blast
  have "length (log_read L off) < 2 ^ 64"
    unfolding log_read_def length_map by (rule le_less_trans [OF length_filter_le s(5)])
  then have len: "length (rr_messages rr) < 2 ^ 64" using e(2) by simp
  have pl: "\<not> is_binary_content_type ct \<Longrightarrow> \<forall>t\<in>set (sse_texts E ct (rr_messages rr)). spaceless t"
    using plain e(2) by (simp add: list_all_iff)
  have off: "rr_next_offset rr = offset_new (se_next_read_seq e) (se_next_byte_offset e)"
    using e(2) by (simp add: entry_next_offset_def)
  obtain c ac where ac: "collect_loop E (sse_decoder ct f) None False (map Inr cs) sse_parser_new sse_acc_new = Inr (after_control c ac)"
    "map rc_data (sa_chunks ac) = sse_payloads ct (log_read L off)" "cp_next_offset c = as_str (entry_next_offset e)"
    "cp_up_to_date c = Some True" "cp_closed c = Some True \<longleftrightarrow> se_closed e"
    using encoded_read_collected [OF lib rr(2) off len pl net(2)] e(2) by auto
  have dec: "(case header_value r ''stream-sse-data-encoding'' of
      Some v \<Rightarrow> if eq_ignore_ascii_case v ''base64'' then Some f else None | None \<Rightarrow> None) = sse_decoder ct f"
    using delivered_encoding [OF net(1)] rr(3) by (simp add: sse_decoder_def eq_ignore_ascii_case_def)
  show ?thesis using e(1) ac unfolding collect_sse_def dec by (auto simp: after_control_def)
qed

text \<open>Serializers that number their arguments.\<close>

instance json :: countable
  by countable_datatype

definition wire_env :: env where
  "wire_env = sample_env\<lparr>to_vec := \<lambda>j. unary (to_nat j), from_slice := decode_by to_nat UNIV, base64_encode := \<lambda>m. unary (to_nat m)\<rparr>"

lemma unary_printable: "c \<in> set (unary k) \<Longrightarrow> byte_in 0x21 0x7E c"
  by (simp add: unary_def byte_in_def)

lemma wire_codecs: "control_codec wire_env" "base64_codec wire_env (decode_by to_nat UNIV)"
proof -
  have "clean_line (unary k)" "strip_prefix '' '' (unary k) = None" for k
  proof -
    have "\<forall>c\<in>set (unary k). byte_in 0x21 0x7E c" using unary_printable by blast
    from utf8_ok_printable [OF this] printable_spaceless [OF this]
    show "clean_line (unary k)" by (simp add: clean_line_def spaceless_def)
    show "strip_prefix '' '' (unary k) = None" by (cases k) (simp_all add: unary_def)
  qed
  then show "control_codec wire_env" by (simp add: control_codec_def wire_env_def decode_by_unary)
  show "base64_codec wire_env (decode_by to_nat UNIV)"
    using unary_printable by (auto simp: base64_codec_def wire_env_def decode_by_unary)
qed

lemma wire_clock: "subscribe_and_read wire_env = subscribe_and_read sample_env"
proof -
  have "now_at wire_env = now_at sample_env" "now_at (skip_readings k wire_env) = now_at (skip_readings k sample_env)"
    "plus_seconds (skip_readings k wire_env) = plus_seconds (skip_readings k sample_env)" for k
    by (simp_all add: wire_env_def skip_readings_def)
  note clock = this
  show ?thesis
    unfolding fun_eq_iff subscribe_and_read_def subscribe_def mem_read_def renew_ttl_def ttl_deadline_def clock by simp
qed

lemma sample_one_subscribed:
  "\<exists>s' rcv. subscribe_and_read sample_env None ''a'' Start sample_one =
    Some (s', Inr (rcv, \<lparr>rr_messages = [''hello'', ''x''], rr_next_offset = offset_new 2 6, rr_at_tail = True, rr_closed = False\<rparr>))"
proof -
  have "map_option (map_sum (\<lambda>_. ()) snd \<circ> snd) (subscribe_and_read sample_env None ''a'' Start sample_one) =
    Some (Inr \<lparr>rr_messages = [''hello'', ''x''], rr_next_offset = offset_new 2 6, rr_at_tail = True, rr_closed = False\<rparr>)"
    by code_simp
  then obtain s' x where x: "subscribe_and_read sample_env None ''a'' Start sample_one = Some (s', x)"
    "map_sum (\<lambda>_. ()) snd x = Inr \<lparr>rr_messages = [''hello'', ''x''], rr_next_offset = offset_new 2 6, rr_at_tail = True, rr_closed = False\<rparr>"
    by auto
  then show ?thesis by (cases x) auto
qed

definition sample_sse :: "(mem \<times> cursor \<times> (response \<times> bytes \<times> sse_next) problem_result) option" where
  "sample_sse = read_sse wire_env None ''a'' Start ''text/plain'' 0 0 0 sample_one"

lemma sample_sse_works: "\<exists>s' cur' resp frames nxt. sample_sse = Some (s', cur', Inr (resp, frames, nxt)) \<and>
    rs_headers resp = [''content-type'' \<mapsto> ''text/event-stream'']"
proof -
  obtain s' rcv where r: "subscribe_and_read wire_env None ''a'' Start sample_one =
    Some (s', Inr (rcv, \<lparr>rr_messages = [''hello'', ''x''], rr_next_offset = offset_new 2 6, rr_at_tail = True, rr_closed = False\<rparr>))"
    using sample_one_subscribed by (auto simp: wire_clock)
  show ?thesis
    by (simp add: sample_sse_def read_sse_def r sse_start_def response_defs is_binary_content_type_def is_text_content_type_def encode_read_as_sse_frames_def is_json_content_type_def
        Let_def del: sse_message_controls.simps split: prod.split)
qed

theorem event_stream_delivers_log_witness:
  "\<exists>s' cur' resp frames nxt L rsp. sample_sse = Some (s', cur', Inr (resp, frames, nxt)) \<and> log_of sample_one ''a'' L \<and>
    collect_sse wire_env (decode_by to_nat UNIV) \<lparr>hr_status = rs_status resp, hr_headers = rs_headers resp, hr_body = Inr []\<rparr>
      [Inr (take 7 frames), Inr (drop 7 frames)] None False = Inr rsp \<and>
    map rc_data (rp_chunks rsp) = sse_payloads ''text/plain'' (log_read L Start) \<and> rp_up_to_date rsp"
proof -
  obtain s' cur' resp frames nxt where sse: "sample_sse = Some (s', cur', Inr (resp, frames, nxt))"
    "rs_headers resp = [''content-type'' \<mapsto> ''text/event-stream'']" using sample_sse_works by blast
  obtain L where L: "log_of sample_one ''a'' L" using sample_one_log by blast
  let ?r = "\<lparr>hr_status = rs_status resp, hr_headers = rs_headers resp, hr_body = Inr []\<rparr>"
  obtain s1 rr where rr: "mem_read sample_env sample_one ''a'' Start = Some (s1, Inr rr)" "rr_messages rr = [''hello'', ''x'']"
    using sample_one_read by auto
  obtain e0 where "rr = \<lparr>rr_messages = log_read L Start, rr_next_offset = entry_next_offset e0, rr_at_tail = True, rr_closed = se_closed e0\<rparr>"
    using reachable_mem_inv [OF sample_one_reachable] L _ _ rr(1) by (rule mem_read_result) simp_all
  then have "log_read L Start = [''hello'', ''x'']" using rr(2) by simp
  moreover have "list_all spaceless [''hello'', ''x'']" by (simp add: spaceless_def split_lines_def)
  moreover have "sse_texts wire_env ''text/plain'' [''hello'', ''x''] = [''hello'', ''x'']"
    by (simp add: sse_texts_def is_json_content_type_def is_binary_content_type_def is_text_content_type_def cont_ranges_def byte_in_def)
  ultimately have plain: "list_all spaceless (sse_texts wire_env ''text/plain'' (log_read L Start))" by simp
  have "map_option (\<lambda>e. (se_fork_info e, length (se_messages e))) (get_stream sample_one ''a'') = Some (None, 2)" by code_simp
  then obtain e where e: "get_stream sample_one ''a'' = Some e" "se_fork_info e = None" "length (se_messages e) = 2" by auto
  have len: "length L < 2 ^ 64" using log_of_unique [OF L log_of.root [OF e(1,2)]] e(3) by simp
  have "list_all (\<lambda>n. [''content-type'' \<mapsto> ''text/event-stream''] (to_lowercase n) = [''content-type'' \<mapsto> ''text/event-stream''] n)
    protocol_headers" by code_simp
  then have del: "delivered resp ?r" by (simp add: delivered_def sse(2))
  have cut: "concat [take 7 frames, drop 7 frames] = frames" by simp
  from event_stream_delivers_log [OF sample_one_reachable L _ _ len sse(1) [unfolded sample_sse_def] del cut wire_codecs disjI2 [OF plain]]
  obtain rsp where "collect_sse wire_env (decode_by to_nat UNIV) ?r (map Inr [take 7 frames, drop 7 frames]) None False = Inr rsp"
    "map rc_data (rp_chunks rsp) = sse_payloads ''text/plain'' (log_read L Start)" "rp_up_to_date rsp" by (auto simp del: list.map)
  then show ?thesis
    by (intro exI [of _ s'] exI [of _ cur'] exI [of _ resp] exI [of _ frames] exI [of _ nxt] exI [of _ L] exI [of _ rsp])
      (simp add: sse(1) L)
qed

section \<open>The journal\<close>

text \<open>
  C9. The client's journal survives a fault in the middle of an append. When a
  journal that was created, appended to and opened again any number of times is
  appended to once more and the file takes only some of the bytes, or the sync
  fails, opening it again finds either exactly the values acknowledged so far
  with the offset stored with them, or these and the whole new batch with its
  offset; and the latter when the append was acknowledged.
\<close>

theorem journal_append_survives_fault:
  assumes "record_codec J ok" "journal_run J ok i vs off j f" "list_all ok vals"
    "append_values J io now dir vals nxt pr j f = (j', f', res)"
  shows "\<exists>f2 j2. journal_open J no_open_faults i (Some f') = (Some f2, Inr j2) \<and>
    (journal_values j2, jj_resume_offset j2) \<in> {(vs, off), (vs @ vals, stored_offset vals nxt off)} \<and>
    (isl res \<or> (journal_values j2, jj_resume_offset j2) = (vs @ vals, stored_offset vals nxt off))"
proof -
  obtain ws where ws: "identity_validate i = Inr ()" "journal_rel J i ws j f" "map jr_payload (concat ws) = vs"
    "rs_resume_offset (state_of ws) = off" using run_invariant [OF assms(1,2)] by (auto simp: run_inv_def)
  have inv: "batches_ok 0 ws" "numbered ws" "list_all (record_fits J i) (concat ws)" "f = lines_of J (concat ws)" "jj_stream j = i"
    "jj_next_local_seq j = of_nat (length (concat ws))"
    using ws(2) by (auto simp: journal_rel_def)
  note same = open_torn [OF inv(1,2), of J i "[]" "[]", OF _ _ _ ws(1), simplified append_Nil2]
  show ?thesis
  proof (cases "vals = [] \<or> 2 ^ 32 \<le> length vals")
    case True
    then have "f' = f" "vals = [] \<or> isl res" using assms(4) by (auto simp: append_values_def split: if_splits)
    with same inv(3,4) ws show ?thesis by (auto simp: journal_values_def stored_offset_def simp del: lines_of_simps)
  next
    case False
    then have v: "vals \<noteq> []" "length vals < 2 ^ 32" by auto
    have rb: "\<forall>v\<in>set vals. \<forall>r. jr_payload r = v \<longrightarrow> reads_back J r"
      using assms(1,3) by (auto simp: list_all_iff record_codec_def)
    define w where "w = new_batch j now dir vals nxt pr"
    have fits: "list_all (record_fits J i) w" unfolding w_def by (rule new_batch_fits [OF rb inv(5)])
    have whole: "whole_batch (length (concat ws)) w" unfolding w_def by (rule new_batch_whole [OF v inv(6)])
    have num: "numbered (ws @ [w])" "ws \<noteq> [] \<Longrightarrow> jr_batch_seq (hd w) \<noteq> jr_batch_seq (hd (List.last ws))"
      unfolding w_def using new_batch_numbered [OF ws(2) v(1)] by blast+
    have off: "rs_resume_offset (state_of (ws @ [w])) = stored_offset vals nxt off"
      using snoc_offset [of w vals nxt ws] v(1) ws(4) by (simp add: w_def new_batch_hd journal_record_at_def)
    from append_outcomes [OF ws(2) v rb assms(4)] consider
      (torn) m t where "m < length w" "isl res" "f' = lines_of J (concat ws @ take m w) @ t" "CHR 0x0A \<notin> set t"
    | (whole) "f' = lines_of J (concat ws @ w)" by (auto simp: w_def)
    then show ?thesis
    proof cases
      case torn
      have "take m w = [] \<or> torn_batch (length (concat ws)) (take m w) \<and> (ws \<noteq> [] \<longrightarrow> jr_batch_seq (hd (take m w)) \<noteq> jr_batch_seq (hd (List.last ws)))"
        using torn_take [OF whole torn(1)] num(2) by (cases "m = 0") auto
      moreover have "list_all (record_fits J i) (concat ws @ take m w)"
        using inv(3) fits by (auto simp: list_all_iff dest: in_set_takeD)
      ultimately show ?thesis
        using open_torn [OF inv(1,2) _ torn(4) _ ws(1)] torn(2,3) ws(3,4) by (auto simp: journal_values_def simp del: lines_of_simps)
    next
      case whole
      have "batches_ok 0 (ws @ [w])" using inv(1) \<open>whole_batch (length (concat ws)) w\<close> by (simp add: batches_ok_snoc)
      with open_torn [OF this num(1), of J i "[]" "[]"] inv(3) fits ws(1,3) off whole show ?thesis
        by (auto simp: journal_values_def w_def simp del: lines_of_simps)
    qed
  qed
qed

text \<open>A serializer of records that numbers them, and a journal with an acknowledged value.\<close>

instance journal_direction :: countable
  by countable_datatype

definition record_code :: "journal_record \<Rightarrow> nat" where
  "record_code r = to_nat (jr_version r, (ji_path (jr_stream r), ji_content_type (jr_stream r)), jr_direction r, jr_local_seq r,
     jr_batch_seq r, jr_batch_index r, jr_batch_len r, jr_payload r, jr_next_offset r, jr_observed_at r, jr_persisted_at r,
     map_option (\<lambda>p. (pj_producer_id p, pj_epoch p, pj_next_seq p, pj_acked_server_offset p, pj_acked_local_seq p)) (jr_producer r))"

lemma record_code_inj: "inj record_code"
proof (rule injI)
  fix a b :: journal_record
  assume eq: "record_code a = record_code b"
  have "inj (map_option (\<lambda>p :: producer_journal_progress.
      (pj_producer_id p, pj_epoch p, pj_next_seq p, pj_acked_server_offset p, pj_acked_local_seq p)))"
    by (intro option.inj_map injI) (auto simp: producer_journal_progress.equality)
  moreover have "jr_stream a = jr_stream b" using eq by (simp add: record_code_def journal_stream_identity.equality)
  ultimately show "a = b" using eq by (simp add: record_code_def inj_eq)
qed

definition sample_journal_env :: journal_env where
  "sample_journal_env = \<lparr>record_to_vec = \<lambda>r. Inr (CHR ''{'' # unary (record_code r)),
     record_from_slice = \<lambda>bs. decode_by record_code UNIV (tl bs)\<rparr>"

lemma sample_record_codec: "record_codec sample_journal_env (\<lambda>_. True)"
proof -
  have "trim_ascii_whitespace (CHR ''{'' # unary k) = CHR ''{'' # unary k" for k
  proof -
    let ?l = "CHR ''{'' # unary k"
    have "\<not> is_ascii_whitespace c" if "c \<in> set ?l" for c using that by (auto simp: unary_def is_ascii_whitespace_def)
    moreover have "hd (rev ?l) \<in> set ?l" by (metis hd_in_set list.discI rev_is_Nil_conv set_rev)
    ultimately have "dropWhile is_ascii_whitespace (rev ?l) = rev ?l" "dropWhile is_ascii_whitespace ?l = ?l"
      by (auto simp: dropWhile_eq_self_iff simp del: rev.simps)
    then show ?thesis unfolding trim_ascii_whitespace_def by (simp only: rev_rev_ident)
  qed
  moreover have "CHR 0x0A \<notin> set (unary k)" for k by (simp add: unary_def)
  ultimately show ?thesis
    by (simp add: record_codec_def reads_back_def sample_journal_env_def decode_by_unary [OF record_code_inj])
qed

definition sample_identity :: journal_stream_identity where
  "sample_identity = \<lparr>ji_path = ''/orders'', ji_content_type = ''application/json''\<rparr>"

definition sample_journal :: json_journal where
  "sample_journal = \<lparr>jj_stream = sample_identity, jj_records = [], jj_resume_offset = None, jj_next_local_seq = 0, jj_next_batch_seq = 0\<rparr>"

lemma sample_journal_run: "journal_run sample_journal_env (\<lambda>_. True) sample_identity [] None sample_journal []"
proof (rule journal_run.created)
  have "\<not> isl (identity_validate sample_identity)" by code_simp
  then have "identity_validate sample_identity = Inr ()" by (cases "identity_validate sample_identity") auto
  then show "journal_open sample_journal_env no_open_faults sample_identity None = (Some [], Inr sample_journal)"
    by (simp add: journal_open_def no_open_faults_def replay_journal_def replay_state_default_def sample_journal_def)
qed

theorem journal_append_survives_fault_witness:
  "\<exists>f2 j2. journal_open sample_journal_env no_open_faults sample_identity
      (Some (fst (snd (append_values sample_journal_env \<lparr>wf_room = Some 7, wf_sync = True\<rparr> 0 Inbound [JNull, JBool True] (Some ''1'') None
        sample_journal [])))) = (Some f2, Inr j2) \<and>
    (journal_values j2, jj_resume_offset j2) \<in> {([], None), ([JNull, JBool True], Some ''1'')}"
proof -
  obtain j' f' res where a: "append_values sample_journal_env \<lparr>wf_room = Some 7, wf_sync = True\<rparr> 0 Inbound [JNull, JBool True] (Some ''1'') None
        sample_journal [] = (j', f', res)" by (metis prod_cases3)
  have v: "list_all (\<lambda>_. True) [JNull, JBool True]" by simp
  from journal_append_survives_fault [OF sample_record_codec sample_journal_run v a] a show ?thesis
    by (auto simp: stored_offset_def)
qed

text \<open>Any file: what is committed is a sequence of whole batches at the start of its records.\<close>

theorem replay_commits_whole_batches:
  assumes "journal_open J io i (Some f) = (f', Inr j)"
  shows "\<exists>ws rest. replay_lines J i (split_on (CHR 0x0A) (complete_lines f)) = Inr (concat ws @ rest) \<and> batches_ok 0 ws \<and>
    jj_records j = concat ws \<and> jj_resume_offset j = rs_resume_offset (state_of ws) \<and>
    jj_next_local_seq j = of_nat (length (concat ws))"
proof -
  obtain rs where rs: "replay_lines J i (split_on (CHR 0x0A) (complete_lines f)) = Inr rs"
    "j = \<lparr>jj_stream = i, jj_records = rs_records (commit_valid_prefix rs), jj_resume_offset = rs_resume_offset (commit_valid_prefix rs),
      jj_next_local_seq = rs_next_local_seq (commit_valid_prefix rs), jj_next_batch_seq = rs_next_batch_seq (commit_valid_prefix rs)\<rparr>"
    using assms by (auto simp: journal_open_def replay_journal_def Let_def map_sum_Inr_iff split: sum.splits option.splits)
  obtain ws rest where "rs = concat ws @ rest" "batches_ok 0 ws" "commit_valid_prefix rs = state_of ws"
    using commits_whole_batches by blast
  with rs show ?thesis by auto
qed

text \<open>
  Opening a file whose last batch is torn between two lines keeps the lines of
  the torn batch. The next append is acknowledged and writes behind them, with
  numbers that do not continue theirs; replay stops at the torn batch, and the
  acknowledged values are gone when the journal is opened again.
\<close>

definition torn_file :: "journal_env \<Rightarrow> journal_stream_identity \<Rightarrow> bytes" where
  "torn_file J i = lines_of J [journal_record_at (sample_journal\<lparr>jj_stream := i\<rparr>) 0 Inbound 2 None None 0 JNull]"

theorem torn_batch_hides_later_appends:
  assumes J: "record_codec J (\<lambda>_. True)" and i: "identity_validate i = Inr ()"
  shows "\<exists>j2 j3 f3 rs f4 j4.
    fst (snd (append_values J \<lparr>wf_room = Some (length (torn_file J i)), wf_sync = True\<rparr> 0 Inbound [JNull, JBool True] None None
      (sample_journal\<lparr>jj_stream := i\<rparr>) [])) = torn_file J i \<and>
    journal_open J no_open_faults i (Some (torn_file J i)) = (Some (torn_file J i), Inr j2) \<and>
    append_values J \<lparr>wf_room = None, wf_sync = True\<rparr> 0 Inbound [JBool False] None None j2 (torn_file J i) = (j3, f3, Inr rs) \<and>
    journal_values j3 = [JBool False] \<and>
    journal_open J no_open_faults i (Some f3) = (Some f4, Inr j4) \<and> journal_values j4 = []"
proof -
  let ?j = "sample_journal\<lparr>jj_stream := i\<rparr>"
  let ?r = "journal_record_at ?j 0 Inbound 2 None None 0 JNull" and ?c = "journal_record_at ?j 0 Inbound 1 None None 0 (JBool False)"
  let ?b = "journal_record_at ?j 0 Inbound 2 None None 1 (JBool True)"
  have rb: "reads_back J r" for r using J by (simp add: record_codec_def)
  have fits: "record_fits J i ?r" "record_fits J i ?c" using rb by (simp_all add: record_fits_def journal_record_at_def)
  have j: "?j = \<lparr>jj_stream = i, jj_records = [], jj_resume_offset = None, jj_next_local_seq = 0, jj_next_batch_seq = 0\<rparr>"
    by (simp add: sample_journal_def)
  have "torn_batch 0 [?r]" by (simp add: torn_batch_def segment_one journal_record_at_def sample_journal_def)
  with open_torn [of "[]" J i "[?r]" "[]"] fits i
  have o2: "journal_open J no_open_faults i (Some (torn_file J i)) = (Some (torn_file J i), Inr ?j)"
    by (simp add: torn_file_def numbered_def replay_state_default_def j)
  have w1: "write_journal_records J (Some (length (torn_file J i))) [?r, ?b] [] = (torn_file J i, Inl (CIo ''write failed''))"
    using write_journal_lines [of J "[?r, ?b]" "Some (length (torn_file J i))" "[]"] rb by (simp add: torn_file_def)
  have w2: "write_journal_records J None [?c] (torn_file J i) = (lines_of J [?r, ?c], Inr ())"
    using write_journal_lines [of J "[?c]" None "torn_file J i"] rb by (simp add: torn_file_def)
  have "commit_valid_prefix [?r, ?c] = replay_state_default"
    by (simp add: commit_valid_prefix_def commit_round_def no_batch_def replay_state_default_def journal_record_at_def sample_journal_def
        batch_starts_def batch_whole_def)
  with replay_journal_lines [of J i "[?r, ?c]" "[]"] fits i
  have o4: "journal_open J no_open_faults i (Some (lines_of J [?r, ?c])) = (Some (lines_of J [?r, ?c]), Inr ?j)"
    by (simp add: journal_open_def no_open_faults_def replay_state_default_def j)
  have a1: "fst (snd (append_values J \<lparr>wf_room = Some (length (torn_file J i)), wf_sync = True\<rparr> 0 Inbound [JNull, JBool True] None None ?j [])) =
    torn_file J i"
    using w1 by (simp add: append_values_def Let_def)
  have "\<exists>j3. append_values J \<lparr>wf_room = None, wf_sync = True\<rparr> 0 Inbound [JBool False] None None ?j (torn_file J i) =
      (j3, lines_of J [?r, ?c], Inr [?c]) \<and> journal_values j3 = [JBool False]"
    using w2 by (simp add: append_values_def Let_def journal_values_def) (simp add: journal_record_at_def sample_journal_def)
  moreover have "journal_values ?j = []" by (simp add: journal_values_def sample_journal_def)
  ultimately show ?thesis using a1 o2 o4 by blast
qed

section \<open>Producers over a lossy network\<close>

text \<open>
  C7. Appends of the client's idempotent producer are stored exactly once. When
  a producer sends bodies one after the other, each retried as often as its
  policy allows, and the network loses any of the requests and any of the
  answers, every call returns, and the stream holds, after what it held
  before, exactly the messages of the acknowledged bodies, each once and in
  order; and, when the last body was not acknowledged, these or these and the
  messages of that body once. The server must not know the producer's next
  number yet, and all requests must fall within the seven days for which it
  remembers producers.
\<close>

theorem producer_appends_are_stored_once:
  assumes s: "reachable s" "log_of s (ps_name V) L" "get_stream s (ps_name V) = Some e"
      "unsent (prod_epoch (headers_of P st)) (prod_seq (headers_of P st)) (se_producers e (ip_producer_id (id_config P)))"
    and c: "connected P N V f bs" "local_ok st (length bs)"
    and fits: "unat (se_next_read_seq e) + length (concat (map f bs)) < 2 ^ 64" "list_all (\<lambda>b. payload_fits (f b)) bs"
  shows "\<exists>s' k' acked failed M. producer_run P N bs st (s, k) = Some ((s', k'), acked, failed) \<and> log_of s' (ps_name V) (L @ M) \<and>
    (failed = None \<and> acked = bs \<and> map msg_data M = concat (map f acked) \<or>
     (\<exists>b rest. failed = Some b \<and> bs = acked @ b # rest \<and> map msg_data M \<in> {concat (map f acked), concat (map f (acked @ [b]))}))"
proof -
  have "awaits P st (ps_name V) L (se_next_read_seq e) (fst (s, k))"
    using s reachable_mem_inv [OF s(1)] by (auto simp: awaits_def)
  from producer_run_once [OF c(1) subset_refl c(2) this fits(1)] fits(2) show ?thesis
    by (fastforce simp: list_all_iff)
qed

definition sample_client :: client where
  "sample_client = \<lparr>cl_env = sample_env, cl_base_url = ''http://localhost/'', cl_query = [], cl_headers = [(''x-tenant'', ''t'')], cl_auth = AuthBearer ''k'',
     cl_max_retries = 3, cl_url_join = (\<lambda>a b. Inr (a @ b)), cl_phrase = (\<lambda>_. None), cl_decode64 = Inr\<rparr>"

definition sample_idempotent :: idempotent_producer where
  "sample_idempotent = \<lparr>id_client = sample_client, id_path = ''/a'', id_content_type = ''text/plain'', id_options = \<lparr>ro_headers = [], ro_query = []\<rparr>,
     id_config = \<lparr>ip_producer_id = ''w'', ip_epoch = 0, ip_auto_claim = False, ip_max_batch_bytes = 100, ip_max_batch_items = None\<rparr>\<rparr>"

definition sample_local :: producer_local where
  "sample_local = \<lparr>pl_epoch = 0, pl_next_seq = 0, pl_closed = False, pl_acked_server_offset = None\<rparr>"

definition sample_server :: "(nat \<Rightarrow> link) \<Rightarrow> post_server" where
  "sample_server ls = \<lparr>ps_env_at = (\<lambda>_. sample_env), ps_link = ls, ps_limit = 100, ps_name = ''a'', ps_uri = ''/a''\<rparr>"

definition sample_network :: "(nat \<Rightarrow> link) \<Rightarrow> (mem \<times> nat) network" where
  "sample_network ls = \<lparr>nw_send = post_send (sample_server ls), nw_send_within = (\<lambda>_ rq w. map_prod id Some (post_send (sample_server ls) rq w)),
     nw_stream = (\<lambda>_ w. (w, Inl \<lparr>te_timeout = False, te_connect = False\<rparr>)),
     nw_stream_within = (\<lambda>_ _ w. (w, Some (Inl \<lparr>te_timeout = False, te_connect = False\<rparr>)))\<rparr>"

text \<open>The answer to the first request is lost, and the third request.\<close>

definition sample_links :: "nat \<Rightarrow> link" where
  "sample_links k = (if k = 0 then ReplyLost \<lparr>te_timeout = True, te_connect = False\<rparr>
     else if k = 2 then Lost \<lparr>te_timeout = False, te_connect = True\<rparr> else Delivered)"

lemma sample_connected: "connected sample_idempotent (sample_network ls) (sample_server ls) (\<lambda>b. [b]) [''y'', ''z'']"
proof -
  have "plain_headers (base_headers sample_idempotent)" by code_simp
  moreover have "normalize_content_type ''text/plain'' = ''text/plain''" by code_simp
  ultimately show ?thesis
    by (simp add: connected_def sample_network_def sample_server_def sample_idempotent_def within_memory_def sample_env_def
        PRODUCER_STATE_TTL_SECS_def extract_messages_def is_json_content_type_def)
qed

theorem producer_appends_are_stored_once_witness:
  "\<exists>s' k' acked failed L M. producer_run sample_idempotent (sample_network sample_links) [''y'', ''z''] sample_local (sample_one, 0) =
      Some ((s', k'), acked, failed) \<and> log_of sample_one ''a'' L \<and> log_of s' ''a'' (L @ M) \<and>
    map msg_data M \<in> {[], [''y''], [''y'', ''z'']}"
proof -
  obtain L where L: "log_of sample_one ''a'' L" using sample_one_log by blast
  have "map_option (\<lambda>e. (se_producers e ''w'' = None, se_next_read_seq e)) (get_stream sample_one ''a'') = Some (True, 2)" by code_simp
  then obtain e where e: "get_stream sample_one ''a'' = Some e" "se_producers e ''w'' = None" "se_next_read_seq e = 2" by auto
  let ?V = "sample_server sample_links"
  have n: "ps_name ?V = ''a''" by (simp add: sample_server_def)
  have u: "unsent a b (se_producers e (ip_producer_id (id_config sample_idempotent)))" for a b
    using e(2) by (simp add: unsent_def sample_idempotent_def)
  have l: "local_ok sample_local (length [''y'', ''z''])" by (simp add: local_ok_def sample_local_def)
  have f: "unat (se_next_read_seq e) + length (concat (map (\<lambda>b. [b]) [''y'', ''z''])) < 2 ^ 64"
    "list_all (\<lambda>b. payload_fits [b]) [''y'', ''z'']" using e(3) by (simp_all add: payload_fits_def)
  obtain s' k' acked failed M where r: "producer_run sample_idempotent (sample_network sample_links) [''y'', ''z''] sample_local (sample_one, 0) =
      Some ((s', k'), acked, failed)" "log_of s' ''a'' (L @ M)"
    "failed = None \<and> acked = [''y'', ''z''] \<and> map msg_data M = concat (map (\<lambda>b. [b]) acked) \<or>
     (\<exists>b rest. failed = Some b \<and> [''y'', ''z''] = acked @ b # rest \<and> map msg_data M \<in> {concat (map (\<lambda>b. [b]) acked), concat (map (\<lambda>b. [b]) (acked @ [b]))})"
    using producer_appends_are_stored_once
      [where s = sample_one and V = ?V and k = 0 and st = sample_local, unfolded n, OF sample_one_reachable L e(1) u sample_connected l f]
    by (elim exE conjE) (rule that; assumption)
  from r(3) have "map msg_data M \<in> {[], [''y''], [''y'', ''z'']}" by (auto simp: Cons_eq_append_conv)
  with r(1,2) L show ?thesis by (intro exI conjI)
qed

text \<open>
  An append that fails although the server stored it leaves the producer at
  the same number. The next append, with other data, goes out under it; it
  returns, and nothing of it is stored, also when it is acknowledged.
\<close>

theorem append_after_lost_answer_stores_nothing:
  assumes "connected P N V f bs" "b \<in> set bs" "local_ok st 1" "recorded (ps_env_at V) (ps_name V) (headers_of P st) L r msgs s"
  shows "\<exists>s' k' M st' res. producer_append P N b st (s, k) = Some ((s', k'), st', res) \<and>
    log_of s' (ps_name V) (L @ M) \<and> map msg_data M = msgs"
  using producer_append_settled [OF assms(1-3), of L r msgs "(s, k)"] assms(4) by (fastforce simp: settled_def recorded_def)

end
