(* ===== verification/Spec2Isabelle.thy ===== *)
theory Spec2Isabelle
  imports DS_Prop_Http DS_Prop_Sub DS_Prop_File DS_Prop_Client
begin

text \<open>
  A verification library for \<open>durable-streams-rust\<close>, a server of append-only
  streams over HTTP, its in-memory and file backends, its subscription service, and
  the client that talks to it.

  \<^bold>\<open>The program.\<close> A client creates a stream with PUT, appends with POST (plain, or
  as an idempotent producer with an epoch and a sequence number), reads with GET
  (catch-up, long poll or Server-Sent Events) from an offset it was given, and
  removes it with DELETE. A stream can be forked from another at an offset; the
  fork reads its source's messages up to there and its own from there on.
  Streams expire; a deleted stream that forks still need stays as a tombstone.
  The handlers (\<open>handlers/\<close>) parse headers and offsets (\<open>protocol/\<close>), hand a
  closure to the execution boundary (\<open>execution.rs\<close>) and run it over a backend
  that implements the trait \<open>Storage\<close> (\<open>storage/mod.rs\<close>). The subscription service
  (\<open>subscriptions/\<close>) watches the tails of streams and wakes subscribers, by webhooks
  or by a wake stream, under generations, leases and signed tokens. The client
  crate sends the requests, retries them, collects event streams, numbers the
  appends of a producer and keeps a local journal.

  \<^bold>\<open>The theories and the code.\<close> Paths are relative to
  \<open>src/crates/durable-streams-server/src/\<close>.
  \<^item> \<open>DS_Prelude\<close>: Rust integers and their checked, saturating and wrapping
    arithmetic, \<open>str\<close> operations, \<open>partition_point\<close>; the locales \<open>text_codec\<close> and
    \<open>canonical_codec\<close> of printed values. \<open>DS_Offset\<close>: \<open>protocol/offset.rs\<close>.
    \<open>DS_Error\<close>: \<open>protocol/error.rs\<close>. \<open>DS_Protocol\<close>: \<open>protocol/{headers, producer,
    json_mode, stream_name, cursor}.rs\<close>.
  \<^item> \<open>DS_Storage\<close>: \<open>storage/{mod, shared}.rs\<close>, the data and the checks all backends
    share. \<open>DS_Fork\<close>: \<open>storage/fork.rs\<close>. \<open>DS_Memory\<close>: \<open>storage/memory.rs\<close>, the whole
    in-memory backend, one definition per operation.
  \<^item> \<open>DS_Entry\<close>, \<open>DS_Lineage\<close>, \<open>DS_Mem_Inv\<close>, \<open>DS_Mem_Ops\<close>, \<open>DS_Mem_Create\<close>, \<open>DS_Mem_Fork\<close>: the
    invariant of the backend and its preservation. \<open>DS_Log\<close>: the abstract log of a
    stream and the refinement of reading. \<open>DS_Step\<close>: sequences of operations and
    reachable states. \<open>DS_Frame\<close>: what an operation leaves alone. \<open>DS_Store\<close>: the
    locale \<open>log_store\<close>, the contract of a store towards its readers, and its
    interpretation on the backend. \<open>DS_Session\<close>, \<open>DS_Life\<close>, \<open>DS_Sweep\<close>: reading
    sessions, the life of a stream, tombstones and the expiry sweep.
  \<^item> \<open>DS_Http\<close>, \<open>DS_Handlers\<close>, \<open>DS_Sse\<close>, \<open>DS_Get\<close>: \<open>protocol/{problem, sse}.rs\<close>,
    \<open>handlers/{common, put, post, head, delete, list, get}.rs\<close>, \<open>streams.rs\<close>; the awaits
    of GET cut it into definitions that arbitrary other operations may separate.
  \<^item> \<open>DS_Sub_Model\<close>, \<open>DS_Sub_Api\<close>, \<open>DS_Sub_Run\<close>: \<open>subscriptions/{mod, model, crypto, api,
    worker, delivery}.rs\<close>. \<open>DS_Sub_Glob\<close>: path patterns. \<open>DS_Sub_Life\<close>,
    \<open>DS_Sub_Service\<close>: how a subscription evolves, and the service as a transition
    system (locale \<open>history\<close>). \<open>DS_Sub_Deliver\<close>: the delivery loop.
  \<^item> \<open>DS_File_Io\<close>: the filesystem, as calls that a schedule of faults may let fail or
    make the last of the process. \<open>DS_File\<close>: \<open>storage/file.rs\<close> and \<open>storage/file/{filesys,
    writes, transaction}.rs\<close>, directories, metadata, records and the undo journal.
    \<open>DS_File_Ops\<close>: \<open>storage/file/{reads, writes, recovery, storage_impl}.rs\<close>, reading,
    removal, start-up and every operation of the trait. \<open>DS_File_Logic\<close>: a program
    logic with a postcondition for results, for errors and for crashes.
    \<open>DS_File_Txn\<close>, \<open>DS_File_Log\<close>, \<open>DS_File_Append\<close>, \<open>DS_File_Load\<close>, \<open>DS_File_Store\<close>,
    \<open>DS_File_Read\<close>, \<open>DS_File_Frame\<close> (the locale \<open>frame\<close>), \<open>DS_File_Refine\<close>, \<open>DS_File_Restart\<close>: journal and recovery, the
    log, appends, loading, one stream, reads, the other directories, the
    refinement of the in-memory backend, restarts.
  \<^item> \<open>DS_Cl_Sse\<close>, \<open>DS_Cl_Http\<close>, \<open>DS_Cl_Read\<close>, \<open>DS_Cl_Producer\<close>, \<open>DS_Cl_Journal\<close>: \<open>error.rs\<close>,
    \<open>protocol.rs\<close>, \<open>client/raw_ops.rs\<close>, \<open>retry.rs\<close>, \<open>auth.rs\<close>, \<open>idempotent.rs\<close>, \<open>journal.rs\<close> and
    \<open>replica.rs\<close> of \<open>durable-streams-client\<close>, over a network that is a parameter.
    \<open>DS_Cl_Frames\<close>, \<open>DS_Cl_Collect\<close>: the frames of the server in the client's parser.
    \<open>DS_Cl_Replay\<close>, \<open>DS_Cl_Journaled\<close>: whole batches, torn files, runs of a journal.
    \<open>DS_Cl_Once\<close>: a producer over a network that loses requests and answers.
  \<^item> \<open>DS_Sample\<close>, \<open>DS_Sub_Sample\<close>, \<open>DS_File_Sample\<close>: concrete states, reached by the program's own
    operations, at which the properties are instantiated.

  \<^bold>\<open>What is shown.\<close> \<open>DS_Prop_Storage\<close> and this theory: reading and forking refine
  the abstract log, a resuming reader sees every message once and in order, calls
  return and keep the invariant, operations on different streams do not
  interfere, appends and creates do what they answer, producers are idempotent,
  ordered and fenced. \<open>DS_Prop_Life\<close>: closing is permanent, no notification is lost,
  the byte counter is exact and bounded, deletes and sweeps are complete, the
  listing is exact. \<open>DS_Prop_Protocol\<close>: codecs are canonical, names safe, cursors
  increasing, event frames unforgeable. \<open>DS_Prop_Http\<close>: POST is all or nothing, a
  repeated PUT changes nothing, GET returns the log, entity tags are sound, a long
  poll is woken, the offsets of SSE controls resume. \<open>DS_Prop_Sub\<close>: patterns mean
  what they say, a restart restores the database, subscriptions only move forward,
  old tokens are fenced, pending work is woken, deliveries are bounded, tokens verify.
  \<open>DS_Prop_File\<close>: appends and reads of the file backend refine the in-memory ones;
  after a crash at any call of an append a restart finds the stream before or
  after it, and after it when it was acknowledged; recovery may be interrupted and
  repeated; any bytes are indexed as the whole records they begin with.
  \<open>DS_Prop_Client\<close>: an event stream of the server is collected as the log, however
  the network cuts it; the client's journal survives faults in an append; what a
  producer was told is appended is stored exactly once and in order, over a network
  that loses requests and answers.

  \<^bold>\<open>Choices.\<close> Strings and bodies are byte lists. Machine integers keep their width.
  The clock, the date arithmetic, \<open>serde_json\<close>, \<open>base64\<close> and the header validator are
  fields of the record \<open>env\<close>, the signature scheme and the derived serializers fields of
  \<open>crypto_env\<close>, resolver and URL parser fields of \<open>net_env\<close>, the serializers of metadata
  and undo journal fields of \<open>file_env\<close> (\<open>meta_codec\<close>, \<open>journal_codec\<close>: they read back what
  they wrote); every reading of the clock
  within a call is numbered, so that nothing is assumed of their distance. A call
  under a lock is one step. A lineage walk that does not end is the value \<open>None\<close>; no
  reachable state has one. The side conditions of \<open>op_ok\<close> say that a batch fits the
  address space (\<open>batch_fits\<close>), that message counters and reference counts stay below
  their word size, and that a stream forked from itself does not expire during the
  call (\<open>fork_guard\<close>).

  What a call of the filesystem has changed stays changed when the process dies, a
  write may leave a prefix, \<open>sync\<close> changes nothing; the loss of unsynced pages at a
  power failure is not modelled. A failing call does not report \<open>NotFound\<close> unless
  the file is missing (\<open>honest\<close>). The scan of a log has one round per byte as its
  bound; \<open>any_log_is_indexed\<close> shows that this is enough.

  \<^bold>\<open>Not modelled.\<close> The ACID backend (calls of the \<open>redb\<close> database) and the transfer of
  stores; interleavings of file operations on different streams within a call;
  the scheduling of the execution boundary (its outcome is a parameter of each
  handler); router, telemetry, configuration, TLS and process start-up (wiring of
  third-party code); the client's configuration, builders, delays between retries and
  command-line programs.
\<close>

section \<open>Reading\<close>

text \<open>
  C1. A client that reads a stream from the start and then always resumes at
  the next-offset of its last read receives, over all its reads together,
  exactly the messages of the stream's log, each once and in order, whatever
  appends, forks, deletes, sweeps and reads of any streams the server runs in
  between, as long as the stream itself is not recreated.
\<close>

theorem resumed_reads_deliver_log_once:
  assumes "session n s cur ds" "mem_read E s n cur = Some (s', Inr r)" "log_of s' n L"
  shows "ds @ rr_messages r = map msg_data L"
  using assms by (rule session_read_whole)

lemma sample_one_session: "session ''a'' sample_one Start []"
  using sample_one_reachable sample_one_present by (auto intro: session.start)

theorem resumed_reads_deliver_log_once_witness:
  "\<exists>s' r L. mem_read sample_env sample_one ''a'' Start = Some (s', Inr r) \<and> log_of s' ''a'' L \<and>
    [] @ rr_messages r = map msg_data L \<and> rr_messages r = [''hello'', ''x'']"
proof -
  obtain s' r where r: "mem_read sample_env sample_one ''a'' Start = Some (s', Inr r)"
      "rr_messages r = [''hello'', ''x'']"
    using sample_one_read by auto
  have "session ''a'' s' (rr_next_offset r) ([] @ rr_messages r)"
    using sample_one_session r(1) by (rule session.read)
  then have "mem_store.synced s' ''a'' (rr_next_offset r) ([] @ rr_messages r)"
    using session_synced by blast
  then obtain L where "log_of s' ''a'' L" by (auto simp: mem_store.synced_def)
  with resumed_reads_deliver_log_once [OF sample_one_session r(1) this] r show ?thesis by blast
qed

end
